(* ===== verification/Prelude.thy ===== *)
theory Prelude
  imports Complex_Main "HOL-Library.Word" "HOL-Library.AList" "HOL-Library.Monad_Syntax"
begin

text \<open>
  Shared vocabulary of the development: the machine types of the Rust code, the two standard
  containers the engine is built on (\<^verbatim>\<open>BTreeMap\<close> as a strictly sorted association list,
  \<^verbatim>\<open>HashMap\<close> as an association list with distinct keys, both iterated in list order), and the
  generic lemmas that the component theories use by name or through the collections
  \<open>btree\<close> and \<open>hashmap\<close>.

  Conventions used everywhere:
  \<^item> a function that can panic returns an \<open>option\<close>, with \<open>None\<close> for the panic;
  \<^item> \<^verbatim>\<open>Result<T, E>\<close> is the sum \<open>'e + 'a\<close>, with \<open>Inl\<close> for the error;
  \<^item> a method on \<^verbatim>\<open>&mut self\<close> takes the state and returns the new one.
\<close>

section \<open>Machine types\<close>

type_synonym u64 = "64 word"
type_synonym u32 = "32 word"
type_synonym i64 = "64 word"
type_synonym i32 = "32 word"
type_synonym i16 = "16 word"
type_synonym uuid = "128 word"
type_synonym decimal = rat
type_synonym timestamp = rat

named_theorems btree "facts about sorted association lists"
named_theorems hashmap "facts about association lists with distinct keys"

section \<open>Words used as counters\<close>

lemma word_le_imp_less_succ:
  fixes x s :: "'a::len word"
  assumes "x \<le> s" and "s \<noteq> - 1"
  shows "x < s + 1"
proof -
  have "unat s < unat (- 1 :: 'a word)"
    using assms(2) by (simp add: word_order.not_eq_extremum flip: word_less_nat_alt)
  moreover have "unat (- 1 :: 'a word) < 2 ^ LENGTH('a)" by (rule unsigned_less)
  ultimately have "Suc (unat s) < 2 ^ LENGTH('a)" by linarith
  then have "unat (s + 1) = Suc (unat s)" by (simp add: unat_word_ariths)
  with assms(1) show ?thesis by (simp add: word_less_nat_alt word_le_nat_alt)
qed
section \<open>Lists\<close>

lemma find_append: "find P (xs @ ys) = (case find P xs of None \<Rightarrow> find P ys | Some x \<Rightarrow> Some x)"
  by (induction xs) simp_all

section \<open>BTreeMap\<close>

text \<open>
  \<^verbatim>\<open>insert\<close>, \<^verbatim>\<open>remove\<close> and \<^verbatim>\<open>get\<close> on a map kept in ascending key order; iteration
  (\<^verbatim>\<open>values\<close>, \<^verbatim>\<open>keys\<close>) is the list order.
\<close>

fun bt_insert :: "'k::linorder \<Rightarrow> 'v \<Rightarrow> ('k \<times> 'v) list \<Rightarrow> ('k \<times> 'v) list" where
  "bt_insert k v [] = [(k, v)]"
| "bt_insert k v ((k', v') # kvs) =
     (if k < k' then (k, v) # (k', v') # kvs
      else if k = k' then (k, v) # kvs
      else (k', v') # bt_insert k v kvs)"

definition bt_remove :: "'k \<Rightarrow> ('k \<times> 'v) list \<Rightarrow> ('k \<times> 'v) list" where
  "bt_remove k kvs = filter (\<lambda>(k', _). k' \<noteq> k) kvs"

definition bt_get :: "('k \<times> 'v) list \<Rightarrow> 'k \<Rightarrow> 'v option" where
  "bt_get kvs k = map_of kvs k"

definition bt_inv :: "('k::linorder \<times> 'v) list \<Rightarrow> bool" where
  "bt_inv kvs = sorted_wrt (<) (map fst kvs)"

lemma bt_inv_Nil [btree]: "bt_inv []" by (simp add: bt_inv_def)

lemma bt_inv_distinct: "bt_inv kvs \<Longrightarrow> distinct (map fst kvs)"
  by (simp add: bt_inv_def strict_sorted_iff)

lemma set_bt_insert [btree]:
  "bt_inv kvs \<Longrightarrow> set (bt_insert k v kvs) = {(k, v)} \<union> {kv \<in> set kvs. fst kv \<noteq> k}"
  by (induction k v kvs rule: bt_insert.induct) (auto simp: bt_inv_def)

lemma bt_inv_insert [btree]: "bt_inv kvs \<Longrightarrow> bt_inv (bt_insert k v kvs)"
proof (induction k v kvs rule: bt_insert.induct)
  case (2 k v k' v' kvs)
  then have "bt_inv kvs" by (simp add: bt_inv_def)
  with 2 show ?case
    by (auto simp: bt_inv_def set_bt_insert [OF \<open>bt_inv kvs\<close>])
qed (simp add: bt_inv_def)

lemma bt_inv_remove [btree]: "bt_inv kvs \<Longrightarrow> bt_inv (bt_remove k kvs)"
  by (induction kvs) (auto simp: bt_inv_def bt_remove_def)

lemma set_bt_remove [btree]: "set (bt_remove k kvs) = {kv \<in> set kvs. fst kv \<noteq> k}"
  by (auto simp: bt_remove_def)

lemma bt_get_iff: "bt_inv kvs \<Longrightarrow> bt_get kvs k = Some v \<longleftrightarrow> (k, v) \<in> set kvs"
  by (simp add: bt_get_def bt_inv_distinct)

lemma bt_get_None: "bt_get kvs k = None \<longleftrightarrow> k \<notin> fst ` set kvs"
  by (simp add: bt_get_def map_of_eq_None_iff)

lemma bt_get_insert [btree]:
  "bt_inv kvs \<Longrightarrow> bt_get (bt_insert k v kvs) = (bt_get kvs)(k \<mapsto> v)"
proof
  fix k' assume inv: "bt_inv kvs"
  show "bt_get (bt_insert k v kvs) k' = ((bt_get kvs)(k \<mapsto> v)) k'"
    using inv by (induction k v kvs rule: bt_insert.induct) (auto simp: bt_get_def bt_inv_def)
qed

lemma bt_get_remove [btree]: "bt_get (bt_remove k kvs) = (bt_get kvs)(k := None)"
  by (rule ext) (induction kvs, auto simp: bt_get_def bt_remove_def)

lemma length_bt_insert [btree]:
  "bt_inv kvs \<Longrightarrow> length (bt_insert k v kvs) = (if k \<in> fst ` set kvs then length kvs else Suc (length kvs))"
  by (induction k v kvs rule: bt_insert.induct) (force simp: bt_inv_def)+


lemma sum_bt_insert:
  fixes f :: "'v \<Rightarrow> 'n::comm_monoid_add"
  shows "bt_inv kvs \<Longrightarrow> k \<notin> fst ` set kvs \<Longrightarrow>
    sum_list (map (\<lambda>(_, x). f x) (bt_insert k v kvs)) = f v + sum_list (map (\<lambda>(_, x). f x) kvs)"
  by (induction k v kvs rule: bt_insert.induct) (auto simp: bt_inv_def ac_simps)

lemma sum_bt_remove:
  fixes f :: "'v \<Rightarrow> 'n::ab_group_add"
  shows "distinct (map fst kvs) \<Longrightarrow> (k, v) \<in> set kvs \<Longrightarrow>
    sum_list (map (\<lambda>(_, x). f x) (bt_remove k kvs)) = sum_list (map (\<lambda>(_, x). f x) kvs) - f v"
proof (induction kvs)
  case (Cons kv kvs)
  obtain k' v' where kv: "kv = (k', v')" by (cases kv)
  show ?case
  proof (cases "k' = k")
    case True
    with Cons.prems kv have "k \<notin> fst ` set kvs" by auto
    then have "bt_remove k kvs = kvs"
      by (force simp: bt_remove_def filter_id_conv)
    with True kv Cons.prems \<open>k \<notin> fst ` set kvs\<close> show ?thesis
      by (auto simp: bt_remove_def image_iff)
  next
    case False
    with Cons kv show ?thesis by (auto simp: bt_remove_def algebra_simps)
  qed
qed simp
section \<open>HashMap\<close>

text \<open>
  \<^verbatim>\<open>insert\<close> is \<^const>\<open>AList.update\<close>, \<^verbatim>\<open>get\<close> is \<^const>\<open>map_of\<close>. The iteration order of
  a hash map is unspecified; the list order stands for it.
\<close>

lemma set_alist_update [hashmap]:
  "distinct (map fst al) \<Longrightarrow> set (AList.update k v al) = {(k, v)} \<union> {kv \<in> set al. fst kv \<noteq> k}"
  by (induction al) (force simp: image_iff)+

lemma sum_alist_update [hashmap]:
  fixes f :: "'k \<Rightarrow> 'v \<Rightarrow> 'n::ab_group_add"
  assumes "distinct (map fst al)"
  shows "sum_list (map (\<lambda>(k, x). f k x) (AList.update k v al)) =
    sum_list (map (\<lambda>(k, x). f k x) al) + f k v - (case map_of al k of None \<Rightarrow> 0 | Some x \<Rightarrow> f k x)"
  using assms
  by (induction al) (auto simp: algebra_simps dest: map_of_SomeD split: option.splits)
end
