(* ===== verification/Types.thy ===== *)
theory Types
  imports Prelude
begin

text \<open>
  The data types of the program: the enums of \<^verbatim>\<open>src/types/mod.rs\<close>, the configuration structs of
  \<^verbatim>\<open>src/config.rs\<close>, orders and trades of \<^verbatim>\<open>src/matchengine/market\<close>, the balance keys of
  \<^verbatim>\<open>src/matchengine/asset\<close> and the database rows of \<^verbatim>\<open>src/storage/models.rs\<close>.
  A struct is a record whose fields carry a short prefix (several structs share field names),
  an enum is a datatype with the source's constructors. A \<^verbatim>\<open>Decimal\<close> is the rational number
  it denotes; an \<^verbatim>\<open>f64\<close> time stamp and a database time stamp are rationals (seconds).
\<close>

section \<open>Enums\<close>

datatype MarketRole = MAKER | TAKER

datatype OrderSide = ASK | BID

datatype OrderType = LIMIT | MARKET

datatype OrderEventType = PUT | UPDATE | FINISH | EXPIRED

datatype BalanceType = AVAILABLE | FREEZE

datatype BusinessType = Deposit | Trade | Transfer | Withdraw

text \<open>The discriminants that \<^verbatim>\<open>as i16\<close> and \<^verbatim>\<open>TryFromPrimitive\<close> use.\<close>

fun market_role_i16 :: "MarketRole \<Rightarrow> i16" where
  "market_role_i16 MAKER = 1"
| "market_role_i16 TAKER = 2"

fun order_side_i16 :: "OrderSide \<Rightarrow> i16" where
  "order_side_i16 ASK = 0"
| "order_side_i16 BID = 1"

fun balance_type_i16 :: "BalanceType \<Rightarrow> i16" where
  "balance_type_i16 AVAILABLE = 1"
| "balance_type_i16 FREEZE = 2"

definition balance_type_try_from :: "i16 \<Rightarrow> BalanceType option" where
  "balance_type_try_from t = (if t = 1 then Some AVAILABLE else if t = 2 then Some FREEZE else None)"

lemma balance_type_try_from_i16 [simp]: "balance_type_try_from (balance_type_i16 t) = Some t"
  by (cases t) (simp_all add: balance_type_try_from_def)

section \<open>Configuration\<close>

record asset_cfg =
  ac_id :: string
  ac_symbol :: string
  ac_name :: string
  ac_prec_save :: u32
  ac_prec_show :: u32

record market_cfg =
  mc_name :: string
  mc_base :: string
  mc_quote :: string
  mc_amount_prec :: u32
  mc_price_prec :: u32
  mc_fee_prec :: u32
  mc_min_amount :: decimal

datatype PersistPolicy = Dummy | Both | ToDB | ToMessage

definition parse_persist_policy :: "string \<Rightarrow> string + PersistPolicy" where
  "parse_persist_policy s =
     (if s = ''Both'' \<or> s = ''both'' then Inr Both
      else if s = ''Db'' \<or> s = ''db'' \<or> s = ''DB'' then Inr ToDB
      else if s = ''Message'' \<or> s = ''message'' then Inr ToMessage
      else if s = ''Dummy'' \<or> s = ''dummy'' then Inr Dummy
      else Inl ''unexpected specification for persist policy'')"

record settings =
  st_debug :: bool
  st_db_log :: string
  st_db_history :: string
  st_keycloak_pubkey :: string
  st_keycloak_admin_role :: string
  st_keycloak_deposit_admin_role :: string
  st_keycloak_withdrawal_admin_role :: string
  st_history_persist_policy :: PersistPolicy
  st_market_from_db :: bool
  st_assets :: "asset_cfg list"
  st_markets :: "market_cfg list"
  st_brokers :: string
  st_consumer_group :: string
  st_persist_interval :: i32
  st_slice_interval :: i32
  st_slice_keeptime :: i32
  st_history_thread :: i32
  st_cache_timeout :: rat
  st_disable_self_trade :: bool
  st_disable_market_order :: bool
  st_user_order_num_limit :: nat

definition default_settings :: settings where
  "default_settings = \<lparr>
     st_debug = False, st_db_log = [], st_db_history = [], st_keycloak_pubkey = [],
     st_keycloak_admin_role = [], st_keycloak_deposit_admin_role = [],
     st_keycloak_withdrawal_admin_role = [], st_history_persist_policy = ToMessage,
     st_market_from_db = True, st_assets = [], st_markets = [],
     st_brokers = ''127.0.0.1:9092'', st_consumer_group = ''kline_data_fetcher'',
     st_persist_interval = 3600, st_slice_interval = 86400, st_slice_keeptime = 86400 * 3,
     st_history_thread = 10, st_cache_timeout = 45 / 100, st_disable_self_trade = True,
     st_disable_market_order = False, st_user_order_num_limit = 1000 \<rparr>"

section \<open>Orders and trades\<close>

record order =
  o_id :: u64
  o_base :: string
  o_quote :: string
  o_market :: string
  o_type :: OrderType
  o_side :: OrderSide
  o_user :: uuid
  o_post_only :: bool
  o_price :: decimal
  o_amount :: decimal
  o_maker_fee :: decimal
  o_taker_fee :: decimal
  o_create_time :: timestamp
  o_remain :: decimal
  o_frozen :: decimal
  o_finished_base :: decimal
  o_finished_quote :: decimal
  o_finished_fee :: decimal
  o_update_time :: timestamp

record order_input =
  i_side :: OrderSide
  i_type :: OrderType
  i_amount :: decimal
  i_price :: decimal
  i_quote_limit :: decimal
  i_taker_fee :: decimal
  i_maker_fee :: decimal
  i_market :: string
  i_post_only :: bool

record order_commitment =
  oc_token_sell :: u32
  oc_token_buy :: u32
  oc_total_sell :: u64
  oc_total_buy :: u64

record verbose_order_state =
  vo_user_id :: uuid
  vo_order_id :: u64
  vo_order_side :: OrderSide
  vo_finished_base :: decimal
  vo_finished_quote :: decimal
  vo_finished_fee :: decimal

record verbose_balance_state =
  vb_user_id :: uuid
  vb_asset :: string
  vb_balance :: decimal

record verbose_trade_state =
  vt_order_states :: "verbose_order_state list"
  vt_balance_states :: "verbose_balance_state list"

record trade =
  t_id :: u64
  t_timestamp :: timestamp
  t_market :: string
  t_base :: string
  t_quote :: string
  t_price :: decimal
  t_amount :: decimal
  t_quote_amount :: decimal
  t_ask_user_id :: uuid
  t_ask_order_id :: u64
  t_ask_role :: MarketRole
  t_ask_fee :: decimal
  t_bid_user_id :: uuid
  t_bid_order_id :: u64
  t_bid_role :: MarketRole
  t_bid_fee :: decimal
  t_ask_order :: "order option"
  t_bid_order :: "order option"
  t_state_before :: verbose_trade_state
  t_state_after :: verbose_trade_state

section \<open>Balance keys and update requests\<close>

record balance_map_key =
  bk_user_id :: uuid
  bk_balance_type :: BalanceType
  bk_asset :: string

record balance_update_key =
  uk_balance_type :: BalanceType
  uk_business_type :: BusinessType
  uk_user_id :: uuid
  uk_asset :: string
  uk_business :: string
  uk_business_id :: u64

text \<open>\<^verbatim>\<open>detail\<close> is a \<^verbatim>\<open>serde_json::Value\<close>, held as its JSON text.\<close>

record balance_update_params =
  up_balance_type :: BalanceType
  up_business_type :: BusinessType
  up_user_id :: uuid
  up_business_id :: u64
  up_asset :: string
  up_business :: string
  up_market_price :: decimal
  up_change :: decimal
  up_detail :: string

section \<open>Database rows\<close>

record balance_history =
  bh_time :: timestamp
  bh_user_id :: string
  bh_business_id :: i64
  bh_asset :: string
  bh_business :: string
  bh_market_price :: decimal
  bh_change :: decimal
  bh_balance :: decimal
  bh_balance_available :: decimal
  bh_balance_frozen :: decimal
  bh_detail :: string

datatype OrderStatus = Active | Filled | Cancelled | Expired

record order_history =
  oh_id :: i64
  oh_create_time :: timestamp
  oh_finish_time :: timestamp
  oh_status :: OrderStatus
  oh_user_id :: string
  oh_market :: string
  oh_order_type :: OrderType
  oh_order_side :: OrderSide
  oh_price :: decimal
  oh_amount :: decimal
  oh_taker_fee :: decimal
  oh_maker_fee :: decimal
  oh_finished_base :: decimal
  oh_finished_quote :: decimal
  oh_finished_fee :: decimal
  oh_post_only :: bool

record user_trade =
  ut_time :: timestamp
  ut_user_id :: string
  ut_market :: string
  ut_trade_id :: i64
  ut_order_id :: i64
  ut_counter_order_id :: i64
  ut_side :: i16
  ut_role :: i16
  ut_price :: decimal
  ut_amount :: decimal
  ut_quote_amount :: decimal
  ut_fee :: decimal
  ut_counter_order_fee :: decimal

record operation_log =
  ol_id :: i64
  ol_user_id :: string
  ol_time :: timestamp
  ol_method :: string
  ol_params :: string

record balance_slice =
  bs_id :: i32
  bs_slice_id :: i64
  bs_user_id :: string
  bs_asset :: string
  bs_t :: i16
  bs_balance :: decimal

record balance_slice_insert =
  bi_slice_id :: i64
  bi_user_id :: string
  bi_asset :: string
  bi_t :: i16
  bi_balance :: decimal

record order_slice =
  os_id :: i64
  os_slice_id :: i64
  os_order_type :: OrderType
  os_order_side :: OrderSide
  os_create_time :: timestamp
  os_update_time :: timestamp
  os_user_id :: string
  os_market :: string
  os_price :: decimal
  os_amount :: decimal
  os_taker_fee :: decimal
  os_maker_fee :: decimal
  os_remain :: decimal
  os_frozen :: decimal
  os_finished_base :: decimal
  os_finished_quote :: decimal
  os_finished_fee :: decimal
  os_post_only :: bool

record slice_history =
  sh_time :: i64
  sh_end_operation_log_id :: i64
  sh_end_order_id :: i64
  sh_end_trade_id :: i64

record market_trade =
  mt_time :: timestamp
  mt_market :: string
  mt_trade_id :: i64
  mt_price :: decimal
  mt_amount :: decimal
  mt_quote_amount :: decimal
  mt_taker_side :: OrderSide

record asset_desc =
  ad_id :: string
  ad_symbol :: string
  ad_name :: string
  ad_precision_stor :: i16
  ad_precision_show :: i16
  ad_create_time :: "timestamp option"

record market_desc =
  md_id :: i32
  md_create_time :: "timestamp option"
  md_base_asset :: string
  md_quote_asset :: string
  md_precision_amount :: i16
  md_precision_price :: i16
  md_precision_fee :: i16
  md_min_amount :: decimal
  md_market_name :: "string option"

end
