(* ===== verification/Externals.thy ===== *)
theory Externals
  imports Types
begin

text \<open>
  The code the program calls and this repository does not hold: the \<^verbatim>\<open>rust_decimal\<close>,
  \<^verbatim>\<open>uuid\<close>, \<^verbatim>\<open>ttl_cache\<close>, \<^verbatim>\<open>serde_json\<close> and \<^verbatim>\<open>fluidex_common\<close> crates. They are the
  fields of one record \<open>env\<close>, the first argument \<open>E\<close> of every definition that uses them.
  What the program relies on is stated as named predicates on \<open>E\<close>, which the theorems that
  need them have as hypotheses; \<open>ref_env\<close> is an instance that satisfies all of them.

  A \<^verbatim>\<open>Decimal\<close> is the rational it denotes, so comparison, negation and absolute value are
  those of \<^typ>\<open>rat\<close>, and the scale and the sign of a zero are not represented. An arithmetic
  operation that overflows the 96 bits of a \<^verbatim>\<open>Decimal\<close> panics; \<open>exact_arith\<close> says that the
  run considered has no such overflow and no result that needs more than 28 digits. The code does not guard against an
  overflow: the balance check of a limit bid, for one, multiplies the amount and the price of the request as they were parsed.
\<close>

section \<open>The interface\<close>

record env =
  dec_add :: "decimal \<Rightarrow> decimal \<Rightarrow> decimal"
  dec_sub :: "decimal \<Rightarrow> decimal \<Rightarrow> decimal"
  dec_mul :: "decimal \<Rightarrow> decimal \<Rightarrow> decimal"
  dec_div :: "decimal \<Rightarrow> decimal \<Rightarrow> decimal"
  round_dp :: "decimal \<Rightarrow> u32 \<Rightarrow> decimal"
  round_dp_to_zero :: "decimal \<Rightarrow> u32 \<Rightarrow> decimal"
  dec_ceil :: "decimal \<Rightarrow> decimal"
  dec_floor :: "decimal \<Rightarrow> decimal"
  dec_from_str :: "string \<Rightarrow> decimal option"
  dec_to_string :: "decimal \<Rightarrow> string"
  dec_to_u64 :: "decimal \<Rightarrow> u32 \<Rightarrow> u64 option"
  uuid_to_string :: "uuid \<Rightarrow> string"
  uuid_parse :: "string \<Rightarrow> uuid option"
  current_timestamp :: "nat \<Rightarrow> timestamp"
  ftimestamp_to_db :: "timestamp \<Rightarrow> timestamp"
  ftimestamp_from_db :: "timestamp \<Rightarrow> timestamp"
  as_milliseconds :: "timestamp \<Rightarrow> i64"
  ttl_contains :: "nat \<Rightarrow> balance_update_key list \<Rightarrow> balance_update_key \<Rightarrow> bool"
  json_from_str :: "string \<Rightarrow> string option"
  json_set_id :: "string \<Rightarrow> u64 \<Rightarrow> string option"

text \<open>
  \<open>current_timestamp E n\<close> is the \<open>n\<close>-th reading of the clock. A \<^verbatim>\<open>TtlCache\<close> is held as the list
  of the keys inserted since it was last cleared, newest first; \<open>ttl_contains E n ks k\<close> tells
  whether the cache with that history still holds \<open>k\<close> at clock reading \<open>n\<close> (entries expire
  and the capacity is bounded). \<open>json_set_id E v i\<close> is the indexed assignment
  \<^verbatim>\<open>v["id"] = i\<close>, which panics unless \<open>v\<close> is an object or null.
\<close>

section \<open>Numbers with a bounded number of fractional digits\<close>

definition has_prec :: "nat \<Rightarrow> decimal \<Rightarrow> bool" where
  "has_prec n x \<longleftrightarrow> of_int \<lfloor>x * 10 ^ n\<rfloor> = x * 10 ^ n"

lemma has_prec_iff: "has_prec n x \<longleftrightarrow> (\<exists>k::int. x = of_int k / 10 ^ n)"
proof
  assume "has_prec n x"
  then obtain k :: int where "x * 10 ^ n = of_int k" by (metis has_prec_def)
  then have "x = of_int k / 10 ^ n" by (simp add: field_simps)
  then show "\<exists>k::int. x = of_int k / 10 ^ n" by blast
next
  assume "\<exists>k::int. x = of_int k / 10 ^ n"
  then obtain k :: int where "x * 10 ^ n = of_int k" by (auto simp: field_simps)
  then show "has_prec n x" by (simp only: has_prec_def floor_of_int)
qed

lemma has_prec_0 [simp]: "has_prec n 0"
  by (simp add: has_prec_def)

lemma has_precI: "x = of_int k / 10 ^ n \<Longrightarrow> has_prec n x"
  unfolding has_prec_iff by blast

lemma has_prec_add [intro]:
  assumes "has_prec n x" and "has_prec n y" shows "has_prec n (x + y)"
proof -
  from assms obtain k l :: int where "x = of_int k / 10 ^ n" "y = of_int l / 10 ^ n"
    by (auto simp: has_prec_iff)
  then show ?thesis by (intro has_precI [of _ "k + l"]) (simp add: add_divide_distrib)
qed

lemma has_prec_uminusI: "has_prec n x \<Longrightarrow> has_prec n (- x)"
  by (auto simp: has_prec_iff intro: exI [of _ "- k" for k])

lemma has_prec_uminus [simp]: "has_prec n (- x) \<longleftrightarrow> has_prec n x"
  using has_prec_uminusI [of n x] has_prec_uminusI [of n "- x"] by auto

lemma has_prec_diff [intro]: "has_prec n x \<Longrightarrow> has_prec n y \<Longrightarrow> has_prec n (x - y)"
  using has_prec_add [of n x "- y"] by simp

lemma has_prec_abs [simp]: "has_prec n \<bar>x\<bar> \<longleftrightarrow> has_prec n x"
  by (simp add: abs_if)

lemma has_prec_mult:
  assumes "has_prec n x" and "has_prec m y" shows "has_prec (n + m) (x * y)"
proof -
  from assms obtain k l :: int where "x = of_int k / 10 ^ n" "y = of_int l / 10 ^ m"
    by (auto simp: has_prec_iff)
  then show ?thesis by (intro has_precI [of _ "k * l"]) (simp add: power_add)
qed

lemma has_prec_mono:
  assumes "has_prec n x" and "n \<le> m" shows "has_prec m x"
proof -
  from assms(1) obtain k :: int where k: "x = of_int k / 10 ^ n" by (auto simp: has_prec_iff)
  from assms(2) obtain d where m: "m = n + d" by (auto simp: le_iff_add)
  show ?thesis by (rule has_precI [of _ "k * 10 ^ d"]) (simp add: k m power_add)
qed

section \<open>What the program relies on\<close>

definition exact_arith :: "env \<Rightarrow> bool" where
  "exact_arith E \<longleftrightarrow>
     (\<forall>a b. dec_add E a b = a + b) \<and> (\<forall>a b. dec_sub E a b = a - b) \<and>
     (\<forall>a b. dec_mul E a b = a * b)"

text \<open>Rounding to \<open>p\<close> digits leaves a value that has at most \<open>p\<close> digits unchanged.\<close>

definition rounding_laws :: "env \<Rightarrow> bool" where
  "rounding_laws E \<longleftrightarrow>
     (\<forall>x p. has_prec (unat p) (round_dp E x p)) \<and>
     (\<forall>x p. has_prec (unat p) x \<longrightarrow> round_dp E x p = x) \<and>
     (\<forall>x p. has_prec (unat p) (round_dp_to_zero E x p)) \<and>
     (\<forall>x p. has_prec (unat p) x \<longrightarrow> round_dp_to_zero E x p = x) \<and>
     (\<forall>x p. 0 \<le> x \<longrightarrow> 0 \<le> round_dp_to_zero E x p \<and> round_dp_to_zero E x p \<le> x) \<and>
     (\<forall>x p. x \<le> 0 \<longrightarrow> x \<le> round_dp_to_zero E x p \<and> round_dp_to_zero E x p \<le> 0)"

text \<open>A quotient cut to \<open>p\<close> digits does not exceed the exact quotient.\<close>

definition division_law :: "env \<Rightarrow> bool" where
  "division_law E \<longleftrightarrow>
     (\<forall>a b p. 0 \<le> a \<longrightarrow> 0 < b \<longrightarrow>
        0 \<le> round_dp_to_zero E (dec_div E a b) p \<and> b * round_dp_to_zero E (dec_div E a b) p \<le> a)"

text \<open>The textual form of a UUID parses back.\<close>

definition uuid_law :: "env \<Rightarrow> bool" where
  "uuid_law E \<longleftrightarrow> (\<forall>u. uuid_parse E (uuid_to_string E u) = Some u)"

text \<open>The cache holds only keys that were inserted, and a key just inserted is held.\<close>

definition ttl_law :: "env \<Rightarrow> bool" where
  "ttl_law E \<longleftrightarrow> (\<forall>n ks k. ttl_contains E n ks k \<longrightarrow> k \<in> set ks)"

definition ttl_retains :: "env \<Rightarrow> bool" where
  "ttl_retains E \<longleftrightarrow> (\<forall>n k ks. ttl_contains E n (k # ks) k)"

text \<open>Assigning to a key of JSON null gives an object.\<close>

definition json_law :: "env \<Rightarrow> bool" where
  "json_law E \<longleftrightarrow> (\<forall>i. json_set_id E ''null'' i \<noteq> None)"

definition env_laws :: "env \<Rightarrow> bool" where
  "env_laws E \<longleftrightarrow> exact_arith E \<and> rounding_laws E \<and> division_law E \<and> uuid_law E \<and>
     ttl_law E \<and> json_law E"

named_theorems env_simps "the external operations under their laws"

lemma env_arith [env_simps]:
  assumes "env_laws E"
  shows "dec_add E a b = a + b" and "dec_sub E a b = a - b" and "dec_mul E a b = a * b"
  using assms by (simp_all add: env_laws_def exact_arith_def)

lemma env_uuid [env_simps]: "env_laws E \<Longrightarrow> uuid_parse E (uuid_to_string E u) = Some u"
  by (simp add: env_laws_def uuid_law_def)

lemma env_round_id [env_simps]:
  "env_laws E \<Longrightarrow> has_prec (unat p) x \<Longrightarrow> round_dp E x p = x"
  "env_laws E \<Longrightarrow> has_prec (unat p) x \<Longrightarrow> round_dp_to_zero E x p = x"
  by (simp_all add: env_laws_def rounding_laws_def)

lemma env_round_prec:
  "env_laws E \<Longrightarrow> has_prec (unat p) (round_dp E x p)"
  "env_laws E \<Longrightarrow> has_prec (unat p) (round_dp_to_zero E x p)"
  by (simp_all add: env_laws_def rounding_laws_def)

lemma env_trunc_bounds:
  assumes "env_laws E" and "0 \<le> x"
  shows "0 \<le> round_dp_to_zero E x p" and "round_dp_to_zero E x p \<le> x"
  using assms by (simp_all add: env_laws_def rounding_laws_def)

lemma env_div_trunc:
  assumes "env_laws E" and "0 \<le> a" and "0 < b"
  shows "0 \<le> round_dp_to_zero E (dec_div E a b) p"
    and "b * round_dp_to_zero E (dec_div E a b) p \<le> a"
  using assms by (simp_all add: env_laws_def division_law_def)

lemma env_ttl: "env_laws E \<Longrightarrow> k \<notin> set ks \<Longrightarrow> \<not> ttl_contains E n ks k"
  by (auto simp: env_laws_def ttl_law_def)

lemma env_json: "env_laws E \<Longrightarrow> \<exists>d. json_set_id E ''null'' i = Some d"
  by (auto simp: env_laws_def json_law_def)

section \<open>An instance\<close>

definition ref_trunc :: "decimal \<Rightarrow> u32 \<Rightarrow> decimal" where
  "ref_trunc x p = sgn x * of_int \<lfloor>\<bar>x\<bar> * 10 ^ unat p\<rfloor> / 10 ^ unat p"

definition ref_round :: "decimal \<Rightarrow> u32 \<Rightarrow> decimal" where
  "ref_round x p =
     (let y = x * 10 ^ unat p; f = \<lfloor>y\<rfloor>; d = y - of_int f
      in of_int (if d < 1 / 2 \<or> d = 1 / 2 \<and> even f then f else f + 1) / 10 ^ unat p)"

definition ref_digit :: "char \<Rightarrow> nat option" where
  "ref_digit c =
     (let n = of_char c :: nat in if 48 \<le> n \<and> n \<le> 57 then Some (n - 48) else None)"

fun ref_digits :: "string \<Rightarrow> nat \<Rightarrow> (nat \<times> nat) option" where
  "ref_digits [] acc = Some (acc, 0)"
| "ref_digits (c # cs) acc =
     (case ref_digit c of None \<Rightarrow> None
      | Some d \<Rightarrow> map_option (\<lambda>(n, l). (n, Suc l)) (ref_digits cs (10 * acc + d)))"

definition ref_from_str :: "string \<Rightarrow> decimal option" where
  "ref_from_str s =
     (let neg = (take 1 s = ''-''); b = (if neg then drop 1 s else s);
          ip = takeWhile (\<lambda>c. c \<noteq> CHR ''.'') b; fp = drop (Suc (length ip)) b
      in if ip = [] then None
         else map_option (\<lambda>(n, _). (if neg then - 1 else 1) * of_nat n / 10 ^ length fp)
                (ref_digits (ip @ fp) 0))"

fun ref_show :: "nat \<Rightarrow> string" where
  "ref_show n = (if n = 0 then [] else (if n mod 2 = 1 then CHR ''1'' else CHR ''0'') # ref_show (n div 2))"

fun ref_read :: "string \<Rightarrow> nat" where
  "ref_read [] = 0"
| "ref_read (c # cs) = (if c = CHR ''1'' then 1 else 0) + 2 * ref_read cs"

declare ref_show.simps [simp del]

definition ref_env :: env where
  "ref_env = \<lparr>
     dec_add = (+), dec_sub = (-), dec_mul = (*), dec_div = (/),
     round_dp = ref_round, round_dp_to_zero = ref_trunc,
     dec_ceil = (\<lambda>x. of_int \<lceil>x\<rceil>), dec_floor = (\<lambda>x. of_int \<lfloor>x\<rfloor>),
     dec_from_str = ref_from_str, dec_to_string = (\<lambda>_. []),
     dec_to_u64 = (\<lambda>x p. if x < 0 then None else Some (of_int \<lfloor>x * 10 ^ unat p\<rfloor>)),
     uuid_to_string = (\<lambda>u. ref_show (unat u)),
     uuid_parse = (\<lambda>s. Some (of_nat (ref_read s))),
     current_timestamp = of_nat,
     ftimestamp_to_db = (\<lambda>t. t), ftimestamp_from_db = (\<lambda>t. t),
     as_milliseconds = (\<lambda>t. of_int \<lfloor>t * 1000\<rfloor>),
     ttl_contains = (\<lambda>n ks k. k \<in> set ks),
     json_from_str = Some, json_set_id = (\<lambda>v i. Some v) \<rparr>"

lemma ref_trunc_prec: "has_prec (unat p) (ref_trunc x p)"
proof -
  have "ref_trunc x p = of_int (\<lfloor>sgn x\<rfloor> * \<lfloor>\<bar>x\<bar> * 10 ^ unat p\<rfloor>) / 10 ^ unat p"
    by (simp add: ref_trunc_def sgn_if)
  then show ?thesis by (rule has_precI)
qed

lemma ref_trunc_id:
  assumes "has_prec (unat p) x" shows "ref_trunc x p = x"
proof -
  from assms obtain k :: int where k: "x = of_int k / 10 ^ unat p" by (auto simp: has_prec_iff)
  then have "\<bar>x\<bar> * 10 ^ unat p = of_int \<bar>k\<bar>" by simp
  then have "\<lfloor>\<bar>x\<bar> * 10 ^ unat p\<rfloor> = \<bar>k\<bar>" by (simp only: floor_of_int)
  moreover have "sgn x = of_int (sgn k)" by (simp add: k sgn_if divide_less_0_iff zero_less_divide_iff)
  ultimately show ?thesis by (simp add: ref_trunc_def k flip: of_int_mult of_int_abs add: sgn_mult_abs)
qed

lemma ref_trunc_pos: "0 \<le> x \<Longrightarrow> 0 \<le> ref_trunc x p \<and> ref_trunc x p \<le> x"
  using of_int_floor_le [of "x * 10 ^ unat p"]
  by (auto simp: ref_trunc_def sgn_if field_simps)

lemma ref_trunc_uminus: "ref_trunc (- x) p = - ref_trunc x p"
  by (simp add: ref_trunc_def sgn_minus)

lemma ref_trunc_neg: "x \<le> 0 \<Longrightarrow> x \<le> ref_trunc x p \<and> ref_trunc x p \<le> 0"
  using ref_trunc_pos [of "- x" p] by (simp add: ref_trunc_uminus)

lemma ref_round_prec: "has_prec (unat p) (ref_round x p)"
  unfolding has_prec_iff ref_round_def Let_def by blast

lemma ref_round_id:
  assumes "has_prec (unat p) x" shows "ref_round x p = x"
proof -
  from assms obtain k :: int where k: "x = of_int k / 10 ^ unat p" by (auto simp: has_prec_iff)
  then have "x * 10 ^ unat p = of_int k" by simp
  then show ?thesis by (simp add: ref_round_def Let_def k)
qed

lemma ref_read_show: "ref_read (ref_show n) = n"
proof (induction n rule: ref_show.induct)
  case (1 n)
  then show ?case by (subst ref_show.simps) (auto, presburger)
qed

lemma ref_env_uuid: "uuid_law ref_env"
  by (simp add: uuid_law_def ref_env_def ref_read_show)

theorem ref_env_laws: "env_laws ref_env"
  unfolding env_laws_def
proof (intro conjI)
  show "rounding_laws ref_env"
    by (simp add: rounding_laws_def ref_env_def ref_trunc_prec ref_trunc_id ref_trunc_pos
        ref_trunc_neg ref_round_prec ref_round_id)
  show "division_law ref_env"
  proof -
    have "0 \<le> ref_trunc (a / b) p \<and> b * ref_trunc (a / b) p \<le> a"
      if "0 \<le> a" "0 < b" for a b :: decimal and p
      using ref_trunc_pos [of "a / b" p] that by (simp add: field_simps)
    then show ?thesis by (simp add: division_law_def ref_env_def)
  qed
qed (simp_all add: exact_arith_def ttl_law_def json_law_def ref_env_def ref_env_uuid [unfolded ref_env_def])

lemma ref_env_ttl_retains: "ttl_retains ref_env"
  by (simp add: ttl_retains_def ref_env_def)

end
