(* ===== verification/Assets.thy ===== *)
theory Assets
  imports Externals
begin

text \<open>
  \<^verbatim>\<open>src/matchengine/asset/asset_manager.rs\<close>: the table of known assets with their storage and
  display precision, and the commitment of an order request. \<^verbatim>\<open>asset_prec\<close> panics on an unknown
  asset, so it returns an \<open>option\<close>.
\<close>

section \<open>The asset table\<close>

record asset_info =
  ai_prec_save :: u32
  ai_prec_show :: u32
  ai_inner_id :: u32

record asset_manager =
  am_assets :: "(string \<times> asset_info) list"

text \<open>
  \<^verbatim>\<open>u32::from_str_radix(s, 36)\<close> of the standard library: an optional plus sign, then at least one
  digit or letter; \<^verbatim>\<open>None\<close> stands for the error (empty input, a foreign character, a value that
  does not fit 32 bits).
\<close>

definition radix36_digit :: "char \<Rightarrow> nat option" where
  "radix36_digit c =
     (let n = of_char c :: nat in
      if 48 \<le> n \<and> n \<le> 57 then Some (n - 48)
      else if 97 \<le> n \<and> n \<le> 122 then Some (n - 87)
      else if 65 \<le> n \<and> n \<le> 90 then Some (n - 55)
      else None)"

fun radix36_value :: "string \<Rightarrow> nat \<Rightarrow> nat option" where
  "radix36_value [] acc = Some acc"
| "radix36_value (c # cs) acc =
     (case radix36_digit c of None \<Rightarrow> None
      | Some d \<Rightarrow> if 36 * acc + d < 2 ^ 32 then radix36_value cs (36 * acc + d) else None)"

definition from_str_radix36 :: "string \<Rightarrow> u32 option" where
  "from_str_radix36 s =
     (let b = (if take 1 s = ''+'' \<and> length s > 1 then drop 1 s else s)
      in if b = [] then None else map_option of_nat (radix36_value b 0))"

definition asset_info_of :: "asset_cfg \<Rightarrow> asset_info option" where
  "asset_info_of item = do {
     i \<leftarrow> from_str_radix36 (ac_id item);
     Some \<lparr>ai_prec_save = ac_prec_save item, ai_prec_show = ac_prec_show item, ai_inner_id = i\<rparr>
   }"

fun insert_assets :: "asset_cfg list \<Rightarrow> (string \<times> asset_info) list \<Rightarrow> (string \<times> asset_info) list option" where
  "insert_assets [] m = Some m"
| "insert_assets (item # items) m = do {
     info \<leftarrow> asset_info_of item;
     insert_assets items (AList.update (ac_id item) info m)
   }"

definition asset_manager_new :: "asset_cfg list \<Rightarrow> asset_manager option" where
  "asset_manager_new cfg = do { m \<leftarrow> insert_assets cfg []; Some \<lparr>am_assets = m\<rparr> }"

definition asset_manager_append :: "asset_manager \<Rightarrow> asset_cfg list \<Rightarrow> asset_manager option" where
  "asset_manager_append am cfg = do { m \<leftarrow> insert_assets cfg (am_assets am); Some (am\<lparr>am_assets := m\<rparr>) }"

definition asset_get :: "asset_manager \<Rightarrow> string \<Rightarrow> asset_info option" where
  "asset_get am a = map_of (am_assets am) a"

definition asset_exist :: "asset_manager \<Rightarrow> string \<Rightarrow> bool" where
  "asset_exist am a \<longleftrightarrow> a \<in> fst ` set (am_assets am)"

definition asset_prec :: "asset_manager \<Rightarrow> string \<Rightarrow> u32 option" where
  "asset_prec am a = map_option ai_prec_save (asset_get am a)"

definition asset_prec_show :: "asset_manager \<Rightarrow> string \<Rightarrow> u32 option" where
  "asset_prec_show am a = map_option ai_prec_show (asset_get am a)"

lemma asset_exist_iff: "asset_exist am a \<longleftrightarrow> (\<exists>p. asset_prec am a = Some p)"
proof (cases "map_of (am_assets am) a")
  case None
  then show ?thesis by (simp add: asset_exist_def asset_prec_def asset_get_def map_of_eq_None_iff)
next
  case (Some info)
  then have "a \<in> fst ` set (am_assets am)" by (force dest: map_of_SomeD)
  with Some show ?thesis by (simp add: asset_exist_def asset_prec_def asset_get_def)
qed

lemma insert_assets_get:
  assumes "insert_assets cfg m = Some m'"
  shows "map_of m' a =
    (case find (\<lambda>c. ac_id c = a) (rev cfg) of
       None \<Rightarrow> map_of m a
     | Some c \<Rightarrow> asset_info_of c)"
  using assms
proof (induction cfg m rule: insert_assets.induct)
  case (2 item items m)
  then obtain info where info: "asset_info_of item = Some info"
    and rest: "insert_assets items (AList.update (ac_id item) info m) = Some m'"
    by (auto split: Option.bind_splits)
  from 2(1) [OF info rest] info show ?case
    by (auto simp: find_append update_conv' split: option.splits)
qed simp

lemma asset_get_append:
  assumes "asset_manager_append am cfg = Some am'"
  shows "asset_get am' a =
    (case find (\<lambda>c. ac_id c = a) (rev cfg) of None \<Rightarrow> asset_get am a | Some c \<Rightarrow> asset_info_of c)"
proof -
  from assms obtain m where m: "insert_assets cfg (am_assets am) = Some m" and am': "am_assets am' = m"
    by (auto simp: asset_manager_append_def split: Option.bind_splits)
  show ?thesis using insert_assets_get [OF m, of a] by (simp add: asset_get_def am' cong: option.case_cong)
qed

section \<open>Order commitments\<close>

text \<open>
  The fields of the protobuf message \<^verbatim>\<open>OrderPutRequest\<close> that the engine reads. The wire values
  of its enums (\<open>ASK = 0\<close>, \<open>BID = 1\<close>, \<open>LIMIT = 0\<close>, \<open>MARKET = 1\<close>) are those of the
  generated bindings in \<^verbatim>\<open>examples/python/matchengine_pb2.py\<close>.
\<close>

record order_put_request =
  r_market :: string
  r_order_side :: i32
  r_order_type :: i32
  r_amount :: string
  r_price :: string
  r_quote_limit :: string
  r_taker_fee :: string
  r_maker_fee :: string
  r_post_only :: bool

fun split_on :: "(char \<Rightarrow> bool) \<Rightarrow> string \<Rightarrow> string list" where
  "split_on p [] = [[]]"
| "split_on p (c # cs) =
     (if p c then [] # split_on p cs
      else case split_on p cs of [] \<Rightarrow> [[c]] | w # ws \<Rightarrow> (c # w) # ws)"

definition side_from_i32 :: "i32 \<Rightarrow> OrderSide option" where
  "side_from_i32 n = (if n = 0 then Some ASK else if n = 1 then Some BID else None)"

text \<open>
  \<^verbatim>\<open>commit_order\<close> with the two precisions of the market; the outer \<open>option\<close> is the panic of
  \<^verbatim>\<open>DecimalExt::to_u64\<close>.
\<close>

definition commit_order ::
  "env \<Rightarrow> asset_manager \<Rightarrow> order_put_request \<Rightarrow> u32 \<Rightarrow> u32 \<Rightarrow> (string + order_commitment) option" where
  "commit_order E am req amount_prec price_prec =
     (case split_on (\<lambda>c. c = CHR ''_'') (r_market req) of
        [base, quote] \<Rightarrow>
          (case asset_get am base of None \<Rightarrow> Some (Inl ''market base_token error'')
           | Some base_token \<Rightarrow>
          (case asset_get am quote of None \<Rightarrow> Some (Inl ''market quote_token error'')
           | Some quote_token \<Rightarrow>
          (case dec_from_str E (r_amount req) of None \<Rightarrow> Some (Inl ''amount error'')
           | Some d \<Rightarrow> let amount = round_dp_to_zero E d amount_prec in
          (case dec_from_str E (r_price req) of None \<Rightarrow> Some (Inl ''price error'')
           | Some d \<Rightarrow> let price = round_dp E d price_prec in
          (case side_from_i32 (r_order_side req) of
             Some ASK \<Rightarrow> do {
               buy \<leftarrow> dec_to_u64 E (dec_mul E amount price) (amount_prec + price_prec);
               sell \<leftarrow> dec_to_u64 E amount amount_prec;
               Some (Inr \<lparr>oc_token_sell = ai_inner_id base_token, oc_token_buy = ai_inner_id quote_token,
                          oc_total_sell = sell, oc_total_buy = buy\<rparr>) }
           | Some BID \<Rightarrow> do {
               buy \<leftarrow> dec_to_u64 E amount amount_prec;
               sell \<leftarrow> dec_to_u64 E (dec_mul E amount price) (amount_prec + price_prec);
               Some (Inr \<lparr>oc_token_sell = ai_inner_id quote_token, oc_token_buy = ai_inner_id base_token,
                          oc_total_sell = sell, oc_total_buy = buy\<rparr>) }
           | None \<Rightarrow> Some (Inl ''market error''))))))
      | _ \<Rightarrow> Some (Inl ''market error''))"

end
