(* ===== verification/Balances.thy ===== *)
theory Balances
  imports Assets
begin

text \<open>
  \<^verbatim>\<open>src/matchengine/asset/balance_manager.rs\<close>: available and frozen balances per user and
  asset, every stored amount rounded to the asset's storage precision. The model is the release
  build: the \<^verbatim>\<open>debug_assert!\<close> checks are absent, so \<^verbatim>\<open>sub\<close> may leave a negative balance.
  The locale \<open>ledger\<close> is what the callers rely on; it is interpreted on the operations below.
\<close>

section \<open>State and operations\<close>

record balance_manager =
  bm_asset_manager :: asset_manager
  bm_balances :: "(balance_map_key \<times> decimal) list"

record balance_status =
  bst_total :: decimal
  bst_available_count :: u32
  bst_available :: decimal
  bst_frozen_count :: u32
  bst_frozen :: decimal

definition bkey :: "uuid \<Rightarrow> BalanceType \<Rightarrow> string \<Rightarrow> balance_map_key" where
  "bkey u t a = \<lparr>bk_user_id = u, bk_balance_type = t, bk_asset = a\<rparr>"

definition bm_new :: "asset_cfg list \<Rightarrow> balance_manager option" where
  "bm_new cfg = do { am \<leftarrow> asset_manager_new cfg; Some \<lparr>bm_asset_manager = am, bm_balances = []\<rparr> }"

definition bm_reset :: "balance_manager \<Rightarrow> balance_manager" where
  "bm_reset bm = bm\<lparr>bm_balances := []\<rparr>"

definition bm_get_by_key :: "balance_manager \<Rightarrow> balance_map_key \<Rightarrow> decimal" where
  "bm_get_by_key bm k = (case map_of (bm_balances bm) k of None \<Rightarrow> 0 | Some v \<Rightarrow> v)"

definition bm_get :: "balance_manager \<Rightarrow> uuid \<Rightarrow> BalanceType \<Rightarrow> string \<Rightarrow> decimal" where
  "bm_get bm u t a = bm_get_by_key bm (bkey u t a)"

definition bm_get_with_round ::
  "env \<Rightarrow> balance_manager \<Rightarrow> uuid \<Rightarrow> BalanceType \<Rightarrow> string \<Rightarrow> decimal option" where
  "bm_get_with_round E bm u t a = do {
     let balance = bm_get bm u t a;
     prec_save \<leftarrow> asset_prec (bm_asset_manager bm) a;
     prec_show \<leftarrow> asset_prec_show (bm_asset_manager bm) a;
     Some (if prec_save = prec_show then balance else round_dp E balance prec_show)
   }"

definition bm_del :: "balance_manager \<Rightarrow> uuid \<Rightarrow> BalanceType \<Rightarrow> string \<Rightarrow> balance_manager" where
  "bm_del bm u t a = bm\<lparr>bm_balances := AList.delete (bkey u t a) (bm_balances bm)\<rparr>"

definition bm_set_by_key ::
  "env \<Rightarrow> balance_manager \<Rightarrow> balance_map_key \<Rightarrow> decimal \<Rightarrow> balance_manager option" where
  "bm_set_by_key E bm k amount = do {
     p \<leftarrow> asset_prec (bm_asset_manager bm) (bk_asset k);
     Some (bm\<lparr>bm_balances := AList.update k (round_dp E amount p) (bm_balances bm)\<rparr>)
   }"

definition bm_set ::
  "env \<Rightarrow> balance_manager \<Rightarrow> uuid \<Rightarrow> BalanceType \<Rightarrow> string \<Rightarrow> decimal \<Rightarrow> balance_manager option" where
  "bm_set E bm u t a amount = bm_set_by_key E bm (bkey u t a) amount"

definition bm_add ::
  "env \<Rightarrow> balance_manager \<Rightarrow> uuid \<Rightarrow> BalanceType \<Rightarrow> string \<Rightarrow> decimal \<Rightarrow> (balance_manager \<times> decimal) option" where
  "bm_add E bm u t a x = do {
     p \<leftarrow> asset_prec (bm_asset_manager bm) a;
     let amount = round_dp E x p;
     let old_value = bm_get_by_key bm (bkey u t a);
     let new_value = dec_add E old_value amount;
     bm' \<leftarrow> bm_set_by_key E bm (bkey u t a) new_value;
     Some (bm', new_value)
   }"

definition bm_sub ::
  "env \<Rightarrow> balance_manager \<Rightarrow> uuid \<Rightarrow> BalanceType \<Rightarrow> string \<Rightarrow> decimal \<Rightarrow> (balance_manager \<times> decimal) option" where
  "bm_sub E bm u t a x = do {
     p \<leftarrow> asset_prec (bm_asset_manager bm) a;
     let amount = round_dp E x p;
     let old_value = bm_get_by_key bm (bkey u t a);
     let new_value = dec_sub E old_value amount;
     bm' \<leftarrow> bm_set_by_key E bm (bkey u t a) new_value;
     Some (bm', new_value)
   }"

definition bm_frozen ::
  "env \<Rightarrow> balance_manager \<Rightarrow> uuid \<Rightarrow> string \<Rightarrow> decimal \<Rightarrow> balance_manager option" where
  "bm_frozen E bm u a x = do {
     p \<leftarrow> asset_prec (bm_asset_manager bm) a;
     let amount = round_dp E x p;
     (bm1, _) \<leftarrow> bm_sub E bm u AVAILABLE a amount;
     (bm2, _) \<leftarrow> bm_add E bm1 u FREEZE a amount;
     Some bm2
   }"

definition bm_unfrozen ::
  "env \<Rightarrow> balance_manager \<Rightarrow> uuid \<Rightarrow> string \<Rightarrow> decimal \<Rightarrow> balance_manager option" where
  "bm_unfrozen E bm u a x = do {
     p \<leftarrow> asset_prec (bm_asset_manager bm) a;
     let amount = round_dp E x p;
     (bm1, _) \<leftarrow> bm_add E bm u AVAILABLE a amount;
     (bm2, _) \<leftarrow> bm_sub E bm1 u FREEZE a amount;
     Some bm2
   }"

definition bm_total :: "env \<Rightarrow> balance_manager \<Rightarrow> uuid \<Rightarrow> string \<Rightarrow> decimal" where
  "bm_total E bm u a = dec_add E (bm_get bm u AVAILABLE a) (bm_get bm u FREEZE a)"

fun bm_status_loop ::
  "env \<Rightarrow> string \<Rightarrow> (balance_map_key \<times> decimal) list \<Rightarrow> balance_status \<Rightarrow> balance_status" where
  "bm_status_loop E a [] r = r"
| "bm_status_loop E a ((k, amount) # kvs) r =
     bm_status_loop E a kvs
       (if bk_asset k = a \<and> amount \<noteq> 0 then
          let r1 = r\<lparr>bst_total := dec_add E (bst_total r) amount\<rparr>
          in if bk_balance_type k = AVAILABLE
             then r1\<lparr>bst_available_count := bst_available_count r1 + 1,
                     bst_available := dec_add E (bst_available r1) amount\<rparr>
             else r1\<lparr>bst_frozen_count := bst_frozen_count r1 + 1,
                     bst_frozen := dec_add E (bst_frozen r1) amount\<rparr>
        else r)"

definition bm_status :: "env \<Rightarrow> balance_manager \<Rightarrow> string \<Rightarrow> balance_status" where
  "bm_status E bm a = bm_status_loop E a (bm_balances bm)
     \<lparr>bst_total = 0, bst_available_count = 0, bst_available = 0, bst_frozen_count = 0, bst_frozen = 0\<rparr>"

section \<open>Invariant\<close>

text \<open>
  Keys are unique, every stored asset is known and every stored amount has at most the asset's
  number of digits. \<open>amount_ok\<close> is the same condition on an amount to be booked.
\<close>

definition amount_ok :: "balance_manager \<Rightarrow> string \<Rightarrow> decimal \<Rightarrow> bool" where
  "amount_ok bm a x \<longleftrightarrow> (\<exists>p. asset_prec (bm_asset_manager bm) a = Some p \<and> has_prec (unat p) x)"

definition bm_ok :: "balance_manager \<Rightarrow> bool" where
  "bm_ok bm \<longleftrightarrow> distinct (map fst (bm_balances bm)) \<and>
     (\<forall>(k, v) \<in> set (bm_balances bm). amount_ok bm (bk_asset k) v)"

definition bm_put :: "balance_manager \<Rightarrow> uuid \<Rightarrow> BalanceType \<Rightarrow> string \<Rightarrow> decimal \<Rightarrow> balance_manager" where
  "bm_put bm u t a v = bm\<lparr>bm_balances := AList.update (bkey u t a) v (bm_balances bm)\<rparr>"

lemma bkey_eq [simp]: "bkey u t a = bkey u' t' a' \<longleftrightarrow> u = u' \<and> t = t' \<and> a = a'"
  by (auto simp: bkey_def)

lemma bkey_sel [simp]: "bk_user_id (bkey u t a) = u" "bk_balance_type (bkey u t a) = t" "bk_asset (bkey u t a) = a"
  by (simp_all add: bkey_def)

lemma bm_put_am [simp]: "bm_asset_manager (bm_put bm u t a v) = bm_asset_manager bm"
  by (simp add: bm_put_def)

lemma amount_ok_put [simp]: "amount_ok (bm_put bm u t a v) = amount_ok bm"
  by (simp add: amount_ok_def fun_eq_iff)

lemma bm_get_put:
  "bm_get (bm_put bm u t a v) u' t' a' = (if u' = u \<and> t' = t \<and> a' = a then v else bm_get bm u' t' a')"
  by (auto simp: bm_get_def bm_get_by_key_def bm_put_def update_conv' split: option.split)

lemma bm_ok_put: "bm_ok bm \<Longrightarrow> amount_ok bm a v \<Longrightarrow> bm_ok (bm_put bm u t a v)"
  by (auto simp: bm_ok_def bm_put_def distinct_update set_alist_update amount_ok_def)

lemma bm_get_ok: "bm_ok bm \<Longrightarrow> amount_ok bm a 0 \<Longrightarrow> amount_ok bm a (bm_get bm u t a)"
  by (fastforce simp: bm_get_def bm_get_by_key_def bm_ok_def dest: map_of_SomeD split: option.splits)

lemma amount_ok_zero: "amount_ok bm a x \<Longrightarrow> amount_ok bm a 0"
  by (auto simp: amount_ok_def)

lemma amount_ok_arith:
  "amount_ok bm a x \<Longrightarrow> amount_ok bm a y \<Longrightarrow> amount_ok bm a (x + y)"
  "amount_ok bm a x \<Longrightarrow> amount_ok bm a y \<Longrightarrow> amount_ok bm a (x - y)"
  "amount_ok bm a x \<Longrightarrow> amount_ok bm a \<bar>x\<bar>"
  by (auto simp: amount_ok_def)

section \<open>Effect of the operations\<close>

lemma bm_set_by_key_eq:
  "env_laws E \<Longrightarrow> amount_ok bm a v \<Longrightarrow> bm_set_by_key E bm (bkey u t a) v = Some (bm_put bm u t a v)"
  by (auto simp: bm_set_by_key_def amount_ok_def bm_put_def env_simps)

lemma bm_add_eq:
  assumes E: "env_laws E" and ok: "bm_ok bm" and x: "amount_ok bm a x"
  shows "bm_add E bm u t a x = Some (bm_put bm u t a (bm_get bm u t a + x), bm_get bm u t a + x)"
proof -
  from x obtain p where p: "asset_prec (bm_asset_manager bm) a = Some p" "has_prec (unat p) x"
    by (auto simp: amount_ok_def)
  have "amount_ok bm a (bm_get bm u t a + x)"
    by (intro amount_ok_arith x bm_get_ok ok amount_ok_zero [OF x])
  from bm_set_by_key_eq [OF E this] p show ?thesis
    by (simp add: bm_add_def Let_def env_simps E flip: bm_get_def)
qed

lemma bm_sub_eq:
  assumes E: "env_laws E" and ok: "bm_ok bm" and x: "amount_ok bm a x"
  shows "bm_sub E bm u t a x = Some (bm_put bm u t a (bm_get bm u t a - x), bm_get bm u t a - x)"
proof -
  from x obtain p where p: "asset_prec (bm_asset_manager bm) a = Some p" "has_prec (unat p) x"
    by (auto simp: amount_ok_def)
  have "amount_ok bm a (bm_get bm u t a - x)"
    by (intro amount_ok_arith x bm_get_ok ok amount_ok_zero [OF x])
  from bm_set_by_key_eq [OF E this] p show ?thesis
    by (simp add: bm_sub_def Let_def env_simps E flip: bm_get_def)
qed

lemma bm_ok_add_put:
  "bm_ok bm \<Longrightarrow> amount_ok bm a x \<Longrightarrow> bm_ok (bm_put bm u t a (bm_get bm u t a + x))"
  "bm_ok bm \<Longrightarrow> amount_ok bm a x \<Longrightarrow> bm_ok (bm_put bm u t a (bm_get bm u t a - x))"
  by (intro bm_ok_put amount_ok_arith bm_get_ok, auto intro: amount_ok_zero)+

section \<open>The interface: a ledger\<close>

text \<open>
  What the market and the update controller rely on. \<open>inv\<close> holds between calls, \<open>ok\<close> tells
  which amounts may be booked on an asset; \<open>add\<close> and \<open>sub\<close> change exactly one entry, by
  exactly the amount, and do not panic.
\<close>

locale ledger =
  fixes inv :: "'s \<Rightarrow> bool"
    and ok :: "'s \<Rightarrow> string \<Rightarrow> decimal \<Rightarrow> bool"
    and bal :: "'s \<Rightarrow> uuid \<Rightarrow> BalanceType \<Rightarrow> string \<Rightarrow> decimal"
    and add :: "'s \<Rightarrow> uuid \<Rightarrow> BalanceType \<Rightarrow> string \<Rightarrow> decimal \<Rightarrow> ('s \<times> decimal) option"
    and sub :: "'s \<Rightarrow> uuid \<Rightarrow> BalanceType \<Rightarrow> string \<Rightarrow> decimal \<Rightarrow> ('s \<times> decimal) option"
  assumes add_law: "inv s \<Longrightarrow> ok s a x \<Longrightarrow> \<exists>s'. add s u t a x = Some (s', bal s u t a + x) \<and> inv s' \<and>
      ok s' = ok s \<and>
      (\<forall>u' t' a'. bal s' u' t' a' = (if u' = u \<and> t' = t \<and> a' = a then bal s u t a + x else bal s u' t' a'))"
    and sub_law: "inv s \<Longrightarrow> ok s a x \<Longrightarrow> \<exists>s'. sub s u t a x = Some (s', bal s u t a - x) \<and> inv s' \<and>
      ok s' = ok s \<and>
      (\<forall>u' t' a'. bal s' u' t' a' = (if u' = u \<and> t' = t \<and> a' = a then bal s u t a - x else bal s u' t' a'))"
begin

definition move :: "'s \<Rightarrow> uuid \<Rightarrow> string \<Rightarrow> BalanceType \<Rightarrow> BalanceType \<Rightarrow> decimal \<Rightarrow> 's option" where
  "move s u a t1 t2 x = do { (s1, _) \<leftarrow> sub s u t1 a x; (s2, _) \<leftarrow> add s1 u t2 a x; Some s2 }"

lemma move_law:
  assumes "inv s" and "ok s a x" and "t1 \<noteq> t2"
  shows "\<exists>s'. move s u a t1 t2 x = Some s' \<and> inv s' \<and> ok s' = ok s \<and>
    (\<forall>u' t' a'. bal s' u' t' a' =
      (if u' = u \<and> a' = a then if t' = t1 then bal s u t1 a - x
         else if t' = t2 then bal s u t2 a + x else bal s u' t' a' else bal s u' t' a'))"
proof -
  from sub_law [OF assms(1,2), of u t1] obtain s1 where s1: "sub s u t1 a x = Some (s1, bal s u t1 a - x)"
    "inv s1" "ok s1 = ok s"
    "\<forall>u' t' a'. bal s1 u' t' a' = (if u' = u \<and> t' = t1 \<and> a' = a then bal s u t1 a - x else bal s u' t' a')"
    by blast
  from s1(3) assms(2) have "ok s1 a x" by simp
  from add_law [OF s1(2) this, of u t2] obtain s2 where s2: "add s1 u t2 a x = Some (s2, bal s1 u t2 a + x)"
    "inv s2" "ok s2 = ok s1"
    "\<forall>u' t' a'. bal s2 u' t' a' = (if u' = u \<and> t' = t2 \<and> a' = a then bal s1 u t2 a + x else bal s1 u' t' a')"
    by blast
  show ?thesis
  proof (intro exI [of _ s2] conjI allI)
    show "move s u a t1 t2 x = Some s2" by (simp add: move_def s1(1) s2(1))
    show "inv s2" "ok s2 = ok s" using s1 s2 by simp_all
  qed (use s1(4) s2(4) assms(3) in auto)
qed

lemma move_total:
  assumes "inv s" and "ok s a x" and "t1 \<noteq> t2" and "move s u a t1 t2 x = Some s'"
  shows "bal s' u' AVAILABLE a' + bal s' u' FREEZE a' = bal s u' AVAILABLE a' + bal s u' FREEZE a'"
  using move_law [OF assms(1,2,3), of u] assms(3,4) by (cases t1; cases t2) auto

lemma move_back:
  assumes "inv s" and "ok s a x" and "t1 \<noteq> t2"
  shows "\<exists>s1 s2. move s u a t1 t2 x = Some s1 \<and> move s1 u a t2 t1 x = Some s2 \<and> bal s2 = bal s"
proof -
  from move_law [OF assms, of u] obtain s1 where s1: "move s u a t1 t2 x = Some s1" "inv s1" "ok s1 = ok s"
    "\<forall>u' t' a'. bal s1 u' t' a' =
      (if u' = u \<and> a' = a then if t' = t1 then bal s u t1 a - x
         else if t' = t2 then bal s u t2 a + x else bal s u' t' a' else bal s u' t' a')"
    by blast
  from s1(3) assms(2) have "ok s1 a x" by simp
  from move_law [OF s1(2) this, of t2 t1 u] assms(3) obtain s2 where
    "move s1 u a t2 t1 x = Some s2"
    "\<forall>u' t' a'. bal s2 u' t' a' =
      (if u' = u \<and> a' = a then if t' = t2 then bal s1 u t2 a - x
         else if t' = t1 then bal s1 u t1 a + x else bal s1 u' t' a' else bal s1 u' t' a')"
    by auto
  moreover from this(2) s1(4) assms(3) have "bal s2 = bal s" by (auto simp: fun_eq_iff)
  ultimately show ?thesis using s1(1) by blast
qed

end

interpretation bm: ledger
  "\<lambda>bm. env_laws E \<and> bm_ok bm" amount_ok bm_get "bm_add E" "bm_sub E" for E
proof (unfold_locales, goal_cases)
  case (1 bm a x u t)
  then show ?case
    by (auto simp: bm_add_eq bm_get_put intro!: bm_ok_add_put)
next
  case (2 bm a x u t)
  then show ?case
    by (auto simp: bm_sub_eq bm_get_put intro!: bm_ok_add_put)
qed

lemma bm_frozen_move:
  assumes "env_laws E" and "amount_ok bm a x"
  shows "bm_frozen E bm u a x = bm.move E bm u a AVAILABLE FREEZE x"
  using assms by (auto simp: bm_frozen_def bm.move_def amount_ok_def env_simps)

text \<open>\<^verbatim>\<open>unfrozen\<close> credits before it debits; the two orders agree.\<close>

lemma bm_unfrozen_eq:
  assumes "env_laws E" and "bm_ok bm" and "amount_ok bm a x"
  shows "bm_unfrozen E bm u a x =
    Some (bm_put (bm_put bm u AVAILABLE a (bm_get bm u AVAILABLE a + x)) u FREEZE a (bm_get bm u FREEZE a - x))"
  using assms
  by (auto simp: bm_unfrozen_def amount_ok_def env_simps bm_add_eq [unfolded amount_ok_def]
      bm_sub_eq [unfolded amount_ok_def] bm_ok_add_put [unfolded amount_ok_def] bm_get_put)

lemma bm_frozen_eq:
  assumes "env_laws E" and "bm_ok bm" and "amount_ok bm a x"
  shows "bm_frozen E bm u a x =
    Some (bm_put (bm_put bm u AVAILABLE a (bm_get bm u AVAILABLE a - x)) u FREEZE a (bm_get bm u FREEZE a + x))"
  using assms
  by (auto simp: bm_frozen_def amount_ok_def env_simps bm_add_eq [unfolded amount_ok_def]
      bm_sub_eq [unfolded amount_ok_def] bm_ok_add_put [unfolded amount_ok_def] bm_get_put)

section \<open>Supply of an asset\<close>

definition total_supply :: "balance_manager \<Rightarrow> string \<Rightarrow> decimal" where
  "total_supply bm a = sum_list (map (\<lambda>(k, v). if bk_asset k = a then v else 0) (bm_balances bm))"

lemma total_supply_put:
  assumes "bm_ok bm"
  shows "total_supply (bm_put bm u t a v) b = total_supply bm b + (if a = b then v - bm_get bm u t a else 0)"
proof -
  from assms have "distinct (map fst (bm_balances bm))" by (simp add: bm_ok_def)
  from sum_alist_update [OF this, of "\<lambda>k v. if bk_asset k = b then v else 0"] show ?thesis
    by (auto simp: total_supply_def bm_put_def bm_get_def bm_get_by_key_def split: option.split)
qed

end
