(* ===== verification/Sequencer.thy ===== *)
theory Sequencer
  imports Prelude
begin

text \<open>
  \<^verbatim>\<open>src/matchengine/sequencer.rs\<close>: the four 64-bit counters that number orders, trades,
  messages and operation-log entries. In a release build \<^verbatim>\<open>+= 1\<close> wraps at \<open>2 ^ 64\<close>.
\<close>

record sequencer =
  sq_order_id :: u64
  sq_trade_id :: u64
  sq_msg_id :: u64
  sq_operation_log_id :: u64

definition default_sequencer :: sequencer where
  "default_sequencer = \<lparr>sq_order_id = 0, sq_trade_id = 0, sq_msg_id = 0, sq_operation_log_id = 0\<rparr>"

definition set_operation_log_id :: "u64 \<Rightarrow> sequencer \<Rightarrow> sequencer" where
  "set_operation_log_id i s = s\<lparr>sq_operation_log_id := i\<rparr>"

definition set_trade_id :: "u64 \<Rightarrow> sequencer \<Rightarrow> sequencer" where
  "set_trade_id i s = s\<lparr>sq_trade_id := i\<rparr>"

definition set_order_id :: "u64 \<Rightarrow> sequencer \<Rightarrow> sequencer" where
  "set_order_id i s = s\<lparr>sq_order_id := i\<rparr>"

definition set_msg_id :: "u64 \<Rightarrow> sequencer \<Rightarrow> sequencer" where
  "set_msg_id i s = s\<lparr>sq_msg_id := i\<rparr>"

definition sequencer_reset :: "sequencer \<Rightarrow> sequencer" where
  "sequencer_reset s = set_msg_id 0 (set_trade_id 0 (set_order_id 0 (set_operation_log_id 0 s)))"

definition next_order_id :: "sequencer \<Rightarrow> sequencer \<times> u64" where
  "next_order_id s = (let s' = s\<lparr>sq_order_id := sq_order_id s + 1\<rparr> in (s', sq_order_id s'))"

definition next_trade_id :: "sequencer \<Rightarrow> sequencer \<times> u64" where
  "next_trade_id s = (let s' = s\<lparr>sq_trade_id := sq_trade_id s + 1\<rparr> in (s', sq_trade_id s'))"

definition next_operation_log_id :: "sequencer \<Rightarrow> sequencer \<times> u64" where
  "next_operation_log_id s =
     (let s' = s\<lparr>sq_operation_log_id := sq_operation_log_id s + 1\<rparr> in (s', sq_operation_log_id s'))"

definition next_msg_id :: "sequencer \<Rightarrow> sequencer \<times> u64" where
  "next_msg_id s = (let s' = s\<lparr>sq_msg_id := sq_msg_id s + 1\<rparr> in (s', sq_msg_id s'))"

lemmas sequencer_defs = next_order_id_def next_trade_id_def next_operation_log_id_def
  next_msg_id_def set_operation_log_id_def set_trade_id_def set_order_id_def set_msg_id_def

lemma sequencer_reset_default [simp]: "sequencer_reset s = default_sequencer"
  by (simp add: sequencer_reset_def sequencer_defs default_sequencer_def)

text \<open>
  Drawing identifiers repeatedly: the list of the first \<open>n\<close> order identifiers handed out.
\<close>

fun draw_order_ids :: "nat \<Rightarrow> sequencer \<Rightarrow> u64 list" where
  "draw_order_ids 0 s = []"
| "draw_order_ids (Suc n) s = (let (s', i) = next_order_id s in i # draw_order_ids n s')"

lemma draw_order_ids_nth:
  "k < n \<Longrightarrow> draw_order_ids n s ! k = sq_order_id s + of_nat (Suc k)"
proof (induction n arbitrary: s k)
  case (Suc n)
  then show ?case
    by (cases k) (simp_all add: sequencer_defs Let_def algebra_simps)
qed simp

lemma length_draw_order_ids [simp]: "length (draw_order_ids n s) = n"
  by (induction n arbitrary: s) (simp_all add: sequencer_defs Let_def)

lemma draw_order_ids_strict:
  assumes "unat (sq_order_id s) + n < 2 ^ 64"
  shows "sorted_wrt (<) (draw_order_ids n s) \<and> (\<forall>i \<in> set (draw_order_ids n s). sq_order_id s < i)"
proof -
  have val: "unat (draw_order_ids n s ! k) = unat (sq_order_id s) + Suc k" if "k < n" for k
  proof -
    from that assms have "unat (sq_order_id s) + Suc k < 2 ^ 64" by simp
    then show ?thesis
      by (simp add: draw_order_ids_nth [OF that] unat_word_ariths unat_of_nat del: of_nat_Suc)
  qed
  have "sorted_wrt (<) (draw_order_ids n s)"
    by (auto simp: sorted_wrt_iff_nth_less word_less_nat_alt val)
  moreover have "sq_order_id s < i" if "i \<in> set (draw_order_ids n s)" for i
    using that by (auto simp: in_set_conv_nth word_less_nat_alt val)
  ultimately show ?thesis by blast
qed

end
