(* ===== verification/Engine.thy ===== *)
theory Engine
  imports Balances Sequencer
begin

text \<open>
  The mutable context that the controller lends to a market operation (sequencer, balance
  manager, balance-update controller, persistor), the trait \<^verbatim>\<open>PersistExector\<close> as the datatype of
  its calls, and \<^verbatim>\<open>src/matchengine/asset/update_controller.rs\<close>.

  The code is generic in the persistor and never reads it back, except for the constant
  \<^verbatim>\<open>real_persist()\<close>; the context therefore records the sequence of calls made on it (oldest
  first), and the theory \<open>Persist\<close> says what each persistor does with such a sequence.
\<close>

section \<open>Context\<close>

datatype persist_call =
    PutBalance balance_history
  | PutDeposit balance_history
  | PutWithdraw balance_history
  | PutOrder order OrderEventType
  | PutTrade trade

record ctx =
  cx_sequencer :: sequencer
  cx_bm :: balance_manager
  cx_cache :: "balance_update_key list"
  cx_real_persist :: bool
  cx_calls :: "persist_call list"
  cx_clock :: nat

definition emit :: "persist_call \<Rightarrow> ctx \<Rightarrow> ctx" where
  "emit c cx = cx\<lparr>cx_calls := cx_calls cx @ [c]\<rparr>"

definition read_clock :: "env \<Rightarrow> ctx \<Rightarrow> ctx \<times> timestamp" where
  "read_clock E cx = (cx\<lparr>cx_clock := Suc (cx_clock cx)\<rparr>, current_timestamp E (cx_clock cx))"

lemma emit_sel [simp]:
  "cx_sequencer (emit c cx) = cx_sequencer cx" "cx_bm (emit c cx) = cx_bm cx"
  "cx_cache (emit c cx) = cx_cache cx" "cx_real_persist (emit c cx) = cx_real_persist cx"
  "cx_clock (emit c cx) = cx_clock cx" "cx_calls (emit c cx) = cx_calls cx @ [c]"
  by (simp_all add: emit_def)

section \<open>Balance updates\<close>

definition PERSIST_ZERO_BALANCE_UPDATE :: bool where
  "PERSIST_ZERO_BALANCE_UPDATE = False"

definition update_controller_new :: "balance_update_key list" where
  "update_controller_new = []"

definition update_controller_reset :: "balance_update_key list \<Rightarrow> balance_update_key list" where
  "update_controller_reset c = []"

definition on_timer :: "balance_update_key list \<Rightarrow> balance_update_key list" where
  "on_timer c = []"

definition cache_key_of :: "balance_update_params \<Rightarrow> balance_update_key" where
  "cache_key_of p = \<lparr>uk_balance_type = up_balance_type p, uk_business_type = up_business_type p,
     uk_user_id = up_user_id p, uk_asset = up_asset p, uk_business = up_business p,
     uk_business_id = up_business_id p\<rparr>"

text \<open>The history record and the messages sent when the persistor is a real one.\<close>

definition persist_balance_update ::
  "env \<Rightarrow> balance_update_params \<Rightarrow> ctx \<Rightarrow> ctx option" where
  "persist_balance_update E p cx =
     (if cx_real_persist cx \<and> (PERSIST_ZERO_BALANCE_UPDATE \<or> up_change p \<noteq> 0) then do {
        detail \<leftarrow> json_set_id E (up_detail p) (up_business_id p);
        let balance_available = bm_get (cx_bm cx) (up_user_id p) AVAILABLE (up_asset p);
        let balance_frozen = bm_get (cx_bm cx) (up_user_id p) FREEZE (up_asset p);
        let (cx, now) = read_clock E cx;
        let h = \<lparr>bh_time = ftimestamp_to_db E now, bh_user_id = uuid_to_string E (up_user_id p),
                 bh_business_id = up_business_id p, bh_asset = up_asset p,
                 bh_business = up_business p, bh_market_price = up_market_price p,
                 bh_change = up_change p,
                 bh_balance = dec_add E balance_available balance_frozen,
                 bh_balance_available = balance_available, bh_balance_frozen = balance_frozen,
                 bh_detail = detail\<rparr>;
        let cx = emit (PutBalance h) cx;
        Some (case up_business_type p of
                Deposit \<Rightarrow> emit (PutDeposit h) cx
              | Withdraw \<Rightarrow> emit (PutWithdraw h) cx
              | _ \<Rightarrow> cx)
      } else Some cx)"

definition update_user_balance ::
  "env \<Rightarrow> balance_update_params \<Rightarrow> ctx \<Rightarrow> (ctx \<times> (string + unit)) option" where
  "update_user_balance E p cx = (
     let (u, t, a) = (up_user_id p, up_balance_type p, up_asset p);
         cache_key = cache_key_of p;
         now = cx_clock cx;
         cx = cx\<lparr>cx_clock := Suc now\<rparr>
     in if ttl_contains E now (cx_cache cx) cache_key then Some (cx, Inl ''duplicate request'')
        else
          let old_balance = bm_get (cx_bm cx) u t a;
              change = up_change p;
              abs_change = \<bar>change\<bar>
          in if change < 0 \<and> old_balance < abs_change then Some (cx, Inl ''balance not enough'')
             else do {
               (bm, _) \<leftarrow> (if 0 \<le> change then bm_add E (cx_bm cx) u t a abs_change
                           else bm_sub E (cx_bm cx) u t a abs_change);
               cx \<leftarrow> persist_balance_update E p (cx\<lparr>cx_bm := bm, cx_cache := cache_key # cx_cache cx\<rparr>);
               Some (cx, Inr ())
             })"

section \<open>Effect of an accepted update\<close>

definition book_change :: "balance_update_params \<Rightarrow> balance_manager \<Rightarrow> balance_manager" where
  "book_change p bm = bm_put bm (up_user_id p) (up_balance_type p) (up_asset p)
     (bm_get bm (up_user_id p) (up_balance_type p) (up_asset p) + up_change p)"

lemma book_change_get:
  "bm_get (book_change p bm) u t a = bm_get bm u t a +
     (if u = up_user_id p \<and> t = up_balance_type p \<and> a = up_asset p then up_change p else 0)"
  by (auto simp: book_change_def bm_get_put)

lemma book_change_am [simp]: "bm_asset_manager (book_change p bm) = bm_asset_manager bm"
  by (simp add: book_change_def)

lemma book_change_amount_ok [simp]: "amount_ok (book_change p bm) = amount_ok bm"
  by (simp add: book_change_def)

lemma book_change_ok: "bm_ok bm \<Longrightarrow> amount_ok bm (up_asset p) (up_change p) \<Longrightarrow> bm_ok (book_change p bm)"
  unfolding book_change_def by (rule bm_ok_add_put)

lemma book_change_supply:
  "bm_ok bm \<Longrightarrow> total_supply (book_change p bm) a =
     total_supply bm a + (if up_asset p = a then up_change p else 0)"
  by (auto simp: book_change_def total_supply_put)

text \<open>Everything but the balances, the cache, the clock and the calls is untouched.\<close>

definition same_frame :: "ctx \<Rightarrow> ctx \<Rightarrow> bool" where
  "same_frame cx cx' \<longleftrightarrow> cx_sequencer cx' = cx_sequencer cx \<and> cx_real_persist cx' = cx_real_persist cx"

text \<open>The balance records among a sequence of calls carry no order and no trade.\<close>

fun is_balance_call :: "persist_call \<Rightarrow> bool" where
  "is_balance_call (PutBalance h) = True"
| "is_balance_call (PutDeposit h) = True"
| "is_balance_call (PutWithdraw h) = True"
| "is_balance_call (PutOrder o' e) = False"
| "is_balance_call (PutTrade t) = False"

definition only_balance_calls :: "ctx \<Rightarrow> ctx \<Rightarrow> bool" where
  "only_balance_calls cx cx' \<longleftrightarrow> (\<exists>cs. cx_calls cx' = cx_calls cx @ cs \<and> (\<forall>c \<in> set cs. is_balance_call c))"

lemma persist_balance_update_total:
  assumes "json_set_id E (up_detail p) (up_business_id p) \<noteq> None"
  shows "\<exists>cx'. persist_balance_update E p cx = Some cx' \<and> same_frame cx cx' \<and> cx_bm cx' = cx_bm cx \<and>
    cx_cache cx' = cx_cache cx \<and> only_balance_calls cx cx'"
  using assms
  by (auto simp: persist_balance_update_def read_clock_def same_frame_def only_balance_calls_def Let_def
      split: BusinessType.split)

text \<open>What an accepted update does to the context.\<close>

definition booked :: "balance_update_params \<Rightarrow> ctx \<Rightarrow> ctx \<Rightarrow> bool" where
  "booked p cx cx' \<longleftrightarrow> same_frame cx cx' \<and> cx_bm cx' = book_change p (cx_bm cx) \<and>
     cx_cache cx' = cache_key_of p # cx_cache cx \<and> only_balance_calls cx cx'"

lemma update_user_balance_accepts:
  assumes E: "env_laws E" and ok: "bm_ok (cx_bm cx)"
    and amt: "amount_ok (cx_bm cx) (up_asset p) (up_change p)"
    and fresh: "cache_key_of p \<notin> set (cx_cache cx)"
    and enough: "0 \<le> up_change p \<or>
      0 \<le> bm_get (cx_bm cx) (up_user_id p) (up_balance_type p) (up_asset p) + up_change p"
    and json: "json_set_id E (up_detail p) (up_business_id p) \<noteq> None"
  shows "\<exists>cx'. update_user_balance E p cx = Some (cx', Inr ()) \<and> booked p cx cx'"
proof -
  let ?cx1 = "cx\<lparr>cx_clock := Suc (cx_clock cx), cx_bm := book_change p (cx_bm cx),
    cx_cache := cache_key_of p # cx_cache cx\<rparr>"
  let ?b = "bm_get (cx_bm cx) (up_user_id p) (up_balance_type p) (up_asset p)"
  obtain cx' where cx': "persist_balance_update E p ?cx1 = Some cx'" "same_frame ?cx1 cx'"
    "cx_bm cx' = cx_bm ?cx1" "cx_cache cx' = cx_cache ?cx1" "only_balance_calls ?cx1 cx'"
    using persist_balance_update_total [OF json] by blast
  have "update_user_balance E p cx = Some (cx', Inr ())"
  proof (cases "up_change p < 0")
    case True
    have "bm_sub E (cx_bm cx) (up_user_id p) (up_balance_type p) (up_asset p) (- up_change p) =
        Some (book_change p (cx_bm cx), ?b + up_change p)"
      using bm_sub_eq [OF E ok, of "up_asset p" "- up_change p"] amt
      by (simp add: book_change_def amount_ok_def)
    with True enough cx'(1) show ?thesis
      by (auto simp: update_user_balance_def Let_def env_ttl [OF E fresh])
  next
    case False
    have "bm_add E (cx_bm cx) (up_user_id p) (up_balance_type p) (up_asset p) (up_change p) =
        Some (book_change p (cx_bm cx), ?b + up_change p)"
      by (simp add: bm_add_eq [OF E ok amt] book_change_def)
    with False cx'(1) show ?thesis
      by (simp add: update_user_balance_def Let_def env_ttl [OF E fresh])
  qed
  with cx' show ?thesis by (simp add: booked_def same_frame_def only_balance_calls_def)
qed

text \<open>A refused update changes nothing but the clock.\<close>

lemma update_user_balance_refuses:
  assumes "update_user_balance E p cx = Some (cx', Inl e)"
  shows "cx' = cx\<lparr>cx_clock := Suc (cx_clock cx)\<rparr> \<and> (e = ''duplicate request'' \<or> e = ''balance not enough'')"
  using assms by (auto simp: update_user_balance_def Let_def split: if_splits Option.bind_splits)

text \<open>Every outcome of an update that does not panic.\<close>

lemma persist_balance_update_frame:
  assumes "persist_balance_update E p cx = Some cx'"
  shows "same_frame cx cx' \<and> cx_bm cx' = cx_bm cx \<and> cx_cache cx' = cx_cache cx \<and> only_balance_calls cx cx'"
  using assms
  by (auto simp: persist_balance_update_def read_clock_def same_frame_def only_balance_calls_def Let_def
      split: if_splits BusinessType.splits Option.bind_splits)

lemma update_user_balance_cases:
  assumes E: "env_laws E" and ok: "bm_ok (cx_bm cx)"
    and amt: "amount_ok (cx_bm cx) (up_asset p) (up_change p)"
    and upd: "update_user_balance E p cx = Some (cx', res)"
  obtains (refused) e where "res = Inl e" and "cx' = cx\<lparr>cx_clock := Suc (cx_clock cx)\<rparr>"
  | (booked) "res = Inr ()" and "booked p cx cx'"
      and "0 \<le> up_change p \<or> 0 \<le> bm_get (cx_bm cx) (up_user_id p) (up_balance_type p) (up_asset p) + up_change p"
proof (cases res)
  case (Inl e)
  with upd update_user_balance_refuses [of E p cx cx' e] show thesis by (intro refused [of e]) simp_all
next
  case (Inr unit)
  let ?b = "bm_get (cx_bm cx) (up_user_id p) (up_balance_type p) (up_asset p)"
  let ?cx1 = "cx\<lparr>cx_clock := Suc (cx_clock cx), cx_bm := book_change p (cx_bm cx),
    cx_cache := cache_key_of p # cx_cache cx\<rparr>"
  have sub: "bm_sub E (cx_bm cx) (up_user_id p) (up_balance_type p) (up_asset p) (- up_change p) =
      Some (book_change p (cx_bm cx), ?b + up_change p)"
    using bm_sub_eq [OF E ok, of "up_asset p" "- up_change p"] amt by (simp add: book_change_def amount_ok_def)
  have add: "bm_add E (cx_bm cx) (up_user_id p) (up_balance_type p) (up_asset p) (up_change p) =
      Some (book_change p (cx_bm cx), ?b + up_change p)"
    by (simp add: bm_add_eq [OF E ok amt] book_change_def)
  from upd Inr sub add have cx': "persist_balance_update E p ?cx1 = Some cx'"
    and enough: "0 \<le> up_change p \<or> 0 \<le> ?b + up_change p"
    by (auto simp: update_user_balance_def Let_def abs_if split: if_splits Option.bind_splits)
  show thesis
    using persist_balance_update_frame [OF cx'] enough Inr
    by (intro booked) (simp_all add: booked_def same_frame_def only_balance_calls_def)
qed

end
