(* ===== verification/Orders.thy ===== *)
theory Orders
  imports Types
begin

text \<open>
  \<^verbatim>\<open>src/matchengine/market/order.rs\<close>: the keys of the two sides of the order book with their
  orderings (asks by ascending price, bids by descending price, ties by ascending order
  identifier) and the accessors of an order. The orderings are instances of \<^verbatim>\<open>linorder\<close>, so the
  sorted maps of the prelude apply to the book.
\<close>

section \<open>Keys of the order book\<close>

datatype MarketKeyAsk = MarketKeyAsk (ka_price: decimal) (ka_id: u64)

datatype MarketKeyBid = MarketKeyBid (kb_price: decimal) (kb_id: u64)

text \<open>\<^verbatim>\<open>std::cmp::Ordering\<close> and the comparison of the standard library.\<close>

datatype Ordering = Less | Equal | Greater

definition cmp :: "'a::linorder \<Rightarrow> 'a \<Rightarrow> Ordering" where
  "cmp a b = (if a < b then Less else if a = b then Equal else Greater)"

fun reverse_ordering :: "Ordering \<Rightarrow> Ordering" where
  "reverse_ordering Less = Greater"
| "reverse_ordering Equal = Equal"
| "reverse_ordering Greater = Less"

text \<open>The derived ordering of \<^verbatim>\<open>MarketKeyAsk\<close> is lexicographic; that of \<^verbatim>\<open>MarketKeyBid\<close> is written out.\<close>

definition ask_key_cmp :: "MarketKeyAsk \<Rightarrow> MarketKeyAsk \<Rightarrow> Ordering" where
  "ask_key_cmp a b =
     (let price_order = cmp (ka_price a) (ka_price b)
      in if price_order \<noteq> Equal then price_order else cmp (ka_id a) (ka_id b))"

definition bid_key_cmp :: "MarketKeyBid \<Rightarrow> MarketKeyBid \<Rightarrow> Ordering" where
  "bid_key_cmp a b =
     (let price_order = reverse_ordering (cmp (kb_price a) (kb_price b))
      in if price_order \<noteq> Equal then price_order else cmp (kb_id a) (kb_id b))"

lemma ask_key_cmp_iff:
  "ask_key_cmp a b = Less \<longleftrightarrow> ka_price a < ka_price b \<or> ka_price a = ka_price b \<and> ka_id a < ka_id b"
  "ask_key_cmp a b = Equal \<longleftrightarrow> a = b"
  by (auto simp: ask_key_cmp_def cmp_def Let_def intro: MarketKeyAsk.expand)

lemma bid_key_cmp_iff:
  "bid_key_cmp a b = Less \<longleftrightarrow> kb_price b < kb_price a \<or> kb_price a = kb_price b \<and> kb_id a < kb_id b"
  "bid_key_cmp a b = Equal \<longleftrightarrow> a = b"
  by (auto simp: bid_key_cmp_def cmp_def Let_def intro: MarketKeyBid.expand)

instantiation MarketKeyAsk :: linorder
begin

definition less_eq_MarketKeyAsk :: "MarketKeyAsk \<Rightarrow> MarketKeyAsk \<Rightarrow> bool" where
  "less_eq_MarketKeyAsk a b \<longleftrightarrow> ask_key_cmp a b = Less \<or> ask_key_cmp a b = Equal"

definition less_MarketKeyAsk :: "MarketKeyAsk \<Rightarrow> MarketKeyAsk \<Rightarrow> bool" where
  "less_MarketKeyAsk a b \<longleftrightarrow> ask_key_cmp a b = Less"

instance
  by standard (auto simp: less_eq_MarketKeyAsk_def less_MarketKeyAsk_def ask_key_cmp_iff
      intro: MarketKeyAsk.expand)

end

instantiation MarketKeyBid :: linorder
begin

definition less_eq_MarketKeyBid :: "MarketKeyBid \<Rightarrow> MarketKeyBid \<Rightarrow> bool" where
  "less_eq_MarketKeyBid a b \<longleftrightarrow> bid_key_cmp a b = Less \<or> bid_key_cmp a b = Equal"

definition less_MarketKeyBid :: "MarketKeyBid \<Rightarrow> MarketKeyBid \<Rightarrow> bool" where
  "less_MarketKeyBid a b \<longleftrightarrow> bid_key_cmp a b = Less"

instance
  by standard (auto simp: less_eq_MarketKeyBid_def less_MarketKeyBid_def bid_key_cmp_iff
      intro: MarketKeyBid.expand)

end

section \<open>Orders\<close>

definition get_ask_key :: "order \<Rightarrow> MarketKeyAsk" where
  "get_ask_key o' = MarketKeyAsk (o_price o') (o_id o')"

definition get_bid_key :: "order \<Rightarrow> MarketKeyBid" where
  "get_bid_key o' = MarketKeyBid (o_price o') (o_id o')"

definition is_ask :: "order \<Rightarrow> bool" where
  "is_ask o' \<longleftrightarrow> o_side o' = ASK"

lemma get_key_less:
  "get_ask_key a < get_ask_key b \<longleftrightarrow>
     o_price a < o_price b \<or> o_price a = o_price b \<and> o_id a < o_id b"
  "get_bid_key a < get_bid_key b \<longleftrightarrow>
     o_price b < o_price a \<or> o_price a = o_price b \<and> o_id a < o_id b"
  by (simp_all add: get_ask_key_def get_bid_key_def less_MarketKeyAsk_def less_MarketKeyBid_def
      ask_key_cmp_iff bid_key_cmp_iff)

lemma get_key_eq:
  "get_ask_key a = get_ask_key b \<longleftrightarrow> o_price a = o_price b \<and> o_id a = o_id b"
  "get_bid_key a = get_bid_key b \<longleftrightarrow> o_price a = o_price b \<and> o_id a = o_id b"
  by (simp_all add: get_ask_key_def get_bid_key_def)

text \<open>
  What a side of the book promises to the matcher: walking it in key order visits the orders
  from the best price to the worst, and at one price in the order of their identifiers.
\<close>

locale price_time =
  fixes key :: "order \<Rightarrow> 'k::linorder"
    and better :: "decimal \<Rightarrow> decimal \<Rightarrow> bool"
  assumes key_less: "key a < key b \<longleftrightarrow>
    better (o_price a) (o_price b) \<or> o_price a = o_price b \<and> o_id a < o_id b"
begin

lemma walk_order:
  assumes "sorted_wrt (<) (map key os)" and "i < j" and "j < length os"
  shows "better (o_price (os ! i)) (o_price (os ! j)) \<or>
    o_price (os ! i) = o_price (os ! j) \<and> o_id (os ! i) < o_id (os ! j)"
  using assms by (auto simp: sorted_wrt_iff_nth_less key_less dest: spec [of _ i])

end

interpretation ask_side: price_time get_ask_key "(<)"
  by unfold_locales (simp add: get_key_less)

interpretation bid_side: price_time get_bid_key "\<lambda>x y. y < x"
  by unfold_locales (simp add: get_key_less)

end
