(* ===== verification/Market.thy ===== *)
theory Market
  imports Engine Orders
begin

text \<open>
  \<^verbatim>\<open>src/matchengine/market/mod.rs\<close>: one market with its order book and the matching of an
  incoming order against it.

  The four maps of a market share their orders through \<^verbatim>\<open>OrderRc\<close> references, and the matcher
  updates an order through one of them. The model keeps this sharing explicit: \<open>m_heap\<close> is
  the store of the orders ever put into the book and the maps hold positions in it; the
  locks behind the references are uncontended and are left out.

  Reading \<open>E\<close> is the record of external operations, \<open>cx\<close> the context the controller lends
  (sequencer, balances, update cache, persistor calls, clock).
\<close>

section \<open>State\<close>

type_synonym rc = nat

record market =
  m_name :: string
  m_base :: string
  m_quote :: string
  m_amount_prec :: u32
  m_price_prec :: u32
  m_base_prec :: u32
  m_quote_prec :: u32
  m_fee_prec :: u32
  m_min_amount :: decimal
  m_price :: decimal
  m_heap :: "order list"
  m_orders :: "(u64 \<times> rc) list"
  m_users :: "(uuid \<times> (u64 \<times> rc) list) list"
  m_asks :: "(MarketKeyAsk \<times> rc) list"
  m_bids :: "(MarketKeyBid \<times> rc) list"
  m_trade_count :: u64
  m_disable_self_trade :: bool
  m_disable_market_order :: bool

definition rc_new :: "order \<Rightarrow> market \<Rightarrow> market \<times> rc" where
  "rc_new o' m = (m\<lparr>m_heap := m_heap m @ [o']\<rparr>, length (m_heap m))"

definition deep :: "market \<Rightarrow> rc \<Rightarrow> order" where
  "deep m r = m_heap m ! r"

definition rc_write :: "rc \<Rightarrow> order \<Rightarrow> market \<Rightarrow> market" where
  "rc_write r o' m = m\<lparr>m_heap := (m_heap m)[r := o']\<rparr>"

section \<open>The balance manager as the market sees it\<close>

definition balance_add ::
  "env \<Rightarrow> balance_manager \<Rightarrow> string \<Rightarrow> BalanceType \<Rightarrow> string \<Rightarrow> decimal \<Rightarrow> balance_manager option" where
  "balance_add E bm uid t a x = do { u \<leftarrow> uuid_parse E uid; (bm', _) \<leftarrow> bm_add E bm u t a x; Some bm' }"

definition balance_get ::
  "env \<Rightarrow> balance_manager \<Rightarrow> string \<Rightarrow> BalanceType \<Rightarrow> string \<Rightarrow> decimal option" where
  "balance_get E bm uid t a = do { u \<leftarrow> uuid_parse E uid; Some (bm_get bm u t a) }"

definition balance_total ::
  "env \<Rightarrow> balance_manager \<Rightarrow> string \<Rightarrow> string \<Rightarrow> decimal option" where
  "balance_total E bm uid a = do {
     u \<leftarrow> uuid_parse E uid;
     Some (dec_add E (bm_get bm u FREEZE a) (bm_get bm u AVAILABLE a)) }"

definition balance_sub ::
  "env \<Rightarrow> balance_manager \<Rightarrow> string \<Rightarrow> BalanceType \<Rightarrow> string \<Rightarrow> decimal \<Rightarrow> balance_manager option" where
  "balance_sub E bm uid t a x = do { u \<leftarrow> uuid_parse E uid; (bm', _) \<leftarrow> bm_sub E bm u t a x; Some bm' }"

definition balance_frozen ::
  "env \<Rightarrow> balance_manager \<Rightarrow> string \<Rightarrow> string \<Rightarrow> decimal \<Rightarrow> balance_manager option" where
  "balance_frozen E bm uid a x = do { u \<leftarrow> uuid_parse E uid; bm_frozen E bm u a x }"

definition balance_unfrozen ::
  "env \<Rightarrow> balance_manager \<Rightarrow> string \<Rightarrow> string \<Rightarrow> decimal \<Rightarrow> balance_manager option" where
  "balance_unfrozen E bm uid a x = do { u \<leftarrow> uuid_parse E uid; bm_unfrozen E bm u a x }"

section \<open>Construction and reset\<close>

definition market_new :: "market_cfg \<Rightarrow> settings \<Rightarrow> balance_manager \<Rightarrow> (string + market) option" where
  "market_new conf gs bm =
     (let am = bm_asset_manager bm in
      if \<not> asset_exist am (mc_quote conf) \<or> \<not> asset_exist am (mc_base conf)
      then Some (Inl (''invalid assert id '' @ mc_quote conf @ '' '' @ mc_base conf))
      else do {
        base_prec \<leftarrow> asset_prec am (mc_base conf);
        quote_prec \<leftarrow> asset_prec am (mc_quote conf);
        if mc_amount_prec conf > base_prec \<or> mc_amount_prec conf + mc_price_prec conf > quote_prec
        then Some (Inl ''invalid precision'')
        else Some (Inr \<lparr>
          m_name = mc_name conf, m_base = mc_base conf, m_quote = mc_quote conf,
          m_amount_prec = mc_amount_prec conf, m_price_prec = mc_price_prec conf,
          m_base_prec = base_prec, m_quote_prec = quote_prec, m_fee_prec = mc_fee_prec conf,
          m_min_amount = mc_min_amount conf, m_price = 0, m_heap = [], m_orders = [],
          m_users = [], m_asks = [], m_bids = [], m_trade_count = 0,
          m_disable_self_trade = st_disable_self_trade gs,
          m_disable_market_order = st_disable_market_order gs\<rparr>)
      })"

definition market_reset :: "market \<Rightarrow> market" where
  "market_reset m = m\<lparr>m_bids := [], m_asks := [], m_users := [], m_orders := []\<rparr>"

definition frozen_balance :: "env \<Rightarrow> market \<Rightarrow> order \<Rightarrow> ctx \<Rightarrow> ctx option" where
  "frozen_balance E m o' cx = do {
     bm \<leftarrow> balance_frozen E (cx_bm cx) (uuid_to_string E (o_user o'))
             (if is_ask o' then m_base m else m_quote m) (o_frozen o');
     Some (cx\<lparr>cx_bm := bm\<rparr>)
   }"

definition unfrozen_balance :: "env \<Rightarrow> market \<Rightarrow> order \<Rightarrow> ctx \<Rightarrow> ctx option" where
  "unfrozen_balance E m o' cx =
     (if o_remain o' = 0 then Some cx
      else do {
        bm \<leftarrow> balance_unfrozen E (cx_bm cx) (uuid_to_string E (o_user o'))
                (if is_ask o' then m_base m else m_quote m) (o_frozen o');
        Some (cx\<lparr>cx_bm := bm\<rparr>)
      })"

section \<open>Insertion and removal\<close>

definition insert_order_into_orderbook :: "env \<Rightarrow> order \<Rightarrow> market \<Rightarrow> market \<times> order" where
  "insert_order_into_orderbook E o0 m = (
     let o' = o0\<lparr>o_frozen := if o_side o0 = ASK then o_remain o0 else dec_mul E (o_remain o0) (o_price o0)\<rparr>;
         (m, r) = rc_new o' m;
         m = m\<lparr>m_orders := bt_insert (o_id o') r (m_orders m)\<rparr>;
         user_map = (case bt_get (m_users m) (o_user o') of None \<Rightarrow> [] | Some um \<Rightarrow> um);
         m = m\<lparr>m_users := bt_insert (o_user o') (bt_insert (o_id o') r user_map) (m_users m)\<rparr>;
         m = (if o_side o' = ASK
              then m\<lparr>m_asks := bt_insert (get_ask_key o') r (m_asks m)\<rparr>
              else m\<lparr>m_bids := bt_insert (get_bid_key o') r (m_bids m)\<rparr>)
     in (m, deep m r))"

definition order_finish :: "env \<Rightarrow> order \<Rightarrow> market \<times> ctx \<Rightarrow> (market \<times> ctx) option" where
  "order_finish E o' mc = (
     let (m, cx) = mc;
         m = (if o_side o' = ASK
              then m\<lparr>m_asks := bt_remove (get_ask_key o') (m_asks m)\<rparr>
              else m\<lparr>m_bids := bt_remove (get_bid_key o') (m_bids m)\<rparr>)
     in do {
       cx \<leftarrow> unfrozen_balance E m o' cx;
       let m = m\<lparr>m_orders := bt_remove (o_id o') (m_orders m)\<rparr>;
       user_map \<leftarrow> bt_get (m_users m) (o_user o');
       let m = m\<lparr>m_users := bt_insert (o_user o') (bt_remove (o_id o') user_map) (m_users m)\<rparr>;
       Some (m, emit (PutOrder o' FINISH) cx)
     })"

fun order_finish_all :: "env \<Rightarrow> order list \<Rightarrow> market \<times> ctx \<Rightarrow> (market \<times> ctx) option" where
  "order_finish_all E [] mc = Some mc"
| "order_finish_all E (o' # os) mc = do { mc \<leftarrow> order_finish E o' mc; order_finish_all E os mc }"

section \<open>Matching\<close>

text \<open>\<^verbatim>\<open>get_trade_state\<close>: the snapshot attached to a trade by the feature \<^verbatim>\<open>emit_state_diff\<close>, which is on by default.\<close>

definition order_state_of :: "order \<Rightarrow> verbose_order_state" where
  "order_state_of o' = \<lparr>vo_user_id = o_user o', vo_order_id = o_id o', vo_order_side = o_side o',
     vo_finished_base = o_finished_base o', vo_finished_quote = o_finished_quote o',
     vo_finished_fee = o_finished_fee o'\<rparr>"

definition get_trade_state ::
  "env \<Rightarrow> order \<Rightarrow> order \<Rightarrow> balance_manager \<Rightarrow> string \<Rightarrow> string \<Rightarrow> verbose_trade_state option" where
  "get_trade_state E ask bid bm base quote = do {
     ask_user_base \<leftarrow> balance_total E bm (uuid_to_string E (o_user ask)) base;
     ask_user_quote \<leftarrow> balance_total E bm (uuid_to_string E (o_user ask)) quote;
     bid_user_base \<leftarrow> balance_total E bm (uuid_to_string E (o_user bid)) base;
     bid_user_quote \<leftarrow> balance_total E bm (uuid_to_string E (o_user bid)) quote;
     Some \<lparr>vt_order_states = [order_state_of ask, order_state_of bid],
           vt_balance_states =
             [\<lparr>vb_user_id = o_user ask, vb_asset = base, vb_balance = ask_user_base\<rparr>,
              \<lparr>vb_user_id = o_user ask, vb_asset = quote, vb_balance = ask_user_quote\<rparr>,
              \<lparr>vb_user_id = o_user bid, vb_asset = base, vb_balance = bid_user_base\<rparr>,
              \<lparr>vb_user_id = o_user bid, vb_asset = quote, vb_balance = bid_user_quote\<rparr>]\<rparr>
   }"

text \<open>The loop either leaves (\<^verbatim>\<open>break\<close>) or goes on.\<close>

datatype 'a flow = Break | Go 'a

text \<open>Step 3: how much to trade. A division by a zero price panics.\<close>

definition trade_amount ::
  "env \<Rightarrow> market \<Rightarrow> order \<Rightarrow> order \<Rightarrow> decimal \<Rightarrow> decimal \<Rightarrow> decimal flow option" where
  "trade_amount E m taker maker quote_sum quote_limit = (
     let price = o_price maker;
         traded_base_amount = min (o_remain taker) (o_remain maker)
     in if o_side taker = BID \<and> o_type taker \<noteq> LIMIT \<and>
           quote_limit < dec_add E quote_sum (dec_mul E price traded_base_amount)
        then if price = 0 then None
             else let remain_quote_limit = dec_sub E quote_limit quote_sum;
                      traded_base_amount = round_dp_to_zero E (dec_div E remain_quote_limit price) (m_amount_prec m)
                  in Some (if traded_base_amount = 0 then Break else Go traded_base_amount)
        else Some (Go traded_base_amount))"

text \<open>Step 5: one side of a fill.\<close>

definition fill_order :: "env \<Rightarrow> decimal \<Rightarrow> decimal \<Rightarrow> decimal \<Rightarrow> order \<Rightarrow> order" where
  "fill_order E base_amount quote_amount fee o' = o'\<lparr>
     o_remain := dec_sub E (o_remain o') base_amount,
     o_finished_base := dec_add E (o_finished_base o') base_amount,
     o_finished_quote := dec_add E (o_finished_quote o') quote_amount,
     o_finished_fee := dec_add E (o_finished_fee o') fee\<rparr>"

text \<open>Step 6: the four balance updates of a trade, each unwrapped.\<close>

definition trade_params ::
  "BalanceType \<Rightarrow> uuid \<Rightarrow> string \<Rightarrow> u64 \<Rightarrow> decimal \<Rightarrow> decimal \<Rightarrow> balance_update_params" where
  "trade_params t u a trade_id market_price change =
     \<lparr>up_balance_type = t, up_business_type = Trade, up_user_id = u, up_business_id = trade_id,
      up_asset = a, up_business = ''trade'', up_market_price = market_price, up_change = change,
      up_detail = ''null''\<rparr>"

definition update_unwrap :: "env \<Rightarrow> balance_update_params \<Rightarrow> ctx \<Rightarrow> ctx option" where
  "update_unwrap E p cx = (case update_user_balance E p cx of Some (cx', Inr _) \<Rightarrow> Some cx' | _ \<Rightarrow> None)"

definition settle_trade ::
  "env \<Rightarrow> market \<Rightarrow> bool \<Rightarrow> uuid \<Rightarrow> uuid \<Rightarrow> u64 \<Rightarrow> decimal \<Rightarrow> decimal \<Rightarrow> decimal \<Rightarrow> decimal \<Rightarrow> ctx \<Rightarrow> ctx option" where
  "settle_trade E m taker_is_ask ask_user bid_user trade_id base_amount quote_amount ask_fee bid_fee cx = (
     let maker_is_bid = taker_is_ask; maker_is_ask = (\<not> maker_is_bid)
     in do {
       cx \<leftarrow> update_unwrap E (trade_params AVAILABLE bid_user (m_base m) trade_id (m_price m)
               (if 0 \<le> bid_fee then dec_sub E base_amount bid_fee else base_amount)) cx;
       cx \<leftarrow> update_unwrap E (trade_params (if maker_is_ask then FREEZE else AVAILABLE) ask_user
               (m_base m) trade_id (m_price m) (- base_amount)) cx;
       cx \<leftarrow> update_unwrap E (trade_params AVAILABLE ask_user (m_quote m) trade_id (m_price m)
               (if 0 \<le> ask_fee then dec_sub E quote_amount ask_fee else quote_amount)) cx;
       update_unwrap E (trade_params (if maker_is_bid then FREEZE else AVAILABLE) bid_user
               (m_quote m) trade_id (m_price m) (- quote_amount)) cx
     })"

record match_state =
  ms_market :: market
  ms_cx :: ctx
  ms_taker :: order
  ms_quote_sum :: decimal
  ms_finished :: "order list"
  ms_need_cancel :: bool

text \<open>Steps 4 to 7 for the maker at position \<open>r\<close> and a decided amount.\<close>

definition exec_trade :: "env \<Rightarrow> rc \<Rightarrow> decimal \<Rightarrow> match_state \<Rightarrow> match_state option" where
  "exec_trade E r traded_base_amount ms = (
     let m = ms_market ms; cx = ms_cx ms; taker = ms_taker ms; maker = deep m r;
         taker_is_ask = (o_side taker = ASK); maker_is_bid = taker_is_ask;
         (ask_fee_rate, bid_fee_rate) =
           (if taker_is_ask then (o_taker_fee taker, o_maker_fee maker)
            else (o_maker_fee maker, o_taker_fee taker));
         price = o_price maker;
         traded_quote_amount = dec_mul E price traded_base_amount;
         quote_sum = dec_add E (ms_quote_sum ms) traded_quote_amount;
         bid_fee = round_dp_to_zero E (dec_mul E traded_base_amount bid_fee_rate) (m_base_prec m);
         ask_fee = round_dp_to_zero E (dec_mul E traded_quote_amount ask_fee_rate) (m_quote_prec m);
         (cx, timestamp) = read_clock E cx;
         (ask_order, bid_order) =
           (if taker_is_ask then (taker, maker) else (maker, taker));
         ask_order = ask_order\<lparr>o_update_time := timestamp\<rparr>;
         bid_order = bid_order\<lparr>o_update_time := timestamp\<rparr>;
         (sq, trade_id) = next_trade_id (cx_sequencer cx);
         cx = cx\<lparr>cx_sequencer := sq\<rparr>;
         (cx, trade_time) = read_clock E cx;
         ask_after = fill_order E traded_base_amount traded_quote_amount ask_fee ask_order;
         bid_after = fill_order E traded_base_amount traded_quote_amount bid_fee bid_order
     in do {
       state_before \<leftarrow> get_trade_state E ask_order bid_order (cx_bm cx) (m_base m) (m_quote m);
       let m = m\<lparr>m_trade_count := m_trade_count m + 1\<rparr>;
       cx \<leftarrow> settle_trade E m taker_is_ask (o_user ask_order) (o_user bid_order) trade_id
               traded_base_amount traded_quote_amount ask_fee bid_fee cx;
       state_after \<leftarrow> get_trade_state E ask_after bid_after (cx_bm cx) (m_base m) (m_quote m);
       let trade = \<lparr>
         t_id = trade_id, t_timestamp = trade_time, t_market = m_name m, t_base = m_base m,
         t_quote = m_quote m, t_price = price, t_amount = traded_base_amount,
         t_quote_amount = traded_quote_amount, t_ask_user_id = o_user ask_order,
         t_ask_order_id = o_id ask_order, t_ask_role = (if taker_is_ask then TAKER else MAKER),
         t_ask_fee = ask_fee, t_bid_user_id = o_user bid_order, t_bid_order_id = o_id bid_order,
         t_bid_role = (if taker_is_ask then MAKER else TAKER), t_bid_fee = bid_fee,
         t_ask_order = (if o_finished_base ask_order = 0 then Some ask_order else None),
         t_bid_order = (if o_finished_base bid_order = 0 then Some bid_order else None),
         t_state_before = state_before, t_state_after = state_after\<rparr>;
       let cx = emit (PutTrade trade) cx;
       let (taker, maker) = (if taker_is_ask then (ask_after, bid_after) else (bid_after, ask_after));
       let maker = maker\<lparr>o_frozen := dec_sub E (o_frozen maker)
                           (if maker_is_bid then traded_quote_amount else traded_base_amount)\<rparr>;
       let m = rc_write r maker m;
       let (finished, cx) =
         (if o_remain maker = 0 then (ms_finished ms @ [maker], cx)
          else (ms_finished ms, emit (PutOrder maker UPDATE) cx));
       Some (ms\<lparr>ms_market := m\<lparr>m_price := price\<rparr>, ms_cx := cx, ms_taker := taker,
                ms_quote_sum := quote_sum, ms_finished := finished\<rparr>)
     })"

text \<open>One turn of the loop; the flag tells whether to go on to the next maker.\<close>

definition match_step :: "env \<Rightarrow> decimal \<Rightarrow> rc \<Rightarrow> match_state \<Rightarrow> (bool \<times> match_state) option" where
  "match_step E quote_limit r ms = (
     let m = ms_market ms; taker = ms_taker ms; maker = deep m r;
         (ask_order, bid_order) = (if o_side taker = ASK then (taker, maker) else (maker, taker))
     in if o_remain taker = 0 then Some (False, ms)
        else if o_type taker = LIMIT \<and> o_price ask_order > o_price bid_order then Some (False, ms)
        else if o_post_only taker then Some (False, ms\<lparr>ms_need_cancel := True\<rparr>)
        else if o_user ask_order = o_user bid_order \<and> m_disable_self_trade m
        then Some (False, ms\<lparr>ms_need_cancel := True\<rparr>)
        else do {
          f \<leftarrow> trade_amount E m taker maker (ms_quote_sum ms) quote_limit;
          case f of Break \<Rightarrow> Some (False, ms)
          | Go traded_base_amount \<Rightarrow> do { ms' \<leftarrow> exec_trade E r traded_base_amount ms; Some (True, ms') }
        })"

fun match_loop :: "env \<Rightarrow> decimal \<Rightarrow> rc list \<Rightarrow> match_state \<Rightarrow> match_state option" where
  "match_loop E quote_limit [] ms = Some ms"
| "match_loop E quote_limit (r # rs) ms = do {
     (go, ms') \<leftarrow> match_step E quote_limit r ms;
     if go then match_loop E quote_limit rs ms' else Some ms'
   }"

definition counter_orders :: "market \<Rightarrow> OrderSide \<Rightarrow> rc list" where
  "counter_orders m taker_side = (if taker_side = ASK then map snd (m_bids m) else map snd (m_asks m))"

definition execute_order ::
  "env \<Rightarrow> order \<Rightarrow> decimal \<Rightarrow> market \<Rightarrow> ctx \<Rightarrow> (market \<times> ctx \<times> order) option" where
  "execute_order E taker quote_limit m cx = (
     let cx = emit (PutOrder taker PUT) cx
     in do {
       ms \<leftarrow> match_loop E quote_limit (counter_orders m (o_side taker))
               \<lparr>ms_market = m, ms_cx = cx, ms_taker = taker, ms_quote_sum = 0, ms_finished = [],
                ms_need_cancel = False\<rparr>;
       (m, cx) \<leftarrow> order_finish_all E (ms_finished ms) (ms_market ms, ms_cx ms);
       let taker = ms_taker ms;
       if ms_need_cancel ms then Some (m, emit (PutOrder taker FINISH) cx, taker)
       else if o_type taker = MARKET then Some (m, emit (PutOrder taker FINISH) cx, taker)
       else if o_remain taker = 0 then Some (m, emit (PutOrder taker FINISH) cx, taker)
       else do {
         let (m, taker) = insert_order_into_orderbook E taker m;
         cx \<leftarrow> frozen_balance E m taker cx;
         Some (m, cx, taker)
       }
     })"

text \<open>The checks of \<^verbatim>\<open>put_order\<close> up to the balance, in the order of the code.\<close>

definition check_order_input :: "env \<Rightarrow> market \<Rightarrow> order_input \<Rightarrow> string + unit" where
  "check_order_input E m i =
     (if i_type i = MARKET \<and> m_disable_market_order m then Inl ''market orders disabled''
      else if i_amount i < m_min_amount m then Inl ''invalid amount''
      else if m_fee_prec m = 0 \<and> (i_taker_fee i \<noteq> 0 \<or> i_maker_fee i \<noteq> 0)
      then Inl ''only 0 fee is supported now''
      else if round_dp_to_zero E (i_amount i) (m_amount_prec m) \<noteq> i_amount i
      then Inl ''invalid amount precision''
      else if round_dp E (i_price i) (m_price_prec m) \<noteq> i_price i then Inl ''invalid price precision''
      else if i_type i = MARKET then
        if i_price i \<noteq> 0 then Inl ''market order should not have a price''
        else if i_post_only i then Inl ''market order cannot be post only''
        else if i_side i = ASK \<and> m_bids m = [] \<or> i_side i = BID \<and> m_asks m = []
        then Inl ''no counter orders'' else Inr ()
      else if i_price i = 0 then Inl ''invalid price for limit order'' else Inr ())"

definition check_balance :: "env \<Rightarrow> market \<Rightarrow> order_input \<Rightarrow> uuid \<Rightarrow> balance_manager \<Rightarrow> (string + unit) option" where
  "check_balance E m i user_id bm =
     (if i_side i = ASK then do {
        balance \<leftarrow> balance_get E bm (uuid_to_string E user_id) AVAILABLE (m_base m);
        Some (if balance < i_amount i then Inl ''balance not enough'' else Inr ())
      } else do {
        balance \<leftarrow> balance_get E bm (uuid_to_string E user_id) AVAILABLE (m_quote m);
        Some (if i_type i = LIMIT \<and> balance < dec_mul E (i_amount i) (i_price i)
              then Inl (''balance not enough: balance('' @ dec_to_string E balance @ '') < amount('' @
                     dec_to_string E (i_amount i) @ '') * price('' @ dec_to_string E (i_price i) @ '')'')
              else Inr ())
      })"

definition quote_limit_of :: "env \<Rightarrow> market \<Rightarrow> order_input \<Rightarrow> uuid \<Rightarrow> balance_manager \<Rightarrow> decimal option" where
  "quote_limit_of E m i user_id bm =
     (if i_type i = MARKET \<and> i_side i = BID then do {
        balance \<leftarrow> balance_get E bm (uuid_to_string E user_id) AVAILABLE (m_quote m);
        if i_quote_limit i = 0 then Some balance
        else do {
          p \<leftarrow> asset_prec (bm_asset_manager bm) (m_quote m);
          Some (min balance (round_dp_to_zero E (i_quote_limit i) p))
        }
      } else Some 0)"

definition order_of_input :: "market \<Rightarrow> order_input \<Rightarrow> uuid \<Rightarrow> u64 \<Rightarrow> timestamp \<Rightarrow> order" where
  "order_of_input m i user_id order_id t = \<lparr>
     o_id = order_id, o_base = m_base m, o_quote = m_quote m, o_market = m_name m,
     o_type = i_type i, o_side = i_side i, o_user = user_id, o_post_only = i_post_only i,
     o_price = i_price i, o_amount = i_amount i, o_maker_fee = i_maker_fee i,
     o_taker_fee = i_taker_fee i, o_create_time = t, o_remain = i_amount i, o_frozen = 0,
     o_finished_base = 0, o_finished_quote = 0, o_finished_fee = 0, o_update_time = t\<rparr>"

definition put_order ::
  "env \<Rightarrow> order_input \<Rightarrow> uuid \<Rightarrow> market \<Rightarrow> ctx \<Rightarrow> (market \<times> ctx \<times> (string + order)) option" where
  "put_order E i user_id m cx =
     (case check_order_input E m i of
        Inl e \<Rightarrow> Some (m, cx, Inl e)
      | Inr _ \<Rightarrow> do {
          b \<leftarrow> check_balance E m i user_id (cx_bm cx);
          case b of
            Inl e \<Rightarrow> Some (m, cx, Inl e)
          | Inr _ \<Rightarrow> do {
              quote_limit \<leftarrow> quote_limit_of E m i user_id (cx_bm cx);
              let (cx, t) = read_clock E cx;
              let (sq, order_id) = next_order_id (cx_sequencer cx);
              let cx = cx\<lparr>cx_sequencer := sq\<rparr>;
              (m, cx, o') \<leftarrow> execute_order E (order_of_input m i user_id order_id t) quote_limit m cx;
              Some (m, cx, Inr o')
            }
        })"

section \<open>Cancellation\<close>

definition market_cancel :: "env \<Rightarrow> u64 \<Rightarrow> market \<Rightarrow> ctx \<Rightarrow> (market \<times> ctx \<times> order) option" where
  "market_cancel E order_id m cx = do {
     r \<leftarrow> bt_get (m_orders m) order_id;
     let order_struct = deep m r;
     (m, cx) \<leftarrow> order_finish E order_struct (m, cx);
     Some (m, cx, order_struct)
   }"

fun cancel_orders :: "env \<Rightarrow> u64 list \<Rightarrow> market \<times> ctx \<Rightarrow> (market \<times> ctx) option" where
  "cancel_orders E [] mc = Some mc"
| "cancel_orders E (i # is) mc = do {
     r \<leftarrow> bt_get (m_orders (fst mc)) i;
     let order_struct = deep (fst mc) r;
     mc \<leftarrow> order_finish E order_struct mc;
     cancel_orders E is mc
   }"

definition cancel_all_for_user :: "env \<Rightarrow> string \<Rightarrow> market \<Rightarrow> ctx \<Rightarrow> (market \<times> ctx \<times> nat) option" where
  "cancel_all_for_user E user_id m cx = do {
     u \<leftarrow> uuid_parse E user_id;
     let order_ids = map fst (case bt_get (m_users m) u of None \<Rightarrow> [] | Some um \<Rightarrow> um);
     (m, cx) \<leftarrow> cancel_orders E order_ids (m, cx);
     Some (m, cx, length order_ids)
   }"

section \<open>Queries\<close>

definition market_get :: "market \<Rightarrow> u64 \<Rightarrow> order option" where
  "market_get m order_id = map_option (deep m) (bt_get (m_orders m) order_id)"

definition get_order_num_of_user :: "market \<Rightarrow> uuid \<Rightarrow> nat" where
  "get_order_num_of_user m u = (case bt_get (m_users m) u of None \<Rightarrow> 0 | Some um \<Rightarrow> length um)"

definition get_order_of_user :: "market \<Rightarrow> uuid \<Rightarrow> order list" where
  "get_order_of_user m u =
     map (\<lambda>(_, r). deep m r) (case bt_get (m_users m) u of None \<Rightarrow> [] | Some um \<Rightarrow> um)"

record market_status =
  mst_name :: string
  mst_ask_count :: nat
  mst_ask_amount :: decimal
  mst_bid_count :: nat
  mst_bid_amount :: decimal
  mst_trade_count :: u64

definition dec_sum :: "env \<Rightarrow> decimal list \<Rightarrow> decimal" where
  "dec_sum E xs = foldl (dec_add E) 0 xs"

definition status :: "env \<Rightarrow> market \<Rightarrow> market_status" where
  "status E m = \<lparr>
     mst_name = m_name m,
     mst_ask_count = length (m_asks m),
     mst_ask_amount = dec_sum E (map (\<lambda>(_, r). o_remain (deep m r)) (m_asks m)),
     mst_bid_count = length (m_bids m),
     mst_bid_amount = dec_sum E (map (\<lambda>(_, r). o_remain (deep m r)) (m_bids m)),
     mst_trade_count = m_trade_count m\<rparr>"

record price_info =
  pi_price :: decimal
  pi_amount :: decimal

record market_depth =
  dp_asks :: "price_info list"
  dp_bids :: "price_info list"

text \<open>\<^verbatim>\<open>Itertools::group_by\<close>: maximal runs of consecutive elements with one key.\<close>

fun group_runs :: "('a \<Rightarrow> 'k) \<Rightarrow> 'a list \<Rightarrow> ('k \<times> 'a list) list" where
  "group_runs f [] = []"
| "group_runs f (x # xs) =
     (case group_runs f xs of
        [] \<Rightarrow> [(f x, [x])]
      | (k, g) # gs \<Rightarrow> if f x = k then (k, x # g) # gs else (f x, [x]) # (k, g) # gs)"

definition group_ordebook_by_fn ::
  "env \<Rightarrow> market \<Rightarrow> rc list \<Rightarrow> nat \<Rightarrow> (order \<Rightarrow> decimal) \<Rightarrow> price_info list" where
  "group_ordebook_by_fn E m book limit f =
     map (\<lambda>(price, g). \<lparr>pi_price = price, pi_amount = dec_sum E (map (\<lambda>r. o_remain (deep m r)) g)\<rparr>)
       (take limit (group_runs (\<lambda>r. f (deep m r)) book))"

definition depth :: "env \<Rightarrow> market \<Rightarrow> nat \<Rightarrow> decimal \<Rightarrow> market_depth" where
  "depth E m limit interval =
     (if interval = 0 then
        \<lparr>dp_asks = group_ordebook_by_fn E m (map snd (m_asks m)) limit o_price,
         dp_bids = group_ordebook_by_fn E m (map snd (m_bids m)) limit o_price\<rparr>
      else
        \<lparr>dp_asks = group_ordebook_by_fn E m (map snd (m_asks m)) limit
                     (\<lambda>o'. dec_mul E (dec_ceil E (dec_div E (o_price o') interval)) interval),
         dp_bids = group_ordebook_by_fn E m (map snd (m_bids m)) limit
                     (\<lambda>o'. dec_mul E (dec_floor E (dec_div E (o_price o') interval)) interval)\<rparr>)"

end
