(* ===== verification/MarketInv.thy ===== *)
theory MarketInv
  imports Market
begin

text \<open>
  The well-formedness of a market and of the context it works on, and the lemmas on the three
  ways its book changes: an order is written through its reference, inserted, or removed.
\<close>

section \<open>Structure of the book\<close>

text \<open>
  The four maps are sorted, and the sides of the book and the per-user maps are exactly the
  views of \<open>m_orders\<close> that their keys announce.
\<close>

definition in_users :: "market \<Rightarrow> uuid \<Rightarrow> u64 \<Rightarrow> rc \<Rightarrow> bool" where
  "in_users m u i r \<longleftrightarrow> (\<exists>um. (u, um) \<in> set (m_users m) \<and> (i, r) \<in> set um)"

definition book_struct :: "market \<Rightarrow> bool" where
  "book_struct m \<longleftrightarrow>
     bt_inv (m_orders m) \<and> bt_inv (m_users m) \<and> (\<forall>(u, um) \<in> set (m_users m). bt_inv um) \<and>
     bt_inv (m_asks m) \<and> bt_inv (m_bids m) \<and>
     (\<forall>(i, r) \<in> set (m_orders m). r < length (m_heap m) \<and> o_id (deep m r) = i) \<and>
     (\<forall>k r. (k, r) \<in> set (m_asks m) \<longleftrightarrow>
        (o_id (deep m r), r) \<in> set (m_orders m) \<and> o_side (deep m r) = ASK \<and> k = get_ask_key (deep m r)) \<and>
     (\<forall>k r. (k, r) \<in> set (m_bids m) \<longleftrightarrow>
        (o_id (deep m r), r) \<in> set (m_orders m) \<and> o_side (deep m r) = BID \<and> k = get_bid_key (deep m r)) \<and>
     (\<forall>u i r. in_users m u i r \<longleftrightarrow> (i, r) \<in> set (m_orders m) \<and> u = o_user (deep m r))"

text \<open>The part of an order that never changes (the comment in \<^verbatim>\<open>struct Order\<close>).\<close>

definition same_const :: "order \<Rightarrow> order \<Rightarrow> bool" where
  "same_const a b \<longleftrightarrow> o_id b = o_id a \<and> o_base b = o_base a \<and> o_quote b = o_quote a \<and>
     o_market b = o_market a \<and> o_type b = o_type a \<and> o_side b = o_side a \<and> o_user b = o_user a \<and>
     o_post_only b = o_post_only a \<and> o_price b = o_price a \<and> o_amount b = o_amount a \<and>
     o_maker_fee b = o_maker_fee a \<and> o_taker_fee b = o_taker_fee a \<and> o_create_time b = o_create_time a"

lemma same_const_refl [simp]: "same_const a a"
  by (simp add: same_const_def)

lemma same_const_trans: "same_const a b \<Longrightarrow> same_const b c \<Longrightarrow> same_const a c"
  by (simp add: same_const_def)

lemma same_const_key:
  "same_const a b \<Longrightarrow> get_ask_key b = get_ask_key a \<and> get_bid_key b = get_bid_key a"
  by (simp add: same_const_def get_ask_key_def get_bid_key_def)

lemma rc_write_sel [simp]:
  "m_name (rc_write r x m) = m_name m" "m_base (rc_write r x m) = m_base m" "m_quote (rc_write r x m) = m_quote m"
  "m_amount_prec (rc_write r x m) = m_amount_prec m" "m_price_prec (rc_write r x m) = m_price_prec m"
  "m_base_prec (rc_write r x m) = m_base_prec m" "m_quote_prec (rc_write r x m) = m_quote_prec m"
  "m_fee_prec (rc_write r x m) = m_fee_prec m" "m_min_amount (rc_write r x m) = m_min_amount m"
  "m_orders (rc_write r x m) = m_orders m" "m_users (rc_write r x m) = m_users m"
  "m_asks (rc_write r x m) = m_asks m" "m_bids (rc_write r x m) = m_bids m"
  "m_disable_self_trade (rc_write r x m) = m_disable_self_trade m"
  "m_trade_count (rc_write r x m) = m_trade_count m"
  "m_price (rc_write r x m) = m_price m"
  "length (m_heap (rc_write r x m)) = length (m_heap m)"
  by (simp_all add: rc_write_def)

lemma deep_write: "r < length (m_heap m) \<Longrightarrow> deep (rc_write r x m) r' = (if r' = r then x else deep m r')"
  by (simp add: deep_def rc_write_def)

lemma deep_cong [simp]:
  "deep (m\<lparr>m_price := p\<rparr>) r = deep m r" "deep (m\<lparr>m_trade_count := c\<rparr>) r = deep m r"
  "deep (m\<lparr>m_asks := a\<rparr>) r = deep m r" "deep (m\<lparr>m_bids := b\<rparr>) r = deep m r"
  "deep (m\<lparr>m_orders := os\<rparr>) r = deep m r" "deep (m\<lparr>m_users := us\<rparr>) r = deep m r"
  by (simp_all add: deep_def)

lemma book_struct_price [simp]: "book_struct (m\<lparr>m_price := p\<rparr>) = book_struct m"
  by (simp add: book_struct_def in_users_def)

lemma book_struct_trade_count [simp]: "book_struct (m\<lparr>m_trade_count := c\<rparr>) = book_struct m"
  by (simp add: book_struct_def in_users_def)

lemma book_struct_write:
  assumes bs: "book_struct m" and r: "r < length (m_heap m)" and sc: "same_const (deep m r) x"
  shows "book_struct (rc_write r x m)"
proof -
  have "get_ask_key (deep (rc_write r x m) r') = get_ask_key (deep m r')"
    "get_bid_key (deep (rc_write r x m) r') = get_bid_key (deep m r')"
    "o_id (deep (rc_write r x m) r') = o_id (deep m r')"
    "o_side (deep (rc_write r x m) r') = o_side (deep m r')"
    "o_user (deep (rc_write r x m) r') = o_user (deep m r')" for r'
    using sc by (auto simp: deep_write [OF r] same_const_key) (auto simp: same_const_def)
  with bs show ?thesis by (simp add: book_struct_def in_users_def)
qed

lemma book_structD:
  assumes "book_struct m"
  shows "bt_inv (m_orders m)" and "bt_inv (m_users m)"
    and "(u, um) \<in> set (m_users m) \<Longrightarrow> bt_inv um"
    and "bt_inv (m_asks m)" and "bt_inv (m_bids m)"
    and "(i, r) \<in> set (m_orders m) \<Longrightarrow> r < length (m_heap m)"
    and "(i, r) \<in> set (m_orders m) \<Longrightarrow> o_id (deep m r) = i"
    and "(k, r) \<in> set (m_asks m) \<longleftrightarrow>
        (o_id (deep m r), r) \<in> set (m_orders m) \<and> o_side (deep m r) = ASK \<and> k = get_ask_key (deep m r)"
    and "(k', r) \<in> set (m_bids m) \<longleftrightarrow>
        (o_id (deep m r), r) \<in> set (m_orders m) \<and> o_side (deep m r) = BID \<and> k' = get_bid_key (deep m r)"
    and "in_users m u i r \<longleftrightarrow> (i, r) \<in> set (m_orders m) \<and> u = o_user (deep m r)"
proof -
  note d = assms [unfolded book_struct_def]
  show "bt_inv (m_orders m)" "bt_inv (m_users m)" "bt_inv (m_asks m)" "bt_inv (m_bids m)"
    using d by simp_all
  show "(u, um) \<in> set (m_users m) \<Longrightarrow> bt_inv um"
    using d by (elim conjE) (drule (1) bspec, simp)
  have "\<forall>(i, r) \<in> set (m_orders m). r < length (m_heap m) \<and> o_id (deep m r) = i"
    using d by blast
  then show "(i, r) \<in> set (m_orders m) \<Longrightarrow> r < length (m_heap m)"
    "(i, r) \<in> set (m_orders m) \<Longrightarrow> o_id (deep m r) = i" by auto
qed (use assms in \<open>simp_all add: book_struct_def\<close>)

lemmas book_inv_maps = book_structD(1,2,4,5)

lemma orders_inj:
  assumes "book_struct m" and "(i, r) \<in> set (m_orders m)" and "(j, r) \<in> set (m_orders m)"
  shows "i = j"
  using book_structD(7) [OF assms(1,2)] book_structD(7) [OF assms(1,3)] by simp

lemma orders_fun:
  assumes "book_struct m" and "(i, r) \<in> set (m_orders m)" and "(i, r') \<in> set (m_orders m)"
  shows "r = r'"
  using bt_get_iff [OF book_structD(1) [OF assms(1)], of i r] bt_get_iff [OF book_structD(1) [OF assms(1)], of i r']
    assms(2,3) by simp

lemma distinct_orders_rc: "book_struct m \<Longrightarrow> distinct (map snd (m_orders m))"
  unfolding distinct_map
  using bt_inv_distinct [OF book_structD(1)] orders_inj
  by (auto simp: distinct_map inj_on_def)

section \<open>Removal\<close>

definition remove_order :: "order \<Rightarrow> market \<Rightarrow> market" where
  "remove_order o' m = m\<lparr>
     m_asks := (if o_side o' = ASK then bt_remove (get_ask_key o') (m_asks m) else m_asks m),
     m_bids := (if o_side o' = ASK then m_bids m else bt_remove (get_bid_key o') (m_bids m)),
     m_orders := bt_remove (o_id o') (m_orders m),
     m_users := bt_insert (o_user o')
       (bt_remove (o_id o') (the (bt_get (m_users m) (o_user o')))) (m_users m)\<rparr>"

lemma remove_order_deep [simp]: "deep (remove_order x m) r = deep m r"
  by (simp add: remove_order_def deep_def)

lemma remove_order_sel [simp]:
  "m_name (remove_order x m) = m_name m" "m_base (remove_order x m) = m_base m"
  "m_quote (remove_order x m) = m_quote m" "m_amount_prec (remove_order x m) = m_amount_prec m"
  "m_price_prec (remove_order x m) = m_price_prec m" "m_base_prec (remove_order x m) = m_base_prec m"
  "m_quote_prec (remove_order x m) = m_quote_prec m" "m_disable_self_trade (remove_order x m) = m_disable_self_trade m"
  "m_orders (remove_order x m) = bt_remove (o_id x) (m_orders m)" "m_heap (remove_order x m) = m_heap m"
  "m_min_amount (remove_order x m) = m_min_amount m"
  by (simp_all add: remove_order_def)

lemma users_get:
  assumes bs: "book_struct m" and "(i, r) \<in> set (m_orders m)"
  shows "\<exists>um. bt_get (m_users m) (o_user (deep m r)) = Some um"
  using book_structD(10) [OF bs, of "o_user (deep m r)" i r] assms(2)
  by (auto simp: in_users_def bt_get_iff [OF book_structD(2) [OF bs]])

lemma users_map:
  assumes bs: "book_struct m" and um: "bt_get (m_users m) u = Some um"
  shows "bt_inv um" and "(i, r) \<in> set um \<longleftrightarrow> (i, r) \<in> set (m_orders m) \<and> o_user (deep m r) = u"
proof -
  note get = bt_get_iff [OF book_structD(2) [OF bs]]
  from um have in_users: "(u, um) \<in> set (m_users m)" by (simp add: get)
  from book_structD(3) [OF bs this] show "bt_inv um" .
  have only: "um' = um" if "(u, um') \<in> set (m_users m)" for um'
    using that um get [of u um'] by simp
  have "(i, r) \<in> set um \<longleftrightarrow> in_users m u i r"
    unfolding in_users_def using in_users only by blast
  then show "(i, r) \<in> set um \<longleftrightarrow> (i, r) \<in> set (m_orders m) \<and> o_user (deep m r) = u"
    using book_structD(10) [OF bs, of u i r] by metis
qed

lemma users_map_None:
  assumes bs: "book_struct m" and um: "bt_get (m_users m) u = None" and "(i, r) \<in> set (m_orders m)"
  shows "o_user (deep m r) \<noteq> u"
  using users_get [OF bs assms(3)] um by auto

lemma in_users_insert:
  assumes "bt_inv (m_users m)"
  shows "in_users (m\<lparr>m_users := bt_insert u um (m_users m)\<rparr>) v i r \<longleftrightarrow>
    (if v = u then (i, r) \<in> set um else in_users m v i r)"
  using assms by (auto simp: in_users_def set_bt_insert)

lemma in_users_cong: "m_users m = m_users m' \<Longrightarrow> in_users m = in_users m'"
  by (simp add: in_users_def fun_eq_iff)

lemma book_struct_remove:
  assumes bs: "book_struct m" and ir: "(o_id x, r) \<in> set (m_orders m)" and x: "same_const (deep m r) x"
  shows "book_struct (remove_order x m)"
proof -
  have cx: "o_user x = o_user (deep m r)" "o_side x = o_side (deep m r)"
    "get_ask_key x = get_ask_key (deep m r)" "get_bid_key x = get_bid_key (deep m r)"
    "o_id x = o_id (deep m r)"
    using x by (auto simp: same_const_def get_ask_key_def get_bid_key_def)
  from users_get [OF bs ir] obtain um where um: "bt_get (m_users m) (o_user x) = Some um"
    by (auto simp: cx)
  note inv = book_inv_maps [OF bs] and ids = book_structD(7) [OF bs]
  have same: "s = r" if "(o_id x, s) \<in> set (m_orders m)" for s
    using orders_fun [OF bs ir that] by simp
  have "in_users (remove_order x m) v i s \<longleftrightarrow>
      in_users (m\<lparr>m_users := bt_insert (o_user x) (bt_remove (o_id x) um) (m_users m)\<rparr>) v i s" for v i s
    by (rule fun_cong [OF fun_cong [OF fun_cong [OF in_users_cong]]]) (simp add: remove_order_def um)
  then have view: "in_users (remove_order x m) v i s \<longleftrightarrow>
      (i, s) \<in> set (m_orders m) \<and> i \<noteq> o_id x \<and> v = o_user (deep m s)" for v i s
    using same by (auto simp: in_users_insert [OF inv(2)] set_bt_remove users_map(2) [OF bs um]
        book_structD(10) [OF bs] cx)
  have asks: "(k, s) \<in> set (m_asks (remove_order x m)) \<longleftrightarrow> (o_id (deep m s), s) \<in> set (m_orders m) \<and>
      o_id (deep m s) \<noteq> o_id x \<and> o_side (deep m s) = ASK \<and> k = get_ask_key (deep m s)" for k s
    using same [of s] by (auto simp: remove_order_def set_bt_remove book_structD(8) [OF bs] get_key_eq cx)
  have bids: "(k, s) \<in> set (m_bids (remove_order x m)) \<longleftrightarrow> (o_id (deep m s), s) \<in> set (m_orders m) \<and>
      o_id (deep m s) \<noteq> o_id x \<and> o_side (deep m s) = BID \<and> k = get_bid_key (deep m s)" for k s
    using same [of s] by (auto simp: remove_order_def set_bt_remove book_structD(9) [OF bs] get_key_eq cx)
  have maps: "bt_inv (m_users (remove_order x m))" "\<forall>(u, um) \<in> set (m_users (remove_order x m)). bt_inv um"
    "bt_inv (m_asks (remove_order x m))" "bt_inv (m_bids (remove_order x m))"
    using inv users_map(1) [OF bs um] book_structD(3) [OF bs]
    by (auto simp: remove_order_def bt_inv_insert bt_inv_remove set_bt_insert um)
  show ?thesis
    unfolding book_struct_def
    using maps book_structD(6,7) [OF bs] inv(1)
    by (auto simp: view asks bids set_bt_remove bt_inv_remove)
qed

section \<open>Insertion\<close>

definition user_map :: "market \<Rightarrow> uuid \<Rightarrow> (u64 \<times> rc) list" where
  "user_map m u = (case bt_get (m_users m) u of None \<Rightarrow> [] | Some um \<Rightarrow> um)"

definition add_order :: "order \<Rightarrow> market \<Rightarrow> market" where
  "add_order x m = m\<lparr>
     m_heap := m_heap m @ [x],
     m_orders := bt_insert (o_id x) (length (m_heap m)) (m_orders m),
     m_users := bt_insert (o_user x) (bt_insert (o_id x) (length (m_heap m)) (user_map m (o_user x))) (m_users m),
     m_asks := (if o_side x = ASK then bt_insert (get_ask_key x) (length (m_heap m)) (m_asks m) else m_asks m),
     m_bids := (if o_side x = ASK then m_bids m else bt_insert (get_bid_key x) (length (m_heap m)) (m_bids m))\<rparr>"

lemma insert_order_into_orderbook_eq:
  "insert_order_into_orderbook E x m =
     (let x' = x\<lparr>o_frozen := if o_side x = ASK then o_remain x else dec_mul E (o_remain x) (o_price x)\<rparr>
      in (add_order x' m, x'))"
  by (simp add: insert_order_into_orderbook_def add_order_def Let_def rc_new_def user_map_def deep_def)

lemma user_map_set:
  assumes bs: "book_struct m"
  shows "bt_inv (user_map m u)" and "(i, r) \<in> set (user_map m u) \<longleftrightarrow> (i, r) \<in> set (m_orders m) \<and> o_user (deep m r) = u"
proof -
  consider (none) "bt_get (m_users m) u = None" | (some) um where "bt_get (m_users m) u = Some um" by blast
  then have "bt_inv (user_map m u) \<and>
    ((i, r) \<in> set (user_map m u) \<longleftrightarrow> (i, r) \<in> set (m_orders m) \<and> o_user (deep m r) = u)"
  proof cases
    case none
    with users_map_None [OF bs none, of i r] show ?thesis by (auto simp: user_map_def bt_inv_def)
  next
    case some
    then show ?thesis by (simp add: user_map_def users_map [OF bs some])
  qed
  then show "bt_inv (user_map m u)"
    and "(i, r) \<in> set (user_map m u) \<longleftrightarrow> (i, r) \<in> set (m_orders m) \<and> o_user (deep m r) = u" by blast+
qed

lemma add_order_sel [simp]:
  "m_name (add_order x m) = m_name m" "m_base (add_order x m) = m_base m"
  "m_quote (add_order x m) = m_quote m" "m_amount_prec (add_order x m) = m_amount_prec m"
  "m_price_prec (add_order x m) = m_price_prec m" "m_base_prec (add_order x m) = m_base_prec m"
  "m_quote_prec (add_order x m) = m_quote_prec m" "m_disable_self_trade (add_order x m) = m_disable_self_trade m"
  "m_orders (add_order x m) = bt_insert (o_id x) (length (m_heap m)) (m_orders m)"
  "m_heap (add_order x m) = m_heap m @ [x]" "m_min_amount (add_order x m) = m_min_amount m"
  by (simp_all add: add_order_def)

lemma deep_add_order_old [simp]: "r < length (m_heap m) \<Longrightarrow> deep (add_order x m) r = deep m r"
  and deep_add_order_new [simp]: "deep (add_order x m) (length (m_heap m)) = x"
  by (simp_all add: deep_def nth_append)

lemma book_struct_add:
  assumes bs: "book_struct m" and fresh: "o_id x \<notin> fst ` set (m_orders m)"
  shows "book_struct (add_order x m)"
proof -
  let ?n = "length (m_heap m)"
  note inv = book_inv_maps [OF bs] and rcs = book_structD(6) [OF bs] and ids = book_structD(7) [OF bs]
  have no_id: "(o_id x, s) \<notin> set (m_orders m)" for s using fresh by force
  have no_new: "(i, ?n) \<notin> set (m_orders m)" for i using rcs [of i ?n] by auto
  have orders: "(i, s) \<in> set (m_orders (add_order x m)) \<longleftrightarrow> i = o_id x \<and> s = ?n \<or> (i, s) \<in> set (m_orders m)" for i s
    using no_id by (auto simp: set_bt_insert [OF inv(1)])
  have asks: "(k, s) \<in> set (m_asks (add_order x m)) \<longleftrightarrow>
      o_side x = ASK \<and> k = get_ask_key x \<and> s = ?n \<or> (k, s) \<in> set (m_asks m)" for k s
    using no_id by (auto simp: add_order_def set_bt_insert [OF inv(3)] book_structD(8) [OF bs] get_key_eq)
  have bids: "(k, s) \<in> set (m_bids (add_order x m)) \<longleftrightarrow>
      o_side x = BID \<and> k = get_bid_key x \<and> s = ?n \<or> (k, s) \<in> set (m_bids m)" for k s
    using no_id by (cases "o_side x") (auto simp: add_order_def set_bt_insert [OF inv(4)] book_structD(9) [OF bs] get_key_eq)
  have "in_users (add_order x m) v i s \<longleftrightarrow>
      in_users (m\<lparr>m_users := bt_insert (o_user x) (bt_insert (o_id x) ?n (user_map m (o_user x))) (m_users m)\<rparr>) v i s" for v i s
    by (rule fun_cong [OF fun_cong [OF fun_cong [OF in_users_cong]]]) (simp add: add_order_def)
  then have view: "in_users (add_order x m) v i s \<longleftrightarrow>
      v = o_user x \<and> i = o_id x \<and> s = ?n \<or> (i, s) \<in> set (m_orders m) \<and> v = o_user (deep m s)" for v i s
    using no_id by (auto simp: in_users_insert [OF inv(2)] set_bt_insert [OF user_map_set(1) [OF bs]]
        user_map_set(2) [OF bs] book_structD(10) [OF bs])
  have maps: "bt_inv (m_users (add_order x m))" "\<forall>(u, um) \<in> set (m_users (add_order x m)). bt_inv um"
    "bt_inv (m_asks (add_order x m))" "bt_inv (m_bids (add_order x m))"
    using inv user_map_set(1) [OF bs] book_structD(3) [OF bs]
    by (auto simp: add_order_def bt_inv_insert set_bt_insert)
  have old: "s < ?n" if "(i, s) \<in> set (m_orders m)" for i s by (rule rcs [OF that])
  show ?thesis
    unfolding book_struct_def
  proof (intro conjI allI)
    show "\<forall>(i, r) \<in> set (m_orders (add_order x m)). r < length (m_heap (add_order x m)) \<and> o_id (deep (add_order x m) r) = i"
      unfolding Ball_def split_paired_All prod.case orders using ids old by (auto simp: less_Suc_eq)
  next
    fix k s
    show "(k, s) \<in> set (m_asks (add_order x m)) \<longleftrightarrow> (o_id (deep (add_order x m) s), s) \<in> set (m_orders (add_order x m)) \<and>
        o_side (deep (add_order x m) s) = ASK \<and> k = get_ask_key (deep (add_order x m) s)"
      unfolding asks orders book_structD(8) [OF bs] using no_new old
      by (cases "s = ?n"; cases "s < ?n") (auto simp: less_not_refl)
  next
    fix k s
    show "(k, s) \<in> set (m_bids (add_order x m)) \<longleftrightarrow> (o_id (deep (add_order x m) s), s) \<in> set (m_orders (add_order x m)) \<and>
        o_side (deep (add_order x m) s) = BID \<and> k = get_bid_key (deep (add_order x m) s)"
      unfolding bids orders book_structD(9) [OF bs] using no_new old
      by (cases "s = ?n"; cases "s < ?n") auto
  next
    fix v i s
    show "in_users (add_order x m) v i s \<longleftrightarrow> (i, s) \<in> set (m_orders (add_order x m)) \<and> v = o_user (deep (add_order x m) s)"
      unfolding view orders using no_new old by (cases "s = ?n"; cases "s < ?n") auto
  qed (use maps inv(1) in \<open>simp_all add: bt_inv_insert\<close>)
qed

end
