(* ===== verification/MarketMatch.thy ===== *)
theory MarketMatch
  imports MarketInv
begin

text \<open>
  One trade of the matching loop: the four balance updates are accepted, and the exact effect on
  the taker, the maker, the balances and the persistor calls.
\<close>

section \<open>Conditions\<close>

definition asset_of :: "market \<Rightarrow> order \<Rightarrow> string" where
  "asset_of m x = (if o_side x = ASK then m_base m else m_quote m)"

text \<open>
  An order of the book: a limit order with a positive price, a fee rate between 0 and 1, numbers
  of the market's precision, and the two equations of the comments in \<^verbatim>\<open>struct Order\<close>.
\<close>

definition order_ok :: "market \<Rightarrow> order \<Rightarrow> bool" where
  "order_ok m x \<longleftrightarrow> o_type x = LIMIT \<and> 0 < o_price x \<and> 0 \<le> o_remain x \<and>
     0 \<le> o_maker_fee x \<and> o_maker_fee x \<le> 1 \<and>
     has_prec (unat (m_amount_prec m)) (o_remain x) \<and> has_prec (unat (m_price_prec m)) (o_price x) \<and>
     o_frozen x = (if o_side x = ASK then o_remain x else o_remain x * o_price x) \<and>
     o_remain x + o_finished_base x = o_amount x"

text \<open>The market's precisions fit those of its two distinct assets (the checks of \<^verbatim>\<open>Market::new\<close>).\<close>

definition mkt_ok :: "market \<Rightarrow> balance_manager \<Rightarrow> bool" where
  "mkt_ok m bm \<longleftrightarrow> m_base m \<noteq> m_quote m \<and>
     asset_prec (bm_asset_manager bm) (m_base m) = Some (m_base_prec m) \<and>
     asset_prec (bm_asset_manager bm) (m_quote m) = Some (m_quote_prec m) \<and>
     m_amount_prec m \<le> m_base_prec m \<and>
     unat (m_amount_prec m) + unat (m_price_prec m) \<le> unat (m_quote_prec m)"

lemma mkt_ok_amounts:
  assumes "mkt_ok m bm" and x: "has_prec (unat (m_amount_prec m)) x" and p: "has_prec (unat (m_price_prec m)) p"
  shows "amount_ok bm (m_base m) x" and "amount_ok bm (m_quote m) (p * x)"
proof -
  show "amount_ok bm (m_base m) x"
    using assms(1) has_prec_mono [OF x] by (simp add: mkt_ok_def amount_ok_def word_le_nat_alt)
  have "has_prec (unat (m_amount_prec m) + unat (m_price_prec m)) (p * x)"
    using has_prec_mult [OF x p] by (simp add: mult.commute)
  then show "amount_ok bm (m_quote m) (p * x)"
    using assms(1) has_prec_mono by (auto simp: mkt_ok_def amount_ok_def)
qed

section \<open>Settlement\<close>

lemma update_unwrap_ok:
  assumes "env_laws E" and "bm_ok (cx_bm cx)" and "amount_ok (cx_bm cx) a c"
    and "\<forall>k \<in> set (cx_cache cx). uk_business_type k = Trade \<longrightarrow> uk_business_id k = tid \<longrightarrow>
      (uk_balance_type k, uk_user_id k, uk_asset k) \<noteq> (t, u, a)"
    and "0 \<le> c \<or> 0 \<le> bm_get (cx_bm cx) u t a + c"
  shows "\<exists>cx'. update_unwrap E (trade_params t u a tid mp c) cx = Some cx' \<and>
    booked (trade_params t u a tid mp c) cx cx'"
proof -
  have "cache_key_of (trade_params t u a tid mp c) \<notin> set (cx_cache cx)"
    using assms(4) by (fastforce simp: cache_key_of_def trade_params_def)
  from update_user_balance_accepts [OF assms(1,2) _ this] assms(3,5) env_json [OF assms(1), of tid]
  show ?thesis by (fastforce simp: update_unwrap_def trade_params_def)
qed

definition trade_delta ::
  "market \<Rightarrow> bool \<Rightarrow> uuid \<Rightarrow> uuid \<Rightarrow> decimal \<Rightarrow> decimal \<Rightarrow> decimal \<Rightarrow> decimal \<Rightarrow> uuid \<Rightarrow> BalanceType \<Rightarrow> string \<Rightarrow> decimal" where
  "trade_delta m taker_is_ask ask_user bid_user x y ask_fee bid_fee u t a =
     (if u = bid_user \<and> t = AVAILABLE \<and> a = m_base m then x - bid_fee else 0) +
     (if u = ask_user \<and> t = (if taker_is_ask then AVAILABLE else FREEZE) \<and> a = m_base m then - x else 0) +
     (if u = ask_user \<and> t = AVAILABLE \<and> a = m_quote m then y - ask_fee else 0) +
     (if u = bid_user \<and> t = (if taker_is_ask then FREEZE else AVAILABLE) \<and> a = m_quote m then - y else 0)"

definition fresh_trade_id :: "u64 \<Rightarrow> ctx \<Rightarrow> bool" where
  "fresh_trade_id tid cx \<longleftrightarrow> (\<forall>k \<in> set (cx_cache cx). uk_business_type k = Trade \<longrightarrow> uk_business_id k \<noteq> tid)"

definition settled ::
  "market \<Rightarrow> bool \<Rightarrow> uuid \<Rightarrow> uuid \<Rightarrow> u64 \<Rightarrow> decimal \<Rightarrow> decimal \<Rightarrow> decimal \<Rightarrow> decimal \<Rightarrow> ctx \<Rightarrow> ctx \<Rightarrow> bool" where
  "settled m taker_is_ask ask_user bid_user tid x y ask_fee bid_fee cx cx' \<longleftrightarrow>
     same_frame cx cx' \<and> only_balance_calls cx cx' \<and> bm_ok (cx_bm cx') \<and>
     bm_asset_manager (cx_bm cx') = bm_asset_manager (cx_bm cx) \<and>
     (\<forall>u t a. bm_get (cx_bm cx') u t a =
        bm_get (cx_bm cx) u t a + trade_delta m taker_is_ask ask_user bid_user x y ask_fee bid_fee u t a) \<and>
     (\<forall>a. total_supply (cx_bm cx') a = total_supply (cx_bm cx) a -
        (if a = m_base m then bid_fee else if a = m_quote m then ask_fee else 0)) \<and>
     (\<forall>k \<in> set (cx_cache cx'). k \<in> set (cx_cache cx) \<or> uk_business_id k = tid)"

lemma only_balance_calls_trans:
  "only_balance_calls a b \<Longrightarrow> only_balance_calls b c \<Longrightarrow> only_balance_calls a c"
  by (auto simp: only_balance_calls_def)

lemma booked_facts:
  assumes "booked p cx cx'" and "bm_ok (cx_bm cx)" and "amount_ok (cx_bm cx) (up_asset p) (up_change p)"
  shows "bm_ok (cx_bm cx')" and "amount_ok (cx_bm cx') = amount_ok (cx_bm cx)"
    and "bm_asset_manager (cx_bm cx') = bm_asset_manager (cx_bm cx)"
    and "same_frame cx cx'" and "only_balance_calls cx cx'"
    and "cx_cache cx' = cache_key_of p # cx_cache cx"
    and "bm_get (cx_bm cx') u t a = bm_get (cx_bm cx) u t a +
      (if u = up_user_id p \<and> t = up_balance_type p \<and> a = up_asset p then up_change p else 0)"
    and "total_supply (cx_bm cx') b = total_supply (cx_bm cx) b + (if up_asset p = b then up_change p else 0)"
  using assms by (simp_all add: booked_def book_change_ok book_change_get book_change_supply)

lemma trade_params_sel [simp]:
  "up_balance_type (trade_params t u a i mp c) = t" "up_user_id (trade_params t u a i mp c) = u"
  "up_asset (trade_params t u a i mp c) = a" "up_change (trade_params t u a i mp c) = c"
  "uk_balance_type (cache_key_of (trade_params t u a i mp c)) = t"
  "uk_user_id (cache_key_of (trade_params t u a i mp c)) = u"
  "uk_asset (cache_key_of (trade_params t u a i mp c)) = a"
  "uk_business_id (cache_key_of (trade_params t u a i mp c)) = i"
  by (simp_all add: trade_params_def cache_key_of_def)

lemma settle_trade_ok:
  assumes E: "env_laws E" and ok: "bm_ok (cx_bm cx)" and users: "ask_user \<noteq> bid_user"
    and bq: "m_base m \<noteq> m_quote m"
    and ax: "amount_ok (cx_bm cx) (m_base m) x" and ay: "amount_ok (cx_bm cx) (m_quote m) y"
    and abf: "amount_ok (cx_bm cx) (m_base m) bf" and aaf: "amount_ok (cx_bm cx) (m_quote m) af"
    and bf: "0 \<le> bf" "bf \<le> x" and af: "0 \<le> af" "af \<le> y"
    and fresh: "fresh_trade_id tid cx"
    and fund_ask: "x \<le> bm_get (cx_bm cx) ask_user (if tk then AVAILABLE else FREEZE) (m_base m)"
    and fund_bid: "y \<le> bm_get (cx_bm cx) bid_user (if tk then FREEZE else AVAILABLE) (m_quote m)"
  shows "\<exists>cx'. settle_trade E m tk ask_user bid_user tid x y af bf cx = Some cx' \<and>
    settled m tk ask_user bid_user tid x y af bf cx cx'"
proof -
  let ?p1 = "trade_params AVAILABLE bid_user (m_base m) tid (m_price m) (x - bf)"
  let ?p2 = "trade_params (if tk then AVAILABLE else FREEZE) ask_user (m_base m) tid (m_price m) (- x)"
  let ?p3 = "trade_params AVAILABLE ask_user (m_quote m) tid (m_price m) (y - af)"
  let ?p4 = "trade_params (if tk then FREEZE else AVAILABLE) bid_user (m_quote m) tid (m_price m) (- y)"
  have neg: "amount_ok (cx_bm cx) (m_base m) (- x)" "amount_ok (cx_bm cx) (m_quote m) (- y)"
    using ax ay by (simp_all add: amount_ok_def)
  note amts = amount_ok_arith(2) [OF ax abf] neg(1) amount_ok_arith(2) [OF ay aaf] neg(2)
  obtain c1 where c1: "update_unwrap E ?p1 cx = Some c1" "booked ?p1 cx c1"
    using update_unwrap_ok [OF E ok amts(1), of tid AVAILABLE bid_user "m_price m"] fresh bf by (auto simp: fresh_trade_id_def)
  note f1 = booked_facts [OF c1(2) ok, unfolded trade_params_sel, OF amts(1)]
  obtain c2 where c2: "update_unwrap E ?p2 c1 = Some c2" "booked ?p2 c1 c2"
    using update_unwrap_ok [OF E f1(1), of "m_base m" "- x" tid "if tk then AVAILABLE else FREEZE" ask_user "m_price m"]
      fresh users fund_ask amts(2) by (auto simp: fresh_trade_id_def f1(2,6,7))
  note f2 = booked_facts [OF c2(2) f1(1), unfolded trade_params_sel f1(2), OF amts(2)]
  obtain c3 where c3: "update_unwrap E ?p3 c2 = Some c3" "booked ?p3 c2 c3"
    using update_unwrap_ok [OF E f2(1), of "m_quote m" "y - af" tid AVAILABLE ask_user "m_price m"]
      fresh users bq af amts(3) by (auto simp: fresh_trade_id_def f1(6) f2(2,6))
  note f3 = booked_facts [OF c3(2) f2(1), unfolded trade_params_sel f2(2), OF amts(3)]
  obtain c4 where c4: "update_unwrap E ?p4 c3 = Some c4" "booked ?p4 c3 c4"
    using update_unwrap_ok [OF E f3(1), of "m_quote m" "- y" tid "if tk then FREEZE else AVAILABLE" bid_user "m_price m"]
      fresh users bq fund_bid amts(4) by (auto simp: fresh_trade_id_def f1(6,7) f2(6,7) f3(2,6,7))
  note f4 = booked_facts [OF c4(2) f3(1), unfolded trade_params_sel f3(2), OF amts(4)]
  have "settle_trade E m tk ask_user bid_user tid x y af bf cx = Some c4"
    using c1(1) c2(1) c3(1) c4(1) bf(1) af(1)
    by (cases tk) (simp_all add: settle_trade_def env_arith [OF E])
  moreover have "settled m tk ask_user bid_user tid x y af bf cx c4"
    unfolding settled_def
  proof (intro conjI allI)
    show "same_frame cx c4" using f1(4) f2(4) f3(4) f4(4) by (simp add: same_frame_def)
    show "only_balance_calls cx c4"
      using f1(5) f2(5) f3(5) f4(5) by (blast intro: only_balance_calls_trans)
    show "bm_get (cx_bm c4) u t a = bm_get (cx_bm cx) u t a + trade_delta m tk ask_user bid_user x y af bf u t a" for u t a
      by (simp add: trade_delta_def f1(7) f2(7) f3(7) f4(7) if_distrib cong: if_cong)
    show "\<forall>k \<in> set (cx_cache c4). k \<in> set (cx_cache cx) \<or> uk_business_id k = tid"
      by (simp add: f1(6) f2(6) f3(6) f4(6))
  qed (use f4(1,3) f3(3) f2(3) f1(3) bq in \<open>auto simp: f1(8) f2(8) f3(8) f4(8)\<close>)
  ultimately show ?thesis by blast
qed

section \<open>One trade\<close>

lemma get_trade_state_ok: "env_laws E \<Longrightarrow> \<exists>s. get_trade_state E a b bm base quote = Some s"
  by (simp add: get_trade_state_def balance_total_def env_simps)

text \<open>\<open>fee_of\<close> is the fee cut from \<open>x\<close> at rate \<open>f\<close>; it lies between \<open>0\<close> and \<open>x\<close>.\<close>

definition fee_of :: "env \<Rightarrow> decimal \<Rightarrow> decimal \<Rightarrow> u32 \<Rightarrow> decimal" where
  "fee_of E x f p = round_dp_to_zero E (x * f) p"

lemma fee_of_bounds:
  assumes E: "env_laws E" and "0 \<le> x" and "0 \<le> f" and "f \<le> 1"
  shows "0 \<le> fee_of E x f p" and "fee_of E x f p \<le> x"
proof -
  have "0 \<le> x * f" "x * f \<le> x" using assms by (simp_all add: mult_left_le)
  with env_trunc_bounds [OF E this(1), of p] show "0 \<le> fee_of E x f p" "fee_of E x f p \<le> x"
    by (simp_all add: fee_of_def)
qed

text \<open>
  The effect of a trade of \<open>x\<close> between the taker of \<open>ms\<close> and the maker at \<open>r\<close>, where \<open>tr\<close> is
  the trade handed to the persistor.
\<close>

definition ask_fee_rate :: "order \<Rightarrow> order \<Rightarrow> decimal" where
  "ask_fee_rate taker maker = (if o_side taker = ASK then o_taker_fee taker else o_maker_fee maker)"

definition bid_fee_rate :: "order \<Rightarrow> order \<Rightarrow> decimal" where
  "bid_fee_rate taker maker = (if o_side taker = ASK then o_maker_fee maker else o_taker_fee taker)"

definition filled :: "decimal \<Rightarrow> decimal \<Rightarrow> decimal \<Rightarrow> order \<Rightarrow> order \<Rightarrow> bool" where
  "filled x y fee o1 o2 \<longleftrightarrow> same_const o1 o2 \<and> o_remain o2 = o_remain o1 - x \<and>
     o_finished_base o2 = o_finished_base o1 + x \<and> o_finished_quote o2 = o_finished_quote o1 + y \<and>
     o_finished_fee o2 = o_finished_fee o1 + fee"

definition trade_shape :: "market \<Rightarrow> order \<Rightarrow> order \<Rightarrow> decimal \<Rightarrow> decimal \<Rightarrow> decimal \<Rightarrow> trade \<Rightarrow> bool" where
  "trade_shape m taker maker x ask_fee bid_fee tr \<longleftrightarrow>
     t_market tr = m_name m \<and> t_base tr = m_base m \<and> t_quote tr = m_quote m \<and>
     t_price tr = o_price maker \<and> t_amount tr = x \<and> t_quote_amount tr = o_price maker * x \<and>
     t_ask_fee tr = ask_fee \<and> t_bid_fee tr = bid_fee \<and>
     (if o_side taker = ASK
      then t_ask_user_id tr = o_user taker \<and> t_ask_order_id tr = o_id taker \<and> t_ask_role tr = TAKER \<and>
           t_bid_user_id tr = o_user maker \<and> t_bid_order_id tr = o_id maker \<and> t_bid_role tr = MAKER
      else t_bid_user_id tr = o_user taker \<and> t_bid_order_id tr = o_id taker \<and> t_bid_role tr = TAKER \<and>
           t_ask_user_id tr = o_user maker \<and> t_ask_order_id tr = o_id maker \<and> t_ask_role tr = MAKER)"

definition traded :: "env \<Rightarrow> match_state \<Rightarrow> rc \<Rightarrow> decimal \<Rightarrow> match_state \<Rightarrow> order \<Rightarrow> trade \<Rightarrow> bool" where
  "traded E ms r x ms' maker' tr \<longleftrightarrow> (
     let m = ms_market ms; taker = ms_taker ms; maker = deep m r; tk = (o_side taker = ASK);
         y = o_price maker * x;
         bid_fee = fee_of E x (bid_fee_rate taker maker) (m_base_prec m);
         ask_fee = fee_of E y (ask_fee_rate taker maker) (m_quote_prec m);
         tid = sq_trade_id (cx_sequencer (ms_cx ms)) + 1
     in filled x y (if tk then ask_fee else bid_fee) taker (ms_taker ms') \<and>
        o_frozen (ms_taker ms') = o_frozen taker \<and>
        filled x y (if tk then bid_fee else ask_fee) maker maker' \<and>
        o_frozen maker' = o_frozen maker - (if tk then y else x) \<and>
        ms_market ms' = (rc_write r maker' m)\<lparr>m_trade_count := m_trade_count m + 1, m_price := o_price maker\<rparr> \<and>
        ms_quote_sum ms' = ms_quote_sum ms + y \<and>
        ms_finished ms' = ms_finished ms @ (if o_remain maker' = 0 then [maker'] else []) \<and>
        ms_need_cancel ms' = ms_need_cancel ms \<and>
        cx_sequencer (ms_cx ms') = (cx_sequencer (ms_cx ms))\<lparr>sq_trade_id := tid\<rparr> \<and>
        cx_real_persist (ms_cx ms') = cx_real_persist (ms_cx ms) \<and>
        bm_ok (cx_bm (ms_cx ms')) \<and>
        bm_asset_manager (cx_bm (ms_cx ms')) = bm_asset_manager (cx_bm (ms_cx ms)) \<and>
        (\<forall>u t a. bm_get (cx_bm (ms_cx ms')) u t a = bm_get (cx_bm (ms_cx ms)) u t a +
           trade_delta m tk (if tk then o_user taker else o_user maker)
             (if tk then o_user maker else o_user taker) x y ask_fee bid_fee u t a) \<and>
        (\<forall>a. total_supply (cx_bm (ms_cx ms')) a = total_supply (cx_bm (ms_cx ms)) a -
           (if a = m_base m then bid_fee else if a = m_quote m then ask_fee else 0)) \<and>
        (\<forall>k \<in> set (cx_cache (ms_cx ms')). k \<in> set (cx_cache (ms_cx ms)) \<or> uk_business_id k = tid) \<and>
        trade_shape m taker maker x ask_fee bid_fee tr \<and> t_id tr = tid \<and>
        (\<exists>cs. cx_calls (ms_cx ms') = cx_calls (ms_cx ms) @ cs @ [PutTrade tr] @
             (if o_remain maker' = 0 then [] else [PutOrder maker' UPDATE]) \<and>
             (\<forall>c \<in> set cs. is_balance_call c)))"

text \<open>The four balance updates of a trade at a maker's price, with the fees that follow from the two rates.\<close>

lemma trade_settles:
  fixes m cx
  defines "bm \<equiv> cx_bm cx"
  assumes E: "env_laws E" and mk: "mkt_ok m bm" and ok: "bm_ok bm" and users: "ask \<noteq> bid"
    and rates: "0 \<le> brate" "brate \<le> 1" "0 \<le> arate" "arate \<le> 1"
    and x: "0 \<le> x" "has_prec (unat (m_amount_prec m)) x"
    and p: "0 < price" "has_prec (unat (m_price_prec m)) price" and fresh: "fresh_trade_id tid cx"
    and fund: "x \<le> bm_get bm ask (if tk then AVAILABLE else FREEZE) (m_base m)"
      "price * x \<le> bm_get bm bid (if tk then FREEZE else AVAILABLE) (m_quote m)"
  shows "\<exists>cx'. settle_trade E (m\<lparr>m_trade_count := n\<rparr>) tk ask bid tid x (price * x)
        (fee_of E (price * x) arate (m_quote_prec m)) (fee_of E x brate (m_base_prec m)) cx = Some cx' \<and>
      settled (m\<lparr>m_trade_count := n\<rparr>) tk ask bid tid x (price * x)
        (fee_of E (price * x) arate (m_quote_prec m)) (fee_of E x brate (m_base_prec m)) cx cx'"
proof -
  let ?m1 = "m\<lparr>m_trade_count := n\<rparr>"
  have y: "0 \<le> price * x" using x p by simp
  note bf = fee_of_bounds [OF E x(1) rates(1,2), of "m_base_prec m"]
    and af = fee_of_bounds [OF E y rates(3,4), of "m_quote_prec m"]
  have famts: "amount_ok bm (m_base m) (fee_of E x brate (m_base_prec m))"
    "amount_ok bm (m_quote m) (fee_of E (price * x) arate (m_quote_prec m))"
    using mk env_round_prec(2) [OF E] by (auto simp: mkt_ok_def amount_ok_def fee_of_def)
  have m1: "m_base ?m1 = m_base m" "m_quote ?m1 = m_quote m" by simp_all
  show ?thesis
  proof (rule settle_trade_ok [where m = ?m1, OF E _ users _ _ _ _ _ bf af fresh, unfolded bm_def [symmetric] m1])
    show "m_base m \<noteq> m_quote m" using mk by (simp add: mkt_ok_def)
  qed (use ok famts fund mkt_ok_amounts [OF mk x(2) p(2)] in auto)
qed

lemma exec_trade_ok:
  fixes ms r
  defines "m \<equiv> ms_market ms" and "taker \<equiv> ms_taker ms" and "bm \<equiv> cx_bm (ms_cx ms)"
  defines "maker \<equiv> deep m r" and "tk \<equiv> o_side (ms_taker ms) = ASK"
  assumes E: "env_laws E" and mk: "mkt_ok m bm" and ok: "bm_ok bm"
    and users: "o_user taker \<noteq> o_user maker"
    and fees: "0 \<le> o_taker_fee taker" "o_taker_fee taker \<le> 1" "0 \<le> o_maker_fee maker" "o_maker_fee maker \<le> 1"
    and x: "0 \<le> x" "has_prec (unat (m_amount_prec m)) x"
    and p: "0 < o_price maker" "has_prec (unat (m_price_prec m)) (o_price maker)"
    and fresh: "fresh_trade_id (sq_trade_id (cx_sequencer (ms_cx ms)) + 1) (ms_cx ms)"
    and fund_taker: "(if tk then x else o_price maker * x) \<le>
      bm_get bm (o_user taker) AVAILABLE (if tk then m_base m else m_quote m)"
    and fund_maker: "(if tk then o_price maker * x else x) \<le>
      bm_get bm (o_user maker) FREEZE (if tk then m_quote m else m_base m)"
  shows "\<exists>ms' maker' tr. exec_trade E r x ms = Some ms' \<and> traded E ms r x ms' maker' tr"
proof -
  let ?y = "o_price maker * x"
  let ?bf = "fee_of E x (bid_fee_rate taker maker) (m_base_prec m)"
  let ?af = "fee_of E ?y (ask_fee_rate taker maker) (m_quote_prec m)"
  let ?tid = "sq_trade_id (cx_sequencer (ms_cx ms)) + 1"
  let ?cx0 = "(ms_cx ms)\<lparr>cx_sequencer := (cx_sequencer (ms_cx ms))\<lparr>sq_trade_id := ?tid\<rparr>,
    cx_clock := Suc (Suc (cx_clock (ms_cx ms)))\<rparr>"
  let ?ask = "if tk then o_user taker else o_user maker" and ?bid = "if tk then o_user maker else o_user taker"
  let ?m1 = "m\<lparr>m_trade_count := m_trade_count m + 1\<rparr>"
  have "\<exists>cx'. settle_trade E ?m1 tk ?ask ?bid ?tid x ?y ?af ?bf ?cx0 = Some cx' \<and>
      settled ?m1 tk ?ask ?bid ?tid x ?y ?af ?bf ?cx0 cx'"
    by (rule trade_settles [OF E])
      (use mk ok users fees x p fresh fund_taker fund_maker in
        \<open>auto simp: bm_def bid_fee_rate_def ask_fee_rate_def fresh_trade_id_def\<close>)
  then obtain cx' where cx': "settle_trade E ?m1 tk ?ask ?bid ?tid x ?y ?af ?bf ?cx0 = Some cx'"
    "settled ?m1 tk ?ask ?bid ?tid x ?y ?af ?bf ?cx0 cx'" by blast
  let ?ts = "current_timestamp E (cx_clock (ms_cx ms))"
  let ?ao = "(if tk then taker else maker)\<lparr>o_update_time := ?ts\<rparr>"
    and ?bo = "(if tk then maker else taker)\<lparr>o_update_time := ?ts\<rparr>"
  let ?aa = "fill_order E x ?y ?af ?ao" and ?ba = "fill_order E x ?y ?bf ?bo"
  obtain sb sa where st: "get_trade_state E ?ao ?bo bm (m_base m) (m_quote m) = Some sb"
    "get_trade_state E ?aa ?ba (cx_bm cx') (m_base m) (m_quote m) = Some sa"
    using get_trade_state_ok [OF E] by blast
  let ?mk = "if tk then ?ba else ?aa" and ?tk' = "if tk then ?aa else ?ba"
  let ?mk' = "?mk\<lparr>o_frozen := o_frozen ?mk - (if tk then ?y else x)\<rparr>"
  let ?tr = "\<lparr>t_id = ?tid, t_timestamp = current_timestamp E (Suc (cx_clock (ms_cx ms))), t_market = m_name m,
    t_base = m_base m, t_quote = m_quote m, t_price = o_price maker, t_amount = x, t_quote_amount = ?y,
    t_ask_user_id = o_user ?ao, t_ask_order_id = o_id ?ao, t_ask_role = (if tk then TAKER else MAKER),
    t_ask_fee = ?af, t_bid_user_id = o_user ?bo, t_bid_order_id = o_id ?bo,
    t_bid_role = (if tk then MAKER else TAKER), t_bid_fee = ?bf,
    t_ask_order = (if o_finished_base ?ao = 0 then Some ?ao else None),
    t_bid_order = (if o_finished_base ?bo = 0 then Some ?bo else None),
    t_state_before = sb, t_state_after = sa\<rparr>"
  let ?cx2 = "emit (PutTrade ?tr) cx'"
  let ?ms' = "ms\<lparr>ms_market := (rc_write r ?mk' ?m1)\<lparr>m_price := o_price maker\<rparr>,
    ms_cx := if o_remain ?mk' = 0 then ?cx2 else emit (PutOrder ?mk' UPDATE) ?cx2, ms_taker := ?tk',
    ms_quote_sum := ms_quote_sum ms + ?y,
    ms_finished := if o_remain ?mk' = 0 then ms_finished ms @ [?mk'] else ms_finished ms\<rparr>"
  have "exec_trade E r x ms = Some ?ms'"
    using cx'(1) st
    by (cases tk)
      (simp_all add: exec_trade_def Let_def read_clock_def next_trade_id_def env_arith [OF E] fee_of_def
        bid_fee_rate_def ask_fee_rate_def m_def taker_def bm_def maker_def tk_def)
  moreover have "traded E ms r x ?ms' ?mk' ?tr"
    using cx'(2)
    by (cases tk; cases "o_remain maker = x")
      (simp_all add: traded_def Let_def settled_def filled_def fill_order_def same_const_def trade_shape_def
        env_arith [OF E] same_frame_def only_balance_calls_def trade_delta_def rc_write_def
        m_def taker_def bm_def maker_def tk_def split del: if_split cong: if_cong)
  ultimately show ?thesis by blast
qed

end
