(* ===== verification/MarketLoop.thy ===== *)
theory MarketLoop
  imports MarketMatch
begin

text \<open>
  The matching loop. \<open>loop_inv\<close> holds before every turn; under it a turn never panics, and a
  complete run of the loop is described by the inductive relation \<open>run\<close>, whose trace lists the
  makers hit, the amounts and the trades. Properties of the loop are rule inductions over \<open>run\<close>.
\<close>

section \<open>Frozen funds\<close>

definition frozen_part :: "market \<Rightarrow> uuid \<Rightarrow> string \<Rightarrow> order \<Rightarrow> decimal" where
  "frozen_part m u a x = (if o_user x = u \<and> asset_of m x = a then o_frozen x else 0)"

definition frozen_sum :: "market \<Rightarrow> uuid \<Rightarrow> string \<Rightarrow> decimal" where
  "frozen_sum m u a = sum_list (map (\<lambda>(_, r). frozen_part m u a (deep m r)) (m_orders m))"

lemma asset_of_cong: "m_base m = m_base m' \<Longrightarrow> m_quote m = m_quote m' \<Longrightarrow> asset_of m = asset_of m'"
  by (simp add: asset_of_def fun_eq_iff)

lemma frozen_part_cong: "m_base m = m_base m' \<Longrightarrow> m_quote m = m_quote m' \<Longrightarrow> frozen_part m = frozen_part m'"
  using asset_of_cong [of m m'] by (simp add: frozen_part_def fun_eq_iff)

lemma sum_list_snd_update:
  fixes f :: "'b \<Rightarrow> 'n::ab_group_add"
  assumes "distinct (map snd kvs)" and "(i, r) \<in> set kvs"
  shows "sum_list (map (\<lambda>(_, s). if s = r then c else f s) kvs) = sum_list (map (\<lambda>(_, s). f s) kvs) - f r + c"
  using assms
proof (induction kvs)
  case (Cons kv kvs)
  obtain j s where kv: "kv = (j, s)" by (cases kv)
  show ?case
  proof (cases "s = r")
    case True
    with Cons.prems kv have no: "r \<notin> snd ` set kvs" by auto
    then have "sum_list (map (\<lambda>(_, s). if s = r then c else f s) kvs) = sum_list (map (\<lambda>(_, s). f s) kvs)"
      by (intro arg_cong [where f = sum_list] map_cong) (auto simp: image_iff)
    with True kv show ?thesis by simp
  next
    case False
    with Cons kv show ?thesis by (simp add: algebra_simps)
  qed
qed simp

lemma frozen_sum_write:
  assumes bs: "book_struct m" and ir: "(i, r) \<in> set (m_orders m)"
  shows "frozen_sum (rc_write r x m) u a = frozen_sum m u a - frozen_part m u a (deep m r) + frozen_part m u a x"
proof -
  have part: "frozen_part (rc_write r x m) = frozen_part m" by (rule frozen_part_cong) simp_all
  have "frozen_sum (rc_write r x m) u a =
      sum_list (map (\<lambda>(_, s). if s = r then frozen_part m u a x else frozen_part m u a (deep m s)) (m_orders m))"
    by (simp add: frozen_sum_def part deep_write [OF book_structD(6) [OF bs ir]] if_distrib cong: if_cong)
  with sum_list_snd_update [OF distinct_orders_rc [OF bs] ir, of "frozen_part m u a x" "\<lambda>s. frozen_part m u a (deep m s)"]
  show ?thesis by (simp add: frozen_sum_def)
qed

lemma frozen_sum_cong [simp]:
  "frozen_sum (m\<lparr>m_price := p\<rparr>) u a = frozen_sum m u a"
  "frozen_sum (m\<lparr>m_trade_count := c\<rparr>) u a = frozen_sum m u a"
  by (simp_all add: frozen_sum_def frozen_part_cong [of "m\<lparr>m_price := p\<rparr>" m]
      frozen_part_cong [of "m\<lparr>m_trade_count := c\<rparr>" m])

lemma frozen_sum_remove:
  assumes bs: "book_struct m" and ir: "(o_id x, r) \<in> set (m_orders m)" and x: "deep m r = x"
  shows "frozen_sum (remove_order x m) u a = frozen_sum m u a - frozen_part m u a x"
proof -
  have part: "frozen_part (remove_order x m) = frozen_part m" by (rule frozen_part_cong) simp_all
  from sum_bt_remove [OF bt_inv_distinct [OF book_structD(1) [OF bs]] ir, of "\<lambda>r. frozen_part m u a (deep m r)"] x
  show ?thesis by (simp add: frozen_sum_def part)
qed

lemma frozen_sum_add:
  assumes bs: "book_struct m" and fresh: "o_id x \<notin> fst ` set (m_orders m)"
  shows "frozen_sum (add_order x m) u a = frozen_sum m u a + frozen_part m u a x"
proof -
  have part: "frozen_part (add_order x m) = frozen_part m" by (rule frozen_part_cong) simp_all
  have "sum_list (map (\<lambda>(_, r). frozen_part m u a (deep (add_order x m) r)) (m_orders m)) =
      sum_list (map (\<lambda>(_, r). frozen_part m u a (deep m r)) (m_orders m))"
    using book_structD(6) [OF bs] by (intro arg_cong [where f = sum_list] map_cong) auto
  then show ?thesis
    using sum_bt_insert [OF book_structD(1) [OF bs] fresh, of "\<lambda>r. frozen_part m u a (deep (add_order x m) r)" "length (m_heap m)"]
    by (simp add: frozen_sum_def part)
qed

text \<open>One live order's frozen amount is at most the sum, when all are nonnegative.\<close>

definition orders_ok :: "market \<Rightarrow> bool" where
  "orders_ok m \<longleftrightarrow> (\<forall>(i, r) \<in> set (m_orders m). order_ok m (deep m r))"

lemma order_ok_frozen: "order_ok m x \<Longrightarrow> 0 \<le> o_frozen x"
  by (auto simp: order_ok_def)

lemma frozen_part_le:
  assumes "orders_ok m" and "(i, r) \<in> set (m_orders m)"
  shows "o_frozen (deep m r) \<le> frozen_sum m (o_user (deep m r)) (asset_of m (deep m r))"
proof -
  let ?f = "\<lambda>(_, r'). frozen_part m (o_user (deep m r)) (asset_of m (deep m r)) (deep m r')"
  have "\<forall>z \<in> set (map ?f (m_orders m)). 0 \<le> z"
    using assms(1) order_ok_frozen by (auto simp: orders_ok_def frozen_part_def)
  moreover have "?f (i, r) \<in> set (map ?f (m_orders m))" using assms(2) by (auto intro: rev_image_eqI)
  ultimately have "?f (i, r) \<le> sum_list (map ?f (m_orders m))" by (metis member_le_sum_list)
  then show ?thesis by (simp add: frozen_sum_def frozen_part_def)
qed

section \<open>The loop invariant\<close>

definition trade_ids_ok :: "ctx \<Rightarrow> bool" where
  "trade_ids_ok cx \<longleftrightarrow> (\<forall>k \<in> set (cx_cache cx). uk_business_type k = Trade \<longrightarrow>
     uk_business_id k \<le> sq_trade_id (cx_sequencer cx))"

definition taker_ok :: "market \<Rightarrow> order \<Rightarrow> bool" where
  "taker_ok m x \<longleftrightarrow> 0 \<le> o_taker_fee x \<and> o_taker_fee x \<le> 1 \<and> 0 \<le> o_remain x \<and>
     has_prec (unat (m_amount_prec m)) (o_remain x) \<and> (o_type x = LIMIT \<longrightarrow> 0 < o_price x)"

text \<open>The taker's available balance covers what it may still spend.\<close>

definition funded :: "decimal \<Rightarrow> match_state \<Rightarrow> bool" where
  "funded ql ms \<longleftrightarrow> (
     let x = ms_taker ms; m = ms_market ms; bm = cx_bm (ms_cx ms)
     in if o_side x = ASK then o_remain x \<le> bm_get bm (o_user x) AVAILABLE (m_base m)
        else if o_type x = LIMIT then o_remain x * o_price x \<le> bm_get bm (o_user x) AVAILABLE (m_quote m)
        else ms_quote_sum ms \<le> ql \<and> ql - ms_quote_sum ms \<le> bm_get bm (o_user x) AVAILABLE (m_quote m))"

text \<open>Exactly the makers pushed on \<open>ms_finished\<close> have nothing left.\<close>

definition finished_ok :: "match_state \<Rightarrow> bool" where
  "finished_ok ms \<longleftrightarrow> distinct (map o_id (ms_finished ms)) \<and>
     (\<forall>x \<in> set (ms_finished ms). \<exists>r. (o_id x, r) \<in> set (m_orders (ms_market ms)) \<and> deep (ms_market ms) r = x) \<and>
     (\<forall>(i, r) \<in> set (m_orders (ms_market ms)).
        o_remain (deep (ms_market ms) r) = 0 \<longleftrightarrow> deep (ms_market ms) r \<in> set (ms_finished ms))"

definition solvent :: "market \<Rightarrow> balance_manager \<Rightarrow> bool" where
  "solvent m bm \<longleftrightarrow> (\<forall>u a. frozen_sum m u a \<le> bm_get bm u FREEZE a)"

definition ahead_ok :: "rc list \<Rightarrow> match_state \<Rightarrow> bool" where
  "ahead_ok rs ms \<longleftrightarrow> distinct rs \<and>
     (\<forall>r \<in> set rs. (o_id (deep (ms_market ms) r), r) \<in> set (m_orders (ms_market ms)) \<and>
        0 < o_remain (deep (ms_market ms) r) \<and> o_side (deep (ms_market ms) r) \<noteq> o_side (ms_taker ms))"

definition loop_inv :: "decimal \<Rightarrow> rc list \<Rightarrow> match_state \<Rightarrow> bool" where
  "loop_inv ql rs ms \<longleftrightarrow>
     book_struct (ms_market ms) \<and> orders_ok (ms_market ms) \<and> mkt_ok (ms_market ms) (cx_bm (ms_cx ms)) \<and>
     bm_ok (cx_bm (ms_cx ms)) \<and> m_disable_self_trade (ms_market ms) \<and>
     taker_ok (ms_market ms) (ms_taker ms) \<and> solvent (ms_market ms) (cx_bm (ms_cx ms)) \<and>
     funded ql ms \<and> trade_ids_ok (ms_cx ms) \<and> finished_ok ms \<and> ahead_ok rs ms"

lemma loop_invD:
  assumes "loop_inv ql rs ms"
  shows "book_struct (ms_market ms)" "orders_ok (ms_market ms)" "mkt_ok (ms_market ms) (cx_bm (ms_cx ms))"
    "bm_ok (cx_bm (ms_cx ms))" "m_disable_self_trade (ms_market ms)" "taker_ok (ms_market ms) (ms_taker ms)"
    "solvent (ms_market ms) (cx_bm (ms_cx ms))" "funded ql ms" "trade_ids_ok (ms_cx ms)" "finished_ok ms"
    "ahead_ok rs ms"
  using assms by (simp_all add: loop_inv_def)

lemma loop_inv_stop: "loop_inv ql rs ms \<Longrightarrow> loop_inv ql [] (ms\<lparr>ms_need_cancel := b\<rparr>) \<and> loop_inv ql [] ms"
  by (simp add: loop_inv_def funded_def finished_ok_def ahead_ok_def Let_def)

section \<open>One turn\<close>

text \<open>The price of the maker is acceptable to the taker.\<close>

definition crosses :: "order \<Rightarrow> order \<Rightarrow> bool" where
  "crosses taker maker \<longleftrightarrow> (o_type taker = LIMIT \<longrightarrow>
     (if o_side taker = ASK then o_price taker \<le> o_price maker else o_price maker \<le> o_price taker))"

text \<open>How a turn may trade: the amount is positive, at most what both sides have left, and
  exactly their minimum unless a market bid is cut by its quote limit.\<close>

definition may_trade :: "env \<Rightarrow> decimal \<Rightarrow> match_state \<Rightarrow> rc \<Rightarrow> decimal \<Rightarrow> bool" where
  "may_trade E ql ms r x \<longleftrightarrow> (
     let taker = ms_taker ms; maker = deep (ms_market ms) r
     in 0 < x \<and> x \<le> o_remain taker \<and> x \<le> o_remain maker \<and>
        has_prec (unat (m_amount_prec (ms_market ms))) x \<and>
        crosses taker maker \<and> \<not> o_post_only taker \<and> o_user taker \<noteq> o_user maker \<and>
        (if o_side taker = BID \<and> o_type taker \<noteq> LIMIT \<and>
            ql < ms_quote_sum ms + o_price maker * min (o_remain taker) (o_remain maker)
         then ms_quote_sum ms + o_price maker * x \<le> ql \<and>
              x = round_dp_to_zero E (dec_div E (ql - ms_quote_sum ms) (o_price maker)) (m_amount_prec (ms_market ms))
         else x = min (o_remain taker) (o_remain maker)))"

lemma trade_amount_ok:
  assumes E: "env_laws E" and ok: "order_ok m maker" and tk: "taker_ok m taker"
    and rem: "o_remain taker \<noteq> 0" "0 < o_remain maker"
    and qs: "o_side taker = BID \<Longrightarrow> o_type taker \<noteq> LIMIT \<Longrightarrow> qs \<le> ql"
  shows "trade_amount E m taker maker qs ql = Some Break \<or>
    (\<exists>x. trade_amount E m taker maker qs ql = Some (Go x) \<and> 0 < x \<and> x \<le> o_remain taker \<and> x \<le> o_remain maker \<and>
       has_prec (unat (m_amount_prec m)) x \<and>
       (if o_side taker = BID \<and> o_type taker \<noteq> LIMIT \<and> ql < qs + o_price maker * min (o_remain taker) (o_remain maker)
        then qs + o_price maker * x \<le> ql \<and> x = round_dp_to_zero E (dec_div E (ql - qs) (o_price maker)) (m_amount_prec m)
        else x = min (o_remain taker) (o_remain maker)))"
proof (cases "o_side taker = BID \<and> o_type taker \<noteq> LIMIT \<and> ql < qs + o_price maker * min (o_remain taker) (o_remain maker)")
  case True
  let ?x = "round_dp_to_zero E (dec_div E (ql - qs) (o_price maker)) (m_amount_prec m)"
  have p: "0 < o_price maker" using ok by (simp add: order_ok_def)
  have "0 \<le> ql - qs" using qs True by simp
  note x = env_div_trunc [OF E this p, of "m_amount_prec m"]
  from x(2) True have "o_price maker * ?x < o_price maker * min (o_remain taker) (o_remain maker)" by linarith
  with p have "?x < min (o_remain taker) (o_remain maker)" by simp
  with True p x env_round_prec(2) [OF E] show ?thesis
    by (auto simp: trade_amount_def Let_def env_arith [OF E])
next
  case False
  have "has_prec (unat (m_amount_prec m)) (min (o_remain taker) (o_remain maker))"
    using ok tk by (auto simp: min_def order_ok_def taker_ok_def)
  moreover have "0 < min (o_remain taker) (o_remain maker)"
    using tk rem by (simp add: taker_ok_def min_def)
  ultimately show ?thesis
    using False by (auto simp: trade_amount_def Let_def env_arith [OF E])
qed

lemma funds_cover:
  assumes inv: "loop_inv ql (r # rs) ms" and mt: "may_trade E ql ms r x"
  shows "(if o_side (ms_taker ms) = ASK then x else o_price (deep (ms_market ms) r) * x) \<le>
    bm_get (cx_bm (ms_cx ms)) (o_user (ms_taker ms)) AVAILABLE
      (if o_side (ms_taker ms) = ASK then m_base (ms_market ms) else m_quote (ms_market ms))"
proof (cases "o_side (ms_taker ms) = ASK")
  case True
  then show ?thesis using loop_invD(8) [OF inv] mt by (simp add: funded_def may_trade_def Let_def)
next
  case False
  let ?maker = "deep (ms_market ms) r" and ?taker = "ms_taker ms"
  have bid: "o_side ?taker = BID" using False by (cases "o_side ?taker") simp_all
  note fund = loop_invD(8) [OF inv, unfolded funded_def Let_def]
  show ?thesis
  proof (cases "o_type ?taker = LIMIT")
    case True
    have "o_price ?maker \<le> o_price ?taker" "x \<le> o_remain ?taker" "0 < x" "0 < o_price ?taker"
      using mt True bid loop_invD(6) [OF inv] by (auto simp: may_trade_def Let_def crosses_def taker_ok_def)
    then have "o_price ?maker * x \<le> o_price ?taker * o_remain ?taker"
      by (intro mult_mono) simp_all
    with fund True bid show ?thesis by (simp add: mult.commute)
  next
    case False
    have "ms_quote_sum ms + o_price ?maker * x \<le> ql"
      using mt False bid by (auto simp: may_trade_def Let_def split: if_splits)
    with fund False bid show ?thesis by simp
  qed
qed

lemma frozen_covers:
  assumes inv: "loop_inv ql (r # rs) ms" and mt: "may_trade E ql ms r x"
  shows "(if o_side (ms_taker ms) = ASK then o_price (deep (ms_market ms) r) * x else x) \<le>
    bm_get (cx_bm (ms_cx ms)) (o_user (deep (ms_market ms) r)) FREEZE
      (if o_side (ms_taker ms) = ASK then m_quote (ms_market ms) else m_base (ms_market ms))"
proof -
  let ?m = "ms_market ms" and ?maker = "deep (ms_market ms) r"
  from loop_invD(11) [OF inv] have ir: "(o_id ?maker, r) \<in> set (m_orders ?m)" and side: "o_side ?maker \<noteq> o_side (ms_taker ms)"
    by (auto simp: ahead_ok_def)
  have okm: "order_ok ?m ?maker" using loop_invD(2) [OF inv] ir by (auto simp: orders_ok_def)
  have x: "x \<le> o_remain ?maker" using mt by (simp add: may_trade_def Let_def)
  have "o_frozen ?maker \<le> bm_get (cx_bm (ms_cx ms)) (o_user ?maker) FREEZE (asset_of ?m ?maker)"
    using frozen_part_le [OF loop_invD(2) [OF inv] ir] loop_invD(7) [OF inv] order_trans
    unfolding solvent_def by blast
  moreover have "(if o_side (ms_taker ms) = ASK then o_price ?maker * x else x) \<le> o_frozen ?maker"
    using okm side x by (cases "o_side (ms_taker ms)"; cases "o_side ?maker") (auto simp: order_ok_def mult.commute)
  moreover have "asset_of ?m ?maker = (if o_side (ms_taker ms) = ASK then m_quote ?m else m_base ?m)"
    using side by (cases "o_side (ms_taker ms)"; cases "o_side ?maker") (simp_all add: asset_of_def)
  ultimately show ?thesis by simp
qed

section \<open>A trade preserves the invariant\<close>

lemma tradedD:
  assumes "traded E ms r x ms' mk tr"
  shows "ms_market ms' = (rc_write r mk (ms_market ms))\<lparr>m_trade_count := m_trade_count (ms_market ms) + 1,
      m_price := o_price (deep (ms_market ms) r)\<rparr>"
    and "same_const (ms_taker ms) (ms_taker ms')" and "o_remain (ms_taker ms') = o_remain (ms_taker ms) - x"
    and "o_finished_base (ms_taker ms') = o_finished_base (ms_taker ms) + x"
    and "o_frozen (ms_taker ms') = o_frozen (ms_taker ms)"
    and "same_const (deep (ms_market ms) r) mk" and "o_remain mk = o_remain (deep (ms_market ms) r) - x"
    and "o_finished_base mk = o_finished_base (deep (ms_market ms) r) + x"
    and "o_frozen mk = o_frozen (deep (ms_market ms) r) -
      (if o_side (ms_taker ms) = ASK then o_price (deep (ms_market ms) r) * x else x)"
    and "ms_quote_sum ms' = ms_quote_sum ms + o_price (deep (ms_market ms) r) * x"
    and "ms_finished ms' = ms_finished ms @ (if o_remain mk = 0 then [mk] else [])"
    and "ms_need_cancel ms' = ms_need_cancel ms"
    and "cx_sequencer (ms_cx ms') = (cx_sequencer (ms_cx ms))\<lparr>sq_trade_id := sq_trade_id (cx_sequencer (ms_cx ms)) + 1\<rparr>"
    and "cx_real_persist (ms_cx ms') = cx_real_persist (ms_cx ms)"
    and "bm_ok (cx_bm (ms_cx ms'))"
    and "bm_asset_manager (cx_bm (ms_cx ms')) = bm_asset_manager (cx_bm (ms_cx ms))"
    and "\<forall>k \<in> set (cx_cache (ms_cx ms')). k \<in> set (cx_cache (ms_cx ms)) \<or>
      uk_business_id k = sq_trade_id (cx_sequencer (ms_cx ms)) + 1"
  using assms unfolding traded_def Let_def filled_def by blast+

lemma traded_deep:
  assumes "traded E ms r x ms' mk tr" and "r < length (m_heap (ms_market ms))"
  shows "deep (ms_market ms') s = (if s = r then mk else deep (ms_market ms) s)"
  using assms(2) by (simp add: tradedD(1) [OF assms(1)] deep_write)

lemma traded_sel:
  assumes "traded E ms r x ms' mk tr"
  shows "m_orders (ms_market ms') = m_orders (ms_market ms)" "m_users (ms_market ms') = m_users (ms_market ms)"
    "m_asks (ms_market ms') = m_asks (ms_market ms)" "m_bids (ms_market ms') = m_bids (ms_market ms)"
    "m_base (ms_market ms') = m_base (ms_market ms)" "m_quote (ms_market ms') = m_quote (ms_market ms)"
    "m_amount_prec (ms_market ms') = m_amount_prec (ms_market ms)" "m_price_prec (ms_market ms') = m_price_prec (ms_market ms)"
    "m_base_prec (ms_market ms') = m_base_prec (ms_market ms)" "m_quote_prec (ms_market ms') = m_quote_prec (ms_market ms)"
    "m_disable_self_trade (ms_market ms') = m_disable_self_trade (ms_market ms)"
    "m_name (ms_market ms') = m_name (ms_market ms)" "length (m_heap (ms_market ms')) = length (m_heap (ms_market ms))"
    "m_min_amount (ms_market ms') = m_min_amount (ms_market ms)"
  by (simp_all add: tradedD(1) [OF assms])

lemma traded_bal:
  assumes "traded E ms r x ms' mk tr"
    and "o_user (ms_taker ms) \<noteq> o_user (deep (ms_market ms) r)"
    and "m_base (ms_market ms) \<noteq> m_quote (ms_market ms)"
    and "o_side (deep (ms_market ms) r) \<noteq> o_side (ms_taker ms)"
  shows "bm_get (cx_bm (ms_cx ms')) u FREEZE a = bm_get (cx_bm (ms_cx ms)) u FREEZE a -
      (if u = o_user (deep (ms_market ms) r) \<and> a = asset_of (ms_market ms) (deep (ms_market ms) r)
       then o_frozen (deep (ms_market ms) r) - o_frozen mk else 0)"
    and "bm_get (cx_bm (ms_cx ms')) (o_user (ms_taker ms)) AVAILABLE (asset_of (ms_market ms) (ms_taker ms)) =
      bm_get (cx_bm (ms_cx ms)) (o_user (ms_taker ms)) AVAILABLE (asset_of (ms_market ms) (ms_taker ms)) -
      (if o_side (ms_taker ms) = ASK then x else o_price (deep (ms_market ms) r) * x)"
  using assms
  by (cases "o_side (ms_taker ms)"; cases "o_side (deep (ms_market ms) r)";
      simp add: traded_def Let_def trade_delta_def asset_of_def)+

lemma order_ok_fill:
  assumes "order_ok m o1" and "same_const o1 o2" and "x \<le> o_remain o1" and "has_prec (unat (m_amount_prec m)) x"
    and "o_remain o2 = o_remain o1 - x" and "o_finished_base o2 = o_finished_base o1 + x"
    and "o_frozen o2 = o_frozen o1 - (if o_side o1 = ASK then x else o_price o1 * x)"
  shows "order_ok m o2"
  using assms by (auto simp: order_ok_def same_const_def left_diff_distrib mult.commute [of x])

lemma traded_inv_book:
  assumes inv: "loop_inv ql (r # rs) ms" and tr: "traded E ms r x ms' mk tr" and mt: "may_trade E ql ms r x"
  shows "book_struct (ms_market ms') \<and> orders_ok (ms_market ms') \<and> mkt_ok (ms_market ms') (cx_bm (ms_cx ms')) \<and>
    solvent (ms_market ms') (cx_bm (ms_cx ms')) \<and> order_ok (ms_market ms') mk"
proof (intro conjI)
  let ?m = "ms_market ms" and ?maker = "deep (ms_market ms) r"
  from loop_invD(11) [OF inv] have ir: "(o_id ?maker, r) \<in> set (m_orders ?m)" and side: "o_side ?maker \<noteq> o_side (ms_taker ms)"
    by (auto simp: ahead_ok_def)
  note bs = loop_invD(1) [OF inv]
  have r: "r < length (m_heap ?m)" by (rule book_structD(6) [OF bs ir])
  show "book_struct (ms_market ms')"
    using book_struct_write [OF bs r tradedD(6) [OF tr]] by (simp add: tradedD(1) [OF tr])
  show "mkt_ok (ms_market ms') (cx_bm (ms_cx ms'))"
    using loop_invD(3) [OF inv] by (simp add: mkt_ok_def traded_sel [OF tr] tradedD(16) [OF tr])
  have okm: "order_ok ?m ?maker" using loop_invD(2) [OF inv] ir by (auto simp: orders_ok_def)
  have ok_eq: "order_ok (ms_market ms') = order_ok ?m"
    by (simp add: order_ok_def fun_eq_iff traded_sel [OF tr])
  show ok: "order_ok (ms_market ms') mk"
    unfolding ok_eq
  proof (rule order_ok_fill [OF okm tradedD(6) [OF tr] _ _ tradedD(7,8) [OF tr]])
    show "o_frozen mk = o_frozen ?maker - (if o_side ?maker = ASK then x else o_price ?maker * x)"
      using side tradedD(9) [OF tr] by (cases "o_side (ms_taker ms)"; cases "o_side ?maker") simp_all
  qed (use mt in \<open>simp_all add: may_trade_def Let_def\<close>)
  show "orders_ok (ms_market ms')"
    using loop_invD(2) [OF inv] ok
    by (auto simp: orders_ok_def traded_sel [OF tr] traded_deep [OF tr r] ok_eq)
  have users: "o_user (ms_taker ms) \<noteq> o_user ?maker" using mt by (simp add: may_trade_def Let_def)
  have bq: "m_base ?m \<noteq> m_quote ?m" using loop_invD(3) [OF inv] by (simp add: mkt_ok_def)
  have "frozen_sum (ms_market ms') u a = frozen_sum ?m u a - frozen_part ?m u a ?maker + frozen_part ?m u a mk" for u a
    using frozen_sum_write [OF bs ir] by (simp add: tradedD(1) [OF tr])
  then show "solvent (ms_market ms') (cx_bm (ms_cx ms'))"
    using loop_invD(7) [OF inv] tradedD(6) [OF tr]
    by (auto simp: solvent_def traded_bal(1) [OF tr users bq side] frozen_part_def asset_of_def same_const_def)
qed

lemma traded_funded:
  assumes inv: "loop_inv ql (r # rs) ms" and tr: "traded E ms r x ms' mk tr" and mt: "may_trade E ql ms r x"
  shows "funded ql ms' \<and> taker_ok (ms_market ms') (ms_taker ms')"
proof (intro conjI)
  let ?m = "ms_market ms" and ?maker = "deep (ms_market ms) r" and ?taker = "ms_taker ms"
  from loop_invD(11) [OF inv] have side: "o_side ?maker \<noteq> o_side ?taker" by (auto simp: ahead_ok_def)
  have users: "o_user ?taker \<noteq> o_user ?maker" and x: "0 < x" "x \<le> o_remain ?taker" "has_prec (unat (m_amount_prec ?m)) x"
    using mt by (simp_all add: may_trade_def Let_def)
  have bq: "m_base ?m \<noteq> m_quote ?m" using loop_invD(3) [OF inv] by (simp add: mkt_ok_def)
  note bal = traded_bal(2) [OF tr users bq side]
  have sc: "o_side (ms_taker ms') = o_side ?taker" "o_type (ms_taker ms') = o_type ?taker"
    "o_user (ms_taker ms') = o_user ?taker" "o_price (ms_taker ms') = o_price ?taker"
    "o_taker_fee (ms_taker ms') = o_taker_fee ?taker"
    using tradedD(2) [OF tr] by (simp_all add: same_const_def)
  show "taker_ok (ms_market ms') (ms_taker ms')"
    using loop_invD(6) [OF inv] x
    by (auto simp: taker_ok_def sc tradedD(3) [OF tr] traded_sel [OF tr])
  note fund = loop_invD(8) [OF inv, unfolded funded_def Let_def]
  consider (ask) "o_side ?taker = ASK" | (limit) "o_side ?taker = BID" "o_type ?taker = LIMIT"
    | (market) "o_side ?taker = BID" "o_type ?taker \<noteq> LIMIT"
    by (cases "o_side ?taker") auto
  then show "funded ql ms'"
  proof cases
    case ask
    then show ?thesis
      using fund bal by (simp add: funded_def sc tradedD(3) [OF tr] traded_sel [OF tr] asset_of_def)
  next
    case limit
    have "o_price ?maker * x \<le> o_price ?taker * x"
      using mt limit x by (auto simp: may_trade_def Let_def crosses_def)
    moreover have "(o_remain ?taker - x) * o_price ?taker = o_remain ?taker * o_price ?taker - o_price ?taker * x"
      by (simp add: algebra_simps)
    ultimately show ?thesis
      using fund bal limit by (simp add: funded_def Let_def sc tradedD(3) [OF tr] traded_sel [OF tr] asset_of_def)
  next
    case market
    have "ms_quote_sum ms + o_price ?maker * x \<le> ql"
      using mt market by (auto simp: may_trade_def Let_def split: if_splits)
    then show ?thesis
      using fund bal market by (simp add: funded_def Let_def sc tradedD(10) [OF tr] traded_sel [OF tr] asset_of_def)
  qed
qed

lemma traded_ids:
  assumes inv: "loop_inv ql rs ms" and tr: "traded E ms r x ms' mk tr"
    and "sq_trade_id (cx_sequencer (ms_cx ms)) \<noteq> - 1"
  shows "trade_ids_ok (ms_cx ms')"
proof -
  let ?t = "sq_trade_id (cx_sequencer (ms_cx ms))"
  have up: "k \<le> ?t + 1" if "k \<le> ?t" for k
    using word_le_imp_less_succ [OF that assms(3)] by simp
  show ?thesis
    unfolding trade_ids_ok_def
  proof (intro ballI impI)
    fix k assume k: "k \<in> set (cx_cache (ms_cx ms'))" "uk_business_type k = Trade"
    with loop_invD(9) [OF inv] tradedD(17) [OF tr] have "uk_business_id k \<le> ?t \<or> uk_business_id k = ?t + 1"
      by (auto simp: trade_ids_ok_def)
    then show "uk_business_id k \<le> sq_trade_id (cx_sequencer (ms_cx ms'))"
      using up by (auto simp: tradedD(13) [OF tr])
  qed
qed

lemma traded_finished:
  assumes inv: "loop_inv ql (r # rs) ms" and tr: "traded E ms r x ms' mk tr"
  shows "finished_ok ms' \<and> ahead_ok rs ms'"
proof
  let ?m = "ms_market ms" and ?maker = "deep (ms_market ms) r"
  note bs = loop_invD(1) [OF inv] and fin = loop_invD(10) [OF inv] and ahead = loop_invD(11) [OF inv]
  from ahead have ir: "(o_id ?maker, r) \<in> set (m_orders ?m)" and pos: "0 < o_remain ?maker"
    by (auto simp: ahead_ok_def)
  have r: "r < length (m_heap ?m)" by (rule book_structD(6) [OF bs ir])
  have id: "o_id mk = o_id ?maker" using tradedD(6) [OF tr] by (simp add: same_const_def)
  have zero: "s \<noteq> r \<and> deep ?m s \<in> set (ms_finished ms)"
    if "(i, s) \<in> set (m_orders ?m)" "o_remain (deep ?m s) = 0" for i s
    using that fin pos by (auto simp: finished_ok_def)
  have fin_zero: "\<exists>s. (o_id y, s) \<in> set (m_orders ?m) \<and> deep ?m s = y \<and> s \<noteq> r \<and> o_remain y = 0"
    if "y \<in> set (ms_finished ms)" for y
    using that fin pos unfolding finished_ok_def by fastforce
  have other: "o_id y \<noteq> o_id ?maker" if "y \<in> set (ms_finished ms)" for y
    using fin_zero [OF that] orders_fun [OF bs ir] by metis
  show "finished_ok ms'"
    unfolding finished_ok_def
  proof (intro conjI)
    show "distinct (map o_id (ms_finished ms'))"
      using fin other by (fastforce simp: finished_ok_def tradedD(11) [OF tr] id)
    show "\<forall>y \<in> set (ms_finished ms'). \<exists>s. (o_id y, s) \<in> set (m_orders (ms_market ms')) \<and> deep (ms_market ms') s = y"
      using fin_zero ir by (fastforce simp: tradedD(11) [OF tr] traded_sel [OF tr] traded_deep [OF tr r] id)
    show "\<forall>(i, s) \<in> set (m_orders (ms_market ms')).
        o_remain (deep (ms_market ms') s) = 0 \<longleftrightarrow> deep (ms_market ms') s \<in> set (ms_finished ms')"
    proof (intro ballI, clarify)
      fix i s assume "(i, s) \<in> set (m_orders (ms_market ms'))"
      then have iis: "(i, s) \<in> set (m_orders ?m)" by (simp add: traded_sel [OF tr])
      show "o_remain (deep (ms_market ms') s) = 0 \<longleftrightarrow> deep (ms_market ms') s \<in> set (ms_finished ms')"
      proof (cases "s = r")
        case True
        have "mk \<notin> set (ms_finished ms)" using other id by metis
        with True show ?thesis by (simp add: traded_deep [OF tr r] tradedD(11) [OF tr])
      next
        case False
        have "deep ?m s \<noteq> mk" using False orders_fun [OF bs ir] iis book_structD(7) [OF bs iis] id by metis
        moreover have "o_remain (deep ?m s) = 0 \<longleftrightarrow> deep ?m s \<in> set (ms_finished ms)"
          using fin iis by (auto simp: finished_ok_def)
        ultimately show ?thesis using False by (simp add: traded_deep [OF tr r] tradedD(11) [OF tr])
      qed
    qed
  qed
  show "ahead_ok rs ms'"
    using ahead tradedD(2) [OF tr]
    by (auto simp: ahead_ok_def traded_deep [OF tr r] traded_sel [OF tr] same_const_def)
qed

lemma traded_inv:
  assumes inv: "loop_inv ql (r # rs) ms" and tr: "traded E ms r x ms' mk tr" and mt: "may_trade E ql ms r x"
    and "sq_trade_id (cx_sequencer (ms_cx ms)) \<noteq> - 1"
  shows "loop_inv ql rs ms'"
  using traded_inv_book [OF inv tr mt] traded_funded [OF inv tr mt] traded_ids [OF inv tr assms(4)]
    traded_finished [OF inv tr] tradedD(15) [OF tr] loop_invD(5) [OF inv]
  by (simp add: loop_inv_def traded_sel [OF tr])

section \<open>Runs of the loop\<close>

text \<open>
  A turn stops the loop because the taker is filled, the price does not cross, the taker is post
  only, the maker is the taker's own order, or a market bid has nothing left to spend.
\<close>

definition stops :: "env \<Rightarrow> decimal \<Rightarrow> rc \<Rightarrow> match_state \<Rightarrow> match_state \<Rightarrow> bool" where
  "stops E ql r ms ms' \<longleftrightarrow> (
     let taker = ms_taker ms; maker = deep (ms_market ms) r
     in if o_remain taker = 0 \<or> \<not> crosses taker maker then ms' = ms
        else if o_post_only taker \<or> o_user taker = o_user maker then ms' = ms\<lparr>ms_need_cancel := True\<rparr>
        else ms' = ms \<and> o_side taker = BID \<and> o_type taker \<noteq> LIMIT \<and>
             ql < ms_quote_sum ms + o_price maker * min (o_remain taker) (o_remain maker) \<and>
             round_dp_to_zero E (dec_div E (ql - ms_quote_sum ms) (o_price maker)) (m_amount_prec (ms_market ms)) = 0)"

inductive run :: "env \<Rightarrow> decimal \<Rightarrow> rc list \<Rightarrow> match_state \<Rightarrow> (rc \<times> decimal \<times> trade) list \<Rightarrow> match_state \<Rightarrow> bool"
  for E ql where
  run_nil: "run E ql [] ms [] ms"
| run_stop: "stops E ql r ms ms' \<Longrightarrow> run E ql (r # rs) ms [] ms'"
| run_trade: "loop_inv ql (r # rs) ms \<Longrightarrow> may_trade E ql ms r x \<Longrightarrow> o_remain (ms_taker ms) \<noteq> 0 \<Longrightarrow> traded E ms r x ms' mk tr \<Longrightarrow>
    run E ql rs ms' fills ms'' \<Longrightarrow> run E ql (r # rs) ms ((r, x, tr) # fills) ms''"

inductive_cases run_nilE: "run E ql [] ms fills ms'"
inductive_cases run_consE: "run E ql (r # rs) ms fills ms'"

lemma match_step_ok:
  assumes E: "env_laws E" and inv: "loop_inv ql (r # rs) ms" and ids: "sq_trade_id (cx_sequencer (ms_cx ms)) \<noteq> - 1"
  shows "(\<exists>ms'. match_step E ql r ms = Some (False, ms') \<and> stops E ql r ms ms') \<or>
    (\<exists>ms' x mk tr. match_step E ql r ms = Some (True, ms') \<and> o_remain (ms_taker ms) \<noteq> 0 \<and>
       may_trade E ql ms r x \<and> traded E ms r x ms' mk tr)"
proof (cases "o_remain (ms_taker ms) = 0 \<or> \<not> crosses (ms_taker ms) (deep (ms_market ms) r) \<or>
    o_post_only (ms_taker ms) \<or> o_user (ms_taker ms) = o_user (deep (ms_market ms) r)")
  case True
  from loop_invD(5,11) [OF inv] have "m_disable_self_trade (ms_market ms)"
    and "o_side (deep (ms_market ms) r) \<noteq> o_side (ms_taker ms)" by (simp_all add: ahead_ok_def)
  with True show ?thesis
    by (cases "o_side (ms_taker ms)"; cases "o_side (deep (ms_market ms) r)")
      (auto simp: match_step_def stops_def Let_def crosses_def)
next
  case False
  let ?m = "ms_market ms" and ?maker = "deep (ms_market ms) r" and ?taker = "ms_taker ms" and ?bm = "cx_bm (ms_cx ms)"
  note bs = loop_invD(1) [OF inv] and mk = loop_invD(3) [OF inv] and fund = loop_invD(8) [OF inv]
  from loop_invD(11) [OF inv] have ir: "(o_id ?maker, r) \<in> set (m_orders ?m)" and side: "o_side ?maker \<noteq> o_side ?taker"
    and pos: "0 < o_remain ?maker" by (auto simp: ahead_ok_def)
  have okm: "order_ok ?m ?maker" using loop_invD(2) [OF inv] ir by (auto simp: orders_ok_def)
  note tko = loop_invD(6) [OF inv]
  have step: "match_step E ql r ms = trade_amount E ?m ?taker ?maker (ms_quote_sum ms) ql \<bind>
      (\<lambda>f. case f of Break \<Rightarrow> Some (False, ms)
          | Go x \<Rightarrow> exec_trade E r x ms \<bind> (\<lambda>ms'. Some (True, ms')))"
    using False by (cases "o_side ?taker") (auto simp: match_step_def Let_def crosses_def)
  have qs: "ms_quote_sum ms \<le> ql" if "o_side ?taker = BID" "o_type ?taker \<noteq> LIMIT"
    using fund that by (simp add: funded_def Let_def)
  consider (brk) "trade_amount E ?m ?taker ?maker (ms_quote_sum ms) ql = Some Break"
    | (go) x where "trade_amount E ?m ?taker ?maker (ms_quote_sum ms) ql = Some (Go x)" "may_trade E ql ms r x"
    using trade_amount_ok [OF E okm tko _ pos qs] False by (auto simp: may_trade_def Let_def)
  then show ?thesis
  proof cases
    case brk
    then have "stops E ql r ms ms" using False
      by (auto simp: stops_def trade_amount_def Let_def env_arith [OF E] split: if_splits)
    with brk step show ?thesis by simp
  next
    case go
    have x: "0 \<le> x" "has_prec (unat (m_amount_prec ?m)) x" "x \<le> o_remain ?maker" "x \<le> o_remain ?taker"
      and users: "o_user ?taker \<noteq> o_user ?maker"
      using go(2) by (simp_all add: may_trade_def Let_def)
    have p: "0 < o_price ?maker" "has_prec (unat (m_price_prec ?m)) (o_price ?maker)"
      "0 \<le> o_maker_fee ?maker" "o_maker_fee ?maker \<le> 1" using okm by (simp_all add: order_ok_def)
    have f: "0 \<le> o_taker_fee ?taker" "o_taker_fee ?taker \<le> 1" using tko by (simp_all add: taker_ok_def)
    have fresh: "fresh_trade_id (sq_trade_id (cx_sequencer (ms_cx ms)) + 1) (ms_cx ms)"
      using loop_invD(9) [OF inv] word_le_imp_less_succ [OF _ ids]
      unfolding fresh_trade_id_def trade_ids_ok_def by (metis less_irrefl)
    have "\<exists>ms' mk tr. exec_trade E r x ms = Some ms' \<and> traded E ms r x ms' mk tr"
    proof (rule exec_trade_ok [OF E mk loop_invD(4) [OF inv] users f p(3,4) x(1,2) p(1,2) fresh])
      show "(if o_side ?taker = ASK then x else o_price ?maker * x) \<le>
          bm_get ?bm (o_user ?taker) AVAILABLE (if o_side ?taker = ASK then m_base ?m else m_quote ?m)"
        using funds_cover [OF inv go(2)] .
      show "(if o_side ?taker = ASK then o_price ?maker * x else x) \<le>
          bm_get ?bm (o_user ?maker) FREEZE (if o_side ?taker = ASK then m_quote ?m else m_base ?m)"
        using frozen_covers [OF inv go(2)] .
    qed
    with step go False show ?thesis by fastforce
  qed
qed

lemma match_loop_ok:
  assumes E: "env_laws E"
  shows "loop_inv ql rs ms \<Longrightarrow> unat (sq_trade_id (cx_sequencer (ms_cx ms))) + length rs < 2 ^ 64 \<Longrightarrow>
    \<exists>ms' fills. match_loop E ql rs ms = Some ms' \<and> run E ql rs ms fills ms' \<and> loop_inv ql [] ms'"
proof (induction rs arbitrary: ms)
  case Nil
  then show ?case by (auto intro: run_nil)
next
  case (Cons r rs)
  let ?t = "sq_trade_id (cx_sequencer (ms_cx ms))"
  have "unat (- 1 :: u64) = 2 ^ 64 - 1" by (simp add: unsigned_minus_1_eq_mask mask_eq_exp_minus_1)
  with Cons.prems(2) have ids: "?t \<noteq> - 1" by auto
  from match_step_ok [OF E Cons.prems(1) ids] show ?case
  proof (elim disjE exE conjE)
    fix ms' assume step: "match_step E ql r ms = Some (False, ms')" "stops E ql r ms ms'"
    have "loop_inv ql [] ms'"
      using loop_inv_stop [OF Cons.prems(1)] step(2) by (auto simp: stops_def Let_def split: if_splits)
    with step show ?thesis by (auto intro: run_stop)
  next
    fix ms' x mk tr
    assume step: "match_step E ql r ms = Some (True, ms')" and rem: "o_remain (ms_taker ms) \<noteq> 0"
      and mt: "may_trade E ql ms r x" and tr: "traded E ms r x ms' mk tr"
    have "unat (?t + 1) = Suc (unat ?t)" using Cons.prems(2) by (simp add: unat_word_ariths)
    with Cons.prems(2) have "unat (sq_trade_id (cx_sequencer (ms_cx ms'))) + length rs < 2 ^ 64"
      by (simp add: tradedD(13) [OF tr])
    from Cons.IH [OF traded_inv [OF Cons.prems(1) tr mt ids] this] obtain ms'' fills where
      "match_loop E ql rs ms' = Some ms''" "run E ql rs ms' fills ms''" "loop_inv ql [] ms''" by blast
    with step run_trade [OF Cons.prems(1) mt rem tr] show ?thesis by fastforce
  qed
qed

end
