(* ===== verification/MarketRun.thy ===== *)
theory MarketRun
  imports MarketLoop
begin

text \<open>
  What a run of the matching loop does, by rule induction: which part of the market and of the
  balances it leaves alone, what it emits, how much it trades and where it stops.
\<close>

section \<open>Frame\<close>

definition same_book :: "market \<Rightarrow> market \<Rightarrow> bool" where
  "same_book m m' \<longleftrightarrow> m_orders m' = m_orders m \<and> m_users m' = m_users m \<and> m_asks m' = m_asks m \<and>
     m_bids m' = m_bids m \<and> m_base m' = m_base m \<and> m_quote m' = m_quote m \<and> m_name m' = m_name m \<and>
     m_amount_prec m' = m_amount_prec m \<and> m_price_prec m' = m_price_prec m \<and>
     m_base_prec m' = m_base_prec m \<and> m_quote_prec m' = m_quote_prec m \<and>
     m_min_amount m' = m_min_amount m \<and> m_disable_self_trade m' = m_disable_self_trade m \<and>
     length (m_heap m') = length (m_heap m) \<and> (\<forall>s. same_const (deep m s) (deep m' s))"

lemma same_book_refl [simp]: "same_book m m"
  by (simp add: same_book_def)

lemma same_book_trans: "same_book a b \<Longrightarrow> same_book b c \<Longrightarrow> same_book a c"
  by (auto simp: same_book_def intro: same_const_trans)

lemma ahead_rc:
  assumes "loop_inv ql (r # rs) ms"
  shows "(o_id (deep (ms_market ms) r), r) \<in> set (m_orders (ms_market ms))" and "r < length (m_heap (ms_market ms))"
proof -
  from loop_invD(11) [OF assms] show ir: "(o_id (deep (ms_market ms) r), r) \<in> set (m_orders (ms_market ms))"
    by (simp add: ahead_ok_def)
  show "r < length (m_heap (ms_market ms))" by (rule book_structD(6) [OF loop_invD(1) [OF assms] ir])
qed

lemma traded_same_book:
  assumes "traded E ms r x ms' mk tr" and "r < length (m_heap (ms_market ms))"
  shows "same_book (ms_market ms) (ms_market ms')"
  using tradedD(6) [OF assms(1)] by (simp add: same_book_def traded_sel [OF assms(1)] traded_deep [OF assms])

lemma stops_frame:
  assumes "stops E ql r ms ms'"
  shows "ms_market ms' = ms_market ms" "ms_cx ms' = ms_cx ms" "ms_taker ms' = ms_taker ms"
    "ms_quote_sum ms' = ms_quote_sum ms" "ms_finished ms' = ms_finished ms"
  using assms by (auto simp: stops_def Let_def split: if_splits)

lemma run_frame:
  assumes "run E ql rs ms fills ms'"
  shows "same_book (ms_market ms) (ms_market ms') \<and> same_const (ms_taker ms) (ms_taker ms') \<and>
    o_frozen (ms_taker ms') = o_frozen (ms_taker ms) \<and>
    cx_real_persist (ms_cx ms') = cx_real_persist (ms_cx ms) \<and>
    sq_order_id (cx_sequencer (ms_cx ms')) = sq_order_id (cx_sequencer (ms_cx ms)) \<and>
    sq_operation_log_id (cx_sequencer (ms_cx ms')) = sq_operation_log_id (cx_sequencer (ms_cx ms)) \<and>
    sq_msg_id (cx_sequencer (ms_cx ms')) = sq_msg_id (cx_sequencer (ms_cx ms)) \<and>
    bm_asset_manager (cx_bm (ms_cx ms')) = bm_asset_manager (cx_bm (ms_cx ms)) \<and>
    (\<forall>s. s \<notin> fst ` set fills \<longrightarrow> deep (ms_market ms') s = deep (ms_market ms) s)"
  using assms
proof induction
  case (run_trade r rs ms x ms' mk tr fills ms'')
  note tr = run_trade.hyps(4) and r = ahead_rc(2) [OF run_trade.hyps(1)]
  from run_trade.IH traded_same_book [OF tr r] tradedD(2,5,13,14,16) [OF tr] show ?case
    by (auto intro: same_book_trans same_const_trans simp: traded_deep [OF tr r])
qed (simp_all add: stops_frame)

section \<open>The trace\<close>

definition trades_of :: "persist_call list \<Rightarrow> trade list" where
  "trades_of cs = concat (map (\<lambda>c. case c of PutTrade t \<Rightarrow> [t] | _ \<Rightarrow> []) cs)"

lemma trades_of_simps [simp]:
  "trades_of [] = []" "trades_of (cs @ ds) = trades_of cs @ trades_of ds"
  "trades_of (PutTrade t # cs) = t # trades_of cs" "trades_of (PutOrder x e # cs) = trades_of cs"
  "trades_of (PutBalance h # cs) = trades_of cs"
  by (simp_all add: trades_of_def)

lemma trades_of_balance: "\<forall>c \<in> set cs. is_balance_call c \<Longrightarrow> trades_of cs = []"
  by (induction cs) (auto simp: trades_of_def split: persist_call.split)

lemma traded_calls:
  assumes "traded E ms r x ms' mk tr"
  shows "trades_of (cx_calls (ms_cx ms')) = trades_of (cx_calls (ms_cx ms)) @ [tr]"
proof -
  from assms obtain cs where cs: "cx_calls (ms_cx ms') = cx_calls (ms_cx ms) @ cs @ [PutTrade tr] @
      (if o_remain mk = 0 then [] else [PutOrder mk UPDATE])" "\<forall>c \<in> set cs. is_balance_call c"
    unfolding traded_def Let_def by blast
  show ?thesis by (simp add: cs(1) trades_of_balance [OF cs(2)])
qed

lemma run_trades:
  "run E ql rs ms fills ms' \<Longrightarrow>
     trades_of (cx_calls (ms_cx ms')) = trades_of (cx_calls (ms_cx ms)) @ map (\<lambda>(r, x, tr). tr) fills"
  by (induction rule: run.induct) (simp_all add: stops_frame traded_calls)

lemma run_prefix: "run E ql rs ms fills ms' \<Longrightarrow> \<exists>rest. rs = map fst fills @ rest"
  by (induction rule: run.induct) auto

section \<open>Conservation\<close>

definition fees_in :: "market \<Rightarrow> string \<Rightarrow> trade list \<Rightarrow> decimal" where
  "fees_in m a trs = sum_list (map (\<lambda>t. if a = m_base m then t_bid_fee t else if a = m_quote m then t_ask_fee t else 0) trs)"

lemma fees_in_simps [simp]:
  "fees_in m a [] = 0" "fees_in m a (t # ts) = (if a = m_base m then t_bid_fee t else if a = m_quote m then t_ask_fee t else 0) + fees_in m a ts"
  by (simp_all add: fees_in_def)

lemma fees_in_cong: "m_base m' = m_base m \<Longrightarrow> m_quote m' = m_quote m \<Longrightarrow> fees_in m' = fees_in m"
  by (simp add: fees_in_def fun_eq_iff cong: if_cong)

lemma traded_supply:
  assumes "traded E ms r x ms' mk tr"
  shows "total_supply (cx_bm (ms_cx ms')) a = total_supply (cx_bm (ms_cx ms)) a - fees_in (ms_market ms) a [tr]"
  using assms by (simp add: traded_def Let_def trade_shape_def)

lemma run_supply:
  "run E ql rs ms fills ms' \<Longrightarrow> total_supply (cx_bm (ms_cx ms')) a =
     total_supply (cx_bm (ms_cx ms)) a - fees_in (ms_market ms) a (map (\<lambda>(r, x, tr). tr) fills)"
proof (induction rule: run.induct)
  case (run_trade r rs ms x ms' mk tr fills ms'')
  have "fees_in (ms_market ms') = fees_in (ms_market ms)"
    by (rule fees_in_cong) (simp_all add: traded_sel [OF run_trade.hyps(4)])
  with run_trade.IH traded_supply [OF run_trade.hyps(4), of a] show ?case by simp
qed (simp_all add: stops_frame)

text \<open>The frozen balance not accounted for by the market's own orders.\<close>

definition slack :: "market \<Rightarrow> balance_manager \<Rightarrow> uuid \<Rightarrow> string \<Rightarrow> decimal" where
  "slack m bm u a = bm_get bm u FREEZE a - frozen_sum m u a"

lemma may_trade_users: "may_trade E ql ms r x \<Longrightarrow> o_user (ms_taker ms) \<noteq> o_user (deep (ms_market ms) r)"
  by (simp add: may_trade_def Let_def)

lemma loop_inv_sides:
  "loop_inv ql (r # rs) ms \<Longrightarrow> m_base (ms_market ms) \<noteq> m_quote (ms_market ms) \<and>
     o_side (deep (ms_market ms) r) \<noteq> o_side (ms_taker ms)"
  by (simp add: loop_inv_def mkt_ok_def ahead_ok_def)

lemma traded_slack:
  assumes inv: "loop_inv ql (r # rs) ms" and mt: "may_trade E ql ms r x" and tr: "traded E ms r x ms' mk tr"
  shows "slack (ms_market ms') (cx_bm (ms_cx ms')) u a = slack (ms_market ms) (cx_bm (ms_cx ms)) u a"
proof -
  let ?m = "ms_market ms" and ?maker = "deep (ms_market ms) r"
  have "frozen_sum (ms_market ms') u a = frozen_sum ?m u a - frozen_part ?m u a ?maker + frozen_part ?m u a mk"
    using frozen_sum_write [OF loop_invD(1) [OF inv] ahead_rc(1) [OF inv]] by (simp add: tradedD(1) [OF tr])
  with loop_inv_sides [OF inv] tradedD(6) [OF tr] show ?thesis
    by (auto simp: slack_def traded_bal(1) [OF tr may_trade_users [OF mt]] frozen_part_def asset_of_def same_const_def)
qed

lemma run_slack:
  "run E ql rs ms fills ms' \<Longrightarrow>
     slack (ms_market ms') (cx_bm (ms_cx ms')) u a = slack (ms_market ms) (cx_bm (ms_cx ms)) u a"
  by (induction rule: run.induct) (simp_all add: stops_frame traded_slack)

section \<open>Amounts\<close>

definition fill_amount :: "(rc \<times> decimal \<times> trade) list \<Rightarrow> decimal" where
  "fill_amount fills = sum_list (map (\<lambda>(r, x, tr). x) fills)"

lemma fill_amount_simps [simp]: "fill_amount [] = 0" "fill_amount ((r, x, tr) # fills) = x + fill_amount fills"
  by (simp_all add: fill_amount_def)

lemma run_amount:
  "run E ql rs ms fills ms' \<Longrightarrow>
     o_remain (ms_taker ms') = o_remain (ms_taker ms) - fill_amount fills \<and>
     o_finished_base (ms_taker ms') = o_finished_base (ms_taker ms) + fill_amount fills \<and>
     ms_quote_sum ms' = ms_quote_sum ms + sum_list (map (\<lambda>(r, x, tr). t_quote_amount tr) fills)"
proof (induction rule: run.induct)
  case (run_trade r rs ms x ms' mk tr fills ms'')
  then show ?case
    using tradedD(3,4,10) [OF run_trade.hyps(4)] by (simp add: traded_def Let_def trade_shape_def)
qed (simp_all add: stops_frame)

text \<open>Every trade of a run: between the taker and a maker ahead of it in the book, at the maker's price.\<close>

definition fill_ok :: "market \<Rightarrow> order \<Rightarrow> rc \<times> decimal \<times> trade \<Rightarrow> bool" where
  "fill_ok m taker = (\<lambda>(r, x, tr). 0 < x \<and> t_amount tr = x \<and> t_price tr = o_price (deep m r) \<and>
     t_quote_amount tr = o_price (deep m r) * x \<and> crosses taker (deep m r) \<and> \<not> o_post_only taker \<and>
     t_ask_user_id tr \<noteq> t_bid_user_id tr \<and>
     (if o_side taker = ASK
      then t_ask_order_id tr = o_id taker \<and> t_bid_order_id tr = o_id (deep m r) \<and>
           t_ask_user_id tr = o_user taker \<and> t_bid_user_id tr = o_user (deep m r) \<and>
           t_ask_role tr = TAKER \<and> t_bid_role tr = MAKER
      else t_bid_order_id tr = o_id taker \<and> t_ask_order_id tr = o_id (deep m r) \<and>
           t_bid_user_id tr = o_user taker \<and> t_ask_user_id tr = o_user (deep m r) \<and>
           t_bid_role tr = TAKER \<and> t_ask_role tr = MAKER))"

lemma fill_ok_cong:
  assumes "same_book m m'" and "same_const t t'"
  shows "fill_ok m' t' = fill_ok m t"
proof -
  have "same_const (deep m s) (deep m' s)" for s using assms(1) by (simp add: same_book_def)
  then have "o_price (deep m' s) = o_price (deep m s)" "o_id (deep m' s) = o_id (deep m s)"
    "o_user (deep m' s) = o_user (deep m s)" for s by (simp_all add: same_const_def)
  with assms(2) show ?thesis by (simp add: fill_ok_def crosses_def same_const_def)
qed

lemma run_fills:
  "run E ql rs ms fills ms' \<Longrightarrow> \<forall>f \<in> set fills. fill_ok (ms_market ms) (ms_taker ms) f"
proof (induction rule: run.induct)
  case (run_trade r rs ms x ms' mk tr fills ms'')
  note tr = run_trade.hyps(4) and r = ahead_rc(2) [OF run_trade.hyps(1)]
  have "fill_ok (ms_market ms) (ms_taker ms) (r, x, tr)"
    using run_trade.hyps(2) tr
    by (auto simp: fill_ok_def may_trade_def Let_def traded_def trade_shape_def split: if_splits)
  with run_trade.IH fill_ok_cong [OF traded_same_book [OF tr r] tradedD(2) [OF tr]] show ?case by simp
qed simp_all

text \<open>A run of a market bid spends at most the quote limit.\<close>

lemma run_quote_limit:
  "run E ql rs ms fills ms' \<Longrightarrow> o_side (ms_taker ms) = BID \<Longrightarrow> o_type (ms_taker ms) = MARKET \<Longrightarrow>
     ms_quote_sum ms \<le> ql \<Longrightarrow> ms_quote_sum ms' \<le> ql"
proof (induction rule: run.induct)
  case (run_trade r rs ms x ms' mk tr fills ms'')
  note sc = tradedD(2,10) [OF run_trade.hyps(4)]
  have "ms_quote_sum ms' \<le> ql"
    using run_trade.hyps(2) run_trade.prems by (auto simp: may_trade_def Let_def sc(2) split: if_splits)
  with run_trade sc(1) show ?case by (simp add: same_const_def)
qed (simp_all add: stops_frame)

section \<open>Available balances stay nonnegative\<close>

definition avail_ok :: "balance_manager \<Rightarrow> bool" where
  "avail_ok bm \<longleftrightarrow> (\<forall>u a. 0 \<le> bm_get bm u AVAILABLE a)"

lemma traded_fees:
  assumes E: "env_laws E" and inv: "loop_inv ql (r # rs) ms" and mt: "may_trade E ql ms r x"
    and tr: "traded E ms r x ms' mk tr"
  shows "0 \<le> t_bid_fee tr \<and> t_bid_fee tr \<le> x \<and> 0 \<le> t_ask_fee tr \<and> t_ask_fee tr \<le> t_quote_amount tr"
proof -
  let ?m = "ms_market ms" and ?maker = "deep (ms_market ms) r" and ?taker = "ms_taker ms"
  have okm: "order_ok ?m ?maker" using loop_invD(2) [OF inv] ahead_rc(1) [OF inv] by (auto simp: orders_ok_def)
  have rates: "0 \<le> bid_fee_rate ?taker ?maker" "bid_fee_rate ?taker ?maker \<le> 1"
    "0 \<le> ask_fee_rate ?taker ?maker" "ask_fee_rate ?taker ?maker \<le> 1"
    using okm loop_invD(6) [OF inv] by (simp_all add: bid_fee_rate_def ask_fee_rate_def order_ok_def taker_ok_def)
  have x: "0 \<le> x" and y: "0 \<le> o_price ?maker * x"
    using mt okm by (simp_all add: may_trade_def Let_def order_ok_def)
  show ?thesis
    using tr fee_of_bounds [OF E x rates(1,2)] fee_of_bounds [OF E y rates(3,4)]
    by (simp add: traded_def Let_def trade_shape_def)
qed

lemma traded_avail:
  assumes E: "env_laws E" and inv: "loop_inv ql (r # rs) ms" and mt: "may_trade E ql ms r x"
    and tr: "traded E ms r x ms' mk tr" and av: "avail_ok (cx_bm (ms_cx ms))"
  shows "avail_ok (cx_bm (ms_cx ms'))"
  unfolding avail_ok_def
proof (intro allI)
  fix u a
  let ?m = "ms_market ms" and ?maker = "deep (ms_market ms) r" and ?taker = "ms_taker ms"
  have sides: "m_base ?m \<noteq> m_quote ?m" "o_side ?maker \<noteq> o_side ?taker" using loop_inv_sides [OF inv] by simp_all
  have "0 \<le> bm_get (cx_bm (ms_cx ms)) (o_user ?taker) AVAILABLE (asset_of ?m ?taker) -
      (if o_side ?taker = ASK then x else o_price ?maker * x)"
    using funds_cover [OF inv mt] by (simp add: asset_of_def split: if_splits)
  moreover have "0 \<le> bm_get (cx_bm (ms_cx ms)) u AVAILABLE a" using av by (simp add: avail_ok_def)
  ultimately show "0 \<le> bm_get (cx_bm (ms_cx ms')) u AVAILABLE a"
    using traded_fees [OF E inv mt tr] tr sides(1) may_trade_users [OF mt]
    by (cases "o_side ?taker")
      (auto simp: traded_def Let_def trade_delta_def trade_shape_def asset_of_def)
qed

lemma run_avail:
  assumes E: "env_laws E"
  shows "run E ql rs ms fills ms' \<Longrightarrow> avail_ok (cx_bm (ms_cx ms)) \<Longrightarrow> avail_ok (cx_bm (ms_cx ms'))"
  by (induction rule: run.induct) (simp_all add: stops_frame traded_avail [OF E])

section \<open>Where a run stops\<close>

text \<open>
  If a limit taker is left with an amount and was not cancelled, then no order of the rest of the
  list that still has an amount crosses it, provided that the list is in price order.
\<close>

definition worse_or_same :: "OrderSide \<Rightarrow> decimal \<Rightarrow> decimal \<Rightarrow> bool" where
  "worse_or_same taker_side p q \<longleftrightarrow> (if taker_side = ASK then q \<le> p else p \<le> q)"

lemma run_uncrossed:
  "run E ql rs ms fills ms' \<Longrightarrow>
     sorted_wrt (\<lambda>r s. worse_or_same (o_side (ms_taker ms)) (o_price (deep (ms_market ms) r)) (o_price (deep (ms_market ms) s))) rs \<Longrightarrow>
     o_type (ms_taker ms) = LIMIT \<Longrightarrow> \<not> ms_need_cancel ms' \<Longrightarrow> o_remain (ms_taker ms') \<noteq> 0 \<Longrightarrow>
     ahead_ok rs ms \<Longrightarrow>
     \<forall>r \<in> set rs. o_remain (deep (ms_market ms') r) \<noteq> 0 \<longrightarrow> \<not> crosses (ms_taker ms') (deep (ms_market ms') r)"
proof (induction rule: run.induct)
  case (run_stop r ms ms' rs)
  note fr = stops_frame [OF run_stop.hyps]
  have "\<not> crosses (ms_taker ms) (deep (ms_market ms) r)"
    using run_stop by (auto simp: stops_def Let_def fr split: if_splits)
  with run_stop.prems(1,2) show ?case
    by (auto simp: fr crosses_def worse_or_same_def split: if_splits dest: bspec order_trans)
next
  case (run_trade r rs ms x ms' mk tr fills ms'')
  note tr = run_trade.hyps(4) and inv = run_trade.hyps(1) and rl = ahead_rc(2) [OF run_trade.hyps(1)]
  note sb = traded_same_book [OF tr rl]
  have price: "o_price (deep (ms_market ms') s) = o_price (deep (ms_market ms) s)" for s
    using sb by (auto simp: same_book_def same_const_def)
  have sc: "o_side (ms_taker ms') = o_side (ms_taker ms)" "o_type (ms_taker ms') = o_type (ms_taker ms)"
    using tradedD(2) [OF tr] by (simp_all add: same_const_def)
  have ih: "\<forall>r \<in> set rs. o_remain (deep (ms_market ms'') r) \<noteq> 0 \<longrightarrow> \<not> crosses (ms_taker ms'') (deep (ms_market ms'') r)"
    by (rule run_trade.IH) (use run_trade.prems traded_finished [OF inv tr] in \<open>auto simp: sc price\<close>)
  have "o_remain (ms_taker ms') \<noteq> 0"
  proof
    assume zero: "o_remain (ms_taker ms') = 0"
    with run_trade.hyps(5) have "fills = []" by (auto elim: run.cases)
    with run_amount [OF run_trade.hyps(5)] zero run_trade.prems(4) show False by simp
  qed
  then have "x = o_remain (deep (ms_market ms) r)"
    using run_trade.hyps(2) run_trade.prems(2) tradedD(3) [OF tr] by (auto simp: may_trade_def Let_def min_def)
  then have "o_remain mk = 0" using tradedD(7) [OF tr] by simp
  moreover have "deep (ms_market ms'') r = mk"
  proof -
    have "fst ` set fills \<subseteq> set rs" using run_prefix [OF run_trade.hyps(5)] by force
    moreover have "r \<notin> set rs" using run_trade.prems(5) by (simp add: ahead_ok_def)
    ultimately have "r \<notin> fst ` set fills" by blast
    with run_frame [OF run_trade.hyps(5)] show ?thesis by (simp add: traded_deep [OF tr rl])
  qed
  ultimately show ?case using ih by simp
qed simp

end
