(* ===== verification/MarketOps.thy ===== *)
theory MarketOps
  imports MarketRun
begin

text \<open>
  The invariant of a market between operations, and that submitting and cancelling orders never
  panic, keep it, keep the frozen balances in step with the book and conserve the supply of
  every asset up to the fees.
\<close>

section \<open>Removing an order\<close>

definition released :: "market \<Rightarrow> order \<Rightarrow> balance_manager \<Rightarrow> balance_manager" where
  "released m x bm = (if o_remain x = 0 then bm
     else bm_put (bm_put bm (o_user x) AVAILABLE (asset_of m x) (bm_get bm (o_user x) AVAILABLE (asset_of m x) + o_frozen x))
            (o_user x) FREEZE (asset_of m x) (bm_get bm (o_user x) FREEZE (asset_of m x) - o_frozen x))"

lemma released_get:
  "bm_get (released m x bm) u t a = bm_get bm u t a +
     (if o_remain x \<noteq> 0 \<and> u = o_user x \<and> a = asset_of m x
      then (if t = AVAILABLE then o_frozen x else - o_frozen x) else 0)"
  by (cases t) (auto simp: released_def bm_get_put)

lemma order_ok_amounts:
  assumes "mkt_ok m bm" and "order_ok m x"
  shows "amount_ok bm (asset_of m x) (o_frozen x)"
  using assms(2) mkt_ok_amounts [OF assms(1), of "o_remain x" "o_price x"]
  by (auto simp: order_ok_def asset_of_def mult.commute)

lemma released_ok:
  assumes "bm_ok bm" and "amount_ok bm (asset_of m x) (o_frozen x)"
  shows "bm_ok (released m x bm)" and "bm_asset_manager (released m x bm) = bm_asset_manager bm"
    and "total_supply (released m x bm) a = total_supply bm a"
proof -
  let ?bm1 = "bm_put bm (o_user x) AVAILABLE (asset_of m x) (bm_get bm (o_user x) AVAILABLE (asset_of m x) + o_frozen x)"
  have 1: "bm_ok ?bm1" by (rule bm_ok_add_put(1) [OF assms])
  have 2: "bm_ok (bm_put ?bm1 (o_user x) FREEZE (asset_of m x) (bm_get ?bm1 (o_user x) FREEZE (asset_of m x) - o_frozen x))"
    using bm_ok_add_put(2) [OF 1] assms(2) by simp
  show "bm_ok (released m x bm)" using assms(1) 2 by (simp add: released_def bm_get_put)
  show "bm_asset_manager (released m x bm) = bm_asset_manager bm" by (simp add: released_def)
  show "total_supply (released m x bm) a = total_supply bm a"
    using total_supply_put [OF assms(1)] total_supply_put [OF 1] by (simp add: released_def bm_get_put)
qed

lemma order_finish_eq:
  assumes E: "env_laws E" and bs: "book_struct m" and ir: "(o_id x, r) \<in> set (m_orders m)" and x: "deep m r = x"
    and ok: "bm_ok (cx_bm cx)" and amt: "amount_ok (cx_bm cx) (asset_of m x) (o_frozen x)"
  shows "order_finish E x (m, cx) =
    Some (remove_order x m, emit (PutOrder x FINISH) (cx\<lparr>cx_bm := released m x (cx_bm cx)\<rparr>))"
proof -
  from users_get [OF bs ir] x obtain um where um: "bt_get (m_users m) (o_user x) = Some um" by auto
  let ?m1 = "if o_side x = ASK then m\<lparr>m_asks := bt_remove (get_ask_key x) (m_asks m)\<rparr>
             else m\<lparr>m_bids := bt_remove (get_bid_key x) (m_bids m)\<rparr>"
  have "unfrozen_balance E ?m1 x cx = Some (cx\<lparr>cx_bm := released m x (cx_bm cx)\<rparr>)"
    using bm_unfrozen_eq [OF E ok amt]
    by (auto simp: unfrozen_balance_def balance_unfrozen_def env_uuid [OF E] released_def is_ask_def asset_of_def)
  with um show ?thesis
    by (cases "o_side x") (simp_all add: order_finish_def remove_order_def)
qed

section \<open>The invariant\<close>

definition uncrossed :: "market \<Rightarrow> bool" where
  "uncrossed m \<longleftrightarrow> (\<forall>(i, r) \<in> set (m_orders m). \<forall>(j, s) \<in> set (m_orders m).
     o_side (deep m r) = ASK \<longrightarrow> o_side (deep m s) = BID \<longrightarrow> o_price (deep m s) < o_price (deep m r))"

definition all_open :: "market \<Rightarrow> bool" where
  "all_open m \<longleftrightarrow> (\<forall>(i, r) \<in> set (m_orders m). 0 < o_remain (deep m r))"

definition ids_below :: "u64 \<Rightarrow> market \<Rightarrow> bool" where
  "ids_below n m \<longleftrightarrow> (\<forall>(i, r) \<in> set (m_orders m). i \<le> n)"

text \<open>The part that concerns the market alone, the part on the context, and both.\<close>

definition book_ok :: "market \<Rightarrow> bool" where
  "book_ok m \<longleftrightarrow> book_struct m \<and> orders_ok m \<and> all_open m \<and> uncrossed m \<and> m_disable_self_trade m"

definition ctx_ok :: "ctx \<Rightarrow> bool" where
  "ctx_ok cx \<longleftrightarrow> bm_ok (cx_bm cx) \<and> avail_ok (cx_bm cx) \<and> trade_ids_ok cx"

definition market_inv :: "market \<Rightarrow> ctx \<Rightarrow> bool" where
  "market_inv m cx \<longleftrightarrow> book_ok m \<and> ctx_ok cx \<and> mkt_ok m (cx_bm cx) \<and> solvent m (cx_bm cx) \<and>
     ids_below (sq_order_id (cx_sequencer cx)) m"

lemma uncrossed_mono:
  assumes "uncrossed m" and "set (m_orders m') \<subseteq> set (m_orders m)" and "\<And>s. same_const (deep m s) (deep m' s)"
  shows "uncrossed m'"
  using assms unfolding uncrossed_def same_const_def by fastforce

lemma orders_ok_cong:
  "m_amount_prec m' = m_amount_prec m \<Longrightarrow> m_price_prec m' = m_price_prec m \<Longrightarrow> order_ok m' = order_ok m"
  by (simp add: order_ok_def fun_eq_iff)

lemma mkt_ok_remove [simp]: "mkt_ok (remove_order x m) bm = mkt_ok m bm"
  by (simp add: mkt_ok_def)

lemma mkt_ok_add [simp]: "mkt_ok (add_order x m) bm = mkt_ok m bm"
  by (simp add: mkt_ok_def)

lemma mkt_ok_bm_cong: "bm_asset_manager bm' = bm_asset_manager bm \<Longrightarrow> mkt_ok m bm' = mkt_ok m bm"
  by (simp add: mkt_ok_def)

lemma remove_book_facts:
  assumes bs: "book_struct m" and oo: "orders_ok m" and ir: "(o_id x, r) \<in> set (m_orders m)" and x: "deep m r = x"
  shows "book_struct (remove_order x m)" and "orders_ok (remove_order x m)"
    and "order_ok m x"
    and "slack (remove_order x m) (released m x bm) u a = slack m bm u a"
proof -
  show "book_struct (remove_order x m)" using book_struct_remove [OF bs ir] x by simp
  show "orders_ok (remove_order x m)"
    using oo orders_ok_cong [of "remove_order x m" m] by (auto simp: orders_ok_def set_bt_remove)
  show ok: "order_ok m x" using oo ir x by (auto simp: orders_ok_def)
  then have "o_remain x = 0 \<Longrightarrow> o_frozen x = 0" by (auto simp: order_ok_def)
  then show "slack (remove_order x m) (released m x bm) u a = slack m bm u a"
    using frozen_sum_remove [OF bs ir x, of u a] by (auto simp: slack_def released_get frozen_part_def)
qed

section \<open>Finishing the filled makers\<close>

definition remove_all :: "order list \<Rightarrow> market \<Rightarrow> market" where
  "remove_all fs m = foldl (\<lambda>m x. remove_order x m) m fs"

definition live_zero :: "order list \<Rightarrow> market \<Rightarrow> bool" where
  "live_zero fs m \<longleftrightarrow> distinct (map o_id fs) \<and>
     (\<forall>x \<in> set fs. o_remain x = 0 \<and> (\<exists>r. (o_id x, r) \<in> set (m_orders m) \<and> deep m r = x))"

lemma remove_all_simps [simp]: "remove_all [] m = m" "remove_all (x # fs) m = remove_all fs (remove_order x m)"
  by (simp_all add: remove_all_def)

lemma remove_all_sel [simp]:
  "deep (remove_all fs m) r = deep m r" "m_heap (remove_all fs m) = m_heap m"
  "m_base (remove_all fs m) = m_base m" "m_quote (remove_all fs m) = m_quote m"
  "m_name (remove_all fs m) = m_name m" "m_min_amount (remove_all fs m) = m_min_amount m"
  "m_amount_prec (remove_all fs m) = m_amount_prec m" "m_price_prec (remove_all fs m) = m_price_prec m"
  "m_base_prec (remove_all fs m) = m_base_prec m" "m_quote_prec (remove_all fs m) = m_quote_prec m"
  "m_disable_self_trade (remove_all fs m) = m_disable_self_trade m"
  by (induction fs arbitrary: m) simp_all

lemma set_orders_remove_all:
  "set (m_orders (remove_all fs m)) = {(i, r) \<in> set (m_orders m). i \<notin> o_id ` set fs}"
  by (induction fs arbitrary: m) (auto simp: set_bt_remove)

lemma live_zero_step:
  assumes "live_zero (x # fs) m" shows "live_zero fs (remove_order x m)"
  unfolding live_zero_def
proof (intro conjI ballI)
  fix y assume y: "y \<in> set fs"
  with assms obtain r where r: "(o_id y, r) \<in> set (m_orders m)" "deep m r = y" and "o_id y \<noteq> o_id x" "o_remain y = 0"
    by (force simp: live_zero_def)
  then show "o_remain y = 0" "\<exists>r. (o_id y, r) \<in> set (m_orders (remove_order x m)) \<and> deep (remove_order x m) r = y"
    by (auto simp: set_bt_remove)
qed (use assms in \<open>simp add: live_zero_def\<close>)

lemma remove_all_book:
  "live_zero fs m \<Longrightarrow> book_struct m \<Longrightarrow> orders_ok m \<Longrightarrow>
     book_struct (remove_all fs m) \<and> orders_ok (remove_all fs m) \<and>
     slack (remove_all fs m) bm u a = slack m bm u a"
proof (induction fs arbitrary: m)
  case (Cons x fs)
  from Cons.prems(1) obtain r where r: "(o_id x, r) \<in> set (m_orders m)" "deep m r = x" "o_remain x = 0"
    by (auto simp: live_zero_def)
  note f = remove_book_facts [OF Cons.prems(2,3) r(1,2)]
  have "released m x bm = bm" using r(3) by (simp add: released_def)
  with f(4) [of bm u a] Cons.IH [OF live_zero_step [OF Cons.prems(1)] f(1,2)] show ?case by simp
qed simp

lemma order_finish_all_eq:
  assumes E: "env_laws E"
  shows "live_zero fs m \<Longrightarrow> book_struct m \<Longrightarrow> orders_ok m \<Longrightarrow> mkt_ok m (cx_bm cx) \<Longrightarrow> bm_ok (cx_bm cx) \<Longrightarrow>
    order_finish_all E fs (m, cx) =
      Some (remove_all fs m, cx\<lparr>cx_calls := cx_calls cx @ map (\<lambda>x. PutOrder x FINISH) fs\<rparr>)"
proof (induction fs arbitrary: m cx)
  case (Cons x fs)
  from Cons.prems(1) obtain r where r: "(o_id x, r) \<in> set (m_orders m)" "deep m r = x" "o_remain x = 0"
    by (auto simp: live_zero_def)
  note f = remove_book_facts [OF Cons.prems(2,3) r(1,2)]
  have rel: "cx\<lparr>cx_bm := released m x (cx_bm cx)\<rparr> = cx" using r(3) by (simp add: released_def)
  have "order_finish E x (m, cx) = Some (remove_order x m, emit (PutOrder x FINISH) cx)"
    using order_finish_eq [OF E Cons.prems(2) r(1,2) Cons.prems(5) order_ok_amounts [OF Cons.prems(4) f(3)]]
    by (simp add: rel)
  moreover from Cons.IH [OF live_zero_step [OF Cons.prems(1)] f(1,2), of "emit (PutOrder x FINISH) cx"] Cons.prems(4,5)
  have "order_finish_all E fs (remove_order x m, emit (PutOrder x FINISH) cx) =
      Some (remove_all fs (remove_order x m), cx\<lparr>cx_calls := cx_calls cx @ map (\<lambda>x. PutOrder x FINISH) (x # fs)\<rparr>)"
    by (simp add: emit_def)
  ultimately show ?case by simp
qed simp

section \<open>Executing an order\<close>

definition held :: "market \<Rightarrow> order \<Rightarrow> balance_manager \<Rightarrow> balance_manager" where
  "held m x bm =
     bm_put (bm_put bm (o_user x) AVAILABLE (asset_of m x) (bm_get bm (o_user x) AVAILABLE (asset_of m x) - o_frozen x))
       (o_user x) FREEZE (asset_of m x) (bm_get bm (o_user x) FREEZE (asset_of m x) + o_frozen x)"

lemma held_get:
  "bm_get (held m x bm) u t a = bm_get bm u t a +
     (if u = o_user x \<and> a = asset_of m x then (if t = AVAILABLE then - o_frozen x else o_frozen x) else 0)"
  by (cases t) (auto simp: held_def bm_get_put)

lemma held_ok:
  assumes "bm_ok bm" and "amount_ok bm (asset_of m x) (o_frozen x)"
  shows "bm_ok (held m x bm)" and "bm_asset_manager (held m x bm) = bm_asset_manager bm"
    and "total_supply (held m x bm) a = total_supply bm a"
proof -
  let ?bm1 = "bm_put bm (o_user x) AVAILABLE (asset_of m x) (bm_get bm (o_user x) AVAILABLE (asset_of m x) - o_frozen x)"
  have 1: "bm_ok ?bm1" by (rule bm_ok_add_put(2) [OF assms])
  have 2: "bm_ok (bm_put ?bm1 (o_user x) FREEZE (asset_of m x) (bm_get ?bm1 (o_user x) FREEZE (asset_of m x) + o_frozen x))"
    using bm_ok_add_put(1) [OF 1] assms(2) by simp
  show "bm_ok (held m x bm)" using 2 by (simp add: held_def bm_get_put)
  show "bm_asset_manager (held m x bm) = bm_asset_manager bm" by (simp add: held_def)
  show "total_supply (held m x bm) a = total_supply bm a"
    using total_supply_put [OF assms(1)] total_supply_put [OF 1] by (simp add: held_def bm_get_put)
qed

definition rested :: "order \<Rightarrow> order" where
  "rested x = x\<lparr>o_frozen := if o_side x = ASK then o_remain x else o_remain x * o_price x\<rparr>"

lemma insert_rested: "env_laws E \<Longrightarrow> insert_order_into_orderbook E x m = (add_order (rested x) m, rested x)"
  by (simp add: insert_order_into_orderbook_eq env_simps rested_def Let_def)

definition rests :: "match_state \<Rightarrow> bool" where
  "rests ms \<longleftrightarrow> \<not> ms_need_cancel ms \<and> o_type (ms_taker ms) = LIMIT \<and> o_remain (ms_taker ms) \<noteq> 0"

definition conclude :: "match_state \<Rightarrow> market \<times> ctx \<times> order" where
  "conclude ms = (
     let m = remove_all (ms_finished ms) (ms_market ms);
         cx = (ms_cx ms)\<lparr>cx_calls := cx_calls (ms_cx ms) @ map (\<lambda>x. PutOrder x FINISH) (ms_finished ms)\<rparr>;
         x = rested (ms_taker ms)
     in if rests ms then (add_order x m, cx\<lparr>cx_bm := held m x (cx_bm cx)\<rparr>, x)
        else (m, emit (PutOrder (ms_taker ms) FINISH) cx, ms_taker ms))"

definition start :: "order \<Rightarrow> market \<Rightarrow> ctx \<Rightarrow> match_state" where
  "start taker m cx = \<lparr>ms_market = m, ms_cx = emit (PutOrder taker PUT) cx, ms_taker = taker, ms_quote_sum = 0,
     ms_finished = [], ms_need_cancel = False\<rparr>"

lemma start_sel [simp]:
  "ms_market (start t m cx) = m" "ms_cx (start t m cx) = emit (PutOrder t PUT) cx" "ms_taker (start t m cx) = t"
  "ms_quote_sum (start t m cx) = 0" "ms_finished (start t m cx) = []" "ms_need_cancel (start t m cx) = False"
  by (simp_all add: start_def)

lemma finished_live_zero: "finished_ok ms \<Longrightarrow> live_zero (ms_finished ms) (ms_market ms)"
  by (fastforce simp: finished_ok_def live_zero_def)

lemma rested_amount:
  assumes "mkt_ok m bm" and "has_prec (unat (m_amount_prec m)) (o_remain x)" and "has_prec (unat (m_price_prec m)) (o_price x)"
  shows "amount_ok bm (asset_of m (rested x)) (o_frozen (rested x))"
  using mkt_ok_amounts [OF assms] by (simp add: rested_def asset_of_def mult.commute)

lemma execute_tail:
  assumes E: "env_laws E" and inv: "loop_inv ql [] ms"
    and price: "has_prec (unat (m_price_prec (ms_market ms))) (o_price (ms_taker ms))"
    and loop: "match_loop E ql (counter_orders m (o_side taker)) (start taker m cx) = Some ms"
  shows "execute_order E taker ql m cx = Some (conclude ms)"
proof -
  let ?m1 = "remove_all (ms_finished ms) (ms_market ms)"
  let ?cx1 = "(ms_cx ms)\<lparr>cx_calls := cx_calls (ms_cx ms) @ map (\<lambda>x. PutOrder x FINISH) (ms_finished ms)\<rparr>"
  let ?x = "rested (ms_taker ms)"
  have fin: "order_finish_all E (ms_finished ms) (ms_market ms, ms_cx ms) = Some (?m1, ?cx1)"
    by (rule order_finish_all_eq [OF E finished_live_zero]) (use inv in \<open>simp_all add: loop_inv_def\<close>)
  have "amount_ok (cx_bm ?cx1) (asset_of ?m1 ?x) (o_frozen ?x)"
    using rested_amount [OF loop_invD(3) [OF inv] _ price] loop_invD(6) [OF inv]
    by (simp add: taker_ok_def asset_of_def split: if_splits)
  then have "frozen_balance E (add_order ?x ?m1) ?x ?cx1 = Some (?cx1\<lparr>cx_bm := held ?m1 ?x (cx_bm ?cx1)\<rparr>)"
    using bm_frozen_eq [OF E, of "cx_bm ?cx1" "asset_of ?m1 ?x" "o_frozen ?x" "o_user ?x"] loop_invD(4) [OF inv]
    by (simp add: frozen_balance_def balance_frozen_def env_uuid [OF E] held_def asset_of_def is_ask_def split: if_splits)
  with fin loop show ?thesis
    by (cases "o_type (ms_taker ms)")
      (simp_all add: execute_order_def conclude_def rests_def Let_def start_def [symmetric]
        insert_rested [OF E])
qed

end
