(* ===== verification/MarketPut.thy ===== *)
theory MarketPut
  imports MarketOps
begin

text \<open>
  Submitting an order: from the checks of \<^verbatim>\<open>put_order\<close> to the loop invariant, and from the end of
  the loop back to the market invariant.
\<close>

section \<open>The counter side of the book\<close>

lemma counter_orders_set:
  assumes "book_struct m"
  shows "r \<in> set (counter_orders m side) \<longleftrightarrow> (o_id (deep m r), r) \<in> set (m_orders m) \<and> o_side (deep m r) \<noteq> side"
proof -
  have "r \<in> snd ` set (m_bids m) \<longleftrightarrow> (o_id (deep m r), r) \<in> set (m_orders m) \<and> o_side (deep m r) = BID"
    using book_structD(9) [OF assms, of "get_bid_key (deep m r)" r] book_structD(9) [OF assms, of _ r] by force
  moreover have "r \<in> snd ` set (m_asks m) \<longleftrightarrow> (o_id (deep m r), r) \<in> set (m_orders m) \<and> o_side (deep m r) = ASK"
    using book_structD(8) [OF assms, of "get_ask_key (deep m r)" r] book_structD(8) [OF assms, of _ r] by force
  ultimately show ?thesis
    by (cases side; cases "o_side (deep m r)") (simp_all add: counter_orders_def)
qed

lemma distinct_map_fst_snd:
  assumes "distinct (map fst kvs)" and "\<And>k r. (k, r) \<in> set kvs \<Longrightarrow> k = f r"
  shows "distinct (map snd kvs)"
proof -
  have "map fst kvs = map f (map snd kvs)" using assms(2) by auto
  with assms(1) have "distinct (map f (map snd kvs))" by simp
  then show ?thesis unfolding distinct_map [of f] by blast
qed

lemma counter_orders_distinct: "book_struct m \<Longrightarrow> distinct (counter_orders m side)"
  unfolding counter_orders_def
  using distinct_map_fst_snd [OF bt_inv_distinct [OF book_structD(4)], of m "\<lambda>r. get_ask_key (deep m r)"]
    distinct_map_fst_snd [OF bt_inv_distinct [OF book_structD(5)], of m "\<lambda>r. get_bid_key (deep m r)"]
  by (simp add: book_structD(8,9))

text \<open>The walk of the matcher visits the orders by price and, at one price, by identifier.\<close>

lemma counter_orders_keys:
  assumes bs: "book_struct m"
  shows "sorted_wrt (<) (map get_ask_key (map (deep m) (counter_orders m BID)))"
    and "sorted_wrt (<) (map get_bid_key (map (deep m) (counter_orders m ASK)))"
proof -
  have "map get_ask_key (map (deep m) (counter_orders m BID)) = map fst (m_asks m)"
    using book_structD(8) [OF bs] by (auto simp: counter_orders_def)
  with book_structD(4) [OF bs] show "sorted_wrt (<) (map get_ask_key (map (deep m) (counter_orders m BID)))"
    by (simp add: bt_inv_def)
  have "map get_bid_key (map (deep m) (counter_orders m ASK)) = map fst (m_bids m)"
    using book_structD(9) [OF bs] by (auto simp: counter_orders_def)
  with book_structD(5) [OF bs] show "sorted_wrt (<) (map get_bid_key (map (deep m) (counter_orders m ASK)))"
    by (simp add: bt_inv_def)
qed

lemma counter_orders_sorted:
  assumes bs: "book_struct m"
  shows "sorted_wrt (\<lambda>r s. worse_or_same side (o_price (deep m r)) (o_price (deep m s))) (counter_orders m side)"
proof (cases side)
  case ASK
  with counter_orders_keys(2) [OF bs] show ?thesis
    by (auto simp: sorted_wrt_map worse_or_same_def get_key_less elim!: sorted_wrt_mono_rel [rotated])
next
  case BID
  with counter_orders_keys(1) [OF bs] show ?thesis
    by (auto simp: sorted_wrt_map worse_or_same_def get_key_less elim!: sorted_wrt_mono_rel [rotated])
qed

section \<open>Entering the loop\<close>

definition new_taker :: "market \<Rightarrow> ctx \<Rightarrow> order \<Rightarrow> bool" where
  "new_taker m cx x \<longleftrightarrow> o_id x = sq_order_id (cx_sequencer cx) \<and> (\<forall>(i, r) \<in> set (m_orders m). i < o_id x) \<and>
     taker_ok m x \<and> has_prec (unat (m_price_prec m)) (o_price x) \<and> 0 \<le> o_maker_fee x \<and> o_maker_fee x \<le> 1 \<and>
     o_remain x = o_amount x \<and> o_finished_base x = 0"

lemma start_inv:
  assumes "book_ok m" and "ctx_ok cx" and "mkt_ok m (cx_bm cx)" and "solvent m (cx_bm cx)" and "taker_ok m x"
    and fund: "funded ql (start x m cx)"
  shows "loop_inv ql (counter_orders m (o_side x)) (start x m cx)"
proof -
  have bs: "book_struct m" using assms(1) by (simp add: book_ok_def)
  have "finished_ok (start x m cx)"
    using assms(1) by (auto simp: finished_ok_def book_ok_def all_open_def)
  moreover have "ahead_ok (counter_orders m (o_side x)) (start x m cx)"
    using counter_orders_distinct [OF bs] assms(1)
    by (auto simp: ahead_ok_def counter_orders_set [OF bs] book_ok_def all_open_def)
  moreover have "trade_ids_ok (ms_cx (start x m cx))"
    using assms(2) by (simp add: ctx_ok_def trade_ids_ok_def)
  ultimately show ?thesis
    using assms by (simp add: loop_inv_def book_ok_def ctx_ok_def)
qed

section \<open>Leaving the loop\<close>

lemma remove_all_facts:
  assumes inv: "loop_inv ql [] ms"
  shows "book_struct (remove_all (ms_finished ms) (ms_market ms))"
    and "orders_ok (remove_all (ms_finished ms) (ms_market ms))"
    and "all_open (remove_all (ms_finished ms) (ms_market ms))"
    and "slack (remove_all (ms_finished ms) (ms_market ms)) bm u a = slack (ms_market ms) bm u a"
proof -
  note fin = loop_invD(10) [OF inv] and bs = loop_invD(1) [OF inv] and oo = loop_invD(2) [OF inv]
  note all = remove_all_book [OF finished_live_zero [OF fin] bs oo]
  show "book_struct (remove_all (ms_finished ms) (ms_market ms))"
    "orders_ok (remove_all (ms_finished ms) (ms_market ms))"
    "slack (remove_all (ms_finished ms) (ms_market ms)) bm u a = slack (ms_market ms) bm u a"
    using all by simp_all
  have "0 < o_remain (deep (ms_market ms) r)"
    if "(i, r) \<in> set (m_orders (ms_market ms))" "i \<notin> o_id ` set (ms_finished ms)" for i r
  proof -
    have "o_id (deep (ms_market ms) r) = i" by (rule book_structD(7) [OF bs that(1)])
    with that(2) have "deep (ms_market ms) r \<notin> set (ms_finished ms)" by auto
    with fin that(1) have "o_remain (deep (ms_market ms) r) \<noteq> 0" by (auto simp: finished_ok_def)
    with oo that(1) show ?thesis by (fastforce simp: orders_ok_def order_ok_def)
  qed
  then show "all_open (remove_all (ms_finished ms) (ms_market ms))"
    by (auto simp: all_open_def set_orders_remove_all)
qed

lemma rested_sel [simp]:
  "o_id (rested x) = o_id x" "o_side (rested x) = o_side x" "o_user (rested x) = o_user x"
  "o_price (rested x) = o_price x" "o_remain (rested x) = o_remain x" "o_type (rested x) = o_type x"
  "same_const x (rested x)" "o_finished_base (rested x) = o_finished_base x" "o_amount (rested x) = o_amount x"
  by (simp_all add: rested_def same_const_def)

lemma conclude_slack:
  assumes inv: "loop_inv ql [] ms" and fresh: "o_id (ms_taker ms) \<notin> fst ` set (m_orders (ms_market ms))"
    and "conclude ms = (m', cx', x')"
  shows "slack m' (cx_bm cx') u a = slack (ms_market ms) (cx_bm (ms_cx ms)) u a"
proof (cases "rests ms")
  case True
  let ?m1 = "remove_all (ms_finished ms) (ms_market ms)" and ?x = "rested (ms_taker ms)"
  have "o_id ?x \<notin> fst ` set (m_orders ?m1)" using fresh by (auto simp: set_orders_remove_all)
  note sum = frozen_sum_add [OF remove_all_facts(1) [OF inv] this]
  from True assms(3) have "m' = add_order ?x ?m1" "cx_bm cx' = held ?m1 ?x (cx_bm (ms_cx ms))"
    by (auto simp: conclude_def Let_def)
  then show ?thesis
    using remove_all_facts(4) [OF inv, of "cx_bm (ms_cx ms)" u a]
    by (auto simp: slack_def held_get sum frozen_part_def)
next
  case False
  with assms(3) remove_all_facts(4) [OF inv] show ?thesis by (auto simp: conclude_def Let_def)
qed

lemma conclude_supply:
  assumes inv: "loop_inv ql [] ms" and price: "has_prec (unat (m_price_prec (ms_market ms))) (o_price (ms_taker ms))"
    and "conclude ms = (m', cx', x')"
  shows "total_supply (cx_bm cx') a = total_supply (cx_bm (ms_cx ms)) a" and "bm_ok (cx_bm cx')"
    and "bm_asset_manager (cx_bm cx') = bm_asset_manager (cx_bm (ms_cx ms))"
proof -
  let ?m1 = "remove_all (ms_finished ms) (ms_market ms)" and ?x = "rested (ms_taker ms)"
  have "amount_ok (cx_bm (ms_cx ms)) (asset_of ?m1 ?x) (o_frozen ?x)"
    using rested_amount [OF loop_invD(3) [OF inv] _ price] loop_invD(6) [OF inv]
    by (simp add: taker_ok_def asset_of_def split: if_splits)
  note held = held_ok [OF loop_invD(4) [OF inv] this]
  show "total_supply (cx_bm cx') a = total_supply (cx_bm (ms_cx ms)) a" "bm_ok (cx_bm cx')"
    "bm_asset_manager (cx_bm cx') = bm_asset_manager (cx_bm (ms_cx ms))"
    using assms(3) held loop_invD(4) [OF inv] by (auto simp: conclude_def Let_def split: if_splits)
qed

lemma conclude_avail:
  assumes inv: "loop_inv ql [] ms" and av: "avail_ok (cx_bm (ms_cx ms))" and "conclude ms = (m', cx', x')"
  shows "avail_ok (cx_bm cx')"
proof (cases "rests ms")
  case True
  let ?m1 = "remove_all (ms_finished ms) (ms_market ms)" and ?x = "rested (ms_taker ms)"
  have "o_frozen ?x \<le> bm_get (cx_bm (ms_cx ms)) (o_user ?x) AVAILABLE (asset_of ?m1 ?x)"
    using loop_invD(8) [OF inv] True by (simp add: funded_def rests_def Let_def rested_def asset_of_def)
  then have "avail_ok (held ?m1 ?x (cx_bm (ms_cx ms)))" using av by (auto simp: avail_ok_def held_get)
  moreover have "cx_bm cx' = held ?m1 ?x (cx_bm (ms_cx ms))"
    using True assms(3) by (auto simp: conclude_def Let_def)
  ultimately show ?thesis by simp
next
  case False
  with av assms(3) show ?thesis by (auto simp: conclude_def Let_def)
qed

lemma rested_order_ok:
  assumes inv: "loop_inv ql [] ms" and r: "rests ms"
    and p: "has_prec (unat (m_price_prec (ms_market ms))) (o_price (ms_taker ms))"
    and f: "0 \<le> o_maker_fee (ms_taker ms)" "o_maker_fee (ms_taker ms) \<le> 1"
    and a: "o_remain (ms_taker ms) + o_finished_base (ms_taker ms) = o_amount (ms_taker ms)"
  shows "order_ok (ms_market ms) (rested (ms_taker ms))"
proof -
  have "o_maker_fee (rested (ms_taker ms)) = o_maker_fee (ms_taker ms)" by (simp add: rested_def)
  then show ?thesis
    using loop_invD(6) [OF inv] r p f a
    by (simp add: order_ok_def taker_ok_def rests_def) (simp add: rested_def)
qed

lemma uncrossed_add:
  assumes "uncrossed m" and bs: "book_struct m" and fresh: "o_id x \<notin> fst ` set (m_orders m)"
    and no: "\<And>i r. (i, r) \<in> set (m_orders m) \<Longrightarrow> o_side (deep m r) \<noteq> o_side x \<Longrightarrow> \<not> crosses x (deep m r)"
    and lim: "o_type x = LIMIT"
  shows "uncrossed (add_order x m)"
proof -
  have lt: "r < length (m_heap m)" if "(i, r) \<in> set (m_orders m)" for i r by (rule book_structD(6) [OF bs that])
  have mem: "r = length (m_heap m) \<or> (i, r) \<in> set (m_orders m)" if "(i, r) \<in> set (m_orders (add_order x m))" for i r
    using that by (auto simp: set_bt_insert [OF book_structD(1) [OF bs]])
  have "o_price (deep (add_order x m) s) < o_price (deep (add_order x m) r)"
    if "(i, r) \<in> set (m_orders (add_order x m))" "(j, s) \<in> set (m_orders (add_order x m))"
      "o_side (deep (add_order x m) r) = ASK" "o_side (deep (add_order x m) s) = BID" for i r j s
  proof -
    note prems = that
    consider (old) "(i, r) \<in> set (m_orders m)" "(j, s) \<in> set (m_orders m)"
      | (r_new) "r = length (m_heap m)" "(j, s) \<in> set (m_orders m)"
      | (s_new) "(i, r) \<in> set (m_orders m)" "s = length (m_heap m)"
      | (same) "r = length (m_heap m)" "s = length (m_heap m)"
      using mem [OF prems(1)] mem [OF prems(2)] by blast
    then show ?thesis
    proof cases
      case old
      with prems(3,4) assms(1) lt [OF old(1)] lt [OF old(2)] show ?thesis by (fastforce simp: uncrossed_def)
    next
      case r_new
      with prems(3,4) no [of j s] lim lt show ?thesis by (auto simp: crosses_def)
    next
      case s_new
      with prems(3,4) no [of i r] lim lt show ?thesis by (auto simp: crosses_def)
    qed (use prems(3,4) in simp)
  qed
  then show ?thesis by (auto simp: uncrossed_def)
qed

text \<open>A well-formed book stays one when an open order is added that crosses no resting one.\<close>

lemma book_ok_add:
  assumes bo: "book_ok m" and fresh: "o_id x \<notin> fst ` set (m_orders m)" and ok: "order_ok m x" "0 < o_remain x"
    and no: "\<And>i r. (i, r) \<in> set (m_orders m) \<Longrightarrow> o_side (deep m r) \<noteq> o_side x \<Longrightarrow> \<not> crosses x (deep m r)"
    and lim: "o_type x = LIMIT"
  shows "book_ok (add_order x m)"
proof -
  have bs: "book_struct m" using bo by (simp add: book_ok_def)
  have "uncrossed (add_order x m)"
    by (rule uncrossed_add [OF _ bs fresh no lim]) (use bo in \<open>simp add: book_ok_def\<close>)
  moreover have "order_ok (add_order x m) (deep (add_order x m) r) \<and> 0 < o_remain (deep (add_order x m) r)"
    if "(i, r) \<in> set (m_orders (add_order x m))" for i r
  proof -
    have ok_eq: "order_ok (add_order x m) = order_ok m" by (rule orders_ok_cong) simp_all
    from that consider (new) "r = length (m_heap m)" | (old) "(i, r) \<in> set (m_orders m)"
      by (auto simp: set_bt_insert [OF book_structD(1) [OF bs]])
    then show ?thesis
    proof cases
      case new
      with ok show ?thesis by (simp add: ok_eq)
    next
      case old
      then have "deep (add_order x m) r = deep m r" by (intro deep_add_order_old book_structD(6) [OF bs])
      with bo old show ?thesis by (auto simp: book_ok_def orders_ok_def all_open_def ok_eq)
    qed
  qed
  ultimately show ?thesis
    using bo book_struct_add [OF bs fresh] by (auto simp: book_ok_def orders_ok_def all_open_def)
qed

text \<open>What is left of an order after matching crosses no order that is left on the other side.\<close>

lemma rested_not_crossing:
  assumes run: "run E ql (counter_orders m (o_side x)) (start x m cx) fills ms" and bs: "book_struct m"
    and inv0: "loop_inv ql (counter_orders m (o_side x)) (start x m cx)" and r: "rests ms"
    and ir: "(i, r) \<in> set (m_orders m)" and op: "o_remain (deep (ms_market ms) r) \<noteq> 0"
    and sd: "o_side (deep (ms_market ms) r) \<noteq> o_side (ms_taker ms)"
  shows "\<not> crosses (ms_taker ms) (deep (ms_market ms) r)"
proof -
  have sb: "same_book m (ms_market ms)" and sc: "same_const x (ms_taker ms)" using run_frame [OF run, simplified] by simp_all
  then have "same_const (deep m r) (deep (ms_market ms) r)" by (simp add: same_book_def)
  then have "r \<in> set (counter_orders m (o_side x))"
    using ir sd sc book_structD(7) [OF bs ir] by (simp add: counter_orders_set [OF bs] same_const_def)
  moreover have "o_type x = LIMIT" using r sc by (simp add: rests_def same_const_def)
  ultimately show ?thesis
    using run_uncrossed [OF run] counter_orders_sorted [OF bs] r loop_invD(11) [OF inv0] op by (simp add: rests_def)
qed

lemma conclude_book:
  assumes run: "run E ql (counter_orders m (o_side x)) (start x m cx) fills ms" and inv: "loop_inv ql [] ms"
    and inv0: "loop_inv ql (counter_orders m (o_side x)) (start x m cx)"
    and nt: "new_taker m cx x" and bo: "book_ok m" and res: "conclude ms = (m', cx', x')"
  shows "book_ok m'" and "\<forall>(i, r) \<in> set (m_orders m'). i \<le> o_id x"
proof -
  let ?m1 = "remove_all (ms_finished ms) (ms_market ms)" and ?x = "rested (ms_taker ms)"
  note am = run_amount [OF run, simplified] and facts = remove_all_facts [OF inv]
  have sb: "same_book m (ms_market ms)" and sc: "same_const x (ms_taker ms)" using run_frame [OF run, simplified] by simp_all
  have sub: "set (m_orders ?m1) \<subseteq> set (m_orders m)" using sb by (auto simp: set_orders_remove_all same_book_def)
  have const: "same_const (deep m s) (deep ?m1 s)" for s using sb by (simp add: same_book_def)
  have "uncrossed ?m1" by (rule uncrossed_mono [OF _ sub const]) (use bo in \<open>simp add: book_ok_def\<close>)
  then have bo1: "book_ok ?m1" using facts(1-3) loop_invD(5) [OF inv] by (simp add: book_ok_def)
  have ids: "\<forall>(i, r) \<in> set (m_orders m). i < o_id x" using nt unfolding new_taker_def by blast
  have oid: "o_id ?x = o_id x" using sc by (simp add: same_const_def)
  have "book_ok m' \<and> (\<forall>(i, r) \<in> set (m_orders m'). i \<le> o_id x)"
  proof (cases "rests ms")
    case True
    then have m': "m' = add_order ?x ?m1" using res by (auto simp: conclude_def Let_def)
    have ok: "order_ok (ms_market ms) ?x"
      by (rule rested_order_ok [OF inv True])
        (use nt sb sc am in \<open>auto simp: new_taker_def same_book_def same_const_def\<close>)
    have "\<not> crosses ?x (deep ?m1 r)" if "(i, r) \<in> set (m_orders ?m1)" "o_side (deep ?m1 r) \<noteq> o_side ?x" for i r
    proof -
      have "\<not> crosses (ms_taker ms) (deep (ms_market ms) r)"
        by (rule rested_not_crossing [OF run _ inv0 True, of i])
          (use that sub bo facts(3) in \<open>auto simp: book_ok_def all_open_def\<close>)
      then show ?thesis by (auto simp: crosses_def split: if_splits)
    qed
    moreover have "order_ok ?m1 = order_ok (ms_market ms)" by (rule orders_ok_cong) simp_all
    moreover have "0 < o_remain ?x" "o_type ?x = LIMIT" using ok True by (simp_all add: order_ok_def rests_def less_le)
    moreover have "o_id ?x \<notin> fst ` set (m_orders ?m1)" using ids sub unfolding oid by fastforce
    ultimately have "book_ok m'" unfolding m' using ok by (intro book_ok_add [OF bo1]) simp_all
    moreover have "\<forall>(i, r) \<in> set (m_orders m'). i \<le> o_id x"
      using ids sub oid by (fastforce simp: m' set_bt_insert [OF book_structD(1) [OF facts(1)]])
    ultimately show ?thesis ..
  next
    case False
    then have "m' = ?m1" using res by (auto simp: conclude_def Let_def)
    moreover have "\<forall>(i, r) \<in> set (m_orders ?m1). i \<le> o_id x" using ids sub by fastforce
    ultimately show ?thesis using bo1 by simp
  qed
  then show "book_ok m'" and "\<forall>(i, r) \<in> set (m_orders m'). i \<le> o_id x" by simp_all
qed

section \<open>Submitting an order\<close>

text \<open>
  What the caller must provide: nonnegative numbers, fee rates of at most 1, and counters that do
  not wrap during the call.
\<close>

definition input_ok :: "order_input \<Rightarrow> bool" where
  "input_ok i \<longleftrightarrow> 0 \<le> i_amount i \<and> 0 \<le> i_price i \<and> 0 \<le> i_quote_limit i \<and>
     0 \<le> i_taker_fee i \<and> i_taker_fee i \<le> 1 \<and> 0 \<le> i_maker_fee i \<and> i_maker_fee i \<le> 1"

definition room :: "market \<Rightarrow> ctx \<Rightarrow> bool" where
  "room m cx \<longleftrightarrow> unat (sq_order_id (cx_sequencer cx)) + 1 < 2 ^ 64 \<and>
     unat (sq_trade_id (cx_sequencer cx)) + length (m_orders m) < 2 ^ 64"

definition accepted_ctx :: "ctx \<Rightarrow> ctx" where
  "accepted_ctx cx = cx\<lparr>cx_clock := Suc (cx_clock cx),
     cx_sequencer := (cx_sequencer cx)\<lparr>sq_order_id := sq_order_id (cx_sequencer cx) + 1\<rparr>\<rparr>"

definition accepted_order :: "env \<Rightarrow> order_input \<Rightarrow> uuid \<Rightarrow> market \<Rightarrow> ctx \<Rightarrow> order" where
  "accepted_order E i u m cx =
     order_of_input m i u (sq_order_id (cx_sequencer cx) + 1) (current_timestamp E (cx_clock cx))"

lemma accepted_ctx_sel [simp]:
  "cx_bm (accepted_ctx cx) = cx_bm cx" "cx_cache (accepted_ctx cx) = cx_cache cx"
  "cx_calls (accepted_ctx cx) = cx_calls cx" "cx_real_persist (accepted_ctx cx) = cx_real_persist cx"
  "sq_trade_id (cx_sequencer (accepted_ctx cx)) = sq_trade_id (cx_sequencer cx)"
  "sq_order_id (cx_sequencer (accepted_ctx cx)) = sq_order_id (cx_sequencer cx) + 1"
  "sq_operation_log_id (cx_sequencer (accepted_ctx cx)) = sq_operation_log_id (cx_sequencer cx)"
  by (simp_all add: accepted_ctx_def)

lemma accepted_order_sel [simp]:
  "o_side (accepted_order E i u m cx) = i_side i" "o_type (accepted_order E i u m cx) = i_type i"
  "o_user (accepted_order E i u m cx) = u" "o_price (accepted_order E i u m cx) = i_price i"
  "o_remain (accepted_order E i u m cx) = i_amount i" "o_amount (accepted_order E i u m cx) = i_amount i"
  "o_post_only (accepted_order E i u m cx) = i_post_only i"
  "o_id (accepted_order E i u m cx) = sq_order_id (cx_sequencer cx) + 1"
  "o_finished_base (accepted_order E i u m cx) = 0" "o_frozen (accepted_order E i u m cx) = 0"
  by (simp_all add: accepted_order_def order_of_input_def)

lemma length_counter_orders: "book_struct m \<Longrightarrow> length (counter_orders m side) \<le> length (m_orders m)"
proof -
  assume bs: "book_struct m"
  have "set (counter_orders m side) \<subseteq> snd ` set (m_orders m)"
    using counter_orders_set [OF bs] by force
  then have "card (set (counter_orders m side)) \<le> card (snd ` set (m_orders m))" by (simp add: card_mono)
  also have "\<dots> \<le> length (m_orders m)" by (metis card_length length_map list.set_map)
  finally show ?thesis using distinct_card [OF counter_orders_distinct [OF bs, of side]] by simp
qed

lemma accepted_new_taker:
  assumes E: "env_laws E" and inv: "market_inv m cx" and ok: "input_ok i" and room: "room m cx"
    and check: "check_order_input E m i = Inr ()"
  shows "new_taker m (accepted_ctx cx) (accepted_order E i u m cx)"
proof -
  have amt: "round_dp_to_zero E (i_amount i) (m_amount_prec m) = i_amount i"
    and prc: "round_dp E (i_price i) (m_price_prec m) = i_price i" and lim: "i_type i = LIMIT \<Longrightarrow> i_price i \<noteq> 0"
    using check by (auto simp: check_order_input_def split: if_splits)
  have p: "has_prec (unat (m_amount_prec m)) (i_amount i)" "has_prec (unat (m_price_prec m)) (i_price i)"
    using env_round_prec [OF E] amt prc by metis+
  have "unat (- 1 :: u64) = 2 ^ 64 - 1" by (simp add: unsigned_minus_1_eq_mask mask_eq_exp_minus_1)
  with room have ne: "sq_order_id (cx_sequencer cx) \<noteq> - 1" by (auto simp: room_def)
  have "j < sq_order_id (cx_sequencer cx) + 1" if "(j, r) \<in> set (m_orders m)" for j r
    using inv that word_le_imp_less_succ [OF _ ne] by (fastforce simp: market_inv_def ids_below_def)
  then show ?thesis
    using ok p lim by (auto simp: new_taker_def taker_ok_def input_ok_def less_le accepted_order_def order_of_input_def)
qed

lemma accepted_funded:
  assumes E: "env_laws E" and inv: "market_inv m cx" and ok: "input_ok i"
    and bal: "check_balance E m i u (cx_bm cx) = Some (Inr ())" and ql: "quote_limit_of E m i u (cx_bm cx) = Some ql"
  shows "funded ql (start (accepted_order E i u m cx) m (accepted_ctx cx))"
proof -
  have av: "0 \<le> bm_get (cx_bm cx) u AVAILABLE (m_quote m)" using inv by (simp add: market_inv_def ctx_ok_def avail_ok_def)
  consider (ask) "i_side i = ASK" | (limit) "i_side i = BID" "i_type i = LIMIT" | (market) "i_side i = BID" "i_type i = MARKET"
    by (cases "i_side i"; cases "i_type i") simp_all
  then show ?thesis
  proof cases
    case ask
    with bal show ?thesis
      by (auto simp: funded_def check_balance_def balance_get_def env_uuid [OF E] split: if_splits)
  next
    case limit
    with bal show ?thesis
      by (auto simp: funded_def Let_def check_balance_def balance_get_def env_uuid [OF E] env_arith [OF E] split: if_splits)
  next
    case market
    have trunc: "0 \<le> round_dp_to_zero E (i_quote_limit i) p" for p
      using env_trunc_bounds(1) [OF E] ok by (simp add: input_ok_def)
    show ?thesis
      using market ql av trunc
      by (auto simp: funded_def Let_def quote_limit_of_def balance_get_def env_uuid [OF E]
          split: if_splits Option.bind_splits)
  qed
qed

lemma put_order_run:
  assumes E: "env_laws E" and inv: "market_inv m cx" and ok: "input_ok i" and room: "room m cx"
  shows "(\<exists>e. put_order E i u m cx = Some (m, cx, Inl e)) \<or>
    (\<exists>ql fills ms m' cx' x'.
       put_order E i u m cx = Some (m', cx', Inr x') \<and> conclude ms = (m', cx', x') \<and>
       check_order_input E m i = Inr () \<and> quote_limit_of E m i u (cx_bm cx) = Some ql \<and>
       run E ql (counter_orders m (i_side i)) (start (accepted_order E i u m cx) m (accepted_ctx cx)) fills ms \<and>
       loop_inv ql (counter_orders m (i_side i)) (start (accepted_order E i u m cx) m (accepted_ctx cx)) \<and>
       loop_inv ql [] ms \<and> new_taker m (accepted_ctx cx) (accepted_order E i u m cx))"
proof (cases "check_order_input E m i")
  case (Inl e)
  then show ?thesis by (simp add: put_order_def)
next
  case (Inr unit)
  then have check: "check_order_input E m i = Inr ()" by simp
  have "check_balance E m i u (cx_bm cx) \<noteq> None"
    by (simp add: check_balance_def balance_get_def env_uuid [OF E])
  then obtain b where b: "check_balance E m i u (cx_bm cx) = Some b" by blast
  show ?thesis
  proof (cases b)
    case (Inl e)
    with check b show ?thesis by (simp add: put_order_def)
  next
    case (Inr unit)
    then have bal: "check_balance E m i u (cx_bm cx) = Some (Inr ())" using b by simp
    have mk: "mkt_ok m (cx_bm cx)" and bo: "book_ok m" and co: "ctx_ok cx" and so: "solvent m (cx_bm cx)"
      using inv by (simp_all add: market_inv_def)
    have "quote_limit_of E m i u (cx_bm cx) \<noteq> None"
      using mk by (simp add: quote_limit_of_def balance_get_def env_uuid [OF E] mkt_ok_def)
    then obtain ql where ql: "quote_limit_of E m i u (cx_bm cx) = Some ql" by blast
    let ?cx = "accepted_ctx cx" and ?x = "accepted_order E i u m cx"
    note nt = accepted_new_taker [OF E inv ok room check, of u]
    have "ctx_ok ?cx" using co by (simp add: ctx_ok_def trade_ids_ok_def)
    then have inv0: "loop_inv ql (counter_orders m (o_side ?x)) (start ?x m ?cx)"
      using start_inv [OF bo _ _ _ _ accepted_funded [OF E inv ok bal ql]] mk so nt by (simp add: new_taker_def)
    have bs: "book_struct m" using bo by (simp add: book_ok_def)
    have "unat (sq_trade_id (cx_sequencer (ms_cx (start ?x m ?cx)))) + length (counter_orders m (o_side ?x)) < 2 ^ 64"
      using room length_counter_orders [OF bs, of "o_side ?x"] by (simp add: room_def)
    from match_loop_ok [OF E inv0 this] obtain ms fills where
      loop: "match_loop E ql (counter_orders m (o_side ?x)) (start ?x m ?cx) = Some ms"
      and run: "run E ql (counter_orders m (o_side ?x)) (start ?x m ?cx) fills ms" and inv1: "loop_inv ql [] ms"
      by blast
    have "has_prec (unat (m_price_prec (ms_market ms))) (o_price (ms_taker ms))"
      using run_frame [OF run] nt by (simp add: same_book_def same_const_def new_taker_def)
    note tail = execute_tail [OF E inv1 this loop]
    obtain m' cx' x' where res: "conclude ms = (m', cx', x')" by (cases "conclude ms") auto
    have "put_order E i u m cx = Some (m', cx', Inr x')"
      using check bal ql tail res
      by (simp add: put_order_def read_clock_def next_order_id_def accepted_ctx_def accepted_order_def)
    with check ql run inv0 inv1 nt res show ?thesis by (intro disjI2) fastforce
  qed
qed

end
