(* ===== verification/MarketSpec.thy ===== *)
theory MarketSpec
  imports MarketPut
begin

text \<open>
  An abstract specification of matching on plain lists, and the refinement: the loop over shared
  references, with its balance updates and messages, performs exactly the fills of the
  specification and leaves exactly its book.
\<close>

section \<open>The specification\<close>

text \<open>A resting order is its identifier, owner, price and amount left; a fill is the maker's
  identifier, the amount and the price.\<close>

type_synonym resting = "u64 \<times> uuid \<times> decimal \<times> decimal"
type_synonym spec_fill = "u64 \<times> decimal \<times> decimal"

text \<open>
  Walk the resting orders from the best. \<open>accepts\<close> tells which prices the taker takes,
  \<open>refuses\<close> whose orders it must not meet, and \<open>cap spent p x\<close> what its budget leaves of a
  trade of \<open>x\<close> at price \<open>p\<close>. The result: the fills, the resting orders left, the amount left
  and whether the taker is cancelled.
\<close>

fun spec_match ::
  "(decimal \<Rightarrow> decimal \<Rightarrow> decimal \<Rightarrow> decimal) \<Rightarrow> (decimal \<Rightarrow> bool) \<Rightarrow> (uuid \<Rightarrow> bool) \<Rightarrow> decimal \<Rightarrow> decimal \<Rightarrow>
   resting list \<Rightarrow> spec_fill list \<times> resting list \<times> decimal \<times> bool" where
  "spec_match cap accepts refuses spent amount [] = ([], [], amount, False)"
| "spec_match cap accepts refuses spent amount ((i, v, p, q) # book) =
     (if amount = 0 \<or> \<not> accepts p then ([], (i, v, p, q) # book, amount, False)
      else if refuses v then ([], (i, v, p, q) # book, amount, True)
      else let x = cap spent p (min amount q)
           in if x = 0 then ([], (i, v, p, q) # book, amount, False)
              else let (fs, rest, left, c) = spec_match cap accepts refuses (spent + p * x) (amount - x) book
                   in ((i, x, p) # fs, (if x = q then rest else (i, v, p, q - x) # rest), left, c))"

fun spec_insert :: "(resting \<Rightarrow> resting \<Rightarrow> bool) \<Rightarrow> resting \<Rightarrow> resting list \<Rightarrow> resting list" where
  "spec_insert before x [] = [x]"
| "spec_insert before x (y # ys) = (if before x y then x # y # ys else y # spec_insert before x ys)"

definition before :: "OrderSide \<Rightarrow> resting \<Rightarrow> resting \<Rightarrow> bool" where
  "before side = (\<lambda>(i, _, p, _) (i', _, p', _).
     (if side = ASK then p < p' else p' < p) \<or> p = p' \<and> i < i')"

definition accepts :: "order_input \<Rightarrow> decimal \<Rightarrow> bool" where
  "accepts i p \<longleftrightarrow> (i_type i = LIMIT \<longrightarrow> (if i_side i = ASK then i_price i \<le> p else p \<le> i_price i))"

definition refuses :: "order_input \<Rightarrow> uuid \<Rightarrow> uuid \<Rightarrow> bool" where
  "refuses i u v \<longleftrightarrow> i_post_only i \<or> v = u"

definition budget_cut :: "env \<Rightarrow> u32 \<Rightarrow> order_input \<Rightarrow> decimal \<Rightarrow> decimal \<Rightarrow> decimal \<Rightarrow> decimal \<Rightarrow> decimal" where
  "budget_cut E prec i ql spent p x =
     (if i_side i = BID \<and> i_type i \<noteq> LIMIT \<and> ql < spent + p * x
      then round_dp_to_zero E (dec_div E (ql - spent) p) prec else x)"

text \<open>The specification of an accepted order on the two sides: its own and the counter side.\<close>

definition spec_put ::
  "env \<Rightarrow> u32 \<Rightarrow> order_input \<Rightarrow> uuid \<Rightarrow> u64 \<Rightarrow> decimal \<Rightarrow> resting list \<Rightarrow> resting list \<Rightarrow>
   spec_fill list \<times> resting list \<times> resting list \<times> decimal" where
  "spec_put E prec i u oid ql own counter = (
     let (fs, counter', left, cancelled) =
           spec_match (budget_cut E prec i ql) (accepts i) (refuses i u) 0 (i_amount i) counter
     in (fs, (if \<not> cancelled \<and> i_type i = LIMIT \<and> left \<noteq> 0
              then spec_insert (before (i_side i)) (oid, u, i_price i, left) own else own), counter', left))"

section \<open>The loop refines it\<close>

definition view :: "market \<Rightarrow> rc \<Rightarrow> resting" where
  "view m r = (o_id (deep m r), o_user (deep m r), o_price (deep m r), o_remain (deep m r))"

definition side_view :: "market \<Rightarrow> OrderSide \<Rightarrow> resting list" where
  "side_view m side = map (view m) (if side = ASK then map snd (m_asks m) else map snd (m_bids m))"

definition matches_input :: "order_input \<Rightarrow> uuid \<Rightarrow> order \<Rightarrow> bool" where
  "matches_input i u x \<longleftrightarrow> o_type x = i_type i \<and> o_side x = i_side i \<and> o_price x = i_price i \<and>
     o_post_only x = i_post_only i \<and> o_user x = u"

lemma matches_input_const: "matches_input i u x \<Longrightarrow> same_const x y \<Longrightarrow> matches_input i u y"
  by (simp add: matches_input_def same_const_def)

lemma view_const: "same_const (deep m r) (deep m' r) \<Longrightarrow>
    fst (view m' r) = fst (view m r) \<and> fst (snd (view m' r)) = fst (snd (view m r)) \<and>
    fst (snd (snd (view m' r))) = fst (snd (snd (view m r)))"
  by (simp add: view_def same_const_def)

lemma run_spec:
  "run E ql rs ms fills ms' \<Longrightarrow> ahead_ok rs ms \<Longrightarrow> \<not> ms_need_cancel ms \<Longrightarrow> matches_input i u (ms_taker ms) \<Longrightarrow>
     spec_match (budget_cut E (m_amount_prec (ms_market ms)) i ql) (accepts i) (refuses i u) (ms_quote_sum ms)
       (o_remain (ms_taker ms)) (map (view (ms_market ms)) rs) =
     (map (\<lambda>(r, x, tr). (o_id (deep (ms_market ms) r), x, t_price tr)) fills,
      map (view (ms_market ms')) (filter (\<lambda>r. o_remain (deep (ms_market ms') r) \<noteq> 0) rs),
      o_remain (ms_taker ms'), ms_need_cancel ms')"
proof (induction rule: run.induct)
  case (run_nil ms)
  then show ?case by simp
next
  case (run_stop r ms ms' rs)
  note fr = stops_frame [OF run_stop.hyps]
  have "o_remain (deep (ms_market ms) r) \<noteq> 0" "filter (\<lambda>s. o_remain (deep (ms_market ms) s) \<noteq> 0) rs = rs"
    using run_stop.prems(1) by (fastforce simp: ahead_ok_def filter_id_conv)+
  with run_stop show ?case
    by (auto simp: fr stops_def Let_def crosses_def accepts_def refuses_def budget_cut_def matches_input_def view_def
        split: if_splits)
next
  case (run_trade r rs ms x ms' mk tr fills ms'')
  note inv = run_trade.hyps(1) and mt = run_trade.hyps(2) and tr = run_trade.hyps(4) and run = run_trade.hyps(5)
  note rl = ahead_rc(2) [OF inv]
  let ?m = "ms_market ms" and ?maker = "deep (ms_market ms) r" and ?t = "ms_taker ms"
  have notin: "r \<notin> set rs" using run_trade.prems(1) by (simp add: ahead_ok_def)
  have views: "map (view (ms_market ms')) rs = map (view ?m) rs"
    using notin by (auto simp: view_def traded_deep [OF tr rl])
  have ids: "o_id (deep (ms_market ms') s) = o_id (deep ?m s)" for s
    using traded_same_book [OF tr rl] by (simp add: same_book_def same_const_def)
  have last: "deep (ms_market ms'') r = mk"
  proof -
    have "fst ` set fills \<subseteq> set rs" using run_prefix [OF run] by force
    with notin have "r \<notin> fst ` set fills" by blast
    with run_frame [OF run] show ?thesis by (simp add: traded_deep [OF tr rl])
  qed
  have ih: "spec_match (budget_cut E (m_amount_prec ?m) i ql) (accepts i) (refuses i u)
       (ms_quote_sum ms + o_price ?maker * x) (o_remain ?t - x) (map (view ?m) rs) =
     (map (\<lambda>(r, x, tr). (o_id (deep ?m r), x, t_price tr)) fills,
      map (view (ms_market ms'')) (filter (\<lambda>r. o_remain (deep (ms_market ms'') r) \<noteq> 0) rs),
      o_remain (ms_taker ms''), ms_need_cancel ms'')"
    using run_trade.IH traded_finished [OF inv tr] run_trade.prems(2) matches_input_const [OF run_trade.prems(3) tradedD(2) [OF tr]]
    by (simp add: tradedD(3,10,12) [OF tr] traded_sel [OF tr] views ids)
  have price: "t_price tr = o_price ?maker" using tr by (simp add: traded_def Let_def trade_shape_def)
  have sc: "o_id mk = o_id ?maker" "o_user mk = o_user ?maker" "o_price mk = o_price ?maker"
    using tradedD(6) [OF tr] by (simp_all add: same_const_def)
  have x: "budget_cut E (m_amount_prec ?m) i ql (ms_quote_sum ms) (o_price ?maker) (min (o_remain ?t) (o_remain ?maker)) = x"
    "x \<noteq> 0" "accepts i (o_price ?maker)" "\<not> refuses i u (o_user ?maker)"
    using mt run_trade.prems(3)
    by (auto simp: may_trade_def Let_def budget_cut_def accepts_def refuses_def crosses_def matches_input_def split: if_splits)+
  show ?case
    using run_trade.hyps(3) x price last sc tradedD(7) [OF tr] by (auto simp: view_def ih [unfolded view_def])
qed

section \<open>The sides of the book after the loop\<close>

lemma remove_all_sides:
  "m_asks (remove_all fs m) = filter (\<lambda>(k, r). k \<notin> get_ask_key ` {x \<in> set fs. o_side x = ASK}) (m_asks m)"
  "m_bids (remove_all fs m) = filter (\<lambda>(k, r). k \<notin> get_bid_key ` {x \<in> set fs. o_side x = BID}) (m_bids m)"
proof (induction fs arbitrary: m)
  case (Cons x fs)
  {
    case 1
    show ?case
      by (cases "o_side x") (auto simp: Cons(1) remove_order_def bt_remove_def intro!: filter_cong)
  next
    case 2
    show ?case
      by (cases "o_side x") (auto simp: Cons(2) remove_order_def bt_remove_def intro!: filter_cong)
  }
qed simp_all

lemma finished_iff:
  assumes inv: "loop_inv ql rs ms" and ir: "(i, r) \<in> set (m_orders (ms_market ms))"
  shows "(\<exists>x \<in> set (ms_finished ms). o_id x = i) \<longleftrightarrow> o_remain (deep (ms_market ms) r) = 0"
    and "x \<in> set (ms_finished ms) \<Longrightarrow> o_id x = i \<Longrightarrow> x = deep (ms_market ms) r"
proof -
  note fin = loop_invD(10) [OF inv] and bs = loop_invD(1) [OF inv]
  have same: "x = deep (ms_market ms) r" if "x \<in> set (ms_finished ms)" "o_id x = i" for x
    using fin that orders_fun [OF bs ir] unfolding finished_ok_def by metis
  then show "x \<in> set (ms_finished ms) \<Longrightarrow> o_id x = i \<Longrightarrow> x = deep (ms_market ms) r" .
  have "o_id (deep (ms_market ms) r) = i" by (rule book_structD(7) [OF bs ir])
  moreover have "o_remain (deep (ms_market ms) r) = 0 \<longleftrightarrow> deep (ms_market ms) r \<in> set (ms_finished ms)"
    using fin ir by (auto simp: finished_ok_def)
  ultimately show "(\<exists>x \<in> set (ms_finished ms). o_id x = i) \<longleftrightarrow> o_remain (deep (ms_market ms) r) = 0"
    using same by blast
qed

definition side_rcs :: "market \<Rightarrow> OrderSide \<Rightarrow> rc list" where
  "side_rcs m side = (if side = ASK then map snd (m_asks m) else map snd (m_bids m))"

lemma side_view_rcs: "side_view m side = map (view m) (side_rcs m side)"
  by (simp add: side_view_def side_rcs_def)

lemma map_snd_filter:
  assumes "\<And>k r. (k, r) \<in> set kvs \<Longrightarrow> P k \<longleftrightarrow> Q r"
  shows "map snd (filter (\<lambda>(k, r). P k) kvs) = filter Q (map snd kvs)"
  using assms
proof (induction kvs)
  case (Cons kv kvs)
  obtain k r where kv: "kv = (k, r)" by (cases kv)
  have "P k \<longleftrightarrow> Q r" using Cons.prems [of k r] kv by simp
  with Cons show ?case by (auto simp: kv)
qed simp

lemma remove_all_rcs:
  assumes inv: "loop_inv ql rs ms"
  shows "side_rcs (remove_all (ms_finished ms) (ms_market ms)) side =
    filter (\<lambda>r. o_remain (deep (ms_market ms) r) \<noteq> 0) (side_rcs (ms_market ms) side)"
proof -
  let ?m = "ms_market ms" and ?fs = "ms_finished ms"
  note bs = loop_invD(1) [OF inv]
  have askkey: "get_ask_key (deep ?m r) \<notin> get_ask_key ` {x \<in> set ?fs. o_side x = ASK} \<longleftrightarrow> o_remain (deep ?m r) \<noteq> 0"
    if "(o_id (deep ?m r), r) \<in> set (m_orders ?m)" "o_side (deep ?m r) = ASK" for r
    using finished_iff [OF inv that(1)] that(2) by (auto simp: image_iff get_key_eq)
  have asks: "k \<notin> get_ask_key ` {x \<in> set ?fs. o_side x = ASK} \<longleftrightarrow> o_remain (deep ?m r) \<noteq> 0"
    if "(k, r) \<in> set (m_asks ?m)" for k r
  proof -
    from that have h: "(o_id (deep ?m r), r) \<in> set (m_orders ?m)" "o_side (deep ?m r) = ASK" "k = get_ask_key (deep ?m r)"
      by (simp_all add: book_structD(8) [OF bs])
    show ?thesis unfolding h(3) by (rule askkey [OF h(1,2)])
  qed
  have bidkey: "get_bid_key (deep ?m r) \<notin> get_bid_key ` {x \<in> set ?fs. o_side x = BID} \<longleftrightarrow> o_remain (deep ?m r) \<noteq> 0"
    if "(o_id (deep ?m r), r) \<in> set (m_orders ?m)" "o_side (deep ?m r) = BID" for r
    using finished_iff [OF inv that(1)] that(2) by (auto simp: image_iff get_key_eq)
  have bids: "k \<notin> get_bid_key ` {x \<in> set ?fs. o_side x = BID} \<longleftrightarrow> o_remain (deep ?m r) \<noteq> 0"
    if "(k, r) \<in> set (m_bids ?m)" for k r
  proof -
    from that have h: "(o_id (deep ?m r), r) \<in> set (m_orders ?m)" "o_side (deep ?m r) = BID" "k = get_bid_key (deep ?m r)"
      by (simp_all add: book_structD(9) [OF bs])
    show ?thesis unfolding h(3) by (rule bidkey [OF h(1,2)])
  qed
  show ?thesis
    using map_snd_filter [of "m_asks ?m", OF asks] map_snd_filter [of "m_bids ?m", OF bids]
    by (simp add: side_rcs_def remove_all_sides)
qed

lemma side_rcs_mem:
  assumes "book_struct m"
  shows "r \<in> set (side_rcs m side) \<longleftrightarrow> (o_id (deep m r), r) \<in> set (m_orders m) \<and> o_side (deep m r) = side"
  using counter_orders_set [OF assms, of r "case side of ASK \<Rightarrow> BID | BID \<Rightarrow> ASK"]
  by (cases side; cases "o_side (deep m r)") (simp_all add: side_rcs_def counter_orders_def)

lemma bt_insert_view:
  assumes "\<And>k r. (k, r) \<in> set kvs \<Longrightarrow> (kx < k \<longleftrightarrow> prec v (f r)) \<and> kx \<noteq> k"
    and "\<And>k. (k, n) \<notin> set kvs"
  shows "map (\<lambda>(k, r). if r = n then v else f r) (bt_insert kx n kvs) =
    spec_insert prec v (map (\<lambda>(k, r). if r = n then v else f r) kvs)"
  using assms
proof (induction kvs)
  case (Cons kv kvs)
  obtain k r where kv: "kv = (k, r)" by (cases kv)
  have rn: "r \<noteq> n" using Cons.prems(2) [of k] kv by auto
  have "kx < k \<longleftrightarrow> prec v (f r)" "kx \<noteq> k" using Cons.prems(1) [of k r] kv by auto
  moreover have "map (\<lambda>(k, r). if r = n then v else f r) (bt_insert kx n kvs) =
      spec_insert prec v (map (\<lambda>(k, r). if r = n then v else f r) kvs)"
    by (rule Cons.IH) (use Cons.prems in auto)
  ultimately show ?case using rn by (simp add: kv)
qed simp

lemma add_order_view:
  assumes bs: "book_struct m" and fresh: "o_id x \<notin> fst ` set (m_orders m)"
  shows "side_view (add_order x m) side =
    (if side = o_side x then spec_insert (before side) (o_id x, o_user x, o_price x, o_remain x) (side_view m side)
     else side_view m side)"
proof -
  let ?v = "(o_id x, o_user x, o_price x, o_remain x)" and ?n = "length (m_heap m)"
  have lt: "r < ?n" if "r \<in> set (side_rcs m s)" for r s
    using that book_structD(6) [OF bs] by (auto simp: side_rcs_mem [OF bs])
  have old: "view (add_order x m) r = view m r" if "r < ?n" for r using that by (simp add: view_def)
  have ve: "view (add_order x m) r = (if r = ?n then ?v else view m r)" if "r \<le> ?n" for r
    using that by (auto simp: view_def le_less)
  have no: "(k, ?n) \<notin> set (m_asks m)" "(k', ?n) \<notin> set (m_bids m)" for k k'
    using book_structD(6) [OF bs, of _ ?n] by (auto simp: book_structD(8,9) [OF bs])
  have ids: "o_id x \<noteq> o_id (deep m r)" if "(o_id (deep m r), r) \<in> set (m_orders m)" for r using fresh that by force
  have ask: "map (view (add_order x m)) (map snd (bt_insert (get_ask_key x) ?n (m_asks m))) =
      spec_insert (before ASK) ?v (map (view m) (map snd (m_asks m)))"
    (is "?l = ?r")
  proof -
    have "?l = map (\<lambda>(k, r). if r = ?n then ?v else view m r) (bt_insert (get_ask_key x) ?n (m_asks m))"
      using lt [of _ ASK] no by (auto simp: set_bt_insert [OF book_structD(4) [OF bs]] side_rcs_def old ve intro!: le_less [THEN iffD2])
    also have "\<dots> = spec_insert (before ASK) ?v (map (\<lambda>(k, r). if r = ?n then ?v else view m r) (m_asks m))"
      by (rule bt_insert_view) (use ids no in \<open>auto simp: book_structD(8) [OF bs] get_key_less get_key_eq before_def view_def\<close>)
    also have "map (\<lambda>(k, r). if r = ?n then ?v else view m r) (m_asks m) = map (view m) (map snd (m_asks m))"
      using no by auto
    finally show ?thesis .
  qed
  have bid: "map (view (add_order x m)) (map snd (bt_insert (get_bid_key x) ?n (m_bids m))) =
      spec_insert (before BID) ?v (map (view m) (map snd (m_bids m)))"
    (is "?l = ?r")
  proof -
    have "?l = map (\<lambda>(k, r). if r = ?n then ?v else view m r) (bt_insert (get_bid_key x) ?n (m_bids m))"
      using lt [of _ BID] no by (auto simp: set_bt_insert [OF book_structD(5) [OF bs]] side_rcs_def old ve intro!: le_less [THEN iffD2])
    also have "\<dots> = spec_insert (before BID) ?v (map (\<lambda>(k, r). if r = ?n then ?v else view m r) (m_bids m))"
      by (rule bt_insert_view) (use ids no in \<open>auto simp: book_structD(9) [OF bs] get_key_less get_key_eq before_def view_def\<close>)
    also have "map (\<lambda>(k, r). if r = ?n then ?v else view m r) (m_bids m) = map (view m) (map snd (m_bids m))"
      using no by auto
    finally show ?thesis .
  qed
  have other: "map (view (add_order x m)) (side_rcs m s) = map (view m) (side_rcs m s)" for s
    using lt old by auto
  show ?thesis
    using ask bid other [of side]
    by (cases side; cases "o_side x") (simp_all add: side_view_def side_rcs_def add_order_def [of x m])
qed

end
