(* ===== verification/MarketProps.thy ===== *)
theory MarketProps
  imports MarketSpec
begin

text \<open>
  The correctness properties of a market: what submitting and cancelling orders guarantees on
  every well-formed state. The witnesses run the model on a small market with two users.
\<close>

section \<open>From the run to the result\<close>

definition trades_since :: "ctx \<Rightarrow> ctx \<Rightarrow> trade list" where
  "trades_since cx cx' = drop (length (trades_of (cx_calls cx))) (trades_of (cx_calls cx'))"

lemma conclude_frame:
  assumes "conclude ms = (m', cx', x')"
  shows "trades_of (cx_calls cx') = trades_of (cx_calls (ms_cx ms))"
    and "cx_sequencer cx' = cx_sequencer (ms_cx ms)" and "cx_cache cx' = cx_cache (ms_cx ms)"
    and "cx_real_persist cx' = cx_real_persist (ms_cx ms)"
    and "o_remain x' = o_remain (ms_taker ms)" and "o_finished_base x' = o_finished_base (ms_taker ms)"
    and "same_const (ms_taker ms) x'"
    and "m_base m' = m_base (ms_market ms)" "m_quote m' = m_quote (ms_market ms)"
    and "m_amount_prec m' = m_amount_prec (ms_market ms)" "m_price_prec m' = m_price_prec (ms_market ms)"
    and "m_base_prec m' = m_base_prec (ms_market ms)" "m_quote_prec m' = m_quote_prec (ms_market ms)"
proof -
  have "trades_of (map (\<lambda>x. PutOrder x FINISH) xs) = []" for xs by (induction xs) simp_all
  with assms show "trades_of (cx_calls cx') = trades_of (cx_calls (ms_cx ms))"
    by (auto simp: conclude_def Let_def split: if_splits)
qed (use assms in \<open>auto simp: conclude_def Let_def split: if_splits\<close>)

lemma put_order_accepted:
  assumes E: "env_laws E" and inv: "market_inv m cx" and ok: "input_ok i" and room: "room m cx"
    and put: "put_order E i u m cx = Some (m', cx', Inr x')"
  obtains ql fills ms where "conclude ms = (m', cx', x')" "check_order_input E m i = Inr ()"
    "quote_limit_of E m i u (cx_bm cx) = Some ql"
    "run E ql (counter_orders m (i_side i)) (start (accepted_order E i u m cx) m (accepted_ctx cx)) fills ms"
    "loop_inv ql (counter_orders m (i_side i)) (start (accepted_order E i u m cx) m (accepted_ctx cx))"
    "loop_inv ql [] ms" "new_taker m (accepted_ctx cx) (accepted_order E i u m cx)"
    "trades_since cx cx' = map (\<lambda>(r, x, tr). tr) fills"
proof -
  from put_order_run [OF E inv ok room, of u] put obtain ql fills ms where
    h: "conclude ms = (m', cx', x')" "check_order_input E m i = Inr ()" "quote_limit_of E m i u (cx_bm cx) = Some ql"
    "run E ql (counter_orders m (i_side i)) (start (accepted_order E i u m cx) m (accepted_ctx cx)) fills ms"
    "loop_inv ql (counter_orders m (i_side i)) (start (accepted_order E i u m cx) m (accepted_ctx cx))"
    "loop_inv ql [] ms" "new_taker m (accepted_ctx cx) (accepted_order E i u m cx)" by auto
  have "trades_since cx cx' = map (\<lambda>(r, x, tr). tr) fills"
    using run_trades [OF h(4)] conclude_frame(1) [OF h(1)] by (simp add: trades_since_def)
  with h that show thesis by blast
qed

lemma run_sequencer_cache:
  assumes "loop_inv ql [] ms" shows "trade_ids_ok (ms_cx ms)"
  using assms by (simp add: loop_inv_def)

lemma solvent_slack: "solvent m bm \<longleftrightarrow> (\<forall>u a. 0 \<le> slack m bm u a)"
  by (simp add: solvent_def slack_def)

lemma put_order_result:
  assumes E: "env_laws E" and inv: "market_inv m cx" and ok: "input_ok i" and room: "room m cx"
    and put: "put_order E i u m cx = Some (m', cx', Inr x')"
  shows "market_inv m' cx'" and "slack m' (cx_bm cx') v a = slack m (cx_bm cx) v a"
    and "bm_asset_manager (cx_bm cx') = bm_asset_manager (cx_bm cx)"
    and "total_supply (cx_bm cx') a = total_supply (cx_bm cx) a - fees_in m a (trades_since cx cx')"
    and "sq_order_id (cx_sequencer cx') = sq_order_id (cx_sequencer cx) + 1"
proof -
  from put_order_accepted [OF assms] obtain ql fills ms where
    con: "conclude ms = (m', cx', x')" and
    run: "run E ql (counter_orders m (i_side i)) (start (accepted_order E i u m cx) m (accepted_ctx cx)) fills ms" and
    inv0: "loop_inv ql (counter_orders m (i_side i)) (start (accepted_order E i u m cx) m (accepted_ctx cx))" and
    inv1: "loop_inv ql [] ms" and nt: "new_taker m (accepted_ctx cx) (accepted_order E i u m cx)" and
    trs: "trades_since cx cx' = map (\<lambda>(r, x, tr). tr) fills" by blast
  note fr = run_frame [OF run] and cf = conclude_frame [OF con]
  have sb: "same_book m (ms_market ms)" and sc: "same_const (accepted_order E i u m cx) (ms_taker ms)" using fr by simp_all
  have bo: "book_ok m" using inv by (simp add: market_inv_def)
  have price: "has_prec (unat (m_price_prec (ms_market ms))) (o_price (ms_taker ms))"
    using nt sb sc by (simp add: new_taker_def same_book_def same_const_def)
  have "\<forall>(i, r) \<in> set (m_orders m). i < sq_order_id (cx_sequencer cx) + 1"
    using nt by (simp add: new_taker_def)
  then have fresh: "o_id (ms_taker ms) \<notin> fst ` set (m_orders (ms_market ms))"
    using sb sc by (force simp: same_book_def same_const_def)
  have sl: "slack m' (cx_bm cx') v a = slack m (cx_bm cx) v a" for v a
    using conclude_slack [OF inv1 fresh con] run_slack [OF run] by simp
  note book = conclude_book [of E ql m "accepted_order E i u m cx" "accepted_ctx cx", simplified, OF run inv1 inv0 nt bo con]
  note sup = conclude_supply [OF inv1 price con]
  show am: "bm_asset_manager (cx_bm cx') = bm_asset_manager (cx_bm cx)" using sup(3) fr by simp
  show oid: "sq_order_id (cx_sequencer cx') = sq_order_id (cx_sequencer cx) + 1" using fr by (simp add: cf(2))
  have "avail_ok (cx_bm cx)" using inv by (simp add: market_inv_def ctx_ok_def)
  then have "avail_ok (cx_bm cx')"
    using conclude_avail [OF inv1 _ con] run_avail [OF E run] by simp
  moreover have "trade_ids_ok cx'" using run_sequencer_cache [OF inv1] by (simp add: trade_ids_ok_def cf(2,3))
  moreover have "mkt_ok m' (cx_bm cx')"
    using inv sb by (simp add: mkt_ok_def market_inv_def cf am same_book_def)
  moreover have "solvent m' (cx_bm cx')"
    using inv sl by (simp add: market_inv_def solvent_slack)
  ultimately show "market_inv m' cx'"
    using book sup(2) oid by (simp add: market_inv_def ctx_ok_def ids_below_def)
  show "slack m' (cx_bm cx') v a = slack m (cx_bm cx) v a" by (rule sl)
  show "total_supply (cx_bm cx') a = total_supply (cx_bm cx) a - fees_in m a (trades_since cx cx')"
    using sup(1) run_supply [OF run] trs by simp
qed

section \<open>A concrete market\<close>

text \<open>Users 1 and 2 with balances in two assets, and a market between them, for the witnesses.\<close>

definition demo_assets :: asset_manager where
  "demo_assets = \<lparr>am_assets =
     [(''ETH'', \<lparr>ai_prec_save = 4, ai_prec_show = 4, ai_inner_id = 1\<rparr>),
      (''USDT'', \<lparr>ai_prec_save = 6, ai_prec_show = 4, ai_inner_id = 2\<rparr>)]\<rparr>"

definition demo_bm :: balance_manager where
  "demo_bm = \<lparr>bm_asset_manager = demo_assets, bm_balances =
     [(bkey 1 AVAILABLE ''ETH'', 10), (bkey 2 AVAILABLE ''USDT'', 1000)]\<rparr>"

definition demo_cx :: ctx where
  "demo_cx = \<lparr>cx_sequencer = default_sequencer, cx_bm = demo_bm, cx_cache = [], cx_real_persist = True,
     cx_calls = [], cx_clock = 0\<rparr>"

definition demo_m :: market where
  "demo_m = \<lparr>m_name = ''ETH_USDT'', m_base = ''ETH'', m_quote = ''USDT'', m_amount_prec = 4, m_price_prec = 2,
     m_base_prec = 4, m_quote_prec = 6, m_fee_prec = 2, m_min_amount = 1 / 1000, m_price = 0, m_heap = [],
     m_orders = [], m_users = [], m_asks = [], m_bids = [], m_trade_count = 0,
     m_disable_self_trade = True, m_disable_market_order = False\<rparr>"

definition demo_ask :: order_input where
  "demo_ask = \<lparr>i_side = ASK, i_type = LIMIT, i_amount = 5, i_price = 100, i_quote_limit = 0, i_taker_fee = 1 / 100,
     i_maker_fee = 0, i_market = ''ETH_USDT'', i_post_only = False\<rparr>"

definition demo_bid :: order_input where
  "demo_bid = \<lparr>i_side = BID, i_type = LIMIT, i_amount = 3, i_price = 101, i_quote_limit = 0, i_taker_fee = 1 / 100,
     i_maker_fee = 0, i_market = ''ETH_USDT'', i_post_only = False\<rparr>"

definition state_of :: "(market \<times> ctx \<times> (string + order)) option \<Rightarrow> market \<times> ctx" where
  "state_of r = (case r of Some (m, cx, _) \<Rightarrow> (m, cx) | None \<Rightarrow> (demo_m, demo_cx))"

fun accepted :: "(market \<times> ctx \<times> (string + order)) option \<Rightarrow> bool" where
  "accepted (Some (m, cx, Inr x)) = True"
| "accepted r = False"

definition demo_book :: "market \<times> ctx" where
  "demo_book = state_of (put_order ref_env demo_ask 1 demo_m demo_cx)"

lemma demo_ask_accepted: "accepted (put_order ref_env demo_ask 1 demo_m demo_cx)" by code_simp

lemma demo_bid_accepted: "accepted (put_order ref_env demo_bid 2 (fst demo_book) (snd demo_book))" by code_simp

lemma acceptedE:
  assumes "accepted r" obtains m cx x where "r = Some (m, cx, Inr x)" and "state_of r = (m, cx)"
  using assms by (cases r rule: accepted.cases) (auto simp: state_of_def)

lemma has_prec_of_nat [simp]: "has_prec n (of_nat k)" and has_prec_numeral [simp]: "has_prec n (numeral w)"
  by (rule has_precI [of _ "int k * 10 ^ n"], simp) (rule has_precI [of _ "numeral w * 10 ^ n"], simp)

lemma demo_inv: "market_inv demo_m demo_cx"
proof -
  have "bm_ok demo_bm"
    by (auto simp: bm_ok_def demo_bm_def amount_ok_def demo_assets_def asset_prec_def asset_get_def)
  moreover have "avail_ok demo_bm"
    by (auto simp: avail_ok_def demo_bm_def bm_get_def bm_get_by_key_def)
  moreover have "book_ok demo_m"
    by (auto simp: book_ok_def demo_m_def book_struct_def in_users_def bt_inv_def orders_ok_def all_open_def uncrossed_def)
  moreover have "solvent demo_m demo_bm"
    by (auto simp: solvent_def frozen_sum_def demo_m_def demo_bm_def bm_get_def bm_get_by_key_def)
  moreover have "mkt_ok demo_m demo_bm"
    by (simp add: mkt_ok_def demo_m_def demo_bm_def demo_assets_def asset_prec_def asset_get_def)
  ultimately show ?thesis
    by (simp add: market_inv_def ctx_ok_def demo_cx_def trade_ids_ok_def ids_below_def) (simp add: demo_m_def)
qed

lemma demo_inputs: "input_ok demo_ask" "input_ok demo_bid"
  by (simp_all add: input_ok_def demo_ask_def demo_bid_def)

lemma demo_room: "room demo_m demo_cx"
  by (simp add: room_def demo_m_def demo_cx_def default_sequencer_def)

lemma demo_book_put: "\<exists>x. put_order ref_env demo_ask 1 demo_m demo_cx = Some (fst demo_book, snd demo_book, Inr x)"
  using demo_ask_accepted by (elim acceptedE) (simp add: demo_book_def)

lemma demo_book_inv: "market_inv (fst demo_book) (snd demo_book)"
  using demo_book_put put_order_result(1) [OF ref_env_laws demo_inv demo_inputs(1) demo_room] by blast

lemma demo_book_counters:
  "sq_order_id (cx_sequencer (snd demo_book)) = 1 \<and> sq_trade_id (cx_sequencer (snd demo_book)) = 0 \<and>
   length (m_orders (fst demo_book)) = 1" by code_simp

lemma demo_book_room: "room (fst demo_book) (snd demo_book)"
  using demo_book_counters by (simp add: room_def)

lemmas demo_hyps = ref_env_laws demo_book_inv demo_inputs(2) demo_book_room

lemma demo_bid_put: "\<exists>m' cx' x'. put_order ref_env demo_bid 2 (fst demo_book) (snd demo_book) = Some (m', cx', Inr x')"
  using demo_bid_accepted by (elim acceptedE) blast

section \<open>Inputs that are not admissible\<close>

text \<open>
  The code checks none of the conditions of \<open>input_ok\<close>, and each of them is needed. A limit bid with a negative price is
  accepted and freezes a negative amount, which raises the available balance. A fee rate above one makes a balance update fail
  whose result is unwrapped. A negative fee rate is recorded in the trade as a negative fee, but the balances are not changed by it.
  A negative quote limit cuts a market bid to a negative amount, and the booking of the trade panics.
\<close>

lemma negative_price_accepted:
  "accepted (put_order ref_env (demo_bid\<lparr>i_price := - 1\<rparr>) 2 (fst demo_book) (snd demo_book))"
  "bm_get (cx_bm (snd (state_of (put_order ref_env (demo_bid\<lparr>i_price := - 1\<rparr>) 2 (fst demo_book) (snd demo_book))))) 2 FREEZE ''USDT'' = - 3"
  by code_simp+

lemma large_fee_panics: "put_order ref_env (demo_bid\<lparr>i_taker_fee := 2\<rparr>) 2 (fst demo_book) (snd demo_book) = None"
  by code_simp

lemma negative_fee_not_booked:
  "let cx' = snd (state_of (put_order ref_env (demo_bid\<lparr>i_taker_fee := - 1\<rparr>) 2 (fst demo_book) (snd demo_book))) in
     fees_in (fst demo_book) ''ETH'' (trades_since (snd demo_book) cx') = - 3 \<and>
     total_supply (cx_bm cx') ''ETH'' = total_supply (cx_bm (snd demo_book)) ''ETH''"
  by code_simp

lemma negative_quote_limit_panics:
  "put_order ref_env (demo_bid\<lparr>i_type := MARKET, i_price := 0, i_quote_limit := - 100\<rparr>) 2 (fst demo_book) (snd demo_book) = None"
  by code_simp

section \<open>Submitting an order\<close>

text \<open>
  C3: Submitting an admissible order to a well-formed market with well-formed balances returns: no unwrap, index or assertion
  on the way fails, whatever the order's side and type. It leaves the market and the balances well-formed, and the part
  of every frozen balance that is not backed by an order of this market does not change, so the frozen balances follow the book
  exactly. Admissible (\<open>input_ok\<close>) means that price, amount and quote limit are not negative and both fee rates are between 0 and 1,
  which the code does not check and whose violation can panic it; the two counters must not be about to wrap (\<open>room\<close>), and
  the run must be one in which no sum, difference or product of \<^verbatim>\<open>Decimal\<close>s overflows or rounds (\<open>env_laws\<close>): an order whose amount times price
  exceeds the range of \<^verbatim>\<open>Decimal\<close> panics in the balance check.
\<close>

theorem put_order_safe:
  assumes "env_laws E" and "market_inv m cx" and "input_ok i" and "room m cx"
  shows "\<exists>m' cx' res. put_order E i u m cx = Some (m', cx', res) \<and> market_inv m' cx' \<and>
    (\<forall>v a. slack m' (cx_bm cx') v a = slack m (cx_bm cx) v a)"
  using put_order_run [OF assms, of u]
proof (elim disjE exE conjE)
  fix e assume "put_order E i u m cx = Some (m, cx, Inl e)"
  with assms(2) show ?thesis by blast
next
  fix m' cx' x' assume put: "put_order E i u m cx = Some (m', cx', Inr x')"
  show ?thesis using put put_order_result(1,2) [OF assms put] by blast
qed

theorem put_order_safe_witness:
  "env_laws ref_env \<and> market_inv (fst demo_book) (snd demo_book) \<and> input_ok demo_bid \<and> room (fst demo_book) (snd demo_book) \<and>
   (\<exists>m' cx' res. put_order ref_env demo_bid 2 (fst demo_book) (snd demo_book) = Some (m', cx', res) \<and> market_inv m' cx' \<and>
      (\<forall>v a. slack m' (cx_bm cx') v a = slack (fst demo_book) (cx_bm (snd demo_book)) v a))"
  using put_order_safe [OF demo_hyps, of 2] demo_hyps by blast

text \<open>
  C5: Trading moves value between users and loses none: after an admissible order is accepted by a well-formed market, the supply of
  every asset (over all users, available and frozen) is the supply before less the fees of the trades it caused. Admissible means
  in particular that the fee rates lie between 0 and 1 (\<open>input_ok\<close>), which the code does not check: with a negative rate the trade records a
  negative fee that is not booked, as \<open>negative_fee_not_booked\<close> shows.
\<close>

theorem put_order_conserves:
  assumes "env_laws E" and "market_inv m cx" and "input_ok i" and "room m cx"
    and "put_order E i u m cx = Some (m', cx', Inr x')"
  shows "total_supply (cx_bm cx') a + fees_in m a (trades_since cx cx') = total_supply (cx_bm cx) a"
  using put_order_result(4) [OF assms, of a] by simp

theorem put_order_conserves_witness:
  "\<exists>m' cx' x'. put_order ref_env demo_bid 2 (fst demo_book) (snd demo_book) = Some (m', cx', Inr x') \<and>
     total_supply (cx_bm cx') ''ETH'' + fees_in (fst demo_book) ''ETH'' (trades_since (snd demo_book) cx') =
     total_supply (cx_bm (snd demo_book)) ''ETH''"
  using demo_bid_put put_order_conserves [OF demo_hyps] by blast

definition opposite :: "OrderSide \<Rightarrow> OrderSide" where
  "opposite side = (if side = ASK then BID else ASK)"

definition maker_fill :: "OrderSide \<Rightarrow> trade \<Rightarrow> spec_fill" where
  "maker_fill taker_side tr =
     ((if taker_side = ASK then t_bid_order_id tr else t_ask_order_id tr), t_amount tr, t_price tr)"

lemma counter_side_rcs: "counter_orders m side = side_rcs m (opposite side)"
  by (simp add: counter_orders_def side_rcs_def opposite_def)

lemma fill_ok_maker: "fill_ok m x (r, q, tr) \<Longrightarrow> maker_fill (o_side x) tr = (o_id (deep m r), q, t_price tr)"
  by (auto simp: fill_ok_def maker_fill_def split: if_splits)

lemma conclude_sides:
  assumes run: "run E ql (counter_orders m (o_side x)) (start x m cx) fills ms"
    and inv: "loop_inv ql [] ms" and bo: "book_ok m" and con: "conclude ms = (m', cx', x')"
    and fresh: "o_id (ms_taker ms) \<notin> fst ` set (m_orders (ms_market ms))"
  shows "side_view m' (opposite (o_side x)) =
      map (view (ms_market ms)) (filter (\<lambda>r. o_remain (deep (ms_market ms) r) \<noteq> 0) (counter_orders m (o_side x)))"
    and "side_view m' (o_side x) = (if rests ms
      then spec_insert (before (o_side x)) (o_id x, o_user x, o_price x, o_remain (ms_taker ms)) (side_view m (o_side x))
      else side_view m (o_side x))"
proof -
  let ?m1 = "remove_all (ms_finished ms) (ms_market ms)" and ?x = "rested (ms_taker ms)"
  note fr = run_frame [OF run]
  have sb: "same_book m (ms_market ms)" and sc: "same_const x (ms_taker ms)" using fr by simp_all
  have bs: "book_struct m" using bo by (simp add: book_ok_def)
  have rcs: "side_rcs (ms_market ms) s = side_rcs m s" for s using sb by (simp add: side_rcs_def same_book_def)
  have view1: "view ?m1 = view (ms_market ms)" by (simp add: view_def fun_eq_iff)
  have sv1: "side_view ?m1 s = map (view (ms_market ms)) (filter (\<lambda>r. o_remain (deep (ms_market ms) r) \<noteq> 0) (side_rcs m s))" for s
    by (simp add: side_view_rcs remove_all_rcs [OF inv] rcs view1)
  have own: "deep (ms_market ms) r = deep m r \<and> o_remain (deep m r) \<noteq> 0" if "r \<in> set (side_rcs m (o_side x))" for r
  proof -
    from that have r: "(o_id (deep m r), r) \<in> set (m_orders m)" "o_side (deep m r) = o_side x" by (simp_all add: side_rcs_mem [OF bs])
    then have "r \<notin> set (counter_orders m (o_side x))" by (simp add: counter_orders_set [OF bs])
    moreover have "fst ` set fills \<subseteq> set (counter_orders m (o_side x))" using run_prefix [OF run] by force
    ultimately have "r \<notin> fst ` set fills" by blast
    with fr bo r(1) show ?thesis by (force simp: book_ok_def all_open_def)
  qed
  have filt: "filter (\<lambda>r. o_remain (deep (ms_market ms) r) \<noteq> 0) (side_rcs m (o_side x)) = side_rcs m (o_side x)"
    using own by (auto simp: filter_id_conv)
  have own1: "side_view ?m1 (o_side x) = side_view m (o_side x)"
    unfolding sv1 filt side_view_rcs [of m] using own by (auto simp: view_def)
  have opp: "opposite (o_side x) \<noteq> o_side x" by (cases "o_side x") (simp_all add: opposite_def)
  have fresh1: "o_id ?x \<notin> fst ` set (m_orders ?m1)" using fresh by (auto simp: set_orders_remove_all)
  note add = add_order_view [OF remove_all_facts(1) [OF inv] fresh1]
  have m': "m' = (if rests ms then add_order ?x ?m1 else ?m1)" using con by (auto simp: conclude_def Let_def split: if_splits)
  show "side_view m' (opposite (o_side x)) =
      map (view (ms_market ms)) (filter (\<lambda>r. o_remain (deep (ms_market ms) r) \<noteq> 0) (counter_orders m (o_side x)))"
    using sc opp by (simp add: m' add sv1 counter_side_rcs same_const_def)
  show "side_view m' (o_side x) = (if rests ms
      then spec_insert (before (o_side x)) (o_id x, o_user x, o_price x, o_remain (ms_taker ms)) (side_view m (o_side x))
      else side_view m (o_side x))"
    using sc by (simp add: m' add own1 same_const_def)
qed

lemma accepted_fresh:
  assumes "new_taker m cx x" and "same_book m m'" and "same_const x y"
  shows "o_id y \<notin> fst ` set (m_orders m')"
proof
  assume "o_id y \<in> fst ` set (m_orders m')"
  then obtain r where "(o_id x, r) \<in> set (m_orders m)" using assms(2,3) by (auto simp: same_book_def same_const_def)
  with assms(1) show False unfolding new_taker_def by blast
qed

text \<open>
  C4: Refinement. Seen through the two sides of the book (identifier, owner, price and amount left
  of every resting order, in order), an accepted order does exactly what the list specification
  \<open>spec_put\<close> does: the same fills in the same order, the same book on both sides, the same
  amount left; in particular the sharing of orders between the four maps is invisible.
\<close>

theorem put_order_refines:
  assumes "env_laws E" and "market_inv m cx" and "input_ok i" and "room m cx"
    and "put_order E i u m cx = Some (m', cx', Inr x')"
  shows "\<exists>ql. quote_limit_of E m i u (cx_bm cx) = Some ql \<and>
    (map (maker_fill (i_side i)) (trades_since cx cx'), side_view m' (i_side i), side_view m' (opposite (i_side i)), o_remain x') =
    spec_put E (m_amount_prec m) i u (o_id x') ql (side_view m (i_side i)) (side_view m (opposite (i_side i)))"
proof -
  from put_order_accepted [OF assms] obtain ql fills ms where
    con: "conclude ms = (m', cx', x')" and ql: "quote_limit_of E m i u (cx_bm cx) = Some ql" and
    run: "run E ql (counter_orders m (i_side i)) (start (accepted_order E i u m cx) m (accepted_ctx cx)) fills ms" and
    inv0: "loop_inv ql (counter_orders m (i_side i)) (start (accepted_order E i u m cx) m (accepted_ctx cx))" and
    inv1: "loop_inv ql [] ms" and nt: "new_taker m (accepted_ctx cx) (accepted_order E i u m cx)" and
    trs: "trades_since cx cx' = map (\<lambda>(r, x, tr). tr) fills" by blast
  let ?x = "accepted_order E i u m cx"
  note fr = run_frame [OF run] and cf = conclude_frame [OF con]
  have bo: "book_ok m" using assms(2) by (simp add: market_inv_def)
  have sb: "same_book m (ms_market ms)" and sc: "same_const ?x (ms_taker ms)" using fr by simp_all
  note sides = conclude_sides [of E ql m ?x "accepted_ctx cx", simplified, OF run inv1 bo con accepted_fresh [OF nt sb sc]]
  have "matches_input i u (ms_taker (start ?x m (accepted_ctx cx)))" by (simp add: matches_input_def)
  from run_spec [OF run loop_invD(11) [OF inv0] _ this]
  have spec: "spec_match (budget_cut E (m_amount_prec m) i ql) (accepts i) (refuses i u) 0 (i_amount i)
      (side_view m (opposite (i_side i))) =
    (map (\<lambda>(r, x, tr). (o_id (deep m r), x, t_price tr)) fills,
     map (view (ms_market ms)) (filter (\<lambda>r. o_remain (deep (ms_market ms) r) \<noteq> 0) (counter_orders m (i_side i))),
     o_remain (ms_taker ms), ms_need_cancel ms)"
    by (simp add: side_view_rcs counter_side_rcs)
  have fills: "map (maker_fill (i_side i)) (trades_since cx cx') = map (\<lambda>(r, x, tr). (o_id (deep m r), x, t_price tr)) fills"
    using run_fills [OF run] fill_ok_maker [of m ?x] by (fastforce simp: trs)
  have "o_id x' = o_id ?x" using cf(7) sc by (simp add: same_const_def)
  moreover have "rests ms \<longleftrightarrow> \<not> ms_need_cancel ms \<and> i_type i = LIMIT \<and> o_remain (ms_taker ms) \<noteq> 0"
    using sc by (simp add: rests_def same_const_def)
  ultimately show ?thesis
    using sides cf(5) by (intro exI [of _ ql]) (simp add: ql spec_put_def spec fills)
qed

theorem put_order_refines_witness:
  "\<exists>m' cx' x' ql. put_order ref_env demo_bid 2 (fst demo_book) (snd demo_book) = Some (m', cx', Inr x') \<and>
    (map (maker_fill BID) (trades_since (snd demo_book) cx'), side_view m' BID, side_view m' ASK, o_remain x') =
    spec_put ref_env 4 demo_bid 2 (o_id x') ql (side_view (fst demo_book) BID) (side_view (fst demo_book) ASK)"
proof -
  obtain m' cx' x' where put: "put_order ref_env demo_bid 2 (fst demo_book) (snd demo_book) = Some (m', cx', Inr x')"
    using demo_bid_put by blast
  have "m_amount_prec (fst demo_book) = 4" by code_simp
  moreover have "i_side demo_bid = BID" by (simp add: demo_bid_def)
  ultimately show ?thesis using put put_order_refines [OF demo_hyps put] by (auto simp: opposite_def)
qed

lemma side_view_sorted:
  assumes bs: "book_struct m"
  shows "sorted_wrt (before side) (side_view m side)"
proof (cases side)
  case ASK
  have "counter_orders m BID = side_rcs m side" by (simp add: counter_side_rcs opposite_def ASK)
  with counter_orders_keys(1) [OF bs] show ?thesis
    unfolding side_view_rcs sorted_wrt_map map_map
    by (auto simp: get_key_less before_def view_def ASK elim!: sorted_wrt_mono_rel [rotated])
next
  case BID
  have "counter_orders m ASK = side_rcs m side" by (simp add: counter_side_rcs opposite_def BID)
  with counter_orders_keys(2) [OF bs] show ?thesis
    unfolding side_view_rcs sorted_wrt_map map_map
    by (auto simp: get_key_less before_def view_def BID elim!: sorted_wrt_mono_rel [rotated])
qed

text \<open>
  C6: Price-time priority. The counter side is kept in price-time order, and an accepted order
  trades with exactly the first orders of it, one trade each, in that order: none is skipped.
\<close>

theorem put_order_priority:
  assumes "env_laws E" and "market_inv m cx" and "input_ok i" and "room m cx"
    and "put_order E i u m cx = Some (m', cx', Inr x')"
  shows "sorted_wrt (before (opposite (i_side i))) (side_view m (opposite (i_side i))) \<and>
    map (\<lambda>tr. fst (maker_fill (i_side i) tr)) (trades_since cx cx') =
    map fst (take (length (trades_since cx cx')) (side_view m (opposite (i_side i))))"
proof
  have "book_struct m" using assms(2) by (simp add: market_inv_def book_ok_def)
  then show "sorted_wrt (before (opposite (i_side i))) (side_view m (opposite (i_side i)))" by (rule side_view_sorted)
  from put_order_accepted [OF assms] obtain ql fills ms where
    run: "run E ql (counter_orders m (i_side i)) (start (accepted_order E i u m cx) m (accepted_ctx cx)) fills ms" and
    trs: "trades_since cx cx' = map (\<lambda>(r, x, tr). tr) fills" by blast
  have "map (\<lambda>tr. fst (maker_fill (i_side i) tr)) (trades_since cx cx') = map (\<lambda>r. o_id (deep m r)) (map fst fills)"
    using run_fills [OF run] fill_ok_maker [of m "accepted_order E i u m cx"] by (fastforce simp: trs)
  also have "map fst fills = take (length fills) (counter_orders m (i_side i))"
    using run_prefix [OF run] by force
  finally show "map (\<lambda>tr. fst (maker_fill (i_side i) tr)) (trades_since cx cx') =
      map fst (take (length (trades_since cx cx')) (side_view m (opposite (i_side i))))"
    by (simp add: trs side_view_rcs counter_side_rcs view_def take_map comp_def)
qed

theorem put_order_priority_witness:
  "\<exists>m' cx' x'. put_order ref_env demo_bid 2 (fst demo_book) (snd demo_book) = Some (m', cx', Inr x') \<and>
     map (\<lambda>tr. fst (maker_fill (i_side demo_bid) tr)) (trades_since (snd demo_book) cx') =
     map fst (take (length (trades_since (snd demo_book) cx')) (side_view (fst demo_book) (opposite (i_side demo_bid))))"
  using demo_bid_put put_order_priority [OF demo_hyps] by blast



text \<open>
  C8: A market bid never spends more than the user's available quote balance, nor more than its
  quote limit when it has one.
\<close>

theorem put_order_quote_limit:
  assumes "env_laws E" and "market_inv m cx" and "input_ok i" and "room m cx"
    and "put_order E i u m cx = Some (m', cx', Inr x')" and "i_type i = MARKET" and "i_side i = BID"
  shows "sum_list (map t_quote_amount (trades_since cx cx')) \<le> bm_get (cx_bm cx) u AVAILABLE (m_quote m) \<and>
    (i_quote_limit i = 0 \<or> sum_list (map t_quote_amount (trades_since cx cx')) \<le> i_quote_limit i)"
proof -
  from put_order_accepted [OF assms(1-5)] obtain ql fills ms where
    ql: "quote_limit_of E m i u (cx_bm cx) = Some ql" and
    run: "run E ql (counter_orders m (i_side i)) (start (accepted_order E i u m cx) m (accepted_ctx cx)) fills ms" and
    inv0: "loop_inv ql (counter_orders m (i_side i)) (start (accepted_order E i u m cx) m (accepted_ctx cx))" and
    trs: "trades_since cx cx' = map (\<lambda>(r, x, tr). tr) fills" by blast
  have "0 \<le> ql" using loop_invD(8) [OF inv0] assms(6,7) by (simp add: funded_def Let_def)
  then have "sum_list (map t_quote_amount (trades_since cx cx')) \<le> ql"
    using run_quote_limit [OF run] run_amount [OF run] assms(6,7) by (simp add: trs comp_def case_prod_beta')
  moreover have "ql \<le> bm_get (cx_bm cx) u AVAILABLE (m_quote m)" "i_quote_limit i = 0 \<or> ql \<le> i_quote_limit i"
    using ql assms(3,6,7) env_trunc_bounds(2) [OF assms(1)]
    by (auto simp: quote_limit_of_def balance_get_def env_uuid [OF assms(1)] input_ok_def min_le_iff_disj
        split: if_splits Option.bind_splits)
  ultimately show ?thesis by linarith
qed

definition demo_market_bid :: order_input where
  "demo_market_bid = demo_bid\<lparr>i_type := MARKET, i_price := 0, i_quote_limit := 250\<rparr>"

lemma demo_market_bid_ok: "input_ok demo_market_bid" "i_type demo_market_bid = MARKET" "i_side demo_market_bid = BID"
  by (simp_all add: demo_market_bid_def demo_bid_def input_ok_def)

theorem put_order_quote_limit_witness:
  "\<exists>m' cx' x'. put_order ref_env demo_market_bid 2 (fst demo_book) (snd demo_book) = Some (m', cx', Inr x') \<and>
     sum_list (map t_quote_amount (trades_since (snd demo_book) cx')) \<le> 250"
proof -
  have "accepted (put_order ref_env demo_market_bid 2 (fst demo_book) (snd demo_book))" by code_simp
  then obtain m' cx' x' where put: "put_order ref_env demo_market_bid 2 (fst demo_book) (snd demo_book) = Some (m', cx', Inr x')"
    by (elim acceptedE)
  have "i_quote_limit demo_market_bid = 250" by (simp add: demo_market_bid_def)
  with put put_order_quote_limit [OF demo_hyps(1,2) demo_market_bid_ok(1) demo_hyps(4) put demo_market_bid_ok(2,3)]
  show ?thesis by auto
qed

text \<open>
  The books of an accepted order balance: what is left plus the amounts of its trades is the
  amount ordered, and the finished amount is the sum of the trades; nothing is over-filled.
\<close>

theorem put_order_amounts:
  assumes "env_laws E" and "market_inv m cx" and "input_ok i" and "room m cx"
    and "put_order E i u m cx = Some (m', cx', Inr x')"
  shows "o_remain x' + sum_list (map t_amount (trades_since cx cx')) = i_amount i \<and>
    o_finished_base x' = sum_list (map t_amount (trades_since cx cx')) \<and> 0 \<le> o_remain x'"
proof -
  from put_order_accepted [OF assms] obtain ql fills ms where con: "conclude ms = (m', cx', x')" and
    run: "run E ql (counter_orders m (i_side i)) (start (accepted_order E i u m cx) m (accepted_ctx cx)) fills ms" and
    inv1: "loop_inv ql [] ms" and trs: "trades_since cx cx' = map (\<lambda>(r, x, tr). tr) fills" by blast
  have "fill_amount fills = sum_list (map t_amount (trades_since cx cx'))"
    using run_fills [OF run] unfolding fill_amount_def trs map_map
    by (intro arg_cong [where f = sum_list] map_cong) (auto simp: fill_ok_def)
  with run_amount [OF run] conclude_frame(5,6) [OF con] loop_invD(6) [OF inv1] show ?thesis
    by (simp add: taker_ok_def)
qed

theorem put_order_amounts_witness:
  "\<exists>m' cx' x'. put_order ref_env demo_bid 2 (fst demo_book) (snd demo_book) = Some (m', cx', Inr x') \<and>
     o_remain x' + sum_list (map t_amount (trades_since (snd demo_book) cx')) = i_amount demo_bid"
  using demo_bid_put put_order_amounts [OF demo_hyps] by blast

text \<open>
  C10: A post-only order never takes: it causes no trade, and it is either left in the book with its
  whole amount or cancelled without touching a balance.
\<close>

theorem put_order_post_only:
  assumes "env_laws E" and "market_inv m cx" and "input_ok i" and "room m cx"
    and "put_order E i u m cx = Some (m', cx', Inr x')" and "i_post_only i"
  shows "trades_since cx cx' = [] \<and> o_remain x' = i_amount i \<and>
    (cx_bm cx' = cx_bm cx \<or> market_get m' (o_id x') = Some x')"
proof -
  from put_order_accepted [OF assms(1-5)] obtain ql fills ms where con: "conclude ms = (m', cx', x')" and
    run: "run E ql (counter_orders m (i_side i)) (start (accepted_order E i u m cx) m (accepted_ctx cx)) fills ms" and
    inv1: "loop_inv ql [] ms" and trs: "trades_since cx cx' = map (\<lambda>(r, x, tr). tr) fills" by blast
  have none: "fills = []"
    using run_fills [OF run] assms(6) by (cases fills) (auto simp: fill_ok_def)
  have same: "ms_cx ms = ms_cx (start (accepted_order E i u m cx) m (accepted_ctx cx))"
    using run none by (auto elim: run.cases simp: stops_frame)
  show ?thesis
  proof (cases "rests ms")
    case True
    let ?m1 = "remove_all (ms_finished ms) (ms_market ms)" and ?x = "rested (ms_taker ms)"
    have "m' = add_order ?x ?m1" "x' = ?x" using con True by (auto simp: conclude_def Let_def)
    then have "market_get m' (o_id x') = Some x'"
      using book_structD(1) [OF remove_all_facts(1) [OF inv1]] by (simp add: market_get_def bt_get_insert)
        (use deep_add_order_new [of ?x ?m1] in simp)
    with none run_amount [OF run] conclude_frame(5) [OF con] show ?thesis by (simp add: trs)
  next
    case False
    then have "cx_bm cx' = cx_bm (ms_cx ms)" using con by (auto simp: conclude_def Let_def)
    with none run_amount [OF run] conclude_frame(5) [OF con] same show ?thesis by (simp add: trs)
  qed
qed

definition demo_post_only :: order_input where
  "demo_post_only = demo_bid\<lparr>i_post_only := True\<rparr>"

theorem put_order_post_only_witness:
  "\<exists>m' cx' x'. put_order ref_env demo_post_only 2 (fst demo_book) (snd demo_book) = Some (m', cx', Inr x') \<and>
     trades_since (snd demo_book) cx' = []"
proof -
  have "accepted (put_order ref_env demo_post_only 2 (fst demo_book) (snd demo_book))" by code_simp
  then obtain m' cx' x' where put: "put_order ref_env demo_post_only 2 (fst demo_book) (snd demo_book) = Some (m', cx', Inr x')"
    by (elim acceptedE)
  have "input_ok demo_post_only" "i_post_only demo_post_only"
    by (simp_all add: demo_post_only_def demo_bid_def input_ok_def)
  with put put_order_post_only [OF demo_hyps(1,2) _ demo_hyps(4) put] show ?thesis by auto
qed

text \<open>
  The book never stays crossed: after any order, every resting bid is priced strictly below
  every resting ask.
\<close>

theorem put_order_uncrossed:
  assumes "env_laws E" and "market_inv m cx" and "input_ok i" and "room m cx"
    and "put_order E i u m cx = Some (m', cx', res)"
  shows "\<forall>(ka, r) \<in> set (m_asks m'). \<forall>(kb, s) \<in> set (m_bids m'). kb_price kb < ka_price ka"
proof -
  have "market_inv m' cx'"
  proof (cases res)
    case (Inl e)
    with put_order_run [OF assms(1-4), of u] assms(2,5) show ?thesis by auto
  next
    case (Inr x')
    with put_order_result(1) [OF assms(1-4)] assms(5) show ?thesis by blast
  qed
  then have "book_struct m'" "uncrossed m'" by (simp_all add: market_inv_def book_ok_def)
  then show ?thesis
    by (fastforce simp: uncrossed_def book_structD(8,9) get_ask_key_def get_bid_key_def)
qed

theorem put_order_uncrossed_witness:
  "\<exists>m' cx' x'. put_order ref_env demo_bid 2 (fst demo_book) (snd demo_book) = Some (m', cx', Inr x') \<and>
     (\<forall>(ka, r) \<in> set (m_asks m'). \<forall>(kb, s) \<in> set (m_bids m'). kb_price kb < ka_price ka)"
  using demo_bid_put put_order_uncrossed [OF demo_hyps] by blast

text \<open>
  C15: A rejected order leaves no trace: the market, the balances, the counters and the persistor
  are untouched, and the error is the one of the first failing check.
\<close>

theorem put_order_reject:
  assumes "put_order E i u m cx = Some (m', cx', Inl e)"
  shows "m' = m \<and> cx' = cx \<and>
    (check_order_input E m i = Inl e \<or>
     check_order_input E m i = Inr () \<and> check_balance E m i u (cx_bm cx) = Some (Inl e))"
  using assms
  by (auto simp: put_order_def read_clock_def next_order_id_def Let_def split: sum.splits Option.bind_splits prod.splits)

theorem put_order_reject_witness:
  "put_order ref_env (demo_ask\<lparr>i_amount := 1 / 10000\<rparr>) 1 demo_m demo_cx = Some (demo_m, demo_cx, Inl ''invalid amount'') \<and>
   check_order_input ref_env demo_m (demo_ask\<lparr>i_amount := 1 / 10000\<rparr>) = Inl ''invalid amount''"
proof -
  have put: "put_order ref_env (demo_ask\<lparr>i_amount := 1 / 10000\<rparr>) 1 demo_m demo_cx = Some (demo_m, demo_cx, Inl ''invalid amount'')"
    by (simp add: put_order_def check_order_input_def demo_ask_def demo_m_def)
  have "check_order_input ref_env demo_m (demo_ask\<lparr>i_amount := 1 / 10000\<rparr>) \<noteq> Inr ()"
    by (simp add: check_order_input_def demo_ask_def demo_m_def)
  with put put_order_reject [OF put] show ?thesis by blast
qed

end
