(* ===== verification/MarketSpend.thy ===== *)
theory MarketSpend
  imports MarketProps
begin

text \<open>
  What an order can cost: the changes of the available balances under \<^verbatim>\<open>Market::put_order\<close> of
  \<^verbatim>\<open>src/matchengine/market/mod.rs\<close>, followed trade by trade through a run of the matching loop.
\<close>

section \<open>The cost of the rest of a limit order\<close>

definition order_cost :: "order \<Rightarrow> decimal" where
  "order_cost x = (if o_side x = ASK then o_remain x else o_remain x * o_price x)"

lemma order_cost_rested: "o_frozen (rested x) = order_cost x"
  by (simp add: order_cost_def rested_def)

text \<open>The balance \<open>(u, a)\<close> falls by no more than the taker's rest got cheaper, and only if it is the taker's.\<close>

definition spends :: "market \<Rightarrow> order \<Rightarrow> balance_manager \<Rightarrow> order \<Rightarrow> balance_manager \<Rightarrow> uuid \<Rightarrow> string \<Rightarrow> bool" where
  "spends m x bm x' bm' u a \<longleftrightarrow> bm_get bm u AVAILABLE a -
     (if u = o_user x \<and> a = asset_of m x then order_cost x - order_cost x' else 0) \<le> bm_get bm' u AVAILABLE a"

lemma spends_trans:
  "spends m x bm x1 bm1 u a \<Longrightarrow> spends m1 x1 bm1 x2 bm2 u a \<Longrightarrow> o_user x1 = o_user x \<Longrightarrow> asset_of m1 x1 = asset_of m x \<Longrightarrow>
   spends m x bm x2 bm2 u a"
  by (auto simp: spends_def split: if_splits)

lemma traded_spends:
  assumes E: "env_laws E" and inv: "loop_inv ql (r # rs) ms" and mt: "may_trade E ql ms r x"
    and tr: "traded E ms r x ms' mk tr" and lim: "o_type (ms_taker ms) = LIMIT"
  shows "spends (ms_market ms) (ms_taker ms) (cx_bm (ms_cx ms)) (ms_taker ms') (cx_bm (ms_cx ms')) u a"
proof -
  let ?m = "ms_market ms" and ?maker = "deep (ms_market ms) r" and ?taker = "ms_taker ms"
  have sides: "m_base ?m \<noteq> m_quote ?m" "o_side ?maker \<noteq> o_side ?taker" using loop_inv_sides [OF inv] by simp_all
  have rest: "order_cost ?taker - order_cost (ms_taker ms') = (if o_side ?taker = ASK then x else x * o_price ?taker)"
    using tradedD(2,3) [OF tr] by (simp add: order_cost_def same_const_def left_diff_distrib)
  have "o_side ?taker = BID \<Longrightarrow> o_price ?maker * x \<le> x * o_price ?taker"
    using mt lim by (simp add: may_trade_def crosses_def Let_def mult.commute [of x] mult_right_mono)
  then show ?thesis
    using traded_fees [OF E inv mt tr] tr sides(1) may_trade_users [OF mt] mt
    unfolding spends_def rest
    by (cases "o_side ?taker")
      (auto simp: traded_def Let_def trade_delta_def trade_shape_def asset_of_def may_trade_def)
qed

lemma run_spends:
  assumes E: "env_laws E"
  shows "run E ql rs ms fills ms' \<Longrightarrow> o_type (ms_taker ms) = LIMIT \<Longrightarrow>
    spends (ms_market ms) (ms_taker ms) (cx_bm (ms_cx ms)) (ms_taker ms') (cx_bm (ms_cx ms')) u a"
proof (induction rule: run.induct)
  case (run_trade r rs ms x ms' mk tr fills ms'')
  note tr = run_trade.hyps(4) and sel = traded_sel [OF run_trade.hyps(4)]
  have "o_type (ms_taker ms') = LIMIT" "o_user (ms_taker ms') = o_user (ms_taker ms)"
    "asset_of (ms_market ms') (ms_taker ms') = asset_of (ms_market ms) (ms_taker ms)"
    using tradedD(2) [OF tr] run_trade.prems by (simp_all add: same_const_def asset_of_def sel)
  with run_trade.IH traded_spends [OF E run_trade.hyps(1,2) tr run_trade.prems] show ?case
    by (blast intro: spends_trans)
qed (simp_all add: stops_frame spends_def)

section \<open>The cost of an order\<close>

lemma conclude_spends:
  assumes con: "conclude ms = (m', cx', x')" and pos: "0 \<le> order_cost (ms_taker ms)"
  shows "bm_get (cx_bm (ms_cx ms)) v AVAILABLE a -
      (if v = o_user (ms_taker ms) \<and> a = asset_of (ms_market ms) (ms_taker ms) then order_cost (ms_taker ms) else 0)
    \<le> bm_get (cx_bm cx') v AVAILABLE a"
proof -
  let ?m = "remove_all (ms_finished ms) (ms_market ms)"
  have "asset_of ?m (rested (ms_taker ms)) = asset_of (ms_market ms) (ms_taker ms)" "o_user (rested (ms_taker ms)) = o_user (ms_taker ms)"
    by (simp_all add: asset_of_def rested_def)
  with con pos show ?thesis
    by (auto simp: conclude_def Let_def held_get order_cost_rested split: if_splits)
qed

lemma limit_order_cost:
  assumes "env_laws E" and "market_inv m cx" and "input_ok i" and "room m cx"
    and "put_order E i u m cx = Some (m', cx', Inr x')" and "i_type i = LIMIT"
  shows "bm_get (cx_bm cx) v AVAILABLE a -
      (if v = u \<and> a = (if i_side i = ASK then m_base m else m_quote m)
       then (if i_side i = ASK then i_amount i else i_amount i * i_price i) else 0)
    \<le> bm_get (cx_bm cx') v AVAILABLE a"
proof -
  from put_order_accepted [OF assms(1-5)] obtain ql fills ms where con: "conclude ms = (m', cx', x')" and
    run: "run E ql (counter_orders m (i_side i)) (start (accepted_order E i u m cx) m (accepted_ctx cx)) fills ms" and
    inv1: "loop_inv ql [] ms" by blast
  let ?t = "ms_taker ms"
  have sb: "same_book m (ms_market ms)" and sc: "same_const (accepted_order E i u m cx) ?t"
    using run_frame [OF run] by simp_all
  then have t: "o_user ?t = u" "o_type ?t = LIMIT" and
    asset: "asset_of (ms_market ms) ?t = asset_of m (accepted_order E i u m cx)"
      "asset_of m (accepted_order E i u m cx) = (if i_side i = ASK then m_base m else m_quote m)"
    using assms(6) by (simp_all add: same_const_def same_book_def asset_of_def)
  have pos: "0 \<le> order_cost ?t" using loop_invD(6) [OF inv1] t by (simp add: taker_ok_def order_cost_def)
  have "order_cost (accepted_order E i u m cx) = (if i_side i = ASK then i_amount i else i_amount i * i_price i)"
    by (simp add: order_cost_def)
  with run_spends [OF assms(1) run, of v a] conclude_spends [OF con pos, of v a] assms(6) show ?thesis
    unfolding t asset by (auto simp: spends_def asset(2) split: if_splits)
qed

text \<open>
  C9: An order costs its user no more than it says: an admissible limit order that a well-formed market accepts takes from its
  user's available balances at most the amount times the limit price in the quote asset for a bid, or the amount in the base
  asset for an ask, whether it trades at once or rests, fees included; and it lowers no available balance of
  any other user and of any other asset. Admissible (\<open>input_ok\<close>) means that no number of the order is negative and that its
  fee rates are at most 1, as those of the resting orders are by the invariant of the market; the code does not check this, and
  a rate above 1 turns the credit of a trade into a debit.
\<close>

theorem put_order_cost:
  assumes "env_laws E" and "market_inv m cx" and "input_ok i" and "room m cx"
    and "put_order E i u m cx = Some (m', cx', Inr x')" and "i_type i = LIMIT"
  shows "\<forall>v a. bm_get (cx_bm cx) v AVAILABLE a -
      (if v = u \<and> a = (if i_side i = ASK then m_base m else m_quote m)
       then (if i_side i = ASK then i_amount i else i_amount i * i_price i) else 0)
    \<le> bm_get (cx_bm cx') v AVAILABLE a"
  by (intro allI limit_order_cost [OF assms])

theorem put_order_cost_witness:
  "\<exists>m' cx' x'. put_order ref_env demo_bid 2 (fst demo_book) (snd demo_book) = Some (m', cx', Inr x') \<and>
     bm_get (cx_bm (snd demo_book)) 2 AVAILABLE ''USDT'' - i_amount demo_bid * 101 \<le> bm_get (cx_bm cx') 2 AVAILABLE ''USDT''"
proof -
  obtain m' cx' x' where put: "put_order ref_env demo_bid 2 (fst demo_book) (snd demo_book) = Some (m', cx', Inr x')"
    using demo_bid_put by blast
  have i: "i_type demo_bid = LIMIT" "i_side demo_bid = BID" "i_price demo_bid = 101" by (simp_all add: demo_bid_def)
  have "m_quote (fst demo_book) = ''USDT''" by code_simp
  with put put_order_cost [OF demo_hyps put i(1)] i show ?thesis by (auto dest!: spec [of _ 2] spec [of _ "''USDT''"])
qed

end
