(* ===== verification/MarketCancel.thy ===== *)
theory MarketCancel
  imports MarketProps
begin

text \<open>Cancellation of one order and of all orders of a user, and the market's queries.\<close>

section \<open>Cancelling\<close>

lemma market_inv_live:
  assumes "market_inv m cx" and "bt_get (m_orders m) i = Some r"
  shows "(i, r) \<in> set (m_orders m)" and "o_id (deep m r) = i" and "order_ok m (deep m r)"
    and "amount_ok (cx_bm cx) (asset_of m (deep m r)) (o_frozen (deep m r))" and "0 < o_remain (deep m r)"
proof -
  have bs: "book_struct m" and oo: "orders_ok m" and ao: "all_open m" and mk: "mkt_ok m (cx_bm cx)"
    using assms(1) by (simp_all add: market_inv_def book_ok_def)
  show ir: "(i, r) \<in> set (m_orders m)" using assms(2) by (simp add: bt_get_iff [OF book_structD(1) [OF bs]])
  show "o_id (deep m r) = i" by (rule book_structD(7) [OF bs ir])
  show ok: "order_ok m (deep m r)" using oo ir by (auto simp: orders_ok_def)
  show "amount_ok (cx_bm cx) (asset_of m (deep m r)) (o_frozen (deep m r))" by (rule order_ok_amounts [OF mk ok])
  show "0 < o_remain (deep m r)" using ao ir by (auto simp: all_open_def)
qed

text \<open>The state after \<^verbatim>\<open>order_finish\<close> on a live order.\<close>

definition finish_state :: "order \<Rightarrow> market \<times> ctx \<Rightarrow> market \<times> ctx" where
  "finish_state x = (\<lambda>(m, cx). (remove_order x m, emit (PutOrder x FINISH) (cx\<lparr>cx_bm := released m x (cx_bm cx)\<rparr>)))"

lemma finish_live:
  assumes E: "env_laws E" and inv: "market_inv m cx" and get: "bt_get (m_orders m) i = Some r"
  shows "order_finish E (deep m r) (m, cx) = Some (finish_state (deep m r) (m, cx))"
    and "market_inv (fst (finish_state (deep m r) (m, cx))) (snd (finish_state (deep m r) (m, cx)))"
    and "slack (fst (finish_state (deep m r) (m, cx))) (cx_bm (snd (finish_state (deep m r) (m, cx)))) u a = slack m (cx_bm cx) u a"
proof -
  note live = market_inv_live [OF inv get]
  let ?x = "deep m r"
  have bs: "book_struct m" and oo: "orders_ok m" and ok: "bm_ok (cx_bm cx)"
    using inv by (simp_all add: market_inv_def book_ok_def ctx_ok_def)
  have ir: "(o_id ?x, r) \<in> set (m_orders m)" using live(1,2) by simp
  show "order_finish E ?x (m, cx) = Some (finish_state ?x (m, cx))"
    using order_finish_eq [OF E bs ir refl ok live(4)] by (simp add: finish_state_def)
  note f = remove_book_facts [OF bs oo ir refl] and rel = released_ok [OF ok live(4)]
  show slack_eq: "slack (fst (finish_state ?x (m, cx))) (cx_bm (snd (finish_state ?x (m, cx)))) u a = slack m (cx_bm cx) u a" for u a
    using f(4) by (simp add: finish_state_def)
  have sub: "set (m_orders (remove_order ?x m)) \<subseteq> set (m_orders m)" by (auto simp: set_bt_remove)
  have "book_ok (remove_order ?x m)"
    using inv f(1,2) uncrossed_mono [OF _ sub] sub by (auto simp: market_inv_def book_ok_def all_open_def)
  moreover have "avail_ok (released m ?x (cx_bm cx))"
    using inv order_ok_frozen [OF live(3)] by (auto simp: market_inv_def ctx_ok_def avail_ok_def released_get)
  moreover have "mkt_ok m (released m ?x (cx_bm cx))"
    using inv mkt_ok_bm_cong [OF rel(2)] by (simp add: market_inv_def)
  moreover have "solvent (remove_order ?x m) (released m ?x (cx_bm cx))"
    using inv f(4) by (simp add: market_inv_def solvent_slack)
  moreover have "ids_below (sq_order_id (cx_sequencer cx)) (remove_order ?x m)"
    using inv sub by (auto simp: market_inv_def ids_below_def)
  ultimately show "market_inv (fst (finish_state ?x (m, cx))) (snd (finish_state ?x (m, cx)))"
    using inv rel(1) by (simp add: market_inv_def ctx_ok_def finish_state_def trade_ids_ok_def)
qed

lemma market_get_remove:
  "market_get (remove_order x m) j = (if j = o_id x then None else market_get m j)"
proof -
  have "deep (remove_order x m) = deep m" by (simp add: fun_eq_iff)
  then show ?thesis by (simp add: market_get_def bt_get_remove)
qed

text \<open>
  C11: Cancelling a live order never panics, returns the order, takes it out of the book and nothing
  else, moves exactly its frozen amount back to the owner's available balance, keeps the
  invariant and conserves supply; cancelling an identifier that is not in the book panics.
\<close>

theorem market_cancel_ok:
  assumes E: "env_laws E" and inv: "market_inv m cx"
  shows "case market_get m i of
      None \<Rightarrow> market_cancel E i m cx = None
    | Some x \<Rightarrow> \<exists>m' cx'. market_cancel E i m cx = Some (m', cx', x) \<and> market_inv m' cx' \<and>
        (\<forall>j. market_get m' j = (if j = i then None else market_get m j)) \<and>
        (\<forall>u t a. bm_get (cx_bm cx') u t a = bm_get (cx_bm cx) u t a +
           (if u = o_user x \<and> a = asset_of m x then (if t = AVAILABLE then o_frozen x else - o_frozen x) else 0)) \<and>
        (\<forall>a. total_supply (cx_bm cx') a = total_supply (cx_bm cx) a) \<and>
        cx_calls cx' = cx_calls cx @ [PutOrder x FINISH]"
proof (cases "bt_get (m_orders m) i")
  case None
  then show ?thesis by (simp add: market_get_def market_cancel_def)
next
  case (Some r)
  note live = market_inv_live [OF inv Some] and fin = finish_live [OF E inv Some]
  let ?x = "deep m r"
  have "market_cancel E i m cx = Some (fst (finish_state ?x (m, cx)), snd (finish_state ?x (m, cx)), ?x)"
    using fin(1) by (simp add: market_cancel_def Some case_prod_beta' Let_def)
  moreover have "bm_ok (cx_bm cx)" using inv by (simp add: market_inv_def ctx_ok_def)
  ultimately show ?thesis
    using fin(2) live(2,5) released_ok(3) [OF _ live(4)]
    by (auto simp: market_get_def [of m i] Some finish_state_def market_get_remove released_get)
qed

theorem market_cancel_ok_witness:
  "\<exists>x m' cx'. market_get (fst demo_book) 1 = Some x \<and> market_cancel ref_env 1 (fst demo_book) (snd demo_book) = Some (m', cx', x) \<and>
     market_inv m' cx' \<and> market_get m' 1 = None"
proof -
  have "market_get (fst demo_book) 1 \<noteq> None" by code_simp
  then obtain x where "market_get (fst demo_book) 1 = Some x" by blast
  with market_cancel_ok [OF demo_hyps(1,2), of 1] show ?thesis by auto
qed

section \<open>Cancelling all orders of a user\<close>

lemma bt_get_user_map:
  assumes "book_struct m"
  shows "get_order_num_of_user m u = length (user_map m u)" and "get_order_of_user m u = map (\<lambda>(_, r). deep m r) (user_map m u)"
  by (simp_all add: get_order_num_of_user_def get_order_of_user_def user_map_def split: option.split)

lemma user_map_remove:
  assumes bs: "book_struct m" and ir: "(o_id x, r) \<in> set (m_orders m)" and x: "deep m r = x"
  shows "user_map (remove_order x m) u = (if u = o_user x then bt_remove (o_id x) (user_map m u) else user_map m u)"
proof -
  from users_get [OF bs ir] x obtain um where "bt_get (m_users m) (o_user x) = Some um" by auto
  then show ?thesis
    by (auto simp: user_map_def remove_order_def bt_get_insert [OF book_structD(2) [OF bs]])
qed

lemma cancel_orders_ok:
  assumes E: "env_laws E"
  shows "market_inv m cx \<Longrightarrow> map fst (user_map m u) = is \<Longrightarrow>
    \<exists>m' cx'. cancel_orders E is (m, cx) = Some (m', cx') \<and> market_inv m' cx' \<and> user_map m' u = [] \<and>
      (\<forall>v. v \<noteq> u \<longrightarrow> get_order_of_user m' v = get_order_of_user m v) \<and>
      (\<forall>v a. slack m' (cx_bm cx') v a = slack m (cx_bm cx) v a)"
proof (induction "is" arbitrary: m cx)
  case Nil
  then show ?case by auto
next
  case (Cons i js)
  have bs: "book_struct m" using Cons.prems(1) by (simp add: market_inv_def book_ok_def)
  from Cons.prems(2) obtain r um where um: "user_map m u = (i, r) # um" and um_js: "map fst um = js" by auto
  have "(i, r) \<in> set (user_map m u)" by (simp add: um)
  then have ir: "(i, r) \<in> set (m_orders m)" and ou: "o_user (deep m r) = u" by (simp_all add: user_map_set(2) [OF bs])
  have get: "bt_get (m_orders m) i = Some r" by (simp add: bt_get_iff [OF book_structD(1) [OF bs]] ir)
  note fin = finish_live [OF E Cons.prems(1) get] and live = market_inv_live [OF Cons.prems(1) get]
  let ?x = "deep m r"
  define m1 cx1 where "m1 = fst (finish_state ?x (m, cx))" and "cx1 = snd (finish_state ?x (m, cx))"
  have m1: "m1 = remove_order ?x m" by (simp add: m1_def finish_state_def)
  have ir': "(o_id ?x, r) \<in> set (m_orders m)" using ir live(2) by simp
  note umr = user_map_remove [OF bs ir' refl]
  have notin: "i \<notin> fst ` set um"
    using bt_inv_distinct [OF user_map_set(1) [OF bs, of u]] by (simp add: um)
  have "bt_remove i ((i, r) # um) = um" using notin by (force simp: bt_remove_def filter_id_conv)
  then have "map fst (user_map m1 u) = js" using um um_js by (simp add: m1 umr ou live(2))
  from Cons.IH [OF fin(2) [folded m1_def cx1_def] this] obtain m' cx' where
    ih: "cancel_orders E js (m1, cx1) = Some (m', cx')" "market_inv m' cx'" "user_map m' u = []"
    "\<forall>v. v \<noteq> u \<longrightarrow> get_order_of_user m' v = get_order_of_user m1 v"
    "\<forall>v a. slack m' (cx_bm cx') v a = slack m1 (cx_bm cx1) v a" by blast
  have step: "order_finish E ?x (m, cx) = Some (m1, cx1)" using fin(1) by (simp add: m1_def cx1_def)
  have bs1: "book_struct m1" using fin(2) by (simp add: m1_def market_inv_def book_ok_def)
  have "get_order_of_user m1 v = get_order_of_user m v" if "v \<noteq> u" for v
    using that by (simp add: bt_get_user_map(2) [OF bs] bt_get_user_map(2) [OF bs1]) (simp add: m1 umr ou)
  then show ?case using ih step fin(3) by (auto simp: get m1_def cx1_def)
qed

text \<open>
  C12: Cancelling everything of a user never panics, reports how many orders the user had, leaves the
  user with no order and every other user's orders as they were, and keeps the invariant and
  the frozen balances in step.
\<close>

theorem cancel_all_for_user_ok:
  assumes E: "env_laws E" and inv: "market_inv m cx"
  shows "\<exists>m' cx'. cancel_all_for_user E (uuid_to_string E u) m cx = Some (m', cx', get_order_num_of_user m u) \<and>
    market_inv m' cx' \<and> get_order_of_user m' u = [] \<and>
    (\<forall>v. v \<noteq> u \<longrightarrow> get_order_of_user m' v = get_order_of_user m v) \<and>
    (\<forall>v a. slack m' (cx_bm cx') v a = slack m (cx_bm cx) v a)"
proof -
  have bs: "book_struct m" using inv by (simp add: market_inv_def book_ok_def)
  from cancel_orders_ok [OF E inv refl, of u] obtain m' cx' where
    h: "cancel_orders E (map fst (user_map m u)) (m, cx) = Some (m', cx')" "market_inv m' cx'" "user_map m' u = []"
    "\<forall>v. v \<noteq> u \<longrightarrow> get_order_of_user m' v = get_order_of_user m v"
    "\<forall>v a. slack m' (cx_bm cx') v a = slack m (cx_bm cx) v a" by blast
  have bs': "book_struct m'" using h(2) by (simp add: market_inv_def book_ok_def)
  have "cancel_all_for_user E (uuid_to_string E u) m cx = Some (m', cx', get_order_num_of_user m u)"
    using h(1) by (simp add: cancel_all_for_user_def env_uuid [OF E] bt_get_user_map(1) [OF bs] flip: user_map_def)
  with h(2-5) show ?thesis by (simp add: bt_get_user_map(2) [OF bs'])
qed

theorem cancel_all_for_user_ok_witness:
  "\<exists>m' cx'. cancel_all_for_user ref_env (uuid_to_string ref_env 1) (fst demo_book) (snd demo_book) =
      Some (m', cx', 1) \<and> market_inv m' cx' \<and> get_order_of_user m' 1 = []"
proof -
  have "get_order_num_of_user (fst demo_book) 1 = 1" by code_simp
  with cancel_all_for_user_ok [OF demo_hyps(1,2), of 1] show ?thesis by auto
qed

section \<open>Submit, then cancel\<close>

text \<open>
  C13: Round trip. Submitting an order that trades with nobody and stays in the book, and then
  cancelling it, restores every balance of every user and every order that was in the book.
\<close>

theorem put_cancel_roundtrip:
  assumes E: "env_laws E" and inv: "market_inv m cx" and ok: "input_ok i" and room: "room m cx"
    and put: "put_order E i u m cx = Some (m1, cx1, Inr x)" and no_trade: "trades_since cx cx1 = []"
    and rest: "market_get m1 (o_id x) = Some x"
  shows "\<exists>m2 cx2. market_cancel E (o_id x) m1 cx1 = Some (m2, cx2, x) \<and>
    (\<forall>v t a. bm_get (cx_bm cx2) v t a = bm_get (cx_bm cx) v t a) \<and>
    (\<forall>j. market_get m2 j = market_get m j)"
proof -
  from put_order_accepted [OF E inv ok room put] obtain ql fills ms where con: "conclude ms = (m1, cx1, x)" and
    run: "run E ql (counter_orders m (i_side i)) (start (accepted_order E i u m cx) m (accepted_ctx cx)) fills ms" and
    inv1: "loop_inv ql [] ms" and nt: "new_taker m (accepted_ctx cx) (accepted_order E i u m cx)" and
    trs: "trades_since cx cx1 = map (\<lambda>(r, x, tr). tr) fills" by blast
  have "fills = []" using no_trade trs by simp
  then have ms: "ms_market ms = m" "ms_cx ms = emit (PutOrder (accepted_order E i u m cx) PUT) (accepted_ctx cx)" "ms_finished ms = []"
    using run by (auto elim: run.cases simp: stops_frame)
  have sc: "same_const (accepted_order E i u m cx) (ms_taker ms)" using run_frame [OF run] by simp
  have fresh: "o_id (ms_taker ms) \<notin> fst ` set (m_orders m)" by (rule accepted_fresh [OF nt same_book_refl sc])
  then have "bt_get (m_orders m) (o_id (ms_taker ms)) = None" by (simp add: bt_get_None)
  moreover have "o_id x = o_id (ms_taker ms)" using conclude_frame(7) [OF con] by (simp add: same_const_def)
  ultimately have none: "market_get m (o_id x) = None" by (simp add: market_get_def)
  have r: "rests ms"
  proof (rule ccontr)
    assume "\<not> rests ms"
    then have "m1 = m" using con ms by (auto simp: conclude_def Let_def)
    with rest none show False by simp
  qed
  let ?x = "rested (ms_taker ms)"
  have m1: "m1 = add_order ?x m" and x: "x = ?x" and bm1: "cx_bm cx1 = held m ?x (cx_bm cx)"
    using con ms r by (auto simp: conclude_def Let_def)
  have bs: "book_struct m" using inv by (simp add: market_inv_def book_ok_def)
  have get1: "market_get m1 j = market_get m j" if "j \<noteq> o_id x" for j
  proof (cases "bt_get (m_orders m) j")
    case (Some r)
    then have "r < length (m_heap m)" using book_structD(6) [OF bs] by (simp add: bt_get_iff [OF book_structD(1) [OF bs]])
    with Some that show ?thesis by (simp add: market_get_def m1 x bt_get_insert [OF book_structD(1) [OF bs]])
  qed (use that in \<open>simp add: market_get_def m1 x bt_get_insert [OF book_structD(1) [OF bs]]\<close>)
  from market_cancel_ok [OF E put_order_result(1) [OF E inv ok room put], of "o_id x"] rest obtain m2 cx2 where
    c: "market_cancel E (o_id x) m1 cx1 = Some (m2, cx2, x)"
    "\<forall>j. market_get m2 j = (if j = o_id x then None else market_get m1 j)"
    "\<forall>u t a. bm_get (cx_bm cx2) u t a = bm_get (cx_bm cx1) u t a +
       (if u = o_user x \<and> a = asset_of m1 x then (if t = AVAILABLE then o_frozen x else - o_frozen x) else 0)"
    by auto
  have "asset_of m1 x = asset_of m x" by (simp add: m1 asset_of_def)
  with c(3) have "bm_get (cx_bm cx2) v t a = bm_get (cx_bm cx) v t a" for v t a
    by (simp add: bm1 held_get x)
  moreover have "market_get m2 j = market_get m j" for j using c(2) none get1 by auto
  ultimately show ?thesis using c(1) by blast
qed

theorem put_cancel_roundtrip_witness:
  "\<exists>m1 cx1 x m2 cx2. put_order ref_env demo_ask 1 demo_m demo_cx = Some (m1, cx1, Inr x) \<and>
     market_cancel ref_env (o_id x) m1 cx1 = Some (m2, cx2, x) \<and>
     (\<forall>v t a. bm_get (cx_bm cx2) v t a = bm_get (cx_bm demo_cx) v t a)"
proof -
  obtain x where put: "put_order ref_env demo_ask 1 demo_m demo_cx = Some (fst demo_book, snd demo_book, Inr x)"
    using demo_book_put by blast
  have "trades_since demo_cx (snd demo_book) = []" by code_simp
  moreover have "case put_order ref_env demo_ask 1 demo_m demo_cx of
      Some (m, cx, Inr y) \<Rightarrow> market_get m (o_id y) = Some y | _ \<Rightarrow> False" by code_simp
  ultimately have "trades_since demo_cx (snd demo_book) = []" "market_get (fst demo_book) (o_id x) = Some x"
    by (simp_all add: put)
  from put_cancel_roundtrip [OF ref_env_laws demo_inv demo_inputs(1) demo_room put this] put show ?thesis by blast
qed

section \<open>Depth\<close>

lemma dec_sum_exact: "env_laws E \<Longrightarrow> dec_sum E xs = sum_list xs"
proof -
  assume E: "env_laws E"
  have "foldl (dec_add E) a xs = a + sum_list xs" for a
    by (induction xs arbitrary: a) (simp_all add: env_arith [OF E] add.assoc)
  then show ?thesis by (simp add: dec_sum_def)
qed

lemma group_runs_concat: "concat (map snd (group_runs f xs)) = xs"
  by (induction xs) (auto split: list.split prod.split)

lemma group_runs_key: "(k, g) \<in> set (group_runs f xs) \<Longrightarrow> g \<noteq> [] \<and> (\<forall>x \<in> set g. f x = k)"
proof (induction xs arbitrary: k g)
  case (Cons x xs)
  show ?case
  proof (cases "group_runs f xs")
    case Nil
    with Cons.prems show ?thesis by auto
  next
    case group: (Cons kg gs)
    obtain k' g' where kg: "kg = (k', g')" by (cases kg)
    have "g' \<noteq> [] \<and> (\<forall>x \<in> set g'. f x = k')" using Cons.IH [of k' g'] by (simp add: group kg)
    moreover have "h \<noteq> [] \<and> (\<forall>x \<in> set h. f x = j)" if "(j, h) \<in> set gs" for j h
      using Cons.IH [of j h] that by (simp add: group)
    ultimately show ?thesis using Cons.prems by (auto simp: group kg split: if_splits)
  qed
qed simp

lemma group_runs_keys: "fst ` set (group_runs f xs) = f ` set xs"
proof (induction xs)
  case (Cons x xs)
  then show ?case
    by (cases "group_runs f xs") (auto simp: case_prod_beta' simp del: image_eqI)
qed simp

lemma length_group_runs: "length (group_runs f xs) \<le> length xs"
  by (induction xs) (auto split: list.split prod.split)

lemma group_runs_sorted:
  assumes "sorted_wrt (\<lambda>x y. R (f x) (f y) \<or> f x = f y) xs" and "\<And>a b c. R a b \<Longrightarrow> R b c \<Longrightarrow> R a c"
  shows "sorted_wrt R (map fst (group_runs f xs))"
  using assms(1)
proof (induction xs)
  case (Cons x xs)
  have ih: "sorted_wrt R (map fst (group_runs f xs))" using Cons by simp
  show ?case
  proof (cases "group_runs f xs")
    case Nil
    then show ?thesis by simp
  next
    case group: (Cons kg gs)
    obtain k g where kg: "kg = (k, g)" by (cases kg)
    have "(k, g) \<in> set (group_runs f xs)" by (simp add: group kg)
    from group_runs_key [OF this] obtain y where y: "y \<in> set g" "f y = k" by (cases g) auto
    have "y \<in> set (concat (map snd (group_runs f xs)))" using y(1) by (auto simp: group kg)
    then have "y \<in> set xs" by (simp only: group_runs_concat)
    with Cons.prems y(2) have "R (f x) k \<or> f x = k" by auto
    moreover have "R k k'" if "k' \<in> set (map fst gs)" for k' using ih that by (auto simp: group kg)
    ultimately show ?thesis using ih assms(2) by (auto simp: group kg)
  qed
qed simp

lemma grouped_filter:
  assumes "distinct (map fst gs)" and "\<forall>(k, g) \<in> set gs. \<forall>x \<in> set g. f x = k" and "(k, g) \<in> set gs"
  shows "filter (\<lambda>x. f x = k) (concat (map snd gs)) = g"
  using assms
proof (induction gs)
  case (Cons h gs)
  obtain k' g' where h: "h = (k', g')" by (cases h)
  show ?case
  proof (cases "k' = k")
    case True
    with Cons.prems h have "k \<notin> fst ` set gs" by auto
    then have "g = g'" and "filter (\<lambda>x. f x = k) (concat (map snd gs)) = []"
      using Cons.prems h by (force simp: filter_empty_conv)+
    with Cons.prems h True show ?thesis by (auto simp: filter_id_conv)
  next
    case False
    with Cons h have "filter (\<lambda>x. f x = k) (concat (map snd gs)) = g" by auto
    moreover have "filter (\<lambda>x. f x = k) g' = []" using Cons.prems(2) h False by (auto simp: filter_empty_conv)
    ultimately show ?thesis by (simp add: h)
  qed
qed simp

lemma group_runs_filter:
  "distinct (map fst (group_runs f xs)) \<Longrightarrow> (k, g) \<in> set (group_runs f xs) \<Longrightarrow> g = filter (\<lambda>x. f x = k) xs"
  using grouped_filter [of "group_runs f xs" f k g] group_runs_key [of _ _ f xs] by (simp add: group_runs_concat) blast

definition level_amount :: "resting list \<Rightarrow> decimal \<Rightarrow> decimal" where
  "level_amount book p = sum_list (map (\<lambda>(_, _, _, q). q) (filter (\<lambda>(_, _, p', _). p' = p) book))"

lemma grouped_book:
  fixes R :: "decimal \<Rightarrow> decimal \<Rightarrow> bool"
  assumes E: "env_laws E" and sorted: "sorted_wrt (\<lambda>r s. R (o_price (deep m r)) (o_price (deep m s)) \<or> o_price (deep m r) = o_price (deep m s)) rs"
    and tr: "\<And>a b c. R a b \<Longrightarrow> R b c \<Longrightarrow> R a c" and irr: "\<And>a. \<not> R a a"
  shows "sorted_wrt R (map pi_price (group_ordebook_by_fn E m rs limit o_price))"
    and "\<forall>l \<in> set (group_ordebook_by_fn E m rs limit o_price). pi_amount l = level_amount (map (view m) rs) (pi_price l)"
    and "length rs \<le> limit \<Longrightarrow> set (map pi_price (group_ordebook_by_fn E m rs limit o_price)) = (\<lambda>r. o_price (deep m r)) ` set rs"
proof -
  let ?f = "\<lambda>r. o_price (deep m r)" and ?gs = "group_runs (\<lambda>r. o_price (deep m r)) rs"
  have so: "sorted_wrt R (map fst ?gs)" by (rule group_runs_sorted [OF sorted tr])
  have dist: "distinct (map fst ?gs)"
    using so irr by (auto simp: sorted_wrt_iff_nth_less distinct_conv_nth) (metis linorder_neqE_nat)
  have prices: "map pi_price (group_ordebook_by_fn E m rs limit o_price) = take limit (map fst ?gs)"
    by (simp add: group_ordebook_by_fn_def take_map case_prod_beta')
  show "sorted_wrt R (map pi_price (group_ordebook_by_fn E m rs limit o_price))"
    unfolding prices by (rule sorted_wrt_take [OF so])
  show "\<forall>l \<in> set (group_ordebook_by_fn E m rs limit o_price). pi_amount l = level_amount (map (view m) rs) (pi_price l)"
  proof
    fix l assume "l \<in> set (group_ordebook_by_fn E m rs limit o_price)"
    then obtain k g where kg: "(k, g) \<in> set ?gs" and l: "l = \<lparr>pi_price = k, pi_amount = dec_sum E (map (\<lambda>r. o_remain (deep m r)) g)\<rparr>"
      by (auto simp: group_ordebook_by_fn_def dest: in_set_takeD)
    have "g = filter (\<lambda>r. ?f r = k) rs" by (rule group_runs_filter [OF dist kg])
    then show "pi_amount l = level_amount (map (view m) rs) (pi_price l)"
      by (simp add: l dec_sum_exact [OF E] level_amount_def filter_map comp_def view_def)
  qed
  assume "length rs \<le> limit"
  then have "length (map fst ?gs) \<le> limit" using length_group_runs [of ?f rs] by simp
  moreover have "fst ` set ?gs = ?f ` set rs" by (rule group_runs_keys)
  ultimately show "set (map pi_price (group_ordebook_by_fn E m rs limit o_price)) = ?f ` set rs"
    unfolding prices by simp
qed

text \<open>
  C14: The depth snapshot at interval zero is the book by price level: levels strictly ascending in
  price for asks and strictly descending for bids, each level's amount the sum of the amounts left
  of all orders at that price, and no level missing when the limit allows it.
\<close>

theorem depth_levels:
  assumes "env_laws E" and "market_inv m cx" and "length (m_asks m) \<le> limit" and "length (m_bids m) \<le> limit"
  shows "let d = depth E m limit 0 in
    sorted_wrt (<) (map pi_price (dp_asks d)) \<and> sorted_wrt (>) (map pi_price (dp_bids d)) \<and>
    (\<forall>l \<in> set (dp_asks d). pi_amount l = level_amount (side_view m ASK) (pi_price l)) \<and>
    (\<forall>l \<in> set (dp_bids d). pi_amount l = level_amount (side_view m BID) (pi_price l)) \<and>
    pi_price ` set (dp_asks d) = ka_price ` fst ` set (m_asks m) \<and>
    pi_price ` set (dp_bids d) = kb_price ` fst ` set (m_bids m)"
proof -
  have bs: "book_struct m" using assms(2) by (simp add: market_inv_def book_ok_def)
  have sa: "sorted_wrt (\<lambda>r s. o_price (deep m r) < o_price (deep m s) \<or> o_price (deep m r) = o_price (deep m s)) (map snd (m_asks m))"
    and sb: "sorted_wrt (\<lambda>r s. o_price (deep m s) < o_price (deep m r) \<or> o_price (deep m r) = o_price (deep m s)) (map snd (m_bids m))"
    using counter_orders_keys [OF bs]
    by (auto simp: counter_orders_def sorted_wrt_map get_key_less elim!: sorted_wrt_mono_rel [rotated])
  have ka: "(\<lambda>r. o_price (deep m r)) ` snd ` set (m_asks m) = ka_price ` fst ` set (m_asks m)"
    unfolding image_image by (rule image_cong) (auto simp: book_structD(8) [OF bs] get_ask_key_def)
  have kb: "(\<lambda>r. o_price (deep m r)) ` snd ` set (m_bids m) = kb_price ` fst ` set (m_bids m)"
    unfolding image_image by (rule image_cong) (auto simp: book_structD(9) [OF bs] get_bid_key_def)
  note ga = grouped_book [OF assms(1) sa, of limit] and gb = grouped_book [OF assms(1) sb, of limit]
  show ?thesis
    using ga gb assms(3,4) ka kb by (auto simp: depth_def Let_def side_view_def)
qed

theorem depth_levels_witness:
  "let d = depth ref_env (fst demo_book) 20 0 in
    sorted_wrt (<) (map pi_price (dp_asks d)) \<and>
    (\<forall>l \<in> set (dp_asks d). pi_amount l = level_amount (side_view (fst demo_book) ASK) (pi_price l))"
proof -
  have "length (m_asks (fst demo_book)) \<le> 20" "length (m_bids (fst demo_book)) \<le> 20" by code_simp+
  from depth_levels [OF demo_hyps(1,2) this] show ?thesis by (simp add: Let_def)
qed

end
