(* ===== verification/Producer.thy ===== *)
theory Producer
  imports Prelude "HOL-Library.Multiset"
begin

text \<open>
  \<^verbatim>\<open>src/message/producer.rs\<close>: the thread that moves messages from the engine's channel to Kafka.
  A message scheme (the trait \<^verbatim>\<open>MessageScheme\<close>) decides which messages are kept and in which
  order they leave; \<^verbatim>\<open>SimpleMessageScheme\<close> has one queue per topic, \<^verbatim>\<open>FullOrderMessageScheme\<close>
  one queue in total. The Kafka client is a parameter (\<^verbatim>\<open>send\<close> and \<^verbatim>\<open>poll\<close>).

  The locale \<open>message_scheme\<close> is the contract of the trait, \<open>ordered_scheme\<close> its extension to
  schemes that keep the order; the loop is verified once against each of them.
\<close>

section \<open>Topics and records\<close>

definition BALANCES_TOPIC :: string where "BALANCES_TOPIC = ''balances''"
definition DEPOSITS_TOPIC :: string where "DEPOSITS_TOPIC = ''deposits''"
definition ORDERS_TOPIC :: string where "ORDERS_TOPIC = ''orders''"
definition TRADES_TOPIC :: string where "TRADES_TOPIC = ''trades''"
definition UNIFY_TOPIC :: string where "UNIFY_TOPIC = ''unifyevents''"
definition USER_TOPIC :: string where "USER_TOPIC = ''registeruser''"
definition WITHDRAWS_TOPIC :: string where "WITHDRAWS_TOPIC = ''withdraws''"

lemmas topic_defs = BALANCES_TOPIC_def DEPOSITS_TOPIC_def ORDERS_TOPIC_def TRADES_TOPIC_def
  UNIFY_TOPIC_def USER_TOPIC_def WITHDRAWS_TOPIC_def

record 'o kafka_record =
  kr_topic :: string
  kr_opaque :: 'o
  kr_key :: string
  kr_payload :: string

text \<open>
  The trait: \<open>ms_pop_up\<close> may change the scheme; \<open>ms_commit\<close> and \<open>ms_deliver_commit\<close> can panic.
  The flag of \<open>ms_deliver_commit\<close> tells whether the delivery succeeded.
\<close>

record ('s, 'o) scheme_ops =
  ms_is_full :: "'s \<Rightarrow> bool"
  ms_on_message :: "string \<Rightarrow> string \<Rightarrow> 's \<Rightarrow> 's"
  ms_pop_up :: "'s \<Rightarrow> 's \<times> 'o kafka_record option"
  ms_commit :: "'o option \<Rightarrow> 's \<Rightarrow> 's option"
  ms_deliver_commit :: "bool \<Rightarrow> 'o \<Rightarrow> 's \<Rightarrow> 's option"

section \<open>SimpleMessageScheme\<close>

record simple_scheme =
  sm_balances_list :: "string list"
  sm_orders_list :: "string list"
  sm_trades_list :: "string list"
  sm_users_list :: "string list"
  sm_last_poped :: "(string \<times> string) option"

definition simple_default :: simple_scheme where
  "simple_default = \<lparr>sm_balances_list = [], sm_orders_list = [], sm_trades_list = [],
     sm_users_list = [], sm_last_poped = None\<rparr>"

definition simple_settings :: "(string \<times> string) list" where
  "simple_settings = [(''queue.buffering.max.ms'', ''1'')]"

definition simple_is_full :: "simple_scheme \<Rightarrow> bool" where
  "simple_is_full s \<longleftrightarrow> length (sm_balances_list s) \<ge> 100 \<or> length (sm_orders_list s) \<ge> 100 \<or>
     length (sm_trades_list s) \<ge> 100 \<or> length (sm_users_list s) \<ge> 100"

definition simple_on_message :: "string \<Rightarrow> string \<Rightarrow> simple_scheme \<Rightarrow> simple_scheme" where
  "simple_on_message title_tip message s =
     (if title_tip = BALANCES_TOPIC then s\<lparr>sm_balances_list := sm_balances_list s @ [message]\<rparr>
      else if title_tip = ORDERS_TOPIC then s\<lparr>sm_orders_list := sm_orders_list s @ [message]\<rparr>
      else if title_tip = TRADES_TOPIC then s\<lparr>sm_trades_list := sm_trades_list s @ [message]\<rparr>
      else if title_tip = USER_TOPIC then s\<lparr>sm_users_list := sm_users_list s @ [message]\<rparr>
      else s)"

text \<open>The topic of a longest queue, the first such in the order balances, orders, trades, users.\<close>

definition simple_pick :: "simple_scheme \<Rightarrow> string" where
  "simple_pick s =
     snd (foldl (\<lambda>(len, topic_name) (tp_name, l).
                   if length l > len then (length l, tp_name) else (len, topic_name))
            (length (sm_balances_list s), BALANCES_TOPIC)
            [(ORDERS_TOPIC, sm_orders_list s), (TRADES_TOPIC, sm_trades_list s),
             (USER_TOPIC, sm_users_list s)])"

definition simple_pop_front :: "string \<Rightarrow> simple_scheme \<Rightarrow> simple_scheme \<times> string option" where
  "simple_pop_front tp s =
     (let front = (\<lambda>l. case l of [] \<Rightarrow> None | m # _ \<Rightarrow> Some m) in
      if tp = ORDERS_TOPIC then (s\<lparr>sm_orders_list := drop 1 (sm_orders_list s)\<rparr>, front (sm_orders_list s))
      else if tp = TRADES_TOPIC then (s\<lparr>sm_trades_list := drop 1 (sm_trades_list s)\<rparr>, front (sm_trades_list s))
      else if tp = USER_TOPIC then (s\<lparr>sm_users_list := drop 1 (sm_users_list s)\<rparr>, front (sm_users_list s))
      else (s\<lparr>sm_balances_list := drop 1 (sm_balances_list s)\<rparr>, front (sm_balances_list s)))"

definition simple_pop_up :: "simple_scheme \<Rightarrow> simple_scheme \<times> unit kafka_record option" where
  "simple_pop_up s =
     (let topic_name = simple_pick s;
          (s, front) = simple_pop_front topic_name s;
          s = s\<lparr>sm_last_poped := map_option (\<lambda>str. (topic_name, str)) front\<rparr>
      in (s, map_option (\<lambda>(tp, str). \<lparr>kr_topic = tp, kr_opaque = (), kr_key = [], kr_payload = str\<rparr>)
               (sm_last_poped s)))"

definition simple_commit :: "unit option \<Rightarrow> simple_scheme \<Rightarrow> simple_scheme option" where
  "simple_commit isfailed s =
     (case isfailed of
        None \<Rightarrow> Some s
      | Some _ \<Rightarrow> do {
          (topic_name, str) \<leftarrow> sm_last_poped s;
          Some (simple_on_message topic_name str (s\<lparr>sm_last_poped := None\<rparr>)) })"

definition simple_deliver_commit :: "bool \<Rightarrow> unit \<Rightarrow> simple_scheme \<Rightarrow> simple_scheme option" where
  "simple_deliver_commit result opaque s = Some s"

definition simple_ops :: "(simple_scheme, unit) scheme_ops" where
  "simple_ops = \<lparr>ms_is_full = simple_is_full, ms_on_message = simple_on_message,
     ms_pop_up = simple_pop_up, ms_commit = simple_commit, ms_deliver_commit = simple_deliver_commit\<rparr>"

section \<open>FullOrderMessageScheme\<close>

record full_scheme =
  fo_ordered_list :: "(string \<times> string) list"
  fo_deliver_cnt :: u64
  fo_commited_cnt :: u64

definition full_default :: full_scheme where
  "full_default = \<lparr>fo_ordered_list = [], fo_deliver_cnt = 0, fo_commited_cnt = 0\<rparr>"

definition full_settings :: "(string \<times> string) list" where
  "full_settings = [(''enable.idempotence'', ''true''), (''max.in.flight.requests.per.connection'', ''1''),
     (''delivery.timeout.ms'', ''2147483647'')]"

definition full_is_full :: "full_scheme \<Rightarrow> bool" where
  "full_is_full s \<longleftrightarrow> length (fo_ordered_list s) \<ge> 100"

definition full_on_message :: "string \<Rightarrow> string \<Rightarrow> full_scheme \<Rightarrow> full_scheme" where
  "full_on_message title_tip message s =
     (if title_tip \<in> {DEPOSITS_TOPIC, ORDERS_TOPIC, TRADES_TOPIC, USER_TOPIC, WITHDRAWS_TOPIC}
      then s\<lparr>fo_ordered_list := fo_ordered_list s @ [(title_tip, message)]\<rparr> else s)"

definition full_pop_up :: "full_scheme \<Rightarrow> full_scheme \<times> u64 kafka_record option" where
  "full_pop_up s =
     (s, case fo_ordered_list s of
           [] \<Rightarrow> None
         | (title_tip, message) # _ \<Rightarrow>
             Some \<lparr>kr_topic = UNIFY_TOPIC, kr_opaque = fo_deliver_cnt s, kr_key = title_tip,
                   kr_payload = message\<rparr>)"

definition full_commit :: "u64 option \<Rightarrow> full_scheme \<Rightarrow> full_scheme option" where
  "full_commit isfailed s =
     (case isfailed of
        None \<Rightarrow> Some (s\<lparr>fo_ordered_list := drop 1 (fo_ordered_list s), fo_deliver_cnt := fo_deliver_cnt s + 1\<rparr>)
      | Some n \<Rightarrow> if n = fo_deliver_cnt s then Some s else None)"

definition full_deliver_commit :: "bool \<Rightarrow> u64 \<Rightarrow> full_scheme \<Rightarrow> full_scheme option" where
  "full_deliver_commit result opaque s =
     (if opaque = fo_commited_cnt s then Some (s\<lparr>fo_commited_cnt := fo_commited_cnt s + 1\<rparr>) else None)"

definition full_ops :: "(full_scheme, u64) scheme_ops" where
  "full_ops = \<lparr>ms_is_full = full_is_full, ms_on_message = full_on_message,
     ms_pop_up = full_pop_up, ms_commit = full_commit, ms_deliver_commit = full_deliver_commit\<rparr>"

section \<open>The sending loop\<close>

text \<open>
  The Kafka client: \<^verbatim>\<open>send\<close> accepts the record, reports its queue full, or fails; \<^verbatim>\<open>poll\<close> returns
  the number of events served and the delivery reports they produced, which the loop drains.
\<close>

datatype send_result = SendOk | SendQueueFull | SendError

record ('k, 'o) kafka =
  k_send :: "'o kafka_record \<Rightarrow> 'k \<Rightarrow> 'k \<times> send_result"
  k_poll :: "'k \<Rightarrow> 'k \<times> int \<times> (bool \<times> 'o) list"

text \<open>
  \<open>lp_receiver\<close> holds the messages waiting in the channel, \<open>lp_closed\<close> tells whether its sender
  is gone. \<open>lp_received\<close> records the messages taken from the channel.
\<close>

record ('s, 'k) loop_state =
  lp_scheme :: 's
  lp_kafka :: 'k
  lp_receiver :: "(string \<times> string) list"
  lp_closed :: bool
  lp_last_poll :: int
  lp_queue_full :: bool
  lp_received :: "(string \<times> string) list"

definition loop_init :: "'s \<Rightarrow> 'k \<Rightarrow> ('s, 'k) loop_state" where
  "loop_init s k = \<lparr>lp_scheme = s, lp_kafka = k, lp_receiver = [], lp_closed = False,
     lp_last_poll = 0, lp_queue_full = False, lp_received = []\<rparr>"

text \<open>Absorbing: the flag tells that the channel is disconnected and the loop returns.\<close>

definition loop_recv :: "('s, 'o) scheme_ops \<Rightarrow> ('s, 'k) loop_state \<Rightarrow> ('s, 'k) loop_state \<times> bool" where
  "loop_recv ops st =
     (if ms_is_full ops (lp_scheme st) then (st, False)
      else case lp_receiver st of
             (topic, message) # rest \<Rightarrow>
               (st\<lparr>lp_receiver := rest, lp_scheme := ms_on_message ops topic message (lp_scheme st),
                   lp_received := lp_received st @ [(topic, message)]\<rparr>, False)
           | [] \<Rightarrow> (st, lp_closed st))"

definition loop_send :: "('s, 'o) scheme_ops \<Rightarrow> ('k, 'o) kafka \<Rightarrow> ('s, 'k) loop_state \<Rightarrow> ('s, 'k) loop_state option" where
  "loop_send ops K st =
     (if lp_queue_full st then Some st
      else case ms_pop_up ops (lp_scheme st) of
             (s, None) \<Rightarrow> Some (st\<lparr>lp_scheme := s\<rparr>)
           | (s, Some msg) \<Rightarrow>
               let (k, send_ret) = k_send K msg (lp_kafka st) in do {
                 s \<leftarrow> ms_commit ops (if send_ret = SendOk then None else Some (kr_opaque msg)) s;
                 Some (st\<lparr>lp_scheme := s, lp_kafka := k,
                          lp_queue_full := lp_queue_full st \<or> send_ret = SendQueueFull\<rparr>) })"

fun deliver_all :: "('s, 'o) scheme_ops \<Rightarrow> (bool \<times> 'o) list \<Rightarrow> 's \<Rightarrow> 's option" where
  "deliver_all ops [] s = Some s"
| "deliver_all ops ((result, opaque) # reps) s = do {
     s \<leftarrow> ms_deliver_commit ops result opaque s; deliver_all ops reps s }"

definition loop_poll :: "('s, 'o) scheme_ops \<Rightarrow> ('k, 'o) kafka \<Rightarrow> ('s, 'k) loop_state \<Rightarrow> ('s, 'k) loop_state option" where
  "loop_poll ops K st =
     (let (k, last_poll, reps) = k_poll K (lp_kafka st) in do {
        s \<leftarrow> deliver_all ops reps (lp_scheme st);
        Some (st\<lparr>lp_kafka := k, lp_last_poll := last_poll,
                 lp_queue_full := lp_queue_full st \<and> last_poll = 0, lp_scheme := s\<rparr>) })"

text \<open>One iteration of \<^verbatim>\<open>run_loop\<close>; the flag tells that the loop has returned.\<close>

definition run_loop_iter ::
  "('s, 'o) scheme_ops \<Rightarrow> ('k, 'o) kafka \<Rightarrow> ('s, 'k) loop_state \<Rightarrow> (('s, 'k) loop_state \<times> bool) option" where
  "run_loop_iter ops K st =
     (let (st, stop) = loop_recv ops st in
      if stop then Some (st, True)
      else do { st \<leftarrow> loop_send ops K st; st \<leftarrow> loop_poll ops K st; Some (st, False) })"

text \<open>The loop together with the engine, which puts messages into the channel or closes it.\<close>

inductive prod_step ::
  "('s, 'o) scheme_ops \<Rightarrow> ('k, 'o) kafka \<Rightarrow> ('s, 'k) loop_state \<Rightarrow> ('s, 'k) loop_state \<Rightarrow> bool" for ops K where
  push: "prod_step ops K st (st\<lparr>lp_receiver := lp_receiver st @ [msg]\<rparr>)"
| close: "prod_step ops K st (st\<lparr>lp_closed := True\<rparr>)"
| iter: "run_loop_iter ops K st = Some (st', stop) \<Longrightarrow> prod_step ops K st st'"

inductive_cases prod_stepE [elim!]: "prod_step ops K st st'"

text \<open>Flushing at shutdown; a send that fails for another reason than a full queue gives up.\<close>

partial_function (option) shutdown ::
  "('s, 'o) scheme_ops \<Rightarrow> ('k, 'o) kafka \<Rightarrow> 's \<Rightarrow> 'k \<Rightarrow> ('s \<times> 'k) option" where
  "shutdown ops K s k =
     (case ms_pop_up ops s of
        (s, None) \<Rightarrow> Some (s, k)
      | (s, Some msg) \<Rightarrow>
          (case k_send K msg k of
             (k, SendOk) \<Rightarrow> do { s \<leftarrow> ms_commit ops None s; shutdown ops K s k }
           | (k, SendQueueFull) \<Rightarrow>
               do { s \<leftarrow> ms_commit ops (Some (kr_opaque msg)) s; shutdown ops K s (fst (k_poll K k)) }
           | (k, SendError) \<Rightarrow> Some (s, k)))"

section \<open>What the loop relies on\<close>

text \<open>
  \<open>accepted\<close> lists the records that the client has taken over. Sending appends exactly the
  accepted record, polling changes nothing.
\<close>

definition kafka_law :: "('k, 'o) kafka \<Rightarrow> ('k \<Rightarrow> 'o kafka_record list) \<Rightarrow> bool" where
  "kafka_law K accepted \<longleftrightarrow>
     (\<forall>r k. accepted (fst (k_send K r k)) = accepted k @ (if snd (k_send K r k) = SendOk then [r] else [])) \<and>
     (\<forall>k. accepted (fst (k_poll K k)) = accepted k)"

text \<open>
  With idempotence and one request in flight, the delivery reports come in the order of the
  accepted records, each record once; \<open>reported\<close> counts them. Kafka promises this order for each partition of a topic, so the
  law supposes topics of one partition.
\<close>

definition report_law ::
  "('k, 'o) kafka \<Rightarrow> ('k \<Rightarrow> 'o kafka_record list) \<Rightarrow> ('k \<Rightarrow> nat) \<Rightarrow> bool" where
  "report_law K accepted reported \<longleftrightarrow>
     (\<forall>r k. reported (fst (k_send K r k)) = reported k) \<and>
     (\<forall>k k' n reps. k_poll K k = (k', n, reps) \<longrightarrow>
        reported k' = reported k + length reps \<and> reported k' \<le> length (accepted k) \<and>
        map snd reps = map kr_opaque (take (length reps) (drop (reported k) (accepted k))))"

lemma loop_sendE:
  assumes "loop_send ops K st = Some st'"
  obtains (full) "st' = st"
  | (idle) s where "ms_pop_up ops (lp_scheme st) = (s, None)" and "st' = st\<lparr>lp_scheme := s\<rparr>"
  | (sent) s msg k ret s' where "ms_pop_up ops (lp_scheme st) = (s, Some msg)"
      and "k_send K msg (lp_kafka st) = (k, ret)"
      and "ms_commit ops (if ret = SendOk then None else Some (kr_opaque msg)) s = Some s'"
      and "lp_scheme st' = s'" and "lp_kafka st' = k" and "lp_received st' = lp_received st"
proof (cases "lp_queue_full st")
  case True
  with assms show thesis by (intro full) (simp add: loop_send_def)
next
  case False
  obtain s r where pop: "ms_pop_up ops (lp_scheme st) = (s, r)" by (cases "ms_pop_up ops (lp_scheme st)")
  show thesis
  proof (cases r)
    case None
    with False pop assms show thesis by (intro idle [of s]) (simp_all add: loop_send_def)
  next
    case (Some msg)
    obtain k ret where snd: "k_send K msg (lp_kafka st) = (k, ret)" by (cases "k_send K msg (lp_kafka st)")
    from assms False pop Some snd obtain s' where
      "ms_commit ops (if ret = SendOk then None else Some (kr_opaque msg)) s = Some s'"
      "st' = st\<lparr>lp_scheme := s', lp_kafka := k, lp_queue_full := lp_queue_full st \<or> ret = SendQueueFull\<rparr>"
      by (auto simp: loop_send_def bind_eq_Some_conv)
    with pop Some snd show thesis by (intro sent [of s msg k ret s']) simp_all
  qed
qed

lemma loop_pollE:
  assumes "loop_poll ops K st = Some st'"
  obtains k n reps s where "k_poll K (lp_kafka st) = (k, n, reps)"
    and "deliver_all ops reps (lp_scheme st) = Some s"
    and "lp_scheme st' = s" and "lp_kafka st' = k" and "lp_received st' = lp_received st"
  using assms by (auto simp: loop_poll_def split: prod.splits Option.bind_splits)

lemma run_loop_iterE:
  assumes "run_loop_iter ops K st = Some (st', stop)"
  obtains (stop) "loop_recv ops st = (st', True)"
  | (go) st1 st2 where "loop_recv ops st = (st1, False)" and "loop_send ops K st1 = Some st2"
      and "loop_poll ops K st2 = Some st'"
  using assms by (auto simp: run_loop_iter_def split: if_splits prod.splits Option.bind_splits)

lemma kafka_lawD:
  assumes "kafka_law K accepted"
  shows "k_send K r k = (k', ret) \<Longrightarrow> accepted k' = accepted k @ (if ret = SendOk then [r] else [])"
    and "k_poll K k = (k', n, reps) \<Longrightarrow> accepted k' = accepted k"
  using assms unfolding kafka_law_def by (metis fst_conv snd_conv)+

locale message_scheme =
  fixes ops :: "('s, 'o) scheme_ops"
    and queued :: "'s \<Rightarrow> (string \<times> string) multiset"
    and accepts :: "string \<Rightarrow> bool"
    and origin :: "'o kafka_record \<Rightarrow> string \<times> string"
  assumes on_message: "queued (ms_on_message ops t m s) = queued s + (if accepts t then {#(t, m)#} else {#})"
    and pop_none: "ms_pop_up ops s = (s', None) \<Longrightarrow> queued s' = queued s"
    and commit_ok: "ms_pop_up ops s = (s', Some r) \<Longrightarrow>
      \<exists>s''. ms_commit ops None s' = Some s'' \<and> queued s = queued s'' + {#origin r#}"
    and commit_fail: "ms_pop_up ops s = (s', Some r) \<Longrightarrow>
      \<exists>s''. ms_commit ops (Some (kr_opaque r)) s' = Some s'' \<and> queued s'' = queued s"
    and deliver: "ms_deliver_commit ops res o' s = Some s' \<Longrightarrow> queued s' = queued s"
begin

text \<open>What was taken from the channel and is not dropped is queued or accepted by Kafka.\<close>

definition balanced :: "('k \<Rightarrow> 'o kafka_record list) \<Rightarrow> ('s, 'k) loop_state \<Rightarrow> bool" where
  "balanced accepted st \<longleftrightarrow>
     mset (map origin (accepted (lp_kafka st))) + queued (lp_scheme st) =
     mset (filter (accepts \<circ> fst) (lp_received st))"

lemma deliver_all_queued: "deliver_all ops reps s = Some s' \<Longrightarrow> queued s' = queued s"
  by (induction reps arbitrary: s) (auto dest: deliver split: Option.bind_splits)

lemma recv_balanced: "balanced accepted st \<Longrightarrow> loop_recv ops st = (st', stop) \<Longrightarrow> balanced accepted st'"
  by (auto simp: balanced_def loop_recv_def on_message split: if_splits list.splits)

lemma send_total: "\<exists>st'. loop_send ops K st = Some st'"
proof (cases "ms_pop_up ops (lp_scheme st)")
  case (Pair s r)
  then show ?thesis
    using commit_ok [of "lp_scheme st" s] commit_fail [of "lp_scheme st" s]
    by (cases r) (force simp: loop_send_def split: prod.split)+
qed

lemma send_balanced:
  assumes "kafka_law K accepted" and "balanced accepted st" and "loop_send ops K st = Some st'"
  shows "balanced accepted st'"
  using assms(3)
proof (cases rule: loop_sendE)
  case full
  with assms(2) show ?thesis by simp
next
  case (idle s)
  with assms(2) show ?thesis by (simp add: balanced_def pop_none)
next
  case (sent s msg k ret s')
  from commit_ok [OF sent(1)] commit_fail [OF sent(1)] sent(3)
  have "queued (lp_scheme st) = queued s' + (if ret = SendOk then {#origin msg#} else {#})"
    by (auto split: if_splits)
  with assms(2) sent kafka_lawD(1) [OF assms(1) sent(2)] show ?thesis
    by (auto simp: balanced_def split: if_splits)
qed

lemma poll_balanced:
  assumes "kafka_law K accepted" and "balanced accepted st" and "loop_poll ops K st = Some st'"
  shows "balanced accepted st'"
  using assms(3)
proof (cases rule: loop_pollE)
  case (1 k n reps s)
  with assms(2) kafka_lawD(2) [OF assms(1) 1(1)] deliver_all_queued [OF 1(2)] show ?thesis
    by (simp add: balanced_def)
qed

lemma step_balanced:
  assumes "kafka_law K accepted"
  shows "prod_step ops K st st' \<Longrightarrow> balanced accepted st \<Longrightarrow> balanced accepted st'"
proof (induction rule: prod_step.induct)
  case (iter st st' stop)
  from iter.hyps show ?case
  proof (cases rule: run_loop_iterE)
    case stop
    with iter.prems show ?thesis by (auto dest: recv_balanced)
  next
    case (go st1 st2)
    from recv_balanced [OF iter.prems go(1)] send_balanced [OF assms _ go(2)] poll_balanced [OF assms _ go(3)]
    show ?thesis by blast
  qed
qed (simp_all add: balanced_def)

lemma reach_balanced:
  assumes "kafka_law K accepted" and "(prod_step ops K)\<^sup>*\<^sup>* (loop_init s k) st"
    and "queued s = {#}" and "accepted k = []"
  shows "balanced accepted st"
  using assms(2)
proof (induction rule: rtranclp_induct)
  case base
  with assms(3,4) show ?case by (simp add: balanced_def loop_init_def)
qed (rule step_balanced [OF assms(1)])

end

text \<open>A scheme that also keeps the order of arrival.\<close>

locale ordered_scheme = message_scheme ops "\<lambda>s. mset (queue s)" accepts origin
  for ops :: "('s, 'o) scheme_ops" and queue :: "'s \<Rightarrow> (string \<times> string) list"
    and accepts :: "string \<Rightarrow> bool" and origin :: "'o kafka_record \<Rightarrow> string \<times> string" +
  assumes on_message_back: "queue (ms_on_message ops t m s) = queue s @ (if accepts t then [(t, m)] else [])"
    and pop_none_queue: "ms_pop_up ops s = (s', None) \<Longrightarrow> queue s' = queue s"
    and commit_front: "ms_pop_up ops s = (s', Some r) \<Longrightarrow> ms_commit ops None s' = Some s'' \<Longrightarrow>
      queue s = origin r # queue s''"
    and commit_fail_queue: "ms_pop_up ops s = (s', Some r) \<Longrightarrow>
      ms_commit ops (Some (kr_opaque r)) s' = Some s'' \<Longrightarrow> queue s'' = queue s"
    and deliver_queue: "ms_deliver_commit ops res o' s = Some s' \<Longrightarrow> queue s' = queue s"
begin

definition in_order :: "('k \<Rightarrow> 'o kafka_record list) \<Rightarrow> ('s, 'k) loop_state \<Rightarrow> bool" where
  "in_order accepted st \<longleftrightarrow>
     map origin (accepted (lp_kafka st)) @ queue (lp_scheme st) = filter (accepts \<circ> fst) (lp_received st)"

lemma deliver_all_queue: "deliver_all ops reps s = Some s' \<Longrightarrow> queue s' = queue s"
  by (induction reps arbitrary: s) (auto dest: deliver_queue split: Option.bind_splits)

lemma recv_in_order: "in_order accepted st \<Longrightarrow> loop_recv ops st = (st', stop) \<Longrightarrow> in_order accepted st'"
  by (auto simp: in_order_def loop_recv_def on_message_back split: if_splits list.splits)

lemma send_in_order:
  assumes "kafka_law K accepted" and "in_order accepted st" and "loop_send ops K st = Some st'"
  shows "in_order accepted st'"
  using assms(3)
proof (cases rule: loop_sendE)
  case full
  with assms(2) show ?thesis by simp
next
  case (idle s)
  with assms(2) show ?thesis by (simp add: in_order_def pop_none_queue)
next
  case (sent s msg k ret s')
  from commit_front [OF sent(1)] commit_fail_queue [OF sent(1)] sent(3)
  have "queue (lp_scheme st) = (if ret = SendOk then [origin msg] else []) @ queue s'"
    by (auto split: if_splits)
  with assms(2) sent kafka_lawD(1) [OF assms(1) sent(2)] show ?thesis
    by (auto simp: in_order_def split: if_splits)
qed

lemma poll_in_order:
  assumes "kafka_law K accepted" and "in_order accepted st" and "loop_poll ops K st = Some st'"
  shows "in_order accepted st'"
  using assms(3)
proof (cases rule: loop_pollE)
  case (1 k n reps s)
  with assms(2) kafka_lawD(2) [OF assms(1) 1(1)] deliver_all_queue [OF 1(2)] show ?thesis
    by (simp add: in_order_def)
qed

lemma step_in_order:
  assumes "kafka_law K accepted"
  shows "prod_step ops K st st' \<Longrightarrow> in_order accepted st \<Longrightarrow> in_order accepted st'"
proof (induction rule: prod_step.induct)
  case (iter st st' stop)
  from iter.hyps show ?case
  proof (cases rule: run_loop_iterE)
    case stop
    with iter.prems show ?thesis by (auto dest: recv_in_order)
  next
    case (go st1 st2)
    from recv_in_order [OF iter.prems go(1)] send_in_order [OF assms _ go(2)] poll_in_order [OF assms _ go(3)]
    show ?thesis by blast
  qed
qed (simp_all add: in_order_def)

lemma reach_in_order:
  assumes "kafka_law K accepted" and "(prod_step ops K)\<^sup>*\<^sup>* (loop_init s k) st"
    and "queue s = []" and "accepted k = []"
  shows "in_order accepted st"
  using assms(2)
proof (induction rule: rtranclp_induct)
  case base
  with assms(3,4) show ?case by (simp add: in_order_def loop_init_def)
qed (rule step_in_order [OF assms(1)])

end

section \<open>The two schemes keep the contract\<close>

definition simple_queued :: "simple_scheme \<Rightarrow> (string \<times> string) multiset" where
  "simple_queued s = mset (map (Pair BALANCES_TOPIC) (sm_balances_list s)) +
     mset (map (Pair ORDERS_TOPIC) (sm_orders_list s)) + mset (map (Pair TRADES_TOPIC) (sm_trades_list s)) +
     mset (map (Pair USER_TOPIC) (sm_users_list s))"

definition simple_accepts :: "string \<Rightarrow> bool" where
  "simple_accepts t \<longleftrightarrow> t \<in> {BALANCES_TOPIC, ORDERS_TOPIC, TRADES_TOPIC, USER_TOPIC}"

definition simple_origin :: "unit kafka_record \<Rightarrow> string \<times> string" where
  "simple_origin r = (kr_topic r, kr_payload r)"

lemma simple_on_message_queued:
  "simple_queued (simple_on_message t m s) = simple_queued s + (if simple_accepts t then {#(t, m)#} else {#})"
  by (simp add: simple_on_message_def simple_queued_def simple_accepts_def)

lemma simple_pick_topic: "simple_accepts (simple_pick s)"
  by (simp add: simple_pick_def simple_accepts_def)

lemma simple_pop_front_queued:
  assumes "simple_accepts tp" and "simple_pop_front tp s = (s', front)"
  shows "simple_queued s = simple_queued s' + (case front of None \<Rightarrow> {#} | Some m \<Rightarrow> {#(tp, m)#})"
proof -
  have split: "mset (map f l) = mset (map f (drop 1 l)) +
      (case (case l of [] \<Rightarrow> None | m # _ \<Rightarrow> Some m) of None \<Rightarrow> {#} | Some m \<Rightarrow> {#f m#})"
    for f :: "string \<Rightarrow> string \<times> string" and l by (cases l) simp_all
  from assms show ?thesis
    using split [of "Pair tp" "sm_balances_list s"] split [of "Pair tp" "sm_orders_list s"]
      split [of "Pair tp" "sm_trades_list s"] split [of "Pair tp" "sm_users_list s"]
    by (auto simp: simple_pop_front_def simple_queued_def simple_accepts_def topic_defs Let_def ac_simps)
qed

lemma simple_queued_last [simp]: "simple_queued (s\<lparr>sm_last_poped := x\<rparr>) = simple_queued s"
  by (simp add: simple_queued_def)

lemma simple_pop_upE:
  assumes "simple_pop_up s = (s', r)"
  obtains tp s1 front where "simple_accepts tp" and "simple_queued s = simple_queued s1 + (case front of None \<Rightarrow> {#} | Some m \<Rightarrow> {#(tp, m)#})"
    and "s' = s1\<lparr>sm_last_poped := map_option (Pair tp) front\<rparr>"
    and "r = map_option (\<lambda>m. \<lparr>kr_topic = tp, kr_opaque = (), kr_key = [], kr_payload = m\<rparr>) front"
proof -
  obtain s1 front where f: "simple_pop_front (simple_pick s) s = (s1, front)"
    by (cases "simple_pop_front (simple_pick s) s")
  with assms show ?thesis
    by (intro that [OF simple_pick_topic simple_pop_front_queued [OF simple_pick_topic f]])
      (auto simp: simple_pop_up_def Let_def option.map_comp comp_def)
qed

interpretation simple: message_scheme simple_ops simple_queued simple_accepts simple_origin
proof (unfold_locales, goal_cases)
  case (1 t m s)
  then show ?case by (simp add: simple_ops_def simple_on_message_queued)
next
  case (2 s s')
  then show ?case by (auto simp: simple_ops_def elim!: simple_pop_upE)
next
  case (3 s s' r)
  then show ?case by (auto simp: simple_ops_def simple_commit_def simple_origin_def elim!: simple_pop_upE
        split: option.splits)
next
  case (4 s s' r)
  then show ?case
    by (auto simp: simple_ops_def simple_commit_def simple_on_message_queued elim!: simple_pop_upE
        split: option.splits)
next
  case (5 res o' s s')
  then show ?case by (simp add: simple_ops_def simple_deliver_commit_def)
qed

definition full_accepts :: "string \<Rightarrow> bool" where
  "full_accepts t \<longleftrightarrow> t \<in> {DEPOSITS_TOPIC, ORDERS_TOPIC, TRADES_TOPIC, USER_TOPIC, WITHDRAWS_TOPIC}"

definition full_origin :: "u64 kafka_record \<Rightarrow> string \<times> string" where
  "full_origin r = (kr_key r, kr_payload r)"

lemmas full_defs = full_ops_def full_on_message_def full_pop_up_def full_commit_def full_deliver_commit_def
  full_accepts_def full_origin_def

interpretation full: ordered_scheme full_ops fo_ordered_list full_accepts full_origin
  by unfold_locales (auto simp: full_defs split: list.splits if_splits)

text \<open>
  The simple scheme loses and repeats nothing it accepts: in every state the loop can reach,
  the balance, order, trade and user messages taken from the engine's channel are, as a
  multiset, those that Kafka has accepted together with those still queued.
\<close>

theorem simple_producer_conserves:
  assumes "kafka_law K accepted" and "accepted k = []"
    and "(prod_step simple_ops K)\<^sup>*\<^sup>* (loop_init simple_default k) st"
  shows "mset (map simple_origin (accepted (lp_kafka st))) + simple_queued (lp_scheme st) =
    mset (filter (\<lambda>m. fst m \<in> {BALANCES_TOPIC, ORDERS_TOPIC, TRADES_TOPIC, USER_TOPIC}) (lp_received st))"
proof -
  have "simple_queued simple_default = {#}" by (simp add: simple_queued_def simple_default_def)
  from simple.reach_balanced [OF assms(1,3) this assms(2)] show ?thesis
    by (simp add: simple.balanced_def simple_accepts_def comp_def)
qed

text \<open>The counters of the full-order scheme agree with what Kafka has accepted and reported.\<close>

definition full_counts ::
  "('k \<Rightarrow> u64 kafka_record list) \<Rightarrow> ('k \<Rightarrow> nat) \<Rightarrow> (full_scheme, 'k) loop_state \<Rightarrow> bool" where
  "full_counts accepted reported st \<longleftrightarrow>
     fo_deliver_cnt (lp_scheme st) = of_nat (length (accepted (lp_kafka st))) \<and>
     map kr_opaque (accepted (lp_kafka st)) = map of_nat [0..<length (accepted (lp_kafka st))] \<and>
     fo_commited_cnt (lp_scheme st) = of_nat (reported (lp_kafka st)) \<and>
     reported (lp_kafka st) \<le> length (accepted (lp_kafka st))"

lemma full_deliver_all:
  "map snd reps = map of_nat [n..<n + length reps] \<Longrightarrow> fo_commited_cnt s = of_nat n \<Longrightarrow>
   deliver_all full_ops reps s = Some (s\<lparr>fo_commited_cnt := of_nat (n + length reps)\<rparr>)"
proof (induction reps arbitrary: n s)
  case (Cons rep reps)
  obtain res op where rep: "rep = (res, op)" by (cases rep)
  have eq: "[n..<n + length (rep # reps)] = n # [Suc n..<Suc n + length reps]"
    by (subst upt_conv_Cons) simp_all
  from Cons.prems(1) [unfolded eq] rep
  have op: "op = of_nat n" and rest: "map snd reps = map of_nat [Suc n..<Suc n + length reps]"
    by (simp_all only: list.map list.inject snd_conv)
  let ?s = "s\<lparr>fo_commited_cnt := of_nat (Suc n)\<rparr>"
  have "ms_deliver_commit full_ops res op s = Some ?s"
    using op Cons.prems(2) by (simp add: full_defs ac_simps)
  with Cons.IH [OF rest, of ?s] rep show ?case by simp
qed simp

lemma full_recv_counts:
  "full_counts accepted reported st \<Longrightarrow> loop_recv full_ops st = (st', q) \<Longrightarrow> full_counts accepted reported st'"
  by (auto simp: loop_recv_def full_counts_def full_defs split: if_splits list.splits)

lemma full_send_counts:
  assumes "kafka_law K accepted" and "report_law K accepted reported" and "full_counts accepted reported st"
    and "loop_send full_ops K st = Some st'"
  shows "full_counts accepted reported st'"
  using assms(4)
proof (cases rule: loop_sendE)
  case full
  with assms(3) show ?thesis by simp
next
  case (idle s)
  with assms(3) show ?thesis by (auto simp: full_counts_def full_defs)
next
  case (sent s msg k ret s')
  from assms(2) sent(2) have "reported k = reported (lp_kafka st)"
    unfolding report_law_def by (metis fst_conv)
  moreover have s: "s = lp_scheme st" "kr_opaque msg = fo_deliver_cnt (lp_scheme st)"
    using sent(1) by (auto simp: full_defs split: list.splits)
  moreover have "lp_scheme st' = (if ret = SendOk then (lp_scheme st)\<lparr>
      fo_ordered_list := drop 1 (fo_ordered_list (lp_scheme st)),
      fo_deliver_cnt := fo_deliver_cnt (lp_scheme st) + 1\<rparr> else lp_scheme st)"
    using sent(3,4) s by (auto simp: full_ops_def full_commit_def split: if_splits)
  ultimately show ?thesis
    using kafka_lawD(1) [OF assms(1) sent(2)] assms(3) sent(5)
    by (simp add: full_counts_def ac_simps split: if_splits)
qed

lemma report_lawD:
  assumes "report_law K accepted reported" and "k_poll K k = (k', n, reps)"
  shows "reported k' = reported k + length reps" and "reported k' \<le> length (accepted k)"
    and "map snd reps = map kr_opaque (take (length reps) (drop (reported k) (accepted k)))"
  using assms unfolding report_law_def by blast+

lemma full_poll_counts:
  assumes "kafka_law K accepted" and "report_law K accepted reported" and "full_counts accepted reported st"
  shows "\<exists>st'. loop_poll full_ops K st = Some st' \<and> full_counts accepted reported st'"
proof -
  obtain k n reps where poll: "k_poll K (lp_kafka st) = (k, n, reps)" by (metis prod_cases3)
  let ?a = "accepted (lp_kafka st)" and ?r = "reported (lp_kafka st)"
  note r = report_lawD [OF assms(2) poll]
  from assms(3) have op: "map kr_opaque ?a = map of_nat [0..<length ?a]" by (simp add: full_counts_def)
  have "map snd reps = take (length reps) (drop ?r (map kr_opaque ?a))"
    using r(3) by (simp add: take_map drop_map)
  also have "\<dots> = map of_nat [?r..<?r + length reps]"
    using r(1,2) by (simp only: op) (simp add: take_map drop_map)
  finally have "map snd reps = map of_nat [?r..<?r + length reps]" .
  from full_deliver_all [OF this, of "lp_scheme st"] assms(3) have
    "deliver_all full_ops reps (lp_scheme st) =
      Some ((lp_scheme st)\<lparr>fo_commited_cnt := of_nat (?r + length reps)\<rparr>)" by (simp add: full_counts_def)
  with poll r kafka_lawD(2) [OF assms(1) poll] assms(3) show ?thesis
    by (simp add: loop_poll_def full_counts_def)
qed

lemma full_iter_counts:
  assumes "kafka_law K accepted" and "report_law K accepted reported" and "full_counts accepted reported st"
  shows "\<exists>st' stop. run_loop_iter full_ops K st = Some (st', stop) \<and> full_counts accepted reported st'"
proof (cases "loop_recv full_ops st")
  case (Pair st1 stop)
  then have c1: "full_counts accepted reported st1" using full_recv_counts assms(3) by blast
  obtain st2 where st2: "loop_send full_ops K st1 = Some st2" using full.send_total by blast
  from full_poll_counts [OF assms(1,2) full_send_counts [OF assms(1,2) c1 st2]] obtain st3
    where "loop_poll full_ops K st2 = Some st3" "full_counts accepted reported st3" by blast
  with Pair c1 st2 show ?thesis by (cases stop) (auto simp: run_loop_iter_def)
qed

lemma full_reach_counts:
  assumes "kafka_law K accepted" and "report_law K accepted reported"
    and "accepted k = []" and "reported k = 0"
    and "(prod_step full_ops K)\<^sup>*\<^sup>* (loop_init full_default k) st"
  shows "full_counts accepted reported st"
  using assms(5)
proof (induction rule: rtranclp_induct)
  case base
  with assms(3,4) show ?case by (simp add: full_counts_def loop_init_def full_default_def)
next
  case (step st st')
  from step.hyps(2) show ?case
  proof cases
    case (iter stop)
    with full_iter_counts [OF assms(1,2) step.IH] show ?thesis by auto
  qed (use step.IH in \<open>simp_all add: full_counts_def\<close>)
qed

text \<open>
  C39: The full-order scheme never panics and keeps the order: in every state the loop can reach,
  the records Kafka has accepted followed by those still queued are exactly the deposit,
  order, trade, user and withdrawal messages in the order in which the engine sent them,
  the accepted records are numbered from zero without a gap, and the next iteration passes
  all its assertions.
\<close>

theorem full_order_producer:
  assumes "kafka_law K accepted" and "report_law K accepted reported"
    and "accepted k = []" and "reported k = 0"
    and "(prod_step full_ops K)\<^sup>*\<^sup>* (loop_init full_default k) st"
  shows "map full_origin (accepted (lp_kafka st)) @ fo_ordered_list (lp_scheme st) =
      filter (\<lambda>m. fst m \<in> {DEPOSITS_TOPIC, ORDERS_TOPIC, TRADES_TOPIC, USER_TOPIC, WITHDRAWS_TOPIC})
        (lp_received st) \<and>
    map kr_opaque (accepted (lp_kafka st)) = map of_nat [0..<length (accepted (lp_kafka st))] \<and>
    run_loop_iter full_ops K st \<noteq> None"
proof -
  have empty: "fo_ordered_list full_default = []" by (simp add: full_default_def)
  note counts = full_reach_counts [OF assms]
  from full.reach_in_order [OF assms(1,5) empty assms(3)] counts full_iter_counts [OF assms(1,2) counts]
  show ?thesis by (auto simp: full.in_order_def full_accepts_def full_counts_def comp_def)
qed

section \<open>A run\<close>

text \<open>A client that accepts everything and reports each record at the next poll.\<close>

definition echo_kafka :: "('o kafka_record list \<times> nat, 'o) kafka" where
  "echo_kafka = \<lparr>
     k_send = (\<lambda>r (acc, n). ((acc @ [r], min n (length acc)), SendOk)),
     k_poll = (\<lambda>(acc, n). ((acc, length acc), int (length acc - n),
                 map (\<lambda>r. (True, kr_opaque r)) (drop n acc)))\<rparr>"

definition echo_kafka_reported :: "'o kafka_record list \<times> nat \<Rightarrow> nat" where
  "echo_kafka_reported k = min (snd k) (length (fst k))"

lemma echo_kafka_laws: "kafka_law echo_kafka fst" "report_law echo_kafka fst echo_kafka_reported"
  by (auto simp: kafka_law_def report_law_def echo_kafka_def echo_kafka_reported_def comp_def min_def)

definition demo_loop0 :: "'s \<Rightarrow> ('s, 'o kafka_record list \<times> nat) loop_state" where
  "demo_loop0 s = (loop_init s ([], 0))\<lparr>lp_receiver := [(ORDERS_TOPIC, ''a''), (TRADES_TOPIC, ''b'')]\<rparr>"

lemma demo_loop0_reach: "(prod_step ops K)\<^sup>*\<^sup>* (loop_init s ([], 0)) (demo_loop0 s)"
proof -
  have "prod_step ops K (loop_init s ([], 0)) ((loop_init s ([], 0))\<lparr>lp_receiver := [(ORDERS_TOPIC, ''a'')]\<rparr>)"
    using prod_step.push [of ops K "loop_init s ([], 0)" "(ORDERS_TOPIC, ''a'')"] by (simp add: loop_init_def)
  moreover have "prod_step ops K ((loop_init s ([], 0))\<lparr>lp_receiver := [(ORDERS_TOPIC, ''a'')]\<rparr>) (demo_loop0 s)"
    using prod_step.push [of ops K "(loop_init s ([], 0))\<lparr>lp_receiver := [(ORDERS_TOPIC, ''a'')]\<rparr>" "(TRADES_TOPIC, ''b'')"]
    by (simp add: loop_init_def demo_loop0_def)
  ultimately show ?thesis by (meson rtranclp.rtrancl_into_rtrancl rtranclp.rtrancl_refl)
qed

definition demo_loop1 :: "('s, 'o) scheme_ops \<Rightarrow> 's \<Rightarrow> ('s, 'o kafka_record list \<times> nat) loop_state" where
  "demo_loop1 ops s = fst (the (run_loop_iter ops echo_kafka (demo_loop0 s)))"

lemma demo_loop1_reach:
  assumes "run_loop_iter ops echo_kafka (demo_loop0 s) \<noteq> None"
  shows "(prod_step ops echo_kafka)\<^sup>*\<^sup>* (loop_init s ([], 0)) (demo_loop1 ops s)"
proof -
  from assms obtain st stop where "run_loop_iter ops echo_kafka (demo_loop0 s) = Some (st, stop)" by auto
  then have "prod_step ops echo_kafka (demo_loop0 s) (demo_loop1 ops s)"
    by (auto simp: demo_loop1_def intro: prod_step.iter)
  with demo_loop0_reach show ?thesis by (rule rtranclp.rtrancl_into_rtrancl)
qed

lemmas demo_loop_defs = demo_loop0_def loop_init_def run_loop_iter_def loop_recv_def loop_send_def
  loop_poll_def echo_kafka_def topic_defs

theorem full_order_producer_witness:
  "map full_origin (fst (lp_kafka (demo_loop1 full_ops full_default))) @
     fo_ordered_list (lp_scheme (demo_loop1 full_ops full_default)) = [(ORDERS_TOPIC, ''a'')]"
proof -
  have run: "run_loop_iter full_ops echo_kafka (demo_loop0 full_default) \<noteq> None"
    and recv: "lp_received (demo_loop1 full_ops full_default) = [(ORDERS_TOPIC, ''a'')]"
    by (simp_all add: demo_loop1_def demo_loop_defs full_defs full_default_def full_is_full_def)
  from full_order_producer [OF echo_kafka_laws _ _ demo_loop1_reach [OF run]] recv
  show ?thesis by (simp add: echo_kafka_reported_def)
qed

theorem simple_producer_conserves_witness:
  "mset (map simple_origin (fst (lp_kafka (demo_loop1 simple_ops simple_default)))) +
     simple_queued (lp_scheme (demo_loop1 simple_ops simple_default)) = {#(ORDERS_TOPIC, ''a'')#}"
proof -
  have run: "run_loop_iter simple_ops echo_kafka (demo_loop0 simple_default) \<noteq> None"
    and recv: "lp_received (demo_loop1 simple_ops simple_default) = [(ORDERS_TOPIC, ''a'')]"
    by (simp_all add: demo_loop1_def demo_loop_defs simple_ops_def simple_default_def simple_is_full_def
        simple_on_message_def simple_pop_up_def simple_pick_def simple_pop_front_def simple_commit_def
        simple_deliver_commit_def Let_def)
  from simple_producer_conserves [OF echo_kafka_laws(1) _ demo_loop1_reach [OF run]] recv
  show ?thesis by simp
qed

end
