(* ===== verification/SqlBatch.thy ===== *)
theory SqlBatch
  imports Types
begin

text \<open>
  \<^verbatim>\<open>src/storage/sqlxextend.rs\<close> and the table descriptions of \<^verbatim>\<open>src/storage/models.rs\<close>: the text
  of the INSERT statements, the values bound to their placeholders, and the splitting of a
  large insert into batches of \<open>2 ^ n\<close> rows. The database connection is a parameter: a function
  \<open>exec\<close> from a batch and a connection to the new connection and the outcome.
  Placeholder numbers are small (at most 1024 rows of at most 18 columns), so the \<^verbatim>\<open>i32\<close>
  arithmetic on them is that of \<^typ>\<open>int\<close>.
\<close>

lemma find_Some_set: "find P xs = Some x \<Longrightarrow> x \<in> set xs \<and> P x"
  by (induction xs) (auto split: if_splits)

section \<open>Tables\<close>

text \<open>A value handed to \<^verbatim>\<open>Arguments::add\<close>, tagged with its database type.\<close>

datatype sql_arg =
    ArgTime timestamp
  | ArgStr string
  | ArgI64 i64
  | ArgI16 i16
  | ArgDec decimal
  | ArgOrderType OrderType
  | ArgOrderSide OrderSide
  | ArgStatus OrderStatus
  | ArgBool bool

record 'q table =
  tb_name :: string
  tb_argn :: int
  tb_default_argsn :: "int list"
  tb_bind_args :: "'q \<Rightarrow> sql_arg list"

definition balance_history_table :: "balance_history table" where
  "balance_history_table = \<lparr>tb_name = ''balance_history'', tb_argn = 11, tb_default_argsn = [1],
     tb_bind_args = (\<lambda>r. [ArgTime (bh_time r), ArgStr (bh_user_id r), ArgI64 (bh_business_id r),
       ArgStr (bh_asset r), ArgStr (bh_business r), ArgDec (bh_market_price r), ArgDec (bh_change r),
       ArgDec (bh_balance r), ArgDec (bh_balance_available r), ArgDec (bh_balance_frozen r),
       ArgStr (bh_detail r)])\<rparr>"

definition user_trade_table :: "user_trade table" where
  "user_trade_table = \<lparr>tb_name = ''user_trade'', tb_argn = 13, tb_default_argsn = [1],
     tb_bind_args = (\<lambda>r. [ArgTime (ut_time r), ArgStr (ut_user_id r), ArgStr (ut_market r),
       ArgI64 (ut_trade_id r), ArgI64 (ut_order_id r), ArgI64 (ut_counter_order_id r),
       ArgI16 (ut_side r), ArgI16 (ut_role r), ArgDec (ut_price r), ArgDec (ut_amount r),
       ArgDec (ut_quote_amount r), ArgDec (ut_fee r), ArgDec (ut_counter_order_fee r)])\<rparr>"

definition order_history_table :: "order_history table" where
  "order_history_table = \<lparr>tb_name = ''order_history'', tb_argn = 16, tb_default_argsn = [],
     tb_bind_args = (\<lambda>r. [ArgI64 (oh_id r), ArgTime (oh_create_time r), ArgTime (oh_finish_time r),
       ArgStr (oh_user_id r), ArgStr (oh_market r), ArgOrderType (oh_order_type r),
       ArgOrderSide (oh_order_side r), ArgDec (oh_price r), ArgDec (oh_amount r),
       ArgDec (oh_taker_fee r), ArgDec (oh_maker_fee r), ArgDec (oh_finished_base r),
       ArgDec (oh_finished_quote r), ArgDec (oh_finished_fee r), ArgStatus (oh_status r),
       ArgBool (oh_post_only r)])\<rparr>"

definition operation_log_table :: "operation_log table" where
  "operation_log_table = \<lparr>tb_name = ''operation_log'', tb_argn = 4, tb_default_argsn = [],
     tb_bind_args = (\<lambda>r. [ArgI64 (ol_id r), ArgTime (ol_time r), ArgStr (ol_method r),
       ArgStr (ol_params r)])\<rparr>"

definition order_slice_table :: "order_slice table" where
  "order_slice_table = \<lparr>tb_name = ''order_slice'', tb_argn = 18, tb_default_argsn = [],
     tb_bind_args = (\<lambda>r. [ArgI64 (os_id r), ArgI64 (os_slice_id r), ArgOrderType (os_order_type r),
       ArgOrderSide (os_order_side r), ArgTime (os_create_time r), ArgTime (os_update_time r),
       ArgStr (os_user_id r), ArgStr (os_market r), ArgDec (os_price r), ArgDec (os_amount r),
       ArgDec (os_taker_fee r), ArgDec (os_maker_fee r), ArgDec (os_remain r), ArgDec (os_frozen r),
       ArgDec (os_finished_base r), ArgDec (os_finished_quote r), ArgDec (os_finished_fee r),
       ArgBool (os_post_only r)])\<rparr>"

definition balance_slice_table :: "balance_slice_insert table" where
  "balance_slice_table = \<lparr>tb_name = ''balance_slice'', tb_argn = 5, tb_default_argsn = [1],
     tb_bind_args = (\<lambda>r. [ArgI64 (bi_slice_id r), ArgStr (bi_user_id r), ArgStr (bi_asset r),
       ArgI16 (bi_t r), ArgDec (bi_balance r)])\<rparr>"

definition slice_history_table :: "slice_history table" where
  "slice_history_table = \<lparr>tb_name = ''slice_history'', tb_argn = 4, tb_default_argsn = [1],
     tb_bind_args = (\<lambda>r. [ArgI64 (sh_time r), ArgI64 (sh_end_operation_log_id r),
       ArgI64 (sh_end_order_id r), ArgI64 (sh_end_trade_id r)])\<rparr>"

definition market_trade_table :: "market_trade table" where
  "market_trade_table = \<lparr>tb_name = ''market_trade'', tb_argn = 7, tb_default_argsn = [],
     tb_bind_args = (\<lambda>r. [ArgTime (mt_time r), ArgStr (mt_market r), ArgI64 (mt_trade_id r),
       ArgDec (mt_price r), ArgDec (mt_amount r), ArgDec (mt_quote_amount r),
       ArgOrderSide (mt_taker_side r)])\<rparr>"

text \<open>A table description is sound when every row binds as many values as it announces.\<close>

definition table_ok :: "'q table \<Rightarrow> bool" where
  "table_ok t \<longleftrightarrow> 0 \<le> tb_argn t \<and> (\<forall>r. length (tb_bind_args t r) = nat (tb_argn t)) \<and>
     sorted_wrt (<) (tb_default_argsn t) \<and>
     (\<forall>d \<in> set (tb_default_argsn t). 0 < d \<and> d \<le> tb_argn t + length (tb_default_argsn t))"

lemmas table_defs = balance_history_table_def user_trade_table_def order_history_table_def
  operation_log_table_def order_slice_table_def balance_slice_table_def slice_history_table_def
  market_trade_table_def

section \<open>Placeholders\<close>

text \<open>
  \<^verbatim>\<open>IterHelper\<close>: the range \<open>nxt..hi\<close> interleaved with \<^verbatim>\<open>DEFAULT\<close> (here \<open>None\<close>) at the positions
  \<open>cur # ds\<close>; \<open>pos\<close> counts the items produced so far. \<^verbatim>\<open>collect\<close> runs it to its end.
\<close>

function iter_collect :: "int \<Rightarrow> int \<Rightarrow> int list \<Rightarrow> int \<Rightarrow> int option \<Rightarrow> int option list" where
  "iter_collect nxt hi ds pos0 cur = (
     let pos = pos0 + 1 in
     case cur of
       Some i \<Rightarrow>
         if i > pos then (if nxt < hi then Some nxt # iter_collect (nxt + 1) hi ds pos cur else [])
         else None # (case ds of [] \<Rightarrow> iter_collect nxt hi [] pos None
                      | d # ds' \<Rightarrow> iter_collect nxt hi ds' pos (Some d))
     | None \<Rightarrow> if nxt < hi then Some nxt # iter_collect (nxt + 1) hi ds pos None else [])"
  by pat_completeness auto
termination
  by (relation "measure (\<lambda>(nxt, hi, ds, pos, cur).
        nat (hi - nxt) + length ds + (case cur of None \<Rightarrow> 0 | Some _ \<Rightarrow> 1))") auto

declare iter_collect.simps [simp del]

definition expand_argsn_gen :: "int \<times> int \<Rightarrow> int list \<Rightarrow> int option list" where
  "expand_argsn_gen inp1 inp2 =
     (case inp2 of [] \<Rightarrow> iter_collect (fst inp1) (snd inp1) [] 0 None
      | d # ds \<Rightarrow> iter_collect (fst inp1) (snd inp1) ds 0 (Some d))"

definition expand_argsn :: "int \<times> int list \<Rightarrow> int option list" where
  "expand_argsn inp = expand_argsn_gen (1, fst inp + 1) (snd inp)"

section \<open>Statement texts\<close>

text \<open>The decimal notation of a non-negative integer, as \<^verbatim>\<open>format!\<close> prints it.\<close>

fun show_nat :: "nat \<Rightarrow> string" where
  "show_nat n = (if n < 10 then [char_of (48 + n)] else show_nat (n div 10) @ [char_of (48 + n mod 10)])"

declare show_nat.simps [simp del]

definition show_arg :: "int option \<Rightarrow> string" where
  "show_arg a = (case a of Some i \<Rightarrow> ''$'' @ show_nat (nat i) | None \<Rightarrow> ''DEFAULT'')"

definition join_args :: "string list \<Rightarrow> string" where
  "join_args ss = foldl (\<lambda>acc s. if acc = [] then s else acc @ '','' @ s) [] ss"

definition insert_sql_statement :: "'q table \<Rightarrow> string" where
  "insert_sql_statement t = ''INSERT INTO '' @ tb_name t @ '' VALUES ('' @
     join_args (map show_arg (expand_argsn (tb_argn t, tb_default_argsn t))) @ '')''"

definition row_range :: "'q table \<Rightarrow> nat \<Rightarrow> int \<times> int" where
  "row_range t i = (int i * tb_argn t + 1, (int i + 1) * tb_argn t + 1)"

definition batch_sql_statement_rt :: "'q table \<Rightarrow> 'q list \<Rightarrow> string" where
  "batch_sql_statement_rt t rows =
     foldl (\<lambda>acc rg. acc @ '',('' @
              join_args (map show_arg (expand_argsn_gen rg (tb_default_argsn t))) @ '')'')
       (insert_sql_statement t) (map (row_range t) [1..<length rows]) @ '' ON CONFLICT DO NOTHING''"

definition batch_bind_args :: "'q table \<Rightarrow> 'q list \<Rightarrow> sql_arg list" where
  "batch_bind_args t rows = concat (map (tb_bind_args t) rows)"

section \<open>Outcomes\<close>

datatype SqlResultExt = QueryResult | Issue "int \<times> string"

text \<open>A database error with its code, if it has one, or any other error of \<^verbatim>\<open>sqlx\<close>.\<close>

datatype sql_error = DatabaseErr "string option" string | OtherErr string

definition insert_query_final :: "sql_error + nat \<Rightarrow> sql_error + SqlResultExt" where
  "insert_query_final res =
     (case res of
        Inl (DatabaseErr code msg) \<Rightarrow>
          if code = Some ''23505'' then Inr (Issue (0, ''Insert no line'')) else Inl (DatabaseErr code msg)
      | Inl e \<Rightarrow> Inl e
      | Inr rows_affected \<Rightarrow>
          if rows_affected \<noteq> 1 then Inr (Issue (0, ''Insert no line'')) else Inr QueryResult)"

definition batch_query_final :: "sql_error + nat \<Rightarrow> sql_error + SqlResultExt" where
  "batch_query_final res = (case res of Inl e \<Rightarrow> Inl e | Inr _ \<Rightarrow> Inr QueryResult)"

section \<open>Batches\<close>

text \<open>
  \<^verbatim>\<open>Self::sql_query\<close> on a slice: statement and arguments go to the connection. The parameter
  \<open>exec\<close> is the connection's \<^verbatim>\<open>execute\<close>.
\<close>

type_synonym 'c executor = "string \<Rightarrow> sql_arg list \<Rightarrow> 'c \<Rightarrow> 'c \<times> (sql_error + nat)"

definition batch_sql_query ::
  "'c executor \<Rightarrow> 'q table \<Rightarrow> 'q list \<Rightarrow> 'c \<Rightarrow> 'c \<times> (sql_error + SqlResultExt)" where
  "batch_sql_query exec t rows c =
     (let (c', res) = exec (batch_sql_statement_rt t rows) (batch_bind_args t rows) c
      in (c', batch_query_final res))"

text \<open>The exponent that the inner \<^verbatim>\<open>for n in (3..11).rev()\<close> stops at.\<close>

definition batch_exp :: "nat \<Rightarrow> nat option" where
  "batch_exp len = find (\<lambda>n. len \<ge> 2 ^ n) (rev [3..<11])"

lemma batch_exp_Some:
  assumes "batch_exp len = Some n" shows "3 \<le> n" and "n \<le> 10" and "2 ^ n \<le> len"
  using find_Some_set [OF assms [unfolded batch_exp_def]] by auto

lemma batch_exp_None: "batch_exp len = None \<longleftrightarrow> len < 8"
proof
  assume "batch_exp len = None"
  then have "\<not> 2 ^ 3 \<le> len" unfolding batch_exp_def find_None_iff by fastforce
  then show "len < 8" by simp
next
  assume small: "len < 8"
  show "batch_exp len = None"
  proof (cases "batch_exp len")
    case (Some n)
    then have "2 ^ 3 \<le> (2::nat) ^ n" by (intro power_increasing) (simp_all add: batch_exp_Some)
    with batch_exp_Some(3) [OF Some] small show ?thesis by simp
  qed
qed

function batch_loop ::
  "('q list \<Rightarrow> 'c \<Rightarrow> 'c \<times> (sql_error + SqlResultExt)) \<Rightarrow> 'q list \<Rightarrow> 'c \<Rightarrow>
   'c \<times> ('q list \<times> sql_error + 'q list)" where
  "batch_loop query qr c =
     (if length qr \<ge> 8 then
        (case batch_exp (length qr) of
           Some n \<Rightarrow>
             (case query (take (2 ^ n) qr) c of
                (c', Inl e) \<Rightarrow> (c', Inl (qr, e))
              | (c', Inr _) \<Rightarrow> batch_loop query (drop (2 ^ n) qr) c')
         | None \<Rightarrow> (c, Inr qr))
      else (c, Inr qr))"
  by pat_completeness auto
termination
  by (relation "measure (\<lambda>(query, qr, c). length qr)") (auto intro!: diff_less)

declare batch_loop.simps [simp del]

definition sql_query_fine ::
  "('q list \<Rightarrow> 'c \<Rightarrow> 'c \<times> (sql_error + SqlResultExt)) \<Rightarrow> 'q list \<Rightarrow> 'c \<Rightarrow>
   'c \<times> ('q list \<times> sql_error + SqlResultExt)" where
  "sql_query_fine query qr_v c =
     (if qr_v = [] then (c, Inr (Issue (0, ''No element for insert'')))
      else
        (case batch_loop query qr_v c of
           (c', Inl err) \<Rightarrow> (c', Inl err)
         | (c', Inr qr_vm) \<Rightarrow>
             if qr_vm \<noteq> [] then
               (case query qr_vm c' of
                  (c'', Inl e) \<Rightarrow> (c'', Inl (qr_vm, e))
                | (c'', Inr _) \<Rightarrow> (c'', Inr QueryResult))
             else (c', Inr QueryResult)))"

section \<open>Facts about the placeholders\<close>

fun somes :: "'a option list \<Rightarrow> 'a list" where
  "somes [] = []"
| "somes (None # xs) = somes xs"
| "somes (Some x # xs) = x # somes xs"

lemma iter_collect_somes: "somes (iter_collect nxt hi ds pos cur) = [nxt..hi - 1]"
proof (induction nxt hi ds pos cur rule: iter_collect.induct)
  case (1 nxt hi ds pos cur)
  then show ?case
    by (subst iter_collect.simps)
      (auto simp: Let_def upto_rec1 split: option.split list.split)
qed

lemma strict_sorted_last:
  "sorted_wrt (<) (d # ds) \<Longrightarrow> d + int (length ds) \<le> last (d # ds)"
  by (induction ds arbitrary: d) fastforce+

text \<open>The positions that hold \<^verbatim>\<open>DEFAULT\<close> are exactly the listed ones.\<close>

definition default_at :: "int list \<Rightarrow> int \<Rightarrow> int \<Rightarrow> int option list \<Rightarrow> bool" where
  "default_at D pos n xs \<longleftrightarrow> int (length xs) = n + int (length D) \<and>
     (\<forall>p < length xs. xs ! p = None \<longleftrightarrow> pos + int p + 1 \<in> set D)"

lemma default_at_Cons:
  assumes "default_at D (pos + 1) n xs" and "pos + 1 \<notin> set D"
  shows "default_at D pos (n + 1) (Some x # xs)" and "default_at ((pos + 1) # D) pos n (None # xs)"
  using assms by (auto simp: default_at_def nth_Cons ac_simps split: nat.split)

lemma iter_collect_defaults:
  assumes "nxt \<le> hi" and "sorted_wrt (<) D" and "\<forall>d \<in> set D. pos < d \<and> d \<le> pos + (hi - nxt) + int (length D)"
    and "D = (case cur of None \<Rightarrow> [] | Some d \<Rightarrow> d # ds)" and "cur = None \<longrightarrow> ds = []"
  shows "default_at D pos (hi - nxt) (iter_collect nxt hi ds pos cur)"
  using assms
proof (induction nxt hi ds pos cur arbitrary: D rule: iter_collect.induct)
  case (1 nxt hi ds pos cur)
  show ?case
  proof (cases cur)
    case None
    show ?thesis
    proof (cases "nxt < hi")
      case True
      from 1(1) [OF refl None True] 1(5-9) None True
      have "default_at D (pos + 1) (hi - (nxt + 1)) (iter_collect (nxt + 1) hi ds (pos + 1) None)" by simp
      from default_at_Cons(1) [OF this] None 1(8) True show ?thesis
        by (subst iter_collect.simps) simp
    next
      case False
      with None 1(5,8) show ?thesis by (subst iter_collect.simps) (simp add: default_at_def)
    qed
  next
    case (Some i)
    with 1(8) have D: "D = i # ds" by simp
    show ?thesis
    proof (cases "i > pos + 1")
      case True
      from strict_sorted_last [of i ds] 1(6) D have "i + int (length ds) \<le> last D" by simp
      moreover from 1(7) D have "last D \<le> pos + (hi - nxt) + int (length D)" by (metis last_in_set list.discI)
      ultimately have lt: "nxt < hi" using True D by simp
      from True 1(6) D have notin: "pos + 1 \<notin> set D" by auto
      from True 1(6) D have "\<forall>d \<in> set D. pos + 1 < d" by auto
      with 1(2) [OF refl Some True lt, of D] 1(5-8) D Some lt
      have "default_at D (pos + 1) (hi - (nxt + 1)) (iter_collect (nxt + 1) hi ds (pos + 1) cur)" by simp
      from default_at_Cons(1) [OF this notin] show ?thesis
        using Some True lt by (subst iter_collect.simps) simp
    next
      case False
      with 1(7) D have i: "i = pos + 1" by auto
      have ds: "pos + 1 \<notin> set ds" "\<forall>d \<in> set ds. pos + 1 < d" "sorted_wrt (<) ds"
        "\<forall>d \<in> set ds. d \<le> (pos + 1) + (hi - nxt) + int (length ds)"
        using 1(6,7) D i by auto
      let ?rest = "case ds of [] \<Rightarrow> iter_collect nxt hi [] (pos + 1) None
        | d # ds' \<Rightarrow> iter_collect nxt hi ds' (pos + 1) (Some d)"
      have "default_at ds (pos + 1) (hi - nxt) ?rest"
      proof (cases ds)
        case Nil
        with 1(3) [OF refl Some False Nil, of "[]"] 1(5) show ?thesis by simp
      next
        case (Cons d ds')
        from 1(4) [OF refl Some False Cons, of ds] 1(5) ds Cons show ?thesis by simp
      qed
      from default_at_Cons(2) [OF this ds(1)] have "default_at D pos (hi - nxt) (None # ?rest)"
        by (simp add: D i)
      then show ?thesis
        using Some False by (subst iter_collect.simps) (simp add: Let_def)
    qed
  qed
qed

lemma expand_argsn_gen_somes: "somes (expand_argsn_gen (lo, hi) ds) = [lo..hi - 1]"
  by (simp add: expand_argsn_gen_def iter_collect_somes split: list.split)

lemma expand_argsn_gen_defaults:
  assumes "lo \<le> hi" and "sorted_wrt (<) ds"
    and "\<forall>d \<in> set ds. 0 < d \<and> d \<le> (hi - lo) + int (length ds)"
  shows "default_at ds 0 (hi - lo) (expand_argsn_gen (lo, hi) ds)"
  using assms iter_collect_defaults [of lo hi ds 0 "drop 1 ds" "case ds of [] \<Rightarrow> None | d # _ \<Rightarrow> Some d"]
  by (cases ds) (simp_all add: expand_argsn_gen_def)

section \<open>Facts about the statement\<close>

definition row_args :: "'q table \<Rightarrow> nat \<Rightarrow> int option list" where
  "row_args t i = expand_argsn_gen (row_range t i) (tb_default_argsn t)"

definition row_text :: "'q table \<Rightarrow> nat \<Rightarrow> string" where
  "row_text t i = ''('' @ join_args (map show_arg (row_args t i)) @ '')''"

lemma foldl_join: "s \<noteq> [] \<Longrightarrow>
  foldl (\<lambda>acc s. if acc = [] then s else acc @ '','' @ s) s ss = s @ concat (map (\<lambda>x. '','' @ x) ss)"
  by (induction ss arbitrary: s) simp_all

lemma foldl_snoc: "foldl (\<lambda>acc x. acc @ g x) s xs = s @ concat (map g xs)"
  by (induction xs arbitrary: s) simp_all

lemma insert_sql_statement_row:
  "insert_sql_statement t = ''INSERT INTO '' @ tb_name t @ '' VALUES '' @ row_text t 0"
  by (simp add: insert_sql_statement_def row_text_def row_args_def row_range_def expand_argsn_def)

lemma batch_statement_text:
  assumes "rows \<noteq> []"
  shows "batch_sql_statement_rt t rows = ''INSERT INTO '' @ tb_name t @ '' VALUES '' @
    join_args (map (row_text t) [0..<length rows]) @ '' ON CONFLICT DO NOTHING''"
proof -
  from assms have "[0..<length rows] = 0 # [1..<length rows]" by (simp add: upt_conv_Cons)
  moreover have "row_text t 0 \<noteq> []" by (simp add: row_text_def)
  ultimately have "join_args (map (row_text t) [0..<length rows]) =
      row_text t 0 @ concat (map (\<lambda>i. '','' @ row_text t i) [1..<length rows])"
    by (simp add: join_args_def foldl_join comp_def)
  moreover have "batch_sql_statement_rt t rows = insert_sql_statement t @
      concat (map (\<lambda>i. '','' @ row_text t i) [1..<length rows]) @ '' ON CONFLICT DO NOTHING''"
    by (simp add: batch_sql_statement_rt_def foldl_snoc row_text_def row_args_def comp_def)
  ultimately show ?thesis by (simp add: insert_sql_statement_row)
qed

lemma row_placeholders:
  assumes "0 \<le> tb_argn t"
  shows "concat (map (\<lambda>i. somes (row_args t i)) [0..<n]) = [1..int n * tb_argn t]"
proof (induction n)
  case (Suc n)
  have "[1..int (Suc n) * tb_argn t] =
      [1..int n * tb_argn t] @ [int n * tb_argn t + 1..int (Suc n) * tb_argn t]"
    using assms upto_split1 [of 1 "int n * tb_argn t + 1" "int (Suc n) * tb_argn t"]
    by (cases "tb_argn t = 0") (simp_all add: algebra_simps)
  with Suc show ?case
    by (simp add: row_args_def row_range_def expand_argsn_gen_somes algebra_simps)
qed simp

lemma length_batch_bind_args:
  "table_ok t \<Longrightarrow> int (length (batch_bind_args t rows)) = int (length rows) * tb_argn t"
  by (induction rows) (simp_all add: batch_bind_args_def table_ok_def algebra_simps)

text \<open>
  C40: The INSERT statement of a batch names as many placeholders as values are bound to it: its
  text is one parenthesised group per row, and the numbers in the groups, read from left to
  right, are 1, 2, 3 up to the number of bound values.
\<close>

theorem batch_statement_matches_args:
  assumes "table_ok t" and "rows \<noteq> []"
  shows "batch_sql_statement_rt t rows = ''INSERT INTO '' @ tb_name t @ '' VALUES '' @
      join_args (map (row_text t) [0..<length rows]) @ '' ON CONFLICT DO NOTHING'' \<and>
    concat (map (\<lambda>i. somes (row_args t i)) [0..<length rows]) =
      [1..int (length (batch_bind_args t rows))]"
  using assms by (simp add: batch_statement_text row_placeholders length_batch_bind_args table_ok_def)

text \<open>
  For every table with a sound description (each table of the program has one, \<open>tables_ok\<close>)
  the expansion of its placeholders puts \<^verbatim>\<open>DEFAULT\<close> at exactly the
  positions of \<^verbatim>\<open>default_argsn\<close> and \<^verbatim>\<open>$1 .. $ARGN\<close> in this order elsewhere.
\<close>

theorem expand_argsn_positions:
  assumes "table_ok t"
  shows "somes (expand_argsn (tb_argn t, tb_default_argsn t)) = [1..tb_argn t] \<and>
    default_at (tb_default_argsn t) 0 (tb_argn t) (expand_argsn (tb_argn t, tb_default_argsn t))"
  using assms expand_argsn_gen_defaults [of 1 "tb_argn t + 1" "tb_default_argsn t"]
  by (simp add: expand_argsn_def expand_argsn_gen_somes table_ok_def)

lemma tables_ok:
  "table_ok balance_history_table" "table_ok user_trade_table" "table_ok order_history_table"
  "table_ok operation_log_table" "table_ok order_slice_table" "table_ok balance_slice_table"
  "table_ok slice_history_table" "table_ok market_trade_table"
  by (simp_all add: table_ok_def table_defs)

theorem expand_argsn_positions_witness:
  "somes (expand_argsn (13, [1])) = [1..13] \<and> default_at [1] 0 13 (expand_argsn (13, [1]))"
  using expand_argsn_positions [OF tables_ok(2)] by (simp add: user_trade_table_def)

definition sample_slice :: slice_history where
  "sample_slice = \<lparr>sh_time = 7, sh_end_operation_log_id = 1, sh_end_order_id = 2, sh_end_trade_id = 3\<rparr>"

theorem batch_statement_matches_args_witness:
  "concat (map (\<lambda>i. somes (row_args slice_history_table i)) [0..<2]) =
     [1..int (length (batch_bind_args slice_history_table [sample_slice, sample_slice\<lparr>sh_time := 8\<rparr>]))]"
  using batch_statement_matches_args [OF tables_ok(7), of "[sample_slice, sample_slice\<lparr>sh_time := 8\<rparr>]"]
  by (simp add: numeral_2_eq_2)

section \<open>Facts about the batches\<close>

text \<open>
  What the connection promises: an accepted statement adds its rows, in their order, behind
  those accepted before, and a refused one adds nothing. \<open>accepted\<close> reads off the connection
  the rows of the statements it has accepted. In a table without a unique key these are the rows of the table; in one with a key,
  \<^verbatim>\<open>ON CONFLICT DO NOTHING\<close> skips the rows whose key is there already, and the table is \<open>keyed_table\<close> of them.
\<close>

definition query_law ::
  "('q list \<Rightarrow> 'c \<Rightarrow> 'c \<times> (sql_error + SqlResultExt)) \<Rightarrow> ('c \<Rightarrow> 'q list) \<Rightarrow> bool" where
  "query_law query accepted \<longleftrightarrow>
     (\<forall>b c c' r. query b c = (c', Inr r) \<longrightarrow> accepted c' = accepted c @ b) \<and>
     (\<forall>b c c' e. query b c = (c', Inl e) \<longrightarrow> accepted c' = accepted c)"

definition insert_new :: "('q \<Rightarrow> 'k) \<Rightarrow> 'q list \<Rightarrow> 'q \<Rightarrow> 'q list" where
  "insert_new key tb r = (if key r \<in> key ` set tb then tb else tb @ [r])"

definition keyed_table :: "('q \<Rightarrow> 'k) \<Rightarrow> 'q list \<Rightarrow> 'q list" where
  "keyed_table key rows = foldl (insert_new key) [] rows"

lemma keyed_table_ok:
  "distinct (map key (keyed_table key rows))" "key ` set (keyed_table key rows) = key ` set rows"
  "set (keyed_table key rows) \<subseteq> set rows"
proof (induction rows rule: rev_induct)
  case (snoc r rows)
  { case 1 show ?case using snoc by (auto simp: keyed_table_def insert_new_def) }
  { case 2 show ?case using snoc by (auto simp: keyed_table_def insert_new_def) }
  { case 3 show ?case using snoc by (auto simp: keyed_table_def insert_new_def) }
qed (simp_all add: keyed_table_def)

lemma query_lawD:
  assumes "query_law query accepted"
  shows "query b c = (c', Inr r) \<Longrightarrow> accepted c' = accepted c @ b"
    and "query b c = (c', Inl e) \<Longrightarrow> accepted c' = accepted c"
  using assms unfolding query_law_def by blast+

lemma batch_loop_step:
  assumes "length qr \<ge> 8"
  obtains n where "3 \<le> n" and "n \<le> 10" and "2 ^ n \<le> length qr" and
    "batch_exp (length qr) = Some n" and
    "batch_loop query qr c = (case query (take (2 ^ n) qr) c of
       (c', Inl e) \<Rightarrow> (c', Inl (qr, e)) | (c', Inr _) \<Rightarrow> batch_loop query (drop (2 ^ n) qr) c')"
proof -
  from assms obtain n where n: "batch_exp (length qr) = Some n" using batch_exp_None by fastforce
  then have "batch_loop query qr c = (case query (take (2 ^ n) qr) c of
      (c', Inl e) \<Rightarrow> (c', Inl (qr, e)) | (c', Inr _) \<Rightarrow> batch_loop query (drop (2 ^ n) qr) c')"
    using assms by (subst batch_loop.simps) simp
  then show ?thesis by (intro that [of n] batch_exp_Some [OF n] n)
qed

lemma batch_loop_done: "length qr < 8 \<Longrightarrow> batch_loop query qr c = (c, Inr qr)"
  by (subst batch_loop.simps) simp

lemma batch_loop_splits:
  assumes "query_law query accepted"
  shows "case batch_loop query qr c of
      (c', Inl (rest, e)) \<Rightarrow> rest \<noteq> [] \<and> (\<exists>ok. qr = ok @ rest \<and> accepted c' = accepted c @ ok)
    | (c', Inr rest) \<Rightarrow> length rest < 8 \<and> (\<exists>ok. qr = ok @ rest \<and> accepted c' = accepted c @ ok)"
proof (induction qr arbitrary: c rule: measure_induct_rule [of length])
  case (less qr)
  show ?case
  proof (cases "length qr \<ge> 8")
    case True
    then obtain n where n: "2 ^ n \<le> length qr" and
      eq: "batch_loop query qr c = (case query (take (2 ^ n) qr) c of
        (c', Inl e) \<Rightarrow> (c', Inl (qr, e)) | (c', Inr _) \<Rightarrow> batch_loop query (drop (2 ^ n) qr) c')"
      by (rule batch_loop_step [where query = query and c = c])
    obtain c1 r where q: "query (take (2 ^ n) qr) c = (c1, r)" by (cases "query (take (2 ^ n) qr) c")
    show ?thesis
    proof (cases r)
      case (Inl e)
      with q eq True query_lawD(2) [OF assms, of "take (2 ^ n) qr" c c1] show ?thesis by auto
    next
      case (Inr x)
      with q have acc: "accepted c1 = accepted c @ take (2 ^ n) qr" by (auto dest: query_lawD(1) [OF assms])
      have split: "qr = take (2 ^ n) qr @ drop (2 ^ n) qr" by simp
      from True have lt: "length (drop (2 ^ n) qr) < length qr" by (cases qr) simp_all
      from less.IH [OF lt] have "case batch_loop query (drop (2 ^ n) qr) c1 of
          (c', Inl (rest, e)) \<Rightarrow> rest \<noteq> [] \<and> (\<exists>ok. drop (2 ^ n) qr = ok @ rest \<and> accepted c' = accepted c1 @ ok)
        | (c', Inr rest) \<Rightarrow> length rest < 8 \<and> (\<exists>ok. drop (2 ^ n) qr = ok @ rest \<and> accepted c' = accepted c1 @ ok)" .
      with Inr q eq acc show ?thesis
        by (auto split: prod.splits sum.splits) (metis split)+
    qed
  next
    case False
    then show ?thesis by (simp add: batch_loop_done)
  qed
qed

lemma sql_query_fine_splits:
  assumes "query_law query accepted"
  shows "case sql_query_fine query qr c of
      (c', Inl (rest, e)) \<Rightarrow> rest \<noteq> [] \<and> (\<exists>ok. qr = ok @ rest \<and> accepted c' = accepted c @ ok)
    | (c', Inr _) \<Rightarrow> accepted c' = accepted c @ qr"
proof (cases "qr = []")
  case False
  obtain c1 r where l: "batch_loop query qr c = (c1, r)" by (cases "batch_loop query qr c")
  show ?thesis
  proof (cases r)
    case (Inl err)
    with l False batch_loop_splits [OF assms, of qr c] show ?thesis
      by (auto simp: sql_query_fine_def)
  next
    case (Inr rest)
    with l batch_loop_splits [OF assms, of qr c] obtain ok
      where ok: "qr = ok @ rest" "accepted c1 = accepted c @ ok" by auto
    obtain c2 r2 where q: "query rest c1 = (c2, r2)" by (cases "query rest c1")
    show ?thesis
    proof (cases "rest = []")
      case True
      with Inr l ok False show ?thesis by (simp add: sql_query_fine_def)
    next
      case ne: False
      with Inr l q ok False query_lawD [OF assms, of rest c1 c2] show ?thesis
        by (cases r2) (auto simp: sql_query_fine_def)
    qed
  qed
qed (simp add: sql_query_fine_def)

text \<open>
  A large insert neither loses nor repeats a row: on success the connection has accepted
  all rows in their order; on failure the rows handed back are the part of the input behind
  the rows it has accepted, so that a retry with them completes the insert.
\<close>

theorem sql_query_fine_residual:
  assumes "query_law query accepted"
  shows "case sql_query_fine query qr c of
      (c', Inl (rest, e)) \<Rightarrow> rest \<noteq> [] \<and> (\<exists>ok. qr = ok @ rest \<and> accepted c' = accepted c @ ok)
    | (c', Inr _) \<Rightarrow> accepted c' = accepted c @ qr"
  by (rule sql_query_fine_splits [OF assms])

text \<open>A connection that keeps the accepted rows and refuses statements of more than \<open>n\<close> rows.\<close>

definition bounded_query :: "nat \<Rightarrow> 'q list \<Rightarrow> 'q list \<Rightarrow> 'q list \<times> (sql_error + SqlResultExt)" where
  "bounded_query n b c = (if length b \<le> n then (c @ b, Inr QueryResult) else (c, Inl (OtherErr ''refused'')))"

lemma bounded_query_law: "query_law (bounded_query n) (\<lambda>c. c)"
  by (auto simp: query_law_def bounded_query_def split: if_splits)

theorem sql_query_fine_residual_witness:
  "query_law (bounded_query 15) (\<lambda>c. c) \<and>
   (case sql_query_fine (bounded_query 15) [1..<12::nat] [0] of
      (c', Inl (rest, e)) \<Rightarrow> rest \<noteq> [] \<and> (\<exists>ok. [1..<12] = ok @ rest \<and> c' = [0] @ ok)
    | (c', Inr _) \<Rightarrow> c' = [0] @ [1..<12])"
  using sql_query_fine_residual [OF bounded_query_law [of 15], of "[1..<12]" "[0]"] bounded_query_law [of 15]
  by blast

text \<open>A connection that logs the batches it was sent, whatever it answers.\<close>

definition logging ::
  "('q list list \<Rightarrow> 'q list \<Rightarrow> sql_error + SqlResultExt) \<Rightarrow> 'q list \<Rightarrow> 'q list list \<Rightarrow>
   'q list list \<times> (sql_error + SqlResultExt)" where
  "logging out b sent = (sent @ [b], out sent b)"

lemma logging_apply: "logging out b sent = (sent @ [b], out sent b)"
  by (simp add: logging_def)

definition batch_size_ok :: "'q list \<Rightarrow> bool" where
  "batch_size_ok b \<longleftrightarrow> b \<noteq> [] \<and> (length b < 8 \<or> (\<exists>n \<in> {3..10}. length b = 2 ^ n))"

lemma batch_loop_sizes:
  assumes "\<forall>b \<in> set sent. batch_size_ok b"
  shows "case batch_loop (logging out) qr sent of (sent', r) \<Rightarrow>
    (\<forall>b \<in> set sent'. batch_size_ok b) \<and> (\<forall>rest. r = Inr rest \<longrightarrow> length rest < 8)"
  using assms
proof (induction qr arbitrary: sent rule: measure_induct_rule [of length])
  case (less qr)
  show ?case
  proof (cases "length qr \<ge> 8")
    case True
    then obtain n where n: "3 \<le> n" "n \<le> 10" "2 ^ n \<le> length qr" and
      eq: "batch_loop (logging out) qr sent = (case logging out (take (2 ^ n) qr) sent of
        (c', Inl e) \<Rightarrow> (c', Inl (qr, e)) | (c', Inr _) \<Rightarrow> batch_loop (logging out) (drop (2 ^ n) qr) c')"
      by (rule batch_loop_step [where query = "logging out" and c = sent])
    from n True have "batch_size_ok (take (2 ^ n) qr)" by (auto simp: batch_size_ok_def intro!: bexI [of _ n])
    with less.prems have ok: "\<forall>b \<in> set (sent @ [take (2 ^ n) qr]). batch_size_ok b" by simp
    from True have lt: "length (drop (2 ^ n) qr) < length qr" by (cases qr) simp_all
    from less.IH [OF lt ok] have "case batch_loop (logging out) (drop (2 ^ n) qr) (sent @ [take (2 ^ n) qr]) of (sent', r) \<Rightarrow>
      (\<forall>b \<in> set sent'. batch_size_ok b) \<and> (\<forall>rest. r = Inr rest \<longrightarrow> length rest < 8)" .
    with ok show ?thesis
      unfolding eq logging_apply [of out "take (2 ^ n) qr" sent] by (auto split: sum.splits)
  next
    case False
    with less.prems show ?thesis by (simp add: batch_loop_done)
  qed
qed

text \<open>
  Whatever the connection answers, every statement sent for a large insert holds between 1
  and 1024 rows, and a number of rows that is a power of two or below eight: at most fifteen
  different statements are prepared per table.
\<close>

theorem sql_query_fine_sizes:
  "list_all (\<lambda>b. batch_size_ok b \<and> length b \<le> 1024) (fst (sql_query_fine (logging out) qr []))"
proof -
  have le: "length b \<le> 1024" if b: "batch_size_ok b" for b :: "'a list"
  proof -
    have "(2::nat) ^ n \<le> 2 ^ 10" if "n \<le> 10" for n using that by (intro power_increasing) simp_all
    with b show ?thesis by (auto simp: batch_size_ok_def)
  qed
  obtain sent r where l: "batch_loop (logging out) qr [] = (sent, r)"
    by (cases "batch_loop (logging out) qr []")
  with batch_loop_sizes [of "[]" out qr] have ok: "\<forall>b \<in> set sent. batch_size_ok b"
    and small: "\<And>rest. r = Inr rest \<Longrightarrow> length rest < 8" by auto
  have "\<forall>b \<in> set (fst (sql_query_fine (logging out) qr [])). batch_size_ok b"
    using ok small l
    by (auto simp: sql_query_fine_def logging_apply [of out _ sent] batch_size_ok_def split: sum.split)
  with le show ?thesis by (simp add: list_all_iff)
qed

end
