(* ===== verification/DbWriter.thy ===== *)
theory DbWriter
  imports SqlBatch "HOL-Library.Multiset"
begin

text \<open>
  \<^verbatim>\<open>src/storage/database.rs\<close>: the asynchronous database writer. Rows appended by the program go
  through a bounded channel to a scheduler, which groups them into tasks of at most
  \<^verbatim>\<open>INSERT_LIMIT\<close> rows, runs at most \<^verbatim>\<open>spawn_limit\<close> tasks at a time, retries the rest of a failed
  task, and reports through \<^verbatim>\<open>ProgTracing\<close> up to which notification everything is stored.

  The scheduler loop is a step relation: one rule per branch of its \<^verbatim>\<open>select!\<close>, one for the end
  of a spawned task and two for the clients of the channel. A task's inserts are one step;
  the statements of concurrent tasks commute as far as the set of stored rows is concerned.
\<close>

section \<open>Progress tracing\<close>

type_synonym prog_stack = "(u64 \<times> u64 option) list"

definition push_top :: "u64 \<Rightarrow> prog_stack \<Rightarrow> prog_stack" where
  "push_top n st =
     (let last_n = (if st = [] then n else fst (last st));
          st = st @ [(n, None)]
      in if n < last_n then sort_key fst st else st)"

definition option_or :: "'a option \<Rightarrow> 'a \<Rightarrow> 'a" where
  "option_or a b = (case a of None \<Rightarrow> b | Some x \<Rightarrow> x)"

text \<open>
  The loop of \<^verbatim>\<open>pop_top\<close> over the stack from its second entry downwards, given top first; \<open>tr\<close>
  is the entry carried along by the swaps. It returns the entries left, top first.
\<close>

fun pop_walk :: "u64 \<Rightarrow> u64 \<times> u64 option \<Rightarrow> prog_stack \<Rightarrow> prog_stack \<times> u64 option" where
  "pop_walk n tr [] = ([], Some (option_or (snd tr) (fst tr)))"
| "pop_walk n tr ((k, m) # st) =
     (if n > k then ((k, Some (option_or (snd tr) n)) # st, None)
      else let (st', r) = pop_walk n (k, m) st in (tr # st', r))"

definition pop_top :: "u64 \<Rightarrow> prog_stack \<Rightarrow> prog_stack \<times> u64 option" where
  "pop_top n st =
     (if st = [] then (st, None)
      else let (st', r) = pop_walk n (last st) (rev (butlast st)) in (rev st', r))"

text \<open>\<^verbatim>\<open>TaskNotifyFlag\<close> is a hash map from tags to the largest number notified.\<close>

type_synonym notify_flag = "(i32 \<times> u64) list"

definition add_to :: "i32 \<times> u64 \<Rightarrow> notify_flag \<Rightarrow> notify_flag" where
  "add_to nf target =
     (case map_of target (fst nf) of
        None \<Rightarrow> AList.update (fst nf) (snd nf) target
      | Some old \<Rightarrow>
          let target = AList.update (fst nf) (snd nf) target
          in if old > snd nf then AList.update (fst nf) old target else target)"

type_synonym prog_tracing = "(i32 \<times> prog_stack) list"

definition prog_update_one :: "i32 \<times> u64 \<Rightarrow> prog_tracing \<Rightarrow> prog_tracing" where
  "prog_update_one kv pt =
     AList.update (fst kv)
       (push_top (snd kv) (case map_of pt (fst kv) of None \<Rightarrow> [] | Some st \<Rightarrow> st)) pt"

definition update_from :: "notify_flag \<Rightarrow> prog_tracing \<Rightarrow> prog_tracing" where
  "update_from notify pt = fold prog_update_one notify pt"

fun finish_from :: "notify_flag \<Rightarrow> prog_tracing \<Rightarrow> prog_tracing \<times> notify_flag" where
  "finish_from [] pt = (pt, [])"
| "finish_from ((k, v) # notify) pt =
     (case map_of pt k of
        None \<Rightarrow> finish_from notify pt
      | Some st \<Rightarrow>
          let (st', r) = pop_top v st;
              (pt', out) = finish_from notify (AList.update k st' pt)
          in (pt', (case r of None \<Rightarrow> out | Some pop_v \<Rightarrow> (k, pop_v) # out)))"

section \<open>Tasks\<close>

definition INSERT_LIMIT :: nat where "INSERT_LIMIT = 5000"

definition CHANNEL_LIMIT :: nat where "CHANNEL_LIMIT = 1000"

record 'q writer_task =
  wt_data :: "'q list"
  wt_notify_flag :: "notify_flag option"
  wt_benchmark :: "(timestamp \<times> u32) option"
  wt_err_count :: u32

definition task_new :: "'q writer_task" where
  "task_new = \<lparr>wt_data = [], wt_notify_flag = None, wt_benchmark = None, wt_err_count = 0\<rparr>"

definition is_limited :: "'q writer_task \<Rightarrow> bool" where
  "is_limited t \<longleftrightarrow> length (wt_data t) \<ge> INSERT_LIMIT"

definition add_data :: "'q \<Rightarrow> (i32 \<times> u64) option \<Rightarrow> 'q writer_task \<Rightarrow> 'q writer_task" where
  "add_data dt notify t =
     (let t = t\<lparr>wt_data := wt_data t @ [dt]\<rparr>
      in case notify of
           None \<Rightarrow> t
         | Some notify_v \<Rightarrow>
             t\<lparr>wt_notify_flag :=
                Some (add_to notify_v (case wt_notify_flag t of None \<Rightarrow> [] | Some val \<Rightarrow> val))\<rparr>)"

definition apply_benchmark :: "timestamp \<Rightarrow> 'q writer_task \<Rightarrow> 'q writer_task" where
  "apply_benchmark now t = t\<lparr>wt_benchmark := Some (now, of_nat (length (wt_data t)))\<rparr>"

datatype 'q writer_msg =
    Data 'q "(i32 \<times> u64) option"
  | Done "'q writer_task"
  | Fail sql_error "'q writer_task"
  | Exit bool

definition execute ::
  "('q list \<Rightarrow> 'c \<Rightarrow> 'c \<times> (sql_error + SqlResultExt)) \<Rightarrow> 'q writer_task \<Rightarrow> 'c \<Rightarrow> 'c \<times> 'q writer_msg" where
  "execute query t conn =
     (case sql_query_fine query (wt_data t) conn of
        (conn', Inr _) \<Rightarrow> (conn', Done t)
      | (conn', Inl (resident, e)) \<Rightarrow>
          (conn', Fail e (t\<lparr>wt_err_count := wt_err_count t + 1, wt_data := resident\<rparr>)))"

section \<open>Scheduler\<close>

record writer_config =
  wc_apply_benchmark :: bool
  wc_spawn_limit :: int
  wc_capability_limit :: nat

record writer_status =
  ws_pending_count :: nat
  ws_spawning_tasks :: int

text \<open>Both deques are listed front first: new entries come first, the oldest is last.\<close>

record 'q schedule =
  sc_next_task_stack :: "'q writer_task list"
  sc_error_task_stack :: "'q writer_task list"
  sc_notify_tracing :: prog_tracing
  sc_status_tracing :: writer_status
  sc_grace_down :: bool

definition schedule_new :: "'q schedule" where
  "schedule_new = \<lparr>sc_next_task_stack = [], sc_error_task_stack = [], sc_notify_tracing = [],
     sc_status_tracing = \<lparr>ws_pending_count = 0, ws_spawning_tasks = 0\<rparr>, sc_grace_down = False\<rparr>"

definition spawn_enabled :: "writer_config \<Rightarrow> 'q schedule \<Rightarrow> bool" where
  "spawn_enabled cfg s \<longleftrightarrow> sc_error_task_stack s \<noteq> [] \<or>
     sc_next_task_stack s \<noteq> [] \<and> ws_spawning_tasks (sc_status_tracing s) < wc_spawn_limit cfg"

text \<open>The branch taken when a connection was acquired: the task to run and the new state.\<close>

definition spawn_task :: "writer_config \<Rightarrow> timestamp \<Rightarrow> 'q schedule \<Rightarrow> 'q schedule \<times> 'q writer_task" where
  "spawn_task cfg now s =
     (if sc_error_task_stack s \<noteq> [] then
        (s\<lparr>sc_error_task_stack := butlast (sc_error_task_stack s)\<rparr>, last (sc_error_task_stack s))
      else
        let st = sc_status_tracing s;
            task = last (sc_next_task_stack s);
            task = (if wc_apply_benchmark cfg then apply_benchmark now task else task)
        in (s\<lparr>sc_next_task_stack := butlast (sc_next_task_stack s),
              sc_status_tracing :=
                \<lparr>ws_pending_count = ws_pending_count st - length (wt_data task),
                 ws_spawning_tasks = ws_spawning_tasks st + 1\<rparr>,
              sc_notify_tracing :=
                (case wt_notify_flag task of None \<Rightarrow> sc_notify_tracing s
                 | Some notifies \<Rightarrow> update_from notifies (sc_notify_tracing s))\<rparr>, task))"

text \<open>The branch of a received message: the new state, what is sent to the listeners of
  \<^verbatim>\<open>complete_notify\<close>, and whether the loop is left.\<close>

definition recv_msg :: "'q writer_msg \<Rightarrow> 'q schedule \<Rightarrow> 'q schedule \<times> notify_flag option \<times> bool" where
  "recv_msg msg s =
     (let st = sc_status_tracing s in
      case msg of
        Data dt notify \<Rightarrow>
          let nx = (if sc_next_task_stack s = [] \<or> is_limited (hd (sc_next_task_stack s))
                    then task_new # sc_next_task_stack s else sc_next_task_stack s)
          in (s\<lparr>sc_next_task_stack := add_data dt notify (hd nx) # drop 1 nx,
                sc_status_tracing := st\<lparr>ws_pending_count := ws_pending_count st + 1\<rparr>\<rparr>, None, False)
      | Done t \<Rightarrow>
          let s = s\<lparr>sc_status_tracing := st\<lparr>ws_spawning_tasks := ws_spawning_tasks st - 1\<rparr>\<rparr>
          in (case wt_notify_flag t of
                None \<Rightarrow> (s, None, False)
              | Some notifies \<Rightarrow>
                  let (pt, out) = finish_from notifies (sc_notify_tracing s)
                  in (s\<lparr>sc_notify_tracing := pt\<rparr>, Some out, False))
      | Fail e t \<Rightarrow> (s\<lparr>sc_error_task_stack := t # sc_error_task_stack s\<rparr>, None, False)
      | Exit grace \<Rightarrow> (s\<lparr>sc_grace_down := True\<rparr>, None, \<not> grace))"

definition exit_enabled :: "'q schedule \<Rightarrow> bool" where
  "exit_enabled s \<longleftrightarrow> sc_grace_down s \<and> ws_spawning_tasks (sc_status_tracing s) = 0 \<and>
     sc_next_task_stack s = []"

section \<open>The writer with its clients and tasks\<close>

text \<open>
  \<open>wr_chan\<close> is the channel, oldest message first, which the tasks use too; \<open>wr_exec\<close> holds the
  tasks spawned and not finished; \<open>wr_conn\<close> the database; \<open>wr_status\<close> and \<open>wr_complete\<close> the
  watched values. \<open>wr_sent\<close> records what the clients have sent.
\<close>

record ('q, 'c) writer =
  wr_sched :: "'q schedule"
  wr_alive :: bool
  wr_chan :: "'q writer_msg list"
  wr_exec :: "'q writer_task list"
  wr_conn :: 'c
  wr_status :: writer_status
  wr_complete :: notify_flag
  wr_sent :: "'q writer_msg list"

definition start_schedule :: "'c \<Rightarrow> ('q, 'c) writer" where
  "start_schedule conn = \<lparr>wr_sched = schedule_new, wr_alive = True, wr_chan = [], wr_exec = [],
     wr_conn = conn, wr_status = sc_status_tracing (schedule_new :: 'q schedule), wr_complete = [],
     wr_sent = []\<rparr>"

text \<open>\<^verbatim>\<open>try_send\<close> hands the row back when the channel is full or closed.\<close>

definition append_with_notify ::
  "'q \<Rightarrow> (i32 \<times> u64) option \<Rightarrow> ('q, 'c) writer \<Rightarrow> ('q, 'c) writer \<times> ('q + unit)" where
  "append_with_notify item notify w =
     (if wr_alive w \<and> length (wr_chan w) < CHANNEL_LIMIT
      then (w\<lparr>wr_chan := wr_chan w @ [Data item notify], wr_sent := wr_sent w @ [Data item notify]\<rparr>, Inr ())
      else (w, Inl item))"

definition writer_append :: "'q \<Rightarrow> ('q, 'c) writer \<Rightarrow> ('q, 'c) writer \<times> ('q + unit)" where
  "writer_append item w = append_with_notify item None w"

text \<open>\<^verbatim>\<open>(limit as f64 * 0.9) as usize\<close> is the integer part of nine tenths of the limit.\<close>

definition writer_is_block :: "writer_config \<Rightarrow> ('q, 'c) writer \<Rightarrow> bool" where
  "writer_is_block cfg w \<longleftrightarrow> wc_capability_limit cfg * 9 div 10 < ws_pending_count (wr_status w)"

inductive wstep ::
  "('q list \<Rightarrow> 'c \<Rightarrow> 'c \<times> (sql_error + SqlResultExt)) \<Rightarrow> writer_config \<Rightarrow>
   ('q, 'c) writer \<Rightarrow> ('q, 'c) writer \<Rightarrow> bool" for query cfg where
  client_append: "append_with_notify item notify w = (w', Inr ()) \<Longrightarrow> wstep query cfg w w'"
| client_finish: "wr_alive w \<Longrightarrow> length (wr_chan w) < CHANNEL_LIMIT \<Longrightarrow>
    wstep query cfg w (w\<lparr>wr_chan := wr_chan w @ [Exit grace], wr_sent := wr_sent w @ [Exit grace]\<rparr>)"
| sched_spawn: "wr_alive w \<Longrightarrow> spawn_enabled cfg (wr_sched w) \<Longrightarrow>
    spawn_task cfg now (wr_sched w) = (s, task) \<Longrightarrow>
    wstep query cfg w (w\<lparr>wr_sched := s, wr_exec := wr_exec w @ [task], wr_status := sc_status_tracing s\<rparr>)"
| sched_recv: "wr_alive w \<Longrightarrow> wr_chan w = msg # rest \<Longrightarrow> recv_msg msg (wr_sched w) = (s, out, quit) \<Longrightarrow>
    wstep query cfg w (w\<lparr>wr_sched := s, wr_chan := rest, wr_alive := \<not> quit,
      wr_status := sc_status_tracing s, wr_complete := (case out of None \<Rightarrow> wr_complete w | Some nf \<Rightarrow> nf)\<rparr>)"
| sched_exit: "wr_alive w \<Longrightarrow> exit_enabled (wr_sched w) \<Longrightarrow> wstep query cfg w (w\<lparr>wr_alive := False\<rparr>)"
| task_end: "wr_exec w = ts1 @ task # ts2 \<Longrightarrow> (wr_alive w \<longrightarrow> length (wr_chan w) < CHANNEL_LIMIT) \<Longrightarrow>
    execute query task (wr_conn w) = (conn, msg) \<Longrightarrow>
    wstep query cfg w (w\<lparr>wr_exec := ts1 @ ts2, wr_conn := conn,
      wr_chan := (if wr_alive w then wr_chan w @ [msg] else wr_chan w)\<rparr>)"

definition writer_reach ::
  "('q list \<Rightarrow> 'c \<Rightarrow> 'c \<times> (sql_error + SqlResultExt)) \<Rightarrow> writer_config \<Rightarrow> 'c \<Rightarrow> ('q, 'c) writer \<Rightarrow> bool" where
  "writer_reach query cfg conn w \<longleftrightarrow> (wstep query cfg)\<^sup>*\<^sup>* (start_schedule conn) w"

section \<open>Facts about progress tracing\<close>

text \<open>
  The specification: the numbers pushed so far in ascending order and the set of the finished
  ones. Finishing \<open>n\<close> reports nothing while a smaller number is unfinished, and otherwise the
  end of the longest finished prefix.
\<close>

datatype prog_event = Pushed u64 | Finished u64

fun legal_trace :: "u64 list \<Rightarrow> u64 set \<Rightarrow> prog_event list \<Rightarrow> bool" where
  "legal_trace ps fin [] \<longleftrightarrow> True"
| "legal_trace ps fin (Pushed n # es) \<longleftrightarrow> (\<forall>p \<in> set ps. p < n) \<and> legal_trace (ps @ [n]) fin es"
| "legal_trace ps fin (Finished n # es) \<longleftrightarrow> n \<in> set ps \<and> n \<notin> fin \<and> legal_trace ps (insert n fin) es"

fun run_trace :: "prog_stack \<Rightarrow> prog_event list \<Rightarrow> u64 option list" where
  "run_trace st [] = []"
| "run_trace st (Pushed n # es) = run_trace (push_top n st) es"
| "run_trace st (Finished n # es) = (let (st', r) = pop_top n st in r # run_trace st' es)"

definition spec_commit :: "u64 list \<Rightarrow> u64 set \<Rightarrow> u64 \<Rightarrow> u64 option" where
  "spec_commit ps fin n =
     (if \<exists>p \<in> set ps. p \<notin> fin \<and> p < n then None
      else Some (last (takeWhile (\<lambda>p. p \<in> insert n fin) ps)))"

fun spec_trace :: "u64 list \<Rightarrow> u64 set \<Rightarrow> prog_event list \<Rightarrow> u64 option list" where
  "spec_trace ps fin [] = []"
| "spec_trace ps fin (Pushed n # es) = spec_trace (ps @ [n]) fin es"
| "spec_trace ps fin (Finished n # es) = spec_commit ps fin n # spec_trace ps (insert n fin) es"

text \<open>An entry of the stack stands for an unfinished number and the finished ones right behind it.\<close>

definition entry_of :: "u64 \<times> u64 list \<Rightarrow> u64 \<times> u64 option" where
  "entry_of b = (fst b, if snd b = [] then None else Some (last (snd b)))"

definition flat :: "(u64 \<times> u64 list) list \<Rightarrow> u64 list" where
  "flat bs = concat (map (\<lambda>b. fst b # snd b) bs)"

definition stack_rep :: "u64 list \<Rightarrow> u64 set \<Rightarrow> prog_stack \<Rightarrow> u64 list \<Rightarrow> (u64 \<times> u64 list) list \<Rightarrow> bool" where
  "stack_rep ps fin st p0 bs \<longleftrightarrow> ps = p0 @ flat bs \<and> st = map entry_of bs \<and> sorted_wrt (<) ps \<and>
     set p0 \<subseteq> fin \<and> (\<forall>b \<in> set bs. fst b \<notin> fin \<and> set (snd b) \<subseteq> fin)"

lemma flat_append [simp]: "flat (as @ bs) = flat as @ flat bs"
  by (simp add: flat_def)

lemma flat_simps [simp]: "flat [] = []" "flat (b # bs) = fst b # snd b @ flat bs"
  by (simp_all add: flat_def)

lemma fst_in_flat: "b \<in> set bs \<Longrightarrow> fst b \<in> set (flat bs)"
  by (force simp: flat_def)

lemma option_or_entry: "option_or (snd (entry_of (n, F))) n = last (n # F)"
  by (simp add: option_or_def entry_of_def)

lemma pop_walk_stop:
  "\<forall>y \<in> set ys. n \<le> fst y \<Longrightarrow> k < n \<Longrightarrow>
   pop_walk n tr (ys @ (k, m) # st) =
     (butlast (tr # ys) @ (k, Some (option_or (snd (last (tr # ys))) n)) # st, None)"
  by (induction ys arbitrary: tr) (auto simp: not_less)

lemma pop_walk_bottom:
  "\<forall>y \<in> set ys. n \<le> fst y \<Longrightarrow>
   pop_walk n tr ys = (butlast (tr # ys), Some (option_or (snd (last (tr # ys))) (fst (last (tr # ys)))))"
  by (induction ys arbitrary: tr) (auto simp: not_less)

text \<open>The stack as the walk sees it: \<open>x\<close> is the entry to remove, \<open>B\<close> what lies above it.\<close>

lemma walk_view:
  obtains tr ys where "last (A @ x # B) = tr" and "rev (butlast (A @ x # B)) = ys @ rev A"
    and "tr # ys = rev B @ [x]" and "set ys \<subseteq> set (x # B)"
proof (cases B rule: rev_cases)
  case Nil
  show ?thesis by (rule that [of x "[]"]) (simp_all add: Nil)
next
  case (snoc B' b)
  show ?thesis by (rule that [of b "rev B' @ [x]"]) (auto simp: snoc butlast_append)
qed

lemma pop_top_inner:
  assumes "k < n" and "\<forall>b \<in> set B. n \<le> fst b"
  shows "pop_top n (A @ (k, m) # (n, mn) # B) = (A @ (k, Some (option_or mn n)) # B, None)"
proof -
  obtain tr ys where v: "last ((A @ [(k, m)]) @ (n, mn) # B) = tr"
    "rev (butlast ((A @ [(k, m)]) @ (n, mn) # B)) = ys @ rev (A @ [(k, m)])"
    "tr # ys = rev B @ [(n, mn)]" "set ys \<subseteq> set ((n, mn) # B)" by (rule walk_view)
  from v(4) assms(2) have "\<forall>y \<in> set ys. n \<le> fst y" by auto
  from pop_walk_stop [OF this assms(1), of tr m "rev A"] v show ?thesis
    by (simp add: pop_top_def)
qed

lemma pop_top_bottom:
  assumes "\<forall>b \<in> set B. n \<le> fst b"
  shows "pop_top n ((n, mn) # B) = (B, Some (option_or mn n))"
proof -
  obtain tr ys where v: "last ([] @ (n, mn) # B) = tr" "rev (butlast ([] @ (n, mn) # B)) = ys @ rev []"
    "tr # ys = rev B @ [(n, mn)]" "set ys \<subseteq> set ((n, mn) # B)" by (rule walk_view)
  from v(4) assms have "\<forall>y \<in> set ys. n \<le> fst y" by auto
  from pop_walk_bottom [OF this, of tr] v show ?thesis
    by (simp add: pop_top_def)
qed

lemma push_top_rep:
  assumes "stack_rep ps fin st p0 bs" and "\<forall>p \<in> set ps. p < n" and "n \<notin> fin"
  shows "stack_rep (ps @ [n]) fin (push_top n st) p0 (bs @ [(n, [])])"
proof -
  have "push_top n st = st @ [(n, None)]"
  proof (cases bs rule: rev_cases)
    case Nil
    with assms(1) show ?thesis by (simp add: stack_rep_def push_top_def)
  next
    case (snoc bs' b)
    with assms(1,2) have "fst b < n" by (auto simp: stack_rep_def)
    with assms(1) snoc show ?thesis by (auto simp: stack_rep_def push_top_def entry_of_def Let_def)
  qed
  with assms show ?thesis by (auto simp: stack_rep_def entry_of_def sorted_wrt_append)
qed

lemma pop_top_rep:
  assumes rep: "stack_rep ps fin st p0 bs" and n: "n \<in> set ps" "n \<notin> fin"
  shows "\<exists>st' p0' bs'. pop_top n st = (st', spec_commit ps fin n) \<and> stack_rep ps (insert n fin) st' p0' bs'"
proof -
  from rep have ps: "ps = p0 @ flat bs" and st: "st = map entry_of bs" and sorted: "sorted_wrt (<) ps"
    and fin: "set p0 \<subseteq> fin" "\<forall>b \<in> set bs. fst b \<notin> fin \<and> set (snd b) \<subseteq> fin"
    unfolding stack_rep_def by blast+
  from n ps fin have "n \<in> fst ` set bs" by (force simp: flat_def)
  then obtain F as cs where bs: "bs = as @ (n, F) # cs" by (metis imageE prod.collapse split_list)
  have above: "\<forall>c \<in> set cs. n < fst c"
    using sorted fst_in_flat by (auto simp: ps bs sorted_wrt_append)
  then have above': "\<forall>b \<in> set (map entry_of cs). n \<le> fst b" by (auto simp: entry_of_def)
  show ?thesis
  proof (cases as rule: rev_cases)
    case Nil
    have below: "\<not> (\<exists>p \<in> set ps. p \<notin> fin \<and> p < n)"
    proof
      assume "\<exists>p \<in> set ps. p \<notin> fin \<and> p < n"
      then obtain p where p: "p \<in> set ps" "p \<notin> fin" "p < n" by blast
      with fin have "p \<in> set (F @ flat cs)" by (auto simp: ps bs Nil)
      with sorted have "n < p" by (auto simp: ps bs Nil sorted_wrt_append)
      with p(3) show False by simp
    qed
    have "takeWhile (\<lambda>p. p \<in> insert n fin) ps = p0 @ n # F"
      using fin above by (cases cs) (auto simp: ps bs Nil takeWhile_append dest: subsetD)
    with below have "spec_commit ps fin n = Some (last (n # F))" by (simp add: spec_commit_def)
    moreover have "pop_top n st = (map entry_of cs, Some (last (n # F)))"
      using pop_top_bottom [OF above', of "snd (entry_of (n, F))"] option_or_entry [of n F]
      by (simp add: st bs Nil entry_of_def)
    moreover have "stack_rep ps (insert n fin) (map entry_of cs) (p0 @ n # F) cs"
      using rep above by (auto simp: stack_rep_def bs Nil)
    ultimately show ?thesis by metis
  next
    case (snoc as' b)
    obtain k G where b: "b = (k, G)" by (cases b)
    have k: "k < n" "k \<notin> fin" "k \<in> set ps"
      using sorted fin by (auto simp: ps bs snoc b sorted_wrt_append)
    then have "spec_commit ps fin n = None" by (auto simp: spec_commit_def)
    moreover have "pop_top n st = (map entry_of (as' @ (k, G @ n # F) # cs), None)"
      using pop_top_inner [OF k(1) above', of "map entry_of as'" "snd (entry_of (k, G))" "snd (entry_of (n, F))"]
        option_or_entry [of n F] by (simp add: st bs snoc b entry_of_def)
    moreover have "stack_rep ps (insert n fin) (map entry_of (as' @ (k, G @ n # F) # cs)) p0 (as' @ (k, G @ n # F) # cs)"
    proof -
      have "\<forall>a \<in> set as'. fst a < n" using sorted fst_in_flat by (auto simp: ps bs snoc sorted_wrt_append)
      then have "\<forall>a \<in> set (as' @ (k, G @ n # F) # cs). fst a \<notin> insert n fin \<and> set (snd a) \<subseteq> insert n fin"
        using fin(2) above k(1) by (auto simp: bs snoc b)
      with fin(1) sorted show ?thesis by (auto simp: stack_rep_def ps bs snoc b)
    qed
    ultimately show ?thesis by metis
  qed
qed

lemma run_trace_rep:
  assumes "stack_rep ps fin st p0 bs" and "legal_trace ps fin es" and "fin \<subseteq> set ps"
  shows "run_trace st es = spec_trace ps fin es"
  using assms
proof (induction es arbitrary: ps fin st p0 bs)
  case (Cons e es)
  show ?case
  proof (cases e)
    case (Pushed n)
    with Cons.prems have "n \<notin> fin" by auto
    with Cons.prems Pushed have "stack_rep (ps @ [n]) fin (push_top n st) p0 (bs @ [(n, [])])"
      by (intro push_top_rep) simp_all
    from Cons.IH [OF this] Cons.prems Pushed show ?thesis by auto
  next
    case (Finished n)
    with Cons.prems pop_top_rep [of ps fin st p0 bs n] obtain st' p0' bs'
      where p: "pop_top n st = (st', spec_commit ps fin n)" "stack_rep ps (insert n fin) st' p0' bs'" by auto
    from Cons.IH [OF p(2)] Cons.prems Finished p(1) show ?thesis by simp
  qed
qed simp

text \<open>
  C36: Progress tracing refines its specification: for numbers pushed in strictly ascending order
  and finished in any order, finishing a number reports nothing while a smaller one is
  unfinished, and otherwise exactly the end of the longest prefix of the pushed numbers that
  are all finished.
\<close>

theorem progress_tracing_refines:
  assumes "legal_trace [] {} es"
  shows "run_trace [] es = spec_trace [] {} es"
  using assms by (intro run_trace_rep [of "[]" "{}" "[]" "[]" "[]"]) (simp_all add: stack_rep_def)

theorem progress_tracing_refines_witness:
  "run_trace [] [Pushed 1, Pushed 2, Pushed 3, Finished 2, Finished 1, Finished 3] = [None, Some 2, Some 3] \<and>
   legal_trace [] {} [Pushed 1, Pushed 2, Pushed 3, Finished 2, Finished 1, Finished 3]"
  using progress_tracing_refines [of "[Pushed 1, Pushed 2, Pushed 3, Finished 2, Finished 1, Finished 3]"]
  by (simp add: spec_commit_def)

section \<open>Facts about the scheduler\<close>

definition tasks_rows :: "'q writer_task list \<Rightarrow> 'q list" where
  "tasks_rows ts = concat (map wt_data ts)"

fun msg_rows :: "'q writer_msg \<Rightarrow> 'q list" where
  "msg_rows (Fail e t) = wt_data t"
| "msg_rows _ = []"

fun sent_rows :: "'q writer_msg \<Rightarrow> 'q list" where
  "sent_rows (Data dt notify) = [dt]"
| "sent_rows _ = []"

fun is_client :: "'q writer_msg \<Rightarrow> bool" where
  "is_client (Data dt notify) = True"
| "is_client (Exit grace) = True"
| "is_client _ = False"

abbreviation reports :: "'q writer_msg list \<Rightarrow> 'q writer_msg list" where
  "reports ms \<equiv> filter (\<lambda>m. \<not> is_client m) ms"

text \<open>The rows that the scheduler holds and has not handed to a task yet, or has to retry.\<close>

definition held_rows :: "'q schedule \<Rightarrow> 'q multiset" where
  "held_rows s = mset (tasks_rows (sc_next_task_stack s)) + mset (tasks_rows (sc_error_task_stack s))"

lemma tasks_rows_simps [simp]:
  "tasks_rows [] = []" "tasks_rows (t # ts) = wt_data t @ tasks_rows ts"
  "tasks_rows (ts @ us) = tasks_rows ts @ tasks_rows us"
  by (simp_all add: tasks_rows_def)

lemma wt_data_simps [simp]:
  "wt_data (apply_benchmark now t) = wt_data t" "wt_data (add_data dt n t) = wt_data t @ [dt]"
  "wt_data task_new = []" "wt_notify_flag (apply_benchmark now t) = wt_notify_flag t"
  by (simp_all add: apply_benchmark_def add_data_def task_new_def Let_def split: option.split)

text \<open>The bookkeeping of a scheduler with \<open>n\<close> tasks spawned and not reported.\<close>

definition sched_ok :: "writer_config \<Rightarrow> nat \<Rightarrow> 'q schedule \<Rightarrow> bool" where
  "sched_ok cfg n s \<longleftrightarrow>
     ws_pending_count (sc_status_tracing s) = length (tasks_rows (sc_next_task_stack s)) \<and>
     ws_spawning_tasks (sc_status_tracing s) = int (n + length (sc_error_task_stack s)) \<and>
     ws_spawning_tasks (sc_status_tracing s) \<le> max 0 (wc_spawn_limit cfg) \<and>
     (\<forall>t \<in> set (sc_next_task_stack s). wt_data t \<noteq> [] \<and> length (wt_data t) \<le> INSERT_LIMIT)"

lemma spawn_task_ok:
  assumes "sched_ok cfg n s" and "spawn_enabled cfg s" and "spawn_task cfg now s = (s', t)"
  shows "sched_ok cfg (Suc n) s'" and "held_rows s = held_rows s' + mset (wt_data t)"
    and "sc_grace_down s' = sc_grace_down s"
proof -
  have "sched_ok cfg (Suc n) s' \<and> held_rows s = held_rows s' + mset (wt_data t) \<and>
    sc_grace_down s' = sc_grace_down s"
  proof (cases "sc_error_task_stack s" rule: rev_cases)
    case Nil
    with assms(2) obtain ts u where ts: "sc_next_task_stack s = ts @ [u]"
      by (auto simp: spawn_enabled_def intro: rev_exhaust)
    have "wt_data t = wt_data u" using assms(3) Nil ts by (auto simp: spawn_task_def Let_def)
    with assms Nil ts show ?thesis
      by (auto simp: spawn_task_def sched_ok_def held_rows_def spawn_enabled_def Let_def)
  next
    case (snoc es e)
    with assms show ?thesis
      by (auto simp: spawn_task_def sched_ok_def held_rows_def)
  qed
  then show "sched_ok cfg (Suc n) s'" "held_rows s = held_rows s' + mset (wt_data t)"
    "sc_grace_down s' = sc_grace_down s" by blast+
qed

lemma recv_msg_ok:
  assumes "sched_ok cfg (n + (if is_client msg then 0 else 1)) s" and "recv_msg msg s = (s', out, quit)"
  shows "sched_ok cfg n s'" and "held_rows s' = held_rows s + mset (sent_rows msg) + mset (msg_rows msg)"
    and "sc_grace_down s' \<Longrightarrow> sc_grace_down s \<or> (\<exists>g. msg = Exit g)"
proof -
  have "sched_ok cfg n s' \<and> held_rows s' = held_rows s + mset (sent_rows msg) + mset (msg_rows msg) \<and>
    (sc_grace_down s' \<longrightarrow> sc_grace_down s \<or> (\<exists>g. msg = Exit g))"
  proof (cases msg)
    case (Data dt notify)
    with assms show ?thesis
      by (cases "sc_next_task_stack s")
        (auto simp: recv_msg_def sched_ok_def held_rows_def is_limited_def INSERT_LIMIT_def Let_def
          split: if_splits)
  next
    case (Done t)
    with assms show ?thesis
      by (auto simp: recv_msg_def sched_ok_def held_rows_def Let_def split: option.splits prod.splits)
  next
    case (Fail e t)
    with assms show ?thesis by (auto simp: recv_msg_def sched_ok_def held_rows_def)
  next
    case (Exit g)
    with assms show ?thesis by (auto simp: recv_msg_def sched_ok_def held_rows_def)
  qed
  then show "sched_ok cfg n s'" "held_rows s' = held_rows s + mset (sent_rows msg) + mset (msg_rows msg)"
    "sc_grace_down s' \<Longrightarrow> sc_grace_down s \<or> (\<exists>g. msg = Exit g)" by blast+
qed

lemma execute_ok:
  assumes "query_law query accepted" and "execute query t conn = (conn', msg)"
  shows "mset (accepted conn') + mset (msg_rows msg) = mset (accepted conn) + mset (wt_data t)"
    and "\<not> is_client msg"
  using sql_query_fine_splits [OF assms(1), of "wt_data t" conn] assms(2)
  by (auto simp: execute_def split: prod.splits sum.splits)

text \<open>Every row that was received is stored, held by the scheduler, in a task, or on its way back.\<close>

definition writer_inv ::
  "('c \<Rightarrow> 'q list) \<Rightarrow> writer_config \<Rightarrow> 'c \<Rightarrow> ('q, 'c) writer \<Rightarrow> 'q writer_msg list \<Rightarrow> bool" where
  "writer_inv accepted cfg conn w recvd \<longleftrightarrow>
     wr_sent w = recvd @ filter is_client (wr_chan w) \<and>
     sched_ok cfg (length (wr_exec w) + length (reports (wr_chan w))) (wr_sched w) \<and>
     mset (accepted (wr_conn w)) + held_rows (wr_sched w) + mset (tasks_rows (wr_exec w)) +
       mset (concat (map msg_rows (wr_chan w))) =
       mset (accepted conn) + mset (concat (map sent_rows recvd)) \<and>
     (sc_grace_down (wr_sched w) \<longrightarrow> (\<exists>g. Exit g \<in> set recvd))"

lemma wstep_alive: "wstep query cfg w w' \<Longrightarrow> wr_alive w' \<Longrightarrow> wr_alive w"
  by (induction rule: wstep.induct) (auto simp: append_with_notify_def split: if_splits)

lemma wstep_inv:
  assumes "query_law query accepted"
  shows "wstep query cfg w w' \<Longrightarrow> wr_alive w' \<Longrightarrow> writer_inv accepted cfg conn w recvd \<Longrightarrow>
    \<exists>recvd'. writer_inv accepted cfg conn w' recvd'"
proof (induction rule: wstep.induct)
  case (client_append item notify w w')
  then have "writer_inv accepted cfg conn w' recvd"
    by (auto simp: writer_inv_def append_with_notify_def split: if_splits)
  then show ?case by blast
next
  case (client_finish w grace)
  then have "writer_inv accepted cfg conn
      (w\<lparr>wr_chan := wr_chan w @ [Exit grace], wr_sent := wr_sent w @ [Exit grace]\<rparr>) recvd"
    by (auto simp: writer_inv_def)
  then show ?case by blast
next
  case (sched_spawn w now s task)
  then have "sched_ok cfg (length (wr_exec w) + length (reports (wr_chan w))) (wr_sched w)"
    by (simp add: writer_inv_def)
  note sp = spawn_task_ok [OF this sched_spawn(2,3)]
  from sp sched_spawn.prems have "writer_inv accepted cfg conn
      (w\<lparr>wr_sched := s, wr_exec := wr_exec w @ [task], wr_status := sc_status_tracing s\<rparr>) recvd"
    by (simp add: writer_inv_def ac_simps)
  then show ?case by blast
next
  case (sched_recv w msg rest s out quit)
  then have "sched_ok cfg (length (wr_exec w) + length (reports rest) + (if is_client msg then 0 else 1)) (wr_sched w)"
    by (simp add: writer_inv_def split: if_splits)
  note rc = recv_msg_ok [OF this sched_recv(3)]
  let ?r = "if is_client msg then recvd @ [msg] else recvd"
  have msg: "\<not> is_client msg \<Longrightarrow> sent_rows msg = []" by (cases msg) simp_all
  from rc msg sched_recv have "writer_inv accepted cfg conn (w\<lparr>wr_sched := s, wr_chan := rest, wr_alive := \<not> quit,
      wr_status := sc_status_tracing s, wr_complete := (case out of None \<Rightarrow> wr_complete w | Some nf \<Rightarrow> nf)\<rparr>) ?r"
    by (auto simp: writer_inv_def ac_simps split: if_splits)
  then show ?case by blast
next
  case (sched_exit w)
  then show ?case by simp
next
  case (task_end w ts1 task ts2 conn' msg)
  note ex = execute_ok [OF assms task_end(3)]
  let ?C = "mset (concat (map msg_rows (wr_chan w)))" and ?H = "held_rows (wr_sched w)"
    and ?T = "mset (tasks_rows ts1) + mset (tasks_rows ts2)"
  from task_end have alive: "wr_alive w" and inv: "writer_inv accepted cfg conn w recvd"
    and ts: "wr_exec w = ts1 @ task # ts2" by simp_all
  have "mset (accepted conn') + ?H + ?T + (?C + mset (msg_rows msg)) =
      (mset (accepted conn') + mset (msg_rows msg)) + (?H + ?T + ?C)" by (simp add: ac_simps)
  also have "\<dots> = mset (accepted (wr_conn w)) + ?H + mset (tasks_rows (wr_exec w)) + ?C"
    using ex(1) by (simp add: ts ac_simps)
  finally have rows: "mset (accepted conn') + ?H + ?T + (?C + mset (msg_rows msg)) =
      mset (accepted conn) + mset (concat (map sent_rows recvd))"
    using inv unfolding writer_inv_def by (elim conjE) (rule trans)
  have "writer_inv accepted cfg conn (w\<lparr>wr_exec := ts1 @ ts2, wr_conn := conn',
      wr_chan := (if wr_alive w then wr_chan w @ [msg] else wr_chan w)\<rparr>) recvd"
    using inv ex(2) rows alive ts by (simp add: writer_inv_def)
  then show ?case by blast
qed

lemma writer_reach_inv:
  assumes "query_law query accepted" and "writer_reach query cfg conn w" and "wr_alive w"
  shows "\<exists>recvd. writer_inv accepted cfg conn w recvd"
proof -
  have "wr_alive w \<longrightarrow> (\<exists>recvd. writer_inv accepted cfg conn w recvd)"
    using assms(2) unfolding writer_reach_def
  proof (induction rule: rtranclp_induct)
    case base
    have "writer_inv accepted cfg conn (start_schedule conn) []"
      by (simp add: writer_inv_def start_schedule_def sched_ok_def schedule_new_def held_rows_def)
    then show ?case by blast
  next
    case (step w w')
    then show ?case using wstep_inv [OF assms(1)] wstep_alive by blast
  qed
  with assms(3) show ?thesis by blast
qed

text \<open>The published status is the scheduler's, and every task, wherever it is, is within the limit.\<close>

definition small_task :: "'q writer_task \<Rightarrow> bool" where
  "small_task t \<longleftrightarrow> length (wt_data t) \<le> INSERT_LIMIT"

fun small_msg :: "'q writer_msg \<Rightarrow> bool" where
  "small_msg (Done t) = small_task t"
| "small_msg (Fail e t) = small_task t"
| "small_msg _ = True"

definition small_inv :: "('q, 'c) writer \<Rightarrow> bool" where
  "small_inv w \<longleftrightarrow> wr_status w = sc_status_tracing (wr_sched w) \<and>
     list_all small_task (sc_next_task_stack (wr_sched w) @ sc_error_task_stack (wr_sched w) @ wr_exec w) \<and>
     list_all small_msg (wr_chan w)"

lemma spawn_task_small:
  assumes "spawn_enabled cfg s" and "spawn_task cfg now s = (s', t)"
    and "list_all small_task (sc_next_task_stack s @ sc_error_task_stack s)"
  shows "list_all small_task (sc_next_task_stack s' @ sc_error_task_stack s') \<and> small_task t"
proof (cases "sc_error_task_stack s" rule: rev_cases)
  case Nil
  with assms(1) obtain ts u where "sc_next_task_stack s = ts @ [u]" by (auto simp: spawn_enabled_def intro: rev_exhaust)
  with Nil assms(2,3) show ?thesis by (auto simp: spawn_task_def small_task_def Let_def)
qed (use assms(2,3) in \<open>auto simp: spawn_task_def\<close>)

lemma recv_msg_small:
  assumes "recv_msg msg s = (s', out, quit)" and "small_msg msg"
    and "list_all small_task (sc_next_task_stack s @ sc_error_task_stack s)"
  shows "list_all small_task (sc_next_task_stack s' @ sc_error_task_stack s')"
proof (cases msg)
  case (Data dt notify)
  with assms show ?thesis
    by (cases "sc_next_task_stack s") (auto simp: recv_msg_def small_task_def is_limited_def INSERT_LIMIT_def Let_def split: if_splits)
qed (use assms in \<open>auto simp: recv_msg_def Let_def split: option.splits prod.splits\<close>)

lemma execute_small:
  assumes "query_law query accepted" and "execute query t conn = (conn', msg)" and "small_task t"
  shows "small_msg msg"
  using sql_query_fine_splits [OF assms(1), of "wt_data t" conn] assms(2,3)
  by (auto simp: execute_def small_task_def split: prod.splits sum.splits)

lemma wstep_small:
  assumes "query_law query accepted"
  shows "wstep query cfg w w' \<Longrightarrow> small_inv w \<Longrightarrow> small_inv w'"
proof (induction rule: wstep.induct)
  case (client_append item notify w w')
  then show ?case by (auto simp: small_inv_def append_with_notify_def split: if_splits)
next
  case (sched_spawn w now s task)
  then show ?case using spawn_task_small [of cfg "wr_sched w" now s task] by (simp add: small_inv_def)
next
  case (sched_recv w msg rest s out quit)
  then show ?case using recv_msg_small [of msg "wr_sched w" s out quit] by (simp add: small_inv_def)
next
  case (task_end w ts1 task ts2 conn' msg)
  then show ?case using execute_small [OF assms task_end(3)] by (simp add: small_inv_def)
qed (simp_all add: small_inv_def)

lemma writer_reach_small:
  assumes "query_law query accepted" and "writer_reach query cfg conn w"
  shows "small_inv w"
  using assms(2) unfolding writer_reach_def
proof (induction rule: rtranclp_induct)
  case (step w w')
  from wstep_small [OF assms(1) step.hyps(2) step.IH] show ?case .
qed (simp add: small_inv_def start_schedule_def schedule_new_def)

text \<open>
  C37: The database writer neither loses nor duplicates a row while it runs: the rows received so
  far are, as a multiset, those of the statements the database has accepted, those waiting or to be retried in the scheduler, those
  in a running task and those on their way back from a failed one; the messages sent are those
  received followed by those in the channel. (Whether an accepted row is new to a table with a unique key is up
  to \<^verbatim>\<open>ON CONFLICT DO NOTHING\<close>.) The pending count that is published is the number of rows in waiting tasks, at most
  \<^verbatim>\<open>spawn_limit\<close> tasks run at a time, and no task, waiting, failed or running, exceeds \<^verbatim>\<open>INSERT_LIMIT\<close> rows.
\<close>

theorem writer_conserves_rows:
  assumes "query_law query accepted" and "writer_reach query cfg conn w" and "wr_alive w"
  shows "\<exists>recvd. wr_sent w = recvd @ filter is_client (wr_chan w) \<and>
    mset (accepted (wr_conn w)) + held_rows (wr_sched w) + mset (tasks_rows (wr_exec w)) +
      mset (concat (map msg_rows (wr_chan w))) = mset (accepted conn) + mset (concat (map sent_rows recvd)) \<and>
    ws_pending_count (wr_status w) = length (tasks_rows (sc_next_task_stack (wr_sched w))) \<and>
    int (length (wr_exec w)) \<le> max 0 (wc_spawn_limit cfg) \<and>
    list_all (\<lambda>t. length (wt_data t) \<le> INSERT_LIMIT)
      (sc_next_task_stack (wr_sched w) @ sc_error_task_stack (wr_sched w) @ wr_exec w)"
proof -
  note small = writer_reach_small [OF assms(1,2), unfolded small_inv_def small_task_def]
  from writer_reach_inv [OF assms] obtain recvd where inv: "writer_inv accepted cfg conn w recvd" by blast
  show ?thesis
    by (rule exI [of _ recvd]) (use inv small in \<open>auto simp: writer_inv_def sched_ok_def list_all_iff\<close>)
qed

text \<open>
  A graceful shutdown loses nothing: when the scheduler is about to leave its loop after
  \<^verbatim>\<open>finish\<close>, no task is waiting, failed or running, and the stored rows are exactly those of the
  messages up to a point behind the exit request; what was sent before the request is stored.
\<close>

theorem writer_graceful_exit:
  assumes "query_law query accepted" and "writer_reach query cfg conn w" and "wr_alive w"
    and "exit_enabled (wr_sched w)"
  shows "sc_error_task_stack (wr_sched w) = [] \<and> wr_exec w = [] \<and>
    (\<exists>recvd rest g. wr_sent w = recvd @ rest \<and> Exit g \<in> set recvd \<and>
       mset (accepted (wr_conn w)) = mset (accepted conn) + mset (concat (map sent_rows recvd)))"
proof -
  from writer_reach_inv [OF assms(1-3)] obtain recvd where inv: "writer_inv accepted cfg conn w recvd" by blast
  with assms(4) have "int (length (wr_exec w) + length (reports (wr_chan w)) +
      length (sc_error_task_stack (wr_sched w))) = 0"
    unfolding writer_inv_def sched_ok_def exit_enabled_def by linarith
  then have e: "sc_error_task_stack (wr_sched w) = []" "wr_exec w = []" "reports (wr_chan w) = []"
    by (simp_all only: of_nat_eq_0_iff add_is_0 length_0_conv)
  have "msg_rows m = []" if "is_client m" for m :: "'a writer_msg" using that by (cases m) simp_all
  with e(3) have "concat (map msg_rows (wr_chan w)) = []" by (auto simp: filter_empty_conv)
  with inv e assms(4) have "mset (accepted (wr_conn w)) = mset (accepted conn) + mset (concat (map sent_rows recvd))"
    by (simp add: writer_inv_def held_rows_def exit_enabled_def)
  moreover from inv assms(4) obtain g where "Exit g \<in> set recvd"
    by (auto simp: writer_inv_def exit_enabled_def)
  moreover from inv have "wr_sent w = recvd @ filter is_client (wr_chan w)" by (simp add: writer_inv_def)
  ultimately show ?thesis using e by blast
qed

section \<open>A run\<close>

definition demo_cfg :: writer_config where
  "demo_cfg = \<lparr>wc_apply_benchmark = False, wc_spawn_limit = 4, wc_capability_limit = 8192\<rparr>"

definition demo_w0 :: "(nat, nat list) writer" where
  "demo_w0 = start_schedule []"

definition demo_w1 :: "(nat, nat list) writer" where
  "demo_w1 = fst (append_with_notify 7 (Some (1, 5)) demo_w0)"

definition demo_w2 :: "(nat, nat list) writer" where
  "demo_w2 = demo_w1\<lparr>wr_chan := wr_chan demo_w1 @ [Exit True], wr_sent := wr_sent demo_w1 @ [Exit True]\<rparr>"

definition demo_recv :: "(nat, nat list) writer \<Rightarrow> (nat, nat list) writer" where
  "demo_recv w = (case recv_msg (hd (wr_chan w)) (wr_sched w) of (s, out, quit) \<Rightarrow>
     w\<lparr>wr_sched := s, wr_chan := drop 1 (wr_chan w), wr_alive := \<not> quit,
       wr_status := sc_status_tracing s, wr_complete := (case out of None \<Rightarrow> wr_complete w | Some nf \<Rightarrow> nf)\<rparr>)"

lemma demo_recv_step:
  "wr_alive w \<Longrightarrow> wr_chan w \<noteq> [] \<Longrightarrow> wstep (bounded_query 15) demo_cfg w (demo_recv w)"
  by (cases "wr_chan w"; cases "recv_msg (hd (wr_chan w)) (wr_sched w)")
    (auto simp: demo_recv_def intro: wstep.sched_recv)

definition demo_w3 :: "(nat, nat list) writer" where
  "demo_w3 = demo_recv (demo_recv demo_w2)"

definition demo_w4 :: "(nat, nat list) writer" where
  "demo_w4 = (case spawn_task demo_cfg 0 (wr_sched demo_w3) of (s, task) \<Rightarrow>
     demo_w3\<lparr>wr_sched := s, wr_exec := wr_exec demo_w3 @ [task], wr_status := sc_status_tracing s\<rparr>)"

definition demo_w5 :: "(nat, nat list) writer" where
  "demo_w5 = (case execute (bounded_query 15) (hd (wr_exec demo_w4)) (wr_conn demo_w4) of (conn, msg) \<Rightarrow>
     demo_w4\<lparr>wr_exec := [], wr_conn := conn,
       wr_chan := (if wr_alive demo_w4 then wr_chan demo_w4 @ [msg] else wr_chan demo_w4)\<rparr>)"

definition demo_w6 :: "(nat, nat list) writer" where
  "demo_w6 = demo_recv demo_w5"

lemmas demo_w_defs = demo_w0_def demo_w1_def demo_w2_def demo_w3_def demo_w4_def demo_w5_def demo_w6_def
  demo_recv_def demo_cfg_def start_schedule_def schedule_new_def append_with_notify_def CHANNEL_LIMIT_def
  recv_msg_def spawn_task_def add_data_def task_new_def add_to_def update_from_def prog_update_one_def
  push_top_def execute_def sql_query_fine_def batch_loop_done bounded_query_def pop_top_def option_or_def

lemma demo_w4_facts: "wr_alive demo_w3" "spawn_enabled demo_cfg (wr_sched demo_w3)"
  "length (wr_exec demo_w4) = 1" "wr_alive demo_w4" "length (wr_chan demo_w4) < CHANNEL_LIMIT"
  by (simp_all add: demo_w_defs spawn_enabled_def)

lemma demo_w6_facts: "wr_alive demo_w5" "wr_chan demo_w5 \<noteq> []" "wr_alive demo_w6"
  "exit_enabled (wr_sched demo_w6)" "wr_conn demo_w6 = [7]" "wr_complete demo_w6 = [(1, 5)]"
  by (simp_all add: demo_w_defs exit_enabled_def)

lemma demo_reach: "writer_reach (bounded_query 15) demo_cfg [] demo_w6"
proof -
  let ?R = "wstep (bounded_query 15) demo_cfg"
  have s1: "?R demo_w0 demo_w1"
    by (rule wstep.client_append [of 7 "Some (1, 5)"])
      (simp add: demo_w1_def demo_w0_def start_schedule_def append_with_notify_def CHANNEL_LIMIT_def)
  have w1: "wr_alive demo_w1" "length (wr_chan demo_w1) < CHANNEL_LIMIT" by (simp_all add: demo_w_defs)
  have s2: "?R demo_w1 demo_w2" unfolding demo_w2_def by (rule wstep.client_finish [OF w1])
  have s3: "?R demo_w2 (demo_recv demo_w2)" "?R (demo_recv demo_w2) demo_w3"
    unfolding demo_w3_def by (rule demo_recv_step; simp add: demo_w_defs)+
  have s4: "?R demo_w3 demo_w4"
    unfolding demo_w4_def by (cases "spawn_task demo_cfg 0 (wr_sched demo_w3)")
      (auto intro: wstep.sched_spawn [OF demo_w4_facts(1,2)])
  have ts: "wr_exec demo_w4 = [] @ hd (wr_exec demo_w4) # []"
    using demo_w4_facts(3) by (cases "wr_exec demo_w4") simp_all
  have s5: "?R demo_w4 demo_w5"
    unfolding demo_w5_def
    by (cases "execute (bounded_query 15) (hd (wr_exec demo_w4)) (wr_conn demo_w4)")
      (use wstep.task_end [OF ts] demo_w4_facts(5) in auto)
  have s6: "?R demo_w5 demo_w6" unfolding demo_w6_def by (rule demo_recv_step [OF demo_w6_facts(1,2)])
  from s1 s2 s3 s4 s5 s6 show ?thesis
    unfolding writer_reach_def demo_w0_def by (meson rtranclp.rtrancl_into_rtrancl rtranclp.rtrancl_refl)
qed

theorem writer_conserves_rows_witness:
  "\<exists>recvd. wr_sent demo_w6 = recvd @ filter is_client (wr_chan demo_w6) \<and>
    mset (wr_conn demo_w6) + held_rows (wr_sched demo_w6) + mset (tasks_rows (wr_exec demo_w6)) +
      mset (concat (map msg_rows (wr_chan demo_w6))) = mset [] + mset (concat (map sent_rows recvd)) \<and>
    ws_pending_count (wr_status demo_w6) = length (tasks_rows (sc_next_task_stack (wr_sched demo_w6))) \<and>
    int (length (wr_exec demo_w6)) \<le> max 0 (wc_spawn_limit demo_cfg) \<and>
    list_all (\<lambda>t. length (wt_data t) \<le> INSERT_LIMIT)
      (sc_next_task_stack (wr_sched demo_w6) @ sc_error_task_stack (wr_sched demo_w6) @ wr_exec demo_w6)"
  by (rule writer_conserves_rows [OF bounded_query_law demo_reach demo_w6_facts(3)])

theorem writer_graceful_exit_witness:
  "wr_conn demo_w6 = [7] \<and> sc_error_task_stack (wr_sched demo_w6) = [] \<and> wr_exec demo_w6 = [] \<and>
    (\<exists>recvd rest g. wr_sent demo_w6 = recvd @ rest \<and> Exit g \<in> set recvd \<and>
       mset (wr_conn demo_w6) = mset [] + mset (concat (map sent_rows recvd)))"
  using writer_graceful_exit [OF bounded_query_law demo_reach demo_w6_facts(3,4)] demo_w6_facts(5) by blast

end
