(* ===== verification/Persist.thy ===== *)
theory Persist
  imports Engine Producer DbWriter
begin

text \<open>
  The persistors: \<^verbatim>\<open>src/message/mod.rs\<close> (messages and the bounded channel to the producer
  threads), \<^verbatim>\<open>src/matchengine/history.rs\<close> (rows for the history tables) and
  \<^verbatim>\<open>src/matchengine/persist/persistor.rs\<close> (the implementations of \<^verbatim>\<open>PersistExector\<close>). The engine
  model records the calls it makes; here they are carried out.

  The serialisation by \<^verbatim>\<open>serde_json\<close> and the seconds of a \<^verbatim>\<open>chrono\<close> time stamp are parameters,
  the record \<open>S\<close>.
\<close>

section \<open>Messages\<close>

record balance_message =
  bmsg_timestamp :: rat
  bmsg_user_id :: uuid
  bmsg_business_id :: u64
  bmsg_asset :: string
  bmsg_business :: string
  bmsg_market_price :: string
  bmsg_change :: string
  bmsg_balance :: string
  bmsg_balance_available :: string
  bmsg_balance_frozen :: string
  bmsg_detail :: string

text \<open>\<^verbatim>\<open>DepositMessage\<close> and \<^verbatim>\<open>WithdrawMessage\<close> have the same fields.\<close>

record transfer_message =
  tmsg_timestamp :: rat
  tmsg_user_id :: uuid
  tmsg_asset :: string
  tmsg_business :: string
  tmsg_change :: string
  tmsg_balance :: string
  tmsg_balance_available :: string
  tmsg_balance_frozen :: string
  tmsg_detail :: string

record order_message =
  omsg_event :: OrderEventType
  omsg_order :: order
  omsg_base :: string
  omsg_quote :: string

datatype message =
    BalanceMessage balance_message
  | DepositMessage balance_message
  | OrderMessage order_message
  | TradeMessage trade
  | WithdrawMessage balance_message

record serde =
  db_seconds :: "timestamp \<Rightarrow> rat"
  ser_order :: "order_message \<Rightarrow> string"
  ser_trade :: "trade \<Rightarrow> string"
  ser_balance :: "balance_message \<Rightarrow> string"
  ser_transfer :: "transfer_message \<Rightarrow> string"
  ser_message :: "message \<Rightarrow> string"

text \<open>The user identifier of a history row is parsed back; an unparsable one panics.\<close>

definition balance_message_of :: "env \<Rightarrow> serde \<Rightarrow> balance_history \<Rightarrow> balance_message option" where
  "balance_message_of E S b = do {
     u \<leftarrow> uuid_parse E (bh_user_id b);
     Some \<lparr>bmsg_timestamp = db_seconds S (bh_time b), bmsg_user_id = u,
           bmsg_business_id = bh_business_id b, bmsg_asset = bh_asset b, bmsg_business = bh_business b,
           bmsg_market_price = dec_to_string E (bh_market_price b),
           bmsg_change = dec_to_string E (bh_change b), bmsg_balance = dec_to_string E (bh_balance b),
           bmsg_balance_available = dec_to_string E (bh_balance_available b),
           bmsg_balance_frozen = dec_to_string E (bh_balance_frozen b), bmsg_detail = bh_detail b\<rparr> }"

definition deposit_message_of :: "env \<Rightarrow> serde \<Rightarrow> balance_history \<Rightarrow> transfer_message option" where
  "deposit_message_of E S b = do {
     u \<leftarrow> uuid_parse E (bh_user_id b);
     Some \<lparr>tmsg_timestamp = db_seconds S (bh_time b), tmsg_user_id = u, tmsg_asset = bh_asset b,
           tmsg_business = bh_business b, tmsg_change = dec_to_string E (bh_change b),
           tmsg_balance = dec_to_string E (bh_balance b),
           tmsg_balance_available = dec_to_string E (bh_balance_available b),
           tmsg_balance_frozen = dec_to_string E (bh_balance_frozen b), tmsg_detail = bh_detail b\<rparr> }"

definition withdraw_message_of :: "env \<Rightarrow> serde \<Rightarrow> balance_history \<Rightarrow> transfer_message option" where
  "withdraw_message_of E S b = do {
     u \<leftarrow> uuid_parse E (bh_user_id b);
     Some \<lparr>tmsg_timestamp = db_seconds S (bh_time b), tmsg_user_id = u, tmsg_asset = bh_asset b,
           tmsg_business = bh_business b, tmsg_change = dec_to_string E (bh_change b),
           tmsg_balance = dec_to_string E (bh_balance b),
           tmsg_balance_available = dec_to_string E (bh_balance_available b),
           tmsg_balance_frozen = dec_to_string E (bh_balance_frozen b), tmsg_detail = bh_detail b\<rparr> }"

definition from_order :: "order \<Rightarrow> OrderEventType \<Rightarrow> order_message" where
  "from_order o' at_step = \<lparr>omsg_event = at_step, omsg_order = o', omsg_base = o_base o',
     omsg_quote = o_quote o'\<rparr>"

section \<open>The channel to a producer thread\<close>

text \<open>The queue, its capacity, and whether the producer thread still holds the receiver.\<close>

record rd_producer_stub =
  rd_sender :: "(string \<times> string) list"
  rd_capacity :: nat
  rd_connected :: bool

definition rd_new_and_run :: rd_producer_stub where
  "rd_new_and_run = \<lparr>rd_sender = [], rd_capacity = 2048, rd_connected = True\<rparr>"

text \<open>\<^verbatim>\<open>try_send(..).unwrap()\<close> panics when the channel is full or its receiver is gone.\<close>

definition push_message_and_topic :: "string \<Rightarrow> string \<Rightarrow> rd_producer_stub \<Rightarrow> rd_producer_stub option" where
  "push_message_and_topic msg topic_name r =
     (if rd_connected r \<and> length (rd_sender r) < rd_capacity r then Some (r\<lparr>rd_sender := rd_sender r @ [(topic_name, msg)]\<rparr>)
      else None)"

definition rd_is_block :: "rd_producer_stub \<Rightarrow> bool" where
  "rd_is_block r \<longleftrightarrow> length (rd_sender r) \<ge> rd_capacity r - 1000"

definition push_order_message :: "serde \<Rightarrow> order_message \<Rightarrow> rd_producer_stub \<Rightarrow> rd_producer_stub option" where
  "push_order_message S m r = push_message_and_topic (ser_order S m) ORDERS_TOPIC r"

definition push_trade_message :: "serde \<Rightarrow> trade \<Rightarrow> rd_producer_stub \<Rightarrow> rd_producer_stub option" where
  "push_trade_message S m r = push_message_and_topic (ser_trade S m) TRADES_TOPIC r"

definition push_balance_message :: "serde \<Rightarrow> balance_message \<Rightarrow> rd_producer_stub \<Rightarrow> rd_producer_stub option" where
  "push_balance_message S m r = push_message_and_topic (ser_balance S m) BALANCES_TOPIC r"

definition push_deposit_message :: "serde \<Rightarrow> transfer_message \<Rightarrow> rd_producer_stub \<Rightarrow> rd_producer_stub option" where
  "push_deposit_message S m r = push_message_and_topic (ser_transfer S m) DEPOSITS_TOPIC r"

definition push_withdraw_message :: "serde \<Rightarrow> transfer_message \<Rightarrow> rd_producer_stub \<Rightarrow> rd_producer_stub option" where
  "push_withdraw_message S m r = push_message_and_topic (ser_transfer S m) WITHDRAWS_TOPIC r"

section \<open>History rows\<close>

definition order_history_of :: "env \<Rightarrow> order \<Rightarrow> order_history" where
  "order_history_of E o' = \<lparr>
     oh_id = o_id o', oh_create_time = ftimestamp_to_db E (o_create_time o'),
     oh_finish_time = ftimestamp_to_db E (o_update_time o'),
     oh_status = (if o_remain o' = 0 then Filled else Cancelled),
     oh_user_id = uuid_to_string E (o_user o'), oh_market = o_market o', oh_order_type = o_type o',
     oh_order_side = o_side o', oh_price = o_price o', oh_amount = o_amount o',
     oh_taker_fee = o_taker_fee o', oh_maker_fee = o_maker_fee o',
     oh_finished_base = o_finished_base o', oh_finished_quote = o_finished_quote o',
     oh_finished_fee = o_finished_fee o', oh_post_only = o_post_only o'\<rparr>"

definition ask_user_trade :: "env \<Rightarrow> trade \<Rightarrow> user_trade" where
  "ask_user_trade E t = \<lparr>
     ut_time = ftimestamp_to_db E (t_timestamp t), ut_user_id = uuid_to_string E (t_ask_user_id t),
     ut_market = t_market t, ut_trade_id = t_id t, ut_order_id = t_ask_order_id t,
     ut_counter_order_id = t_bid_order_id t, ut_side = order_side_i16 ASK,
     ut_role = market_role_i16 (t_ask_role t), ut_price = t_price t, ut_amount = t_amount t,
     ut_quote_amount = t_quote_amount t, ut_fee = t_ask_fee t, ut_counter_order_fee = t_bid_fee t\<rparr>"

definition bid_user_trade :: "env \<Rightarrow> trade \<Rightarrow> user_trade" where
  "bid_user_trade E t = \<lparr>
     ut_time = ftimestamp_to_db E (t_timestamp t), ut_user_id = uuid_to_string E (t_bid_user_id t),
     ut_market = t_market t, ut_trade_id = t_id t, ut_order_id = t_bid_order_id t,
     ut_counter_order_id = t_ask_order_id t, ut_side = order_side_i16 BID,
     ut_role = market_role_i16 (t_bid_role t), ut_price = t_price t, ut_amount = t_amount t,
     ut_quote_amount = t_quote_amount t, ut_fee = t_bid_fee t, ut_counter_order_fee = t_ask_fee t\<rparr>"

record 'c history_writer =
  hw_config :: writer_config
  hw_balance_writer :: "(balance_history, 'c) writer"
  hw_trade_writer :: "(user_trade, 'c) writer"
  hw_order_writer :: "(order_history, 'c) writer"

definition history_writer_new :: "writer_config \<Rightarrow> 'c \<Rightarrow> 'c history_writer" where
  "history_writer_new cfg pool = \<lparr>hw_config = cfg, hw_balance_writer = start_schedule pool,
     hw_trade_writer = start_schedule pool, hw_order_writer = start_schedule pool\<rparr>"

definition hw_is_block :: "'c history_writer \<Rightarrow> bool" where
  "hw_is_block h \<longleftrightarrow> writer_is_block (hw_config h) (hw_balance_writer h) \<or>
     writer_is_block (hw_config h) (hw_trade_writer h) \<or> writer_is_block (hw_config h) (hw_order_writer h)"

text \<open>The outcome of an append is discarded (\<^verbatim>\<open>.ok()\<close>).\<close>

definition append_balance_history :: "balance_history \<Rightarrow> 'c history_writer \<Rightarrow> 'c history_writer" where
  "append_balance_history d h = h\<lparr>hw_balance_writer := fst (writer_append d (hw_balance_writer h))\<rparr>"

definition append_order_history :: "env \<Rightarrow> order \<Rightarrow> 'c history_writer \<Rightarrow> 'c history_writer" where
  "append_order_history E o' h =
     h\<lparr>hw_order_writer := fst (writer_append (order_history_of E o') (hw_order_writer h))\<rparr>"

definition append_expired_order_history :: "env \<Rightarrow> order \<Rightarrow> 'c history_writer \<Rightarrow> 'c history_writer" where
  "append_expired_order_history E o' h =
     h\<lparr>hw_order_writer := fst (writer_append ((order_history_of E o')\<lparr>oh_status := Expired\<rparr>) (hw_order_writer h))\<rparr>"

definition append_pair_user_trade :: "env \<Rightarrow> trade \<Rightarrow> 'c history_writer \<Rightarrow> 'c history_writer" where
  "append_pair_user_trade E t h =
     (let w = fst (writer_append (ask_user_trade E t) (hw_trade_writer h));
          w = fst (writer_append (bid_user_trade E t) w)
      in h\<lparr>hw_trade_writer := w\<rparr>)"

section \<open>Persistors\<close>

datatype 'c persistor =
    DummyPersistor
  | MemBasedPersistor "message list"
  | FileBasedPersistor string
  | MessengerBasedPersistor rd_producer_stub
  | DBBasedPersistor "'c history_writer"
  | CompositePersistor "'c persistor list"

definition message_of :: "env \<Rightarrow> serde \<Rightarrow> persist_call \<Rightarrow> message option" where
  "message_of E S c =
     (case c of
        PutOrder o' at_step \<Rightarrow> Some (OrderMessage (from_order o' at_step))
      | PutTrade t \<Rightarrow> Some (TradeMessage t)
      | PutBalance b \<Rightarrow> map_option BalanceMessage (balance_message_of E S b)
      | PutDeposit b \<Rightarrow> map_option DepositMessage (balance_message_of E S b)
      | PutWithdraw b \<Rightarrow> map_option WithdrawMessage (balance_message_of E S b))"

definition mem_put :: "env \<Rightarrow> serde \<Rightarrow> persist_call \<Rightarrow> message list \<Rightarrow> message list option" where
  "mem_put E S c ms = map_option (\<lambda>m. ms @ [m]) (message_of E S c)"

definition write_msg :: "serde \<Rightarrow> message \<Rightarrow> string \<Rightarrow> string" where
  "write_msg S m output_file = output_file @ ser_message S m @ [CHR 0x0A]"

definition file_put :: "env \<Rightarrow> serde \<Rightarrow> persist_call \<Rightarrow> string \<Rightarrow> string option" where
  "file_put E S c f = map_option (\<lambda>m. write_msg S m f) (message_of E S c)"

definition messenger_put :: "env \<Rightarrow> serde \<Rightarrow> persist_call \<Rightarrow> rd_producer_stub \<Rightarrow> rd_producer_stub option" where
  "messenger_put E S c r =
     (case c of
        PutBalance b \<Rightarrow> do { m \<leftarrow> balance_message_of E S b; push_balance_message S m r }
      | PutDeposit b \<Rightarrow> do { m \<leftarrow> deposit_message_of E S b; push_deposit_message S m r }
      | PutWithdraw b \<Rightarrow> do { m \<leftarrow> withdraw_message_of E S b; push_withdraw_message S m r }
      | PutOrder o' at_step \<Rightarrow> push_order_message S (from_order o' at_step) r
      | PutTrade t \<Rightarrow> push_trade_message S t r)"

definition db_put :: "env \<Rightarrow> persist_call \<Rightarrow> 'c history_writer \<Rightarrow> 'c history_writer" where
  "db_put E c h =
     (case c of
        PutBalance b \<Rightarrow> append_balance_history b h
      | PutDeposit b \<Rightarrow> h
      | PutWithdraw b \<Rightarrow> h
      | PutOrder o' at_step \<Rightarrow>
          (case at_step of
             FINISH \<Rightarrow> append_order_history E o' h
           | EXPIRED \<Rightarrow> append_expired_order_history E o' h
           | PUT \<Rightarrow> h
           | _ \<Rightarrow> h)
      | PutTrade t \<Rightarrow> append_pair_user_trade E t h)"

fun persist :: "env \<Rightarrow> serde \<Rightarrow> persist_call \<Rightarrow> 'c persistor \<Rightarrow> 'c persistor option"
  and persist_list :: "env \<Rightarrow> serde \<Rightarrow> persist_call \<Rightarrow> 'c persistor list \<Rightarrow> 'c persistor list option" where
  "persist E S c DummyPersistor = Some DummyPersistor"
| "persist E S c (MemBasedPersistor ms) = map_option MemBasedPersistor (mem_put E S c ms)"
| "persist E S c (FileBasedPersistor f) = map_option FileBasedPersistor (file_put E S c f)"
| "persist E S c (MessengerBasedPersistor r) = map_option MessengerBasedPersistor (messenger_put E S c r)"
| "persist E S c (DBBasedPersistor h) = Some (DBBasedPersistor (db_put E c h))"
| "persist E S c (CompositePersistor ps) = map_option CompositePersistor (persist_list E S c ps)"
| "persist_list E S c [] = Some []"
| "persist_list E S c (p # ps) = do { p' \<leftarrow> persist E S c p; ps' \<leftarrow> persist_list E S c ps; Some (p' # ps') }"

fun service_available :: "'c persistor \<Rightarrow> bool"
  and services_available :: "'c persistor list \<Rightarrow> bool" where
  "service_available DummyPersistor = True"
| "service_available (MemBasedPersistor ms) = True"
| "service_available (FileBasedPersistor f) = True"
| "service_available (MessengerBasedPersistor r) = (\<not> rd_is_block r)"
| "service_available (DBBasedPersistor h) = (\<not> hw_is_block h)"
| "service_available (CompositePersistor ps) = services_available ps"
| "services_available [] = True"
| "services_available (p # ps) = (if \<not> service_available p then False else services_available ps)"

definition real_persist :: "'c persistor \<Rightarrow> bool" where
  "real_persist p = (case p of DummyPersistor \<Rightarrow> False | _ \<Rightarrow> True)"

definition add_persistor :: "'c persistor \<Rightarrow> 'c persistor list \<Rightarrow> 'c persistor list" where
  "add_persistor p ps = ps @ [p]"

text \<open>A sequence of calls, oldest first.\<close>

fun persist_all :: "env \<Rightarrow> serde \<Rightarrow> persist_call list \<Rightarrow> 'c persistor \<Rightarrow> 'c persistor option" where
  "persist_all E S [] p = Some p"
| "persist_all E S (c # cs) p = do { p' \<leftarrow> persist E S c p; persist_all E S cs p' }"

section \<open>The contract of a persistor\<close>

text \<open>
  What the controller relies on when it checks \<^verbatim>\<open>service_available\<close> before an operation: a
  persistor that is available has room for a thousand calls, and a call with room succeeds
  and uses up one place.
\<close>

locale persist_exector =
  fixes available :: "'p \<Rightarrow> bool"
    and put :: "persist_call \<Rightarrow> 'p \<Rightarrow> 'p option"
    and room :: "nat \<Rightarrow> 'p \<Rightarrow> bool"
    and ok :: "persist_call \<Rightarrow> bool"
  assumes available_room: "available p \<Longrightarrow> room 1000 p"
    and put_room: "room (Suc n) p \<Longrightarrow> ok c \<Longrightarrow> \<exists>p'. put c p = Some p' \<and> room n p'"
    and room_mono: "room n p \<Longrightarrow> m \<le> n \<Longrightarrow> room m p"
begin

fun put_all :: "persist_call list \<Rightarrow> 'p \<Rightarrow> 'p option" where
  "put_all [] p = Some p"
| "put_all (c # cs) p = do { p' \<leftarrow> put c p; put_all cs p' }"

lemma put_all_room:
  "room (length cs + n) p \<Longrightarrow> list_all ok cs \<Longrightarrow> \<exists>p'. put_all cs p = Some p' \<and> room n p'"
proof (induction cs arbitrary: p)
  case (Cons c cs)
  from Cons.prems put_room [of "length cs + n" p c] obtain p'
    where "put c p = Some p'" "room (length cs + n) p'" by auto
  with Cons.IH [of p'] Cons.prems show ?case by simp
qed simp

lemma available_put_all:
  assumes "available p" and "length cs \<le> 1000" and "list_all ok cs"
  shows "\<exists>p'. put_all cs p = Some p'"
  using put_all_room [of cs "1000 - length cs" p] available_room [OF assms(1)] assms(2,3) by auto

end

text \<open>Every producer thread below a persistor still holds its receiver.\<close>

fun connected :: "'c persistor \<Rightarrow> bool" and all_connected :: "'c persistor list \<Rightarrow> bool" where
  "connected (MessengerBasedPersistor r) = rd_connected r"
| "connected (CompositePersistor ps) = all_connected ps"
| "connected _ = True"
| "all_connected [] = True"
| "all_connected (p # ps) = (connected p \<and> all_connected ps)"

fun can_take :: "nat \<Rightarrow> 'c persistor \<Rightarrow> bool"
  and can_take_list :: "nat \<Rightarrow> 'c persistor list \<Rightarrow> bool" where
  "can_take n DummyPersistor = True"
| "can_take n (MemBasedPersistor ms) = True"
| "can_take n (FileBasedPersistor f) = True"
| "can_take n (MessengerBasedPersistor r) = (rd_connected r \<and> length (rd_sender r) + n \<le> rd_capacity r)"
| "can_take n (DBBasedPersistor h) = True"
| "can_take n (CompositePersistor ps) = can_take_list n ps"
| "can_take_list n [] = True"
| "can_take_list n (p # ps) = (can_take n p \<and> can_take_list n ps)"

fun call_ok :: "env \<Rightarrow> persist_call \<Rightarrow> bool" where
  "call_ok E (PutBalance b) = (uuid_parse E (bh_user_id b) \<noteq> None)"
| "call_ok E (PutDeposit b) = (uuid_parse E (bh_user_id b) \<noteq> None)"
| "call_ok E (PutWithdraw b) = (uuid_parse E (bh_user_id b) \<noteq> None)"
| "call_ok E (PutOrder o' e) = True"
| "call_ok E (PutTrade t) = True"

lemma message_of_ok: "call_ok E c \<Longrightarrow> \<exists>m. message_of E S c = Some m"
  by (cases c) (auto simp: message_of_def balance_message_of_def)

lemma messenger_put_room:
  assumes "rd_connected r" and "length (rd_sender r) + Suc n \<le> rd_capacity r" and "call_ok E c"
  shows "\<exists>r'. messenger_put E S c r = Some r' \<and> rd_connected r' \<and> length (rd_sender r') + n \<le> rd_capacity r'"
  using assms
  by (cases c)
    (auto simp: messenger_put_def balance_message_of_def deposit_message_of_def withdraw_message_of_def
      push_order_message_def push_trade_message_def push_balance_message_def push_deposit_message_def
      push_withdraw_message_def push_message_and_topic_def)

lemma persist_room:
  fixes p :: "'c persistor" and ps :: "'c persistor list"
  shows "can_take (Suc n) p \<Longrightarrow> call_ok E c \<Longrightarrow> \<exists>p'. persist E S c p = Some p' \<and> can_take n p'"
    and "can_take_list (Suc n) ps \<Longrightarrow> call_ok E c \<Longrightarrow> \<exists>ps'. persist_list E S c ps = Some ps' \<and> can_take_list n ps'"
proof (induction E S c p and E S c ps rule: persist_persist_list.induct)
  case (2 E S c ms)
  then show ?case using message_of_ok [of E c S] by (auto simp: mem_put_def)
next
  case (3 E S c f)
  then show ?case using message_of_ok [of E c S] by (auto simp: file_put_def)
next
  case (4 E S c r)
  then show ?case using messenger_put_room [of r n E c S] by auto
qed fastforce+

lemma service_available_take:
  fixes p :: "'c persistor" and ps :: "'c persistor list"
  shows "service_available p \<Longrightarrow> connected p \<Longrightarrow> can_take 1000 p"
    and "services_available ps \<Longrightarrow> all_connected ps \<Longrightarrow> can_take_list 1000 ps"
  by (induction p and ps rule: service_available_services_available.induct)
    (auto simp: rd_is_block_def split: if_splits)

lemma can_take_mono:
  fixes p :: "'c persistor" and ps :: "'c persistor list"
  shows "can_take n p \<Longrightarrow> m \<le> n \<Longrightarrow> can_take m p" and "can_take_list n ps \<Longrightarrow> m \<le> n \<Longrightarrow> can_take_list m ps"
  by (induction n p and n ps rule: can_take_can_take_list.induct) auto

interpretation px: persist_exector "\<lambda>p. service_available p \<and> connected p" "persist E S" can_take "call_ok E" for E S
  by unfold_locales (simp_all add: service_available_take persist_room can_take_mono)

lemma persist_all_put_all: "persist_all E S cs = px.put_all E S cs"
proof (induction cs)
  case (Cons c cs)
  show ?case by (rule ext) (simp add: Cons)
qed (simp add: fun_eq_iff)

text \<open>
  An available persistor whose producer threads live takes a thousand calls without a panic, whatever it is
  built from: the check that the controller makes before an operation leaves room for the
  records of an operation that makes at most a thousand calls.
\<close>

theorem available_persistor_accepts:
  assumes "service_available p" and "connected p" and "length cs \<le> 1000" and "list_all (call_ok E) cs"
  shows "\<exists>p'. persist_all E S cs p = Some p'"
  using px.available_put_all [OF conjI [OF assms(1,2)] assms(3,4)] by (simp add: persist_all_put_all)

definition demo_serde :: serde where
  "demo_serde = \<lparr>db_seconds = (\<lambda>t. of_int \<lfloor>t\<rfloor>), ser_order = (\<lambda>m. ''order''), ser_trade = (\<lambda>m. ''trade''),
     ser_balance = (\<lambda>m. ''balance''), ser_transfer = (\<lambda>m. ''transfer''), ser_message = (\<lambda>m. ''message'')\<rparr>"

definition demo_history :: balance_history where
  "demo_history = \<lparr>bh_time = 5, bh_user_id = ''1'', bh_business_id = 3, bh_asset = ''ETH'',
     bh_business = ''deposit'', bh_market_price = 0, bh_change = 2, bh_balance = 2,
     bh_balance_available = 2, bh_balance_frozen = 0, bh_detail = ''null''\<rparr>"

definition demo_persistor :: "unit persistor" where
  "demo_persistor = CompositePersistor [MessengerBasedPersistor rd_new_and_run, MemBasedPersistor []]"

theorem available_persistor_accepts_witness:
  "service_available demo_persistor \<and>
   (\<exists>p'. persist_all ref_env demo_serde [PutBalance demo_history, PutDeposit demo_history] demo_persistor = Some p')"
proof -
  have "service_available demo_persistor" "connected demo_persistor"
    by (simp_all add: demo_persistor_def rd_new_and_run_def rd_is_block_def)
  moreover have "list_all (call_ok ref_env) [PutBalance demo_history, PutDeposit demo_history]"
    by (simp add: ref_env_def)
  ultimately show ?thesis
    using available_persistor_accepts [of demo_persistor "[PutBalance demo_history, PutDeposit demo_history]" ref_env demo_serde]
    by simp
qed

section \<open>What each persistor does with a sequence of calls\<close>

fun collect :: "'a option list \<Rightarrow> 'a list option" where
  "collect [] = Some []"
| "collect (x # xs) = do { y \<leftarrow> x; ys \<leftarrow> collect xs; Some (y # ys) }"

lemma persist_list_collect: "persist_list E S c ps = collect (map (persist E S c) ps)"
  by (induction ps) simp_all

lemma collect_map_bind:
  "collect (map f xs) \<bind> (\<lambda>ys. collect (map g ys)) = collect (map (\<lambda>x. f x \<bind> g) xs)"
proof (induction xs)
  case (Cons x xs)
  then show ?case by (cases "f x"; cases "collect (map f xs)"; cases "g (the (f x))") (auto simp flip: Cons)
qed simp

lemma persist_all_composite:
  "persist_all E S cs (CompositePersistor ps) =
     map_option CompositePersistor (collect (map (persist_all E S cs) ps))"
proof (induction cs arbitrary: ps)
  case Nil
  have "collect (map Some ps) = Some ps" by (induction ps) simp_all
  then show ?case by simp
next
  case (Cons c cs)
  have "persist_all E S (c # cs) (CompositePersistor ps) =
      collect (map (persist E S c) ps) \<bind> (\<lambda>ps'. map_option CompositePersistor (collect (map (persist_all E S cs) ps')))"
    by (simp add: persist_list_collect Cons map_conv_bind_option)
  also have "\<dots> = map_option CompositePersistor (collect (map (\<lambda>p. persist E S c p \<bind> persist_all E S cs) ps))"
    by (simp add: map_conv_bind_option flip: collect_map_bind)
  finally show ?case by (simp cong: map_cong)
qed

text \<open>
  A composite persistor is equivalent to its parts run side by side: for every sequence of
  calls each part ends in the state it reaches when it is given the whole sequence alone, and
  the composite panics exactly when some part would.
\<close>

theorem composite_persistor_parts:
  "persist_all E S cs (CompositePersistor ps) =
     map_option CompositePersistor (collect (map (persist_all E S cs) ps))"
  by (rule persist_all_composite)

lemma persist_all_mem:
  "persist_all E S cs (MemBasedPersistor ms) =
     map_option (\<lambda>new. MemBasedPersistor (ms @ new)) (collect (map (message_of E S) cs))"
proof (induction cs arbitrary: ms)
  case (Cons c cs)
  then show ?case
    by (cases "message_of E S c"; cases "collect (map (message_of E S) cs)") (simp_all add: mem_put_def)
qed simp

lemma persist_all_file:
  "persist_all E S cs (FileBasedPersistor f) =
     map_option (\<lambda>new. FileBasedPersistor (f @ concat (map (\<lambda>m. ser_message S m @ [CHR 0x0A]) new)))
       (collect (map (message_of E S) cs))"
proof (induction cs arbitrary: f)
  case (Cons c cs)
  then show ?case
    by (cases "message_of E S c"; cases "collect (map (message_of E S) cs)")
      (simp_all add: file_put_def write_msg_def)
qed simp

text \<open>
  The memory and the file persistor record exactly the messages of the calls, one per call
  and in the order of the calls; the file holds one line per message.
\<close>

theorem mem_file_persistor_records:
  "persist_all E S cs (MemBasedPersistor ms) =
     map_option (\<lambda>new. MemBasedPersistor (ms @ new)) (collect (map (message_of E S) cs)) \<and>
   persist_all E S cs (FileBasedPersistor f) =
     map_option (\<lambda>new. FileBasedPersistor (f @ concat (map (\<lambda>m. ser_message S m @ [CHR 0x0A]) new)))
       (collect (map (message_of E S) cs))"
  by (simp add: persist_all_mem persist_all_file)

text \<open>
  A trade leaves two mirrored rows: with room for two messages, the writer of user trades
  is sent one row for each side, in the order ask, bid; both carry the trade's identifier,
  market, price and amounts, each names the other's order and fee as the counter order, and
  each belongs to its own user and side.
\<close>

theorem pair_user_trade_rows:
  assumes "wr_alive (hw_trade_writer h)" and "length (wr_chan (hw_trade_writer h)) + 2 \<le> CHANNEL_LIMIT"
  shows "\<exists>a b. wr_chan (hw_trade_writer (append_pair_user_trade E t h)) =
      wr_chan (hw_trade_writer h) @ [Data a None, Data b None] \<and>
    hw_balance_writer (append_pair_user_trade E t h) = hw_balance_writer h \<and>
    hw_order_writer (append_pair_user_trade E t h) = hw_order_writer h \<and>
    b = a\<lparr>ut_user_id := uuid_to_string E (t_bid_user_id t), ut_order_id := ut_counter_order_id a,
          ut_counter_order_id := ut_order_id a, ut_side := 1, ut_role := market_role_i16 (t_bid_role t),
          ut_fee := ut_counter_order_fee a, ut_counter_order_fee := ut_fee a\<rparr> \<and>
    ut_user_id a = uuid_to_string E (t_ask_user_id t) \<and> ut_order_id a = t_ask_order_id t \<and>
    ut_counter_order_id a = t_bid_order_id t \<and> ut_side a = 0 \<and> ut_trade_id a = t_id t \<and>
    ut_price a = t_price t \<and> ut_amount a = t_amount t \<and> ut_quote_amount a = t_quote_amount t \<and>
    ut_fee a = t_ask_fee t \<and> ut_counter_order_fee a = t_bid_fee t"
  using assms
  by (intro exI [of _ "ask_user_trade E t"] exI [of _ "bid_user_trade E t"])
    (simp add: append_pair_user_trade_def writer_append_def append_with_notify_def ask_user_trade_def
      bid_user_trade_def Let_def)

definition demo_hw :: "unit history_writer" where
  "demo_hw = history_writer_new demo_cfg ()"

definition demo_trade :: trade where
  "demo_trade = \<lparr>t_id = 1, t_timestamp = 2, t_market = ''ETH_USDT'', t_base = ''ETH'', t_quote = ''USDT'',
     t_price = 3, t_amount = 4, t_quote_amount = 12, t_ask_user_id = 5, t_ask_order_id = 6,
     t_ask_role = MAKER, t_ask_fee = 0, t_bid_user_id = 7, t_bid_order_id = 8, t_bid_role = TAKER,
     t_bid_fee = 0, t_ask_order = None, t_bid_order = None,
     t_state_before = \<lparr>vt_order_states = [], vt_balance_states = []\<rparr>,
     t_state_after = \<lparr>vt_order_states = [], vt_balance_states = []\<rparr>\<rparr>"

theorem pair_user_trade_rows_witness:
  "\<exists>a b. wr_chan (hw_trade_writer (append_pair_user_trade ref_env demo_trade demo_hw)) =
     [Data a None, Data b None] \<and> ut_order_id a = 6 \<and> ut_order_id b = 8"
  using pair_user_trade_rows [of demo_hw ref_env demo_trade]
  by (auto simp: demo_hw_def history_writer_new_def start_schedule_def CHANNEL_LIMIT_def demo_trade_def)

end
