(* ===== verification/EngineCalls.thy ===== *)
theory EngineCalls
  imports MarketCancel Persist
begin

text \<open>
  What the engine hands to its persistor: how many records an operation of a market makes, and that
  every one of them can be turned into a message. Together with the contract of the persistors
  this shows that an operation admitted by \<^verbatim>\<open>check_service_available\<close> does not overrun the channel.
\<close>

section \<open>Growth of the calls\<close>

text \<open>At most \<open>n\<close> calls were added, all of them acceptable to a persistor.\<close>

definition adds_calls :: "env \<Rightarrow> nat \<Rightarrow> ctx \<Rightarrow> ctx \<Rightarrow> bool" where
  "adds_calls E n cx cx' \<longleftrightarrow>
     (\<exists>cs. cx_calls cx' = cx_calls cx @ cs \<and> length cs \<le> n \<and> list_all (call_ok E) cs)"

lemma adds_calls_trans: "adds_calls E n cx cx1 \<Longrightarrow> adds_calls E k cx1 cx2 \<Longrightarrow> adds_calls E (n + k) cx cx2"
  unfolding adds_calls_def by (elim exE conjE) (rule exI, auto)

lemma adds_calls_mono: "adds_calls E n cx cx' \<Longrightarrow> n \<le> k \<Longrightarrow> adds_calls E k cx cx'"
  by (auto simp: adds_calls_def)

lemma adds_calls_same: "cx_calls cx' = cx_calls cx \<Longrightarrow> adds_calls E n cx cx'"
  by (simp add: adds_calls_def)

lemma adds_calls_from: "adds_calls E n cx0 cx' \<Longrightarrow> cx_calls cx0 = cx_calls cx \<Longrightarrow> adds_calls E n cx cx'"
  by (simp add: adds_calls_def)

lemma adds_calls_emit: "call_ok E c \<Longrightarrow> adds_calls E 1 cx (emit c cx)"
  by (simp add: adds_calls_def)

text \<open>A balance update records one row, and a second one for a deposit or a withdrawal.\<close>

lemma update_user_balance_calls:
  assumes E: "env_laws E" and upd: "update_user_balance E p cx = Some (cx', res)"
  shows "adds_calls E (if up_business_type p = Trade then 1 else 2) cx cx'"
  using upd
  by (auto simp: update_user_balance_def persist_balance_update_def read_clock_def Let_def adds_calls_def env_uuid [OF E]
      split: if_splits Option.bind_splits BusinessType.splits)

lemma update_unwrap_calls:
  assumes E: "env_laws E" and upd: "update_unwrap E (trade_params t u a i p x) cx = Some cx'"
  shows "adds_calls E 1 cx cx'"
proof -
  from upd obtain r where "update_user_balance E (trade_params t u a i p x) cx = Some (cx', r)"
    by (auto simp: update_unwrap_def split: option.splits sum.splits)
  from update_user_balance_calls [OF E this] show ?thesis by (simp add: trade_params_def)
qed

lemma settle_trade_calls:
  assumes E: "env_laws E" and run: "settle_trade E m tk au bu i x y af bf cx = Some cx'"
  shows "adds_calls E 4 cx cx'"
proof -
  from run obtain cx1 cx2 cx3 where
    "adds_calls E 1 cx cx1" "adds_calls E 1 cx1 cx2" "adds_calls E 1 cx2 cx3" "adds_calls E 1 cx3 cx'"
    by (auto simp: settle_trade_def Let_def split: Option.bind_splits dest!: update_unwrap_calls [OF E])
  then have "adds_calls E (1 + 1 + 1 + 1) cx cx'" by (blast intro: adds_calls_trans)
  then show ?thesis by (rule adds_calls_mono) simp
qed

section \<open>Orders\<close>

text \<open>A trade makes six calls: four balances, the trade, and the maker, at once or when it is finished.\<close>

lemma exec_trade_calls:
  assumes E: "env_laws E" and run: "exec_trade E r x ms = Some ms'"
  shows "\<exists>k. adds_calls E k (ms_cx ms) (ms_cx ms') \<and> k + length (ms_finished ms') \<le> length (ms_finished ms) + 6"
proof -
  let ?cx = "ms_cx ms"
  from run obtain m tk au bu i y af bf cx0 cx1 tr mk where
    settle: "settle_trade E m tk au bu i x y af bf cx0 = Some cx1" and cx0: "cx_calls cx0 = cx_calls ?cx" and
    ms': "o_remain mk = 0 \<and> ms_cx ms' = emit (PutTrade tr) cx1 \<and> ms_finished ms' = ms_finished ms @ [mk] \<or>
      ms_cx ms' = emit (PutOrder mk UPDATE) (emit (PutTrade tr) cx1) \<and> ms_finished ms' = ms_finished ms"
    unfolding exec_trade_def Let_def read_clock_def next_trade_id_def
    by (auto split: Option.bind_splits prod.splits if_splits)
  have c1: "adds_calls E 4 ?cx cx1" by (rule adds_calls_from [OF settle_trade_calls [OF E settle] cx0])
  have c2: "adds_calls E (4 + 1) ?cx (emit (PutTrade tr) cx1)"
    by (rule adds_calls_trans [OF c1 adds_calls_emit]) simp
  have c3: "adds_calls E (4 + 1 + 1) ?cx (emit (PutOrder mk UPDATE) (emit (PutTrade tr) cx1))"
    by (rule adds_calls_trans [OF c2 adds_calls_emit]) simp
  from ms' show ?thesis
  proof (elim disjE conjE)
    assume "ms_cx ms' = emit (PutTrade tr) cx1" "ms_finished ms' = ms_finished ms @ [mk]"
    with c2 show ?thesis by (intro exI [of _ "4 + 1"]) simp
  next
    assume "ms_cx ms' = emit (PutOrder mk UPDATE) (emit (PutTrade tr) cx1)" "ms_finished ms' = ms_finished ms"
    with c3 show ?thesis by (intro exI [of _ "4 + 1 + 1"]) simp
  qed
qed

lemma match_step_calls:
  assumes E: "env_laws E" and run: "match_step E ql r ms = Some (go, ms')"
  shows "\<exists>k. adds_calls E k (ms_cx ms) (ms_cx ms') \<and> k + length (ms_finished ms') \<le> length (ms_finished ms) + 6"
proof -
  have "ms_cx ms' = ms_cx ms \<and> ms_finished ms' = ms_finished ms \<or> (\<exists>x. exec_trade E r x ms = Some ms')"
    using run by (auto simp: match_step_def Let_def split: if_splits Option.bind_splits flow.splits prod.splits)
  then show ?thesis
  proof (elim disjE conjE exE)
    assume "ms_cx ms' = ms_cx ms" "ms_finished ms' = ms_finished ms"
    then show ?thesis by (intro exI [of _ 0]) (simp add: adds_calls_same)
  qed (rule exec_trade_calls [OF E])
qed

lemma match_loop_calls:
  assumes E: "env_laws E"
  shows "match_loop E ql rs ms = Some ms' \<Longrightarrow>
    \<exists>k. adds_calls E k (ms_cx ms) (ms_cx ms') \<and> k + length (ms_finished ms') \<le> length (ms_finished ms) + 6 * length rs"
proof (induction rs arbitrary: ms)
  case (Cons r rs)
  from Cons.prems obtain go ms1 where step: "match_step E ql r ms = Some (go, ms1)" and
    rest: "(if go then match_loop E ql rs ms1 else Some ms1) = Some ms'"
    by (auto split: Option.bind_splits)
  from match_step_calls [OF E step] obtain k where
    k: "adds_calls E k (ms_cx ms) (ms_cx ms1)" "k + length (ms_finished ms1) \<le> length (ms_finished ms) + 6" by blast
  show ?case
  proof (cases go)
    case True
    with rest Cons.IH [of ms1] obtain j where
      j: "adds_calls E j (ms_cx ms1) (ms_cx ms')" "j + length (ms_finished ms') \<le> length (ms_finished ms1) + 6 * length rs" by auto
    with k adds_calls_trans [OF k(1) j(1)] show ?thesis by (intro exI [of _ "k + j"]) simp
  next
    case False
    with rest k show ?thesis by (intro exI [of _ k]) simp
  qed
qed (auto intro: exI [of _ 0] adds_calls_same)

lemma order_finish_calls:
  assumes "order_finish E x (m, cx) = Some (m', cx')"
  shows "adds_calls E 1 cx cx'"
  using assms
  by (auto simp: order_finish_def unfrozen_balance_def Let_def adds_calls_def split: Option.bind_splits if_splits)

lemma order_finish_all_calls:
  "order_finish_all E fs (m, cx) = Some (m', cx') \<Longrightarrow> adds_calls E (length fs) cx cx'"
proof (induction fs arbitrary: m cx)
  case (Cons x fs)
  from Cons.prems obtain m1 cx1 where fin: "order_finish E x (m, cx) = Some (m1, cx1)" and
    rest: "order_finish_all E fs (m1, cx1) = Some (m', cx')" by (auto split: Option.bind_splits)
  from adds_calls_trans [OF order_finish_calls [OF fin] Cons.IH [OF rest]] show ?case by simp
qed (simp add: adds_calls_same)

lemma execute_order_calls:
  assumes E: "env_laws E" and run: "execute_order E x ql m cx = Some (m', cx', x')"
  shows "adds_calls E (6 * length (counter_orders m (o_side x)) + 2) cx cx'"
proof -
  let ?ms = "\<lparr>ms_market = m, ms_cx = emit (PutOrder x PUT) cx, ms_taker = x, ms_quote_sum = 0, ms_finished = [], ms_need_cancel = False\<rparr>"
  from run obtain ms m1 cx1 where loop: "match_loop E ql (counter_orders m (o_side x)) ?ms = Some ms" and
    fin: "order_finish_all E (ms_finished ms) (ms_market ms, ms_cx ms) = Some (m1, cx1)" and
    tail: "cx' = emit (PutOrder (ms_taker ms) FINISH) cx1 \<or> cx_calls cx' = cx_calls cx1"
    by (auto simp: execute_order_def frozen_balance_def Let_def split: Option.bind_splits if_splits prod.splits)
  from match_loop_calls [OF E loop] obtain k where
    k: "adds_calls E k (emit (PutOrder x PUT) cx) (ms_cx ms)" "k + length (ms_finished ms) \<le> 6 * length (counter_orders m (o_side x))"
    by auto
  have "adds_calls E 1 cx (emit (PutOrder x PUT) cx)" by (rule adds_calls_emit) simp
  from adds_calls_trans [OF adds_calls_trans [OF this k(1)] order_finish_all_calls [OF fin]]
  have "adds_calls E (1 + k + length (ms_finished ms)) cx cx1" .
  moreover have "adds_calls E 1 cx1 cx'"
    using tail adds_calls_emit [of E "PutOrder (ms_taker ms) FINISH" cx1] adds_calls_same [of cx' cx1 E 1] by auto
  ultimately have "adds_calls E (1 + k + length (ms_finished ms) + 1) cx cx'" by (rule adds_calls_trans)
  then show ?thesis by (rule adds_calls_mono) (use k(2) in simp)
qed

lemma put_order_calls:
  assumes E: "env_laws E" and run: "put_order E i u m cx = Some (m', cx', res)"
  shows "adds_calls E (6 * length (counter_orders m (i_side i)) + 2) cx cx'"
proof (cases "cx' = cx")
  case False
  with run obtain t j cx1 ql x' where "execute_order E (order_of_input m i u j t) ql m cx1 = Some (m', cx', x')"
    and "cx_calls cx1 = cx_calls cx"
    by (auto simp: put_order_def read_clock_def next_order_id_def Let_def split: sum.splits Option.bind_splits prod.splits)
  with execute_order_calls [OF E this(1)] show ?thesis by (auto intro: adds_calls_from simp: order_of_input_def)
qed (simp add: adds_calls_same)

lemma market_cancel_calls:
  assumes "market_cancel E i m cx = Some (m', cx', x)" shows "adds_calls E 1 cx cx'"
  using assms order_finish_calls [of E _ m cx m' cx'] by (auto simp: market_cancel_def Let_def split: Option.bind_splits)

lemma cancel_orders_calls: "cancel_orders E js (m, cx) = Some (m', cx') \<Longrightarrow> adds_calls E (length js) cx cx'"
proof (induction js arbitrary: m cx)
  case (Cons j js)
  from Cons.prems obtain x m1 cx1 where fin: "order_finish E x (m, cx) = Some (m1, cx1)" and
    rest: "cancel_orders E js (m1, cx1) = Some (m', cx')" by (auto split: Option.bind_splits)
  from adds_calls_trans [OF order_finish_calls [OF fin] Cons.IH [OF rest]] show ?case by simp
qed (simp add: adds_calls_same)

end
