(* ===== verification/Controller.thy ===== *)
theory Controller
  imports Market Persist
begin

text \<open>
  \<^verbatim>\<open>src/matchengine/controller.rs\<close> and \<^verbatim>\<open>src/matchengine/dto.rs\<close>: the single entrance to the
  engine's state. Each handler checks that the service is available, validates the request,
  lends the sequencer, the balances, the update cache and a persistor to a market, and appends
  the operation to the log. The flag \<^verbatim>\<open>real\<close>
  (here \<open>is_real\<close>) selects the real persistor or the dummy one.

  An operation on a market records its persistor calls in the context; \<open>give_back\<close> carries them
  out on the persistor that was lent. JSON texts of requests and the merging iterator of
  \<^verbatim>\<open>fluidex_common\<close> are parameters (record \<open>Q\<close>).
\<close>

section \<open>Requests and responses\<close>

datatype rpc_status =
    InvalidArgument string | Unavailable string | UnknownErr string | InternalErr string
  | PermissionDenied string | Unauthenticated string

record balance_update_request =
  bu_asset :: string
  bu_business :: string
  bu_business_id :: u64
  bu_delta :: string
  bu_detail :: string

record batch_order_put_request =
  bo_market :: string
  bo_reset :: bool
  bo_orders :: "order_put_request list"

datatype ResultCode = Success | InternalError

record batch_order_put_response =
  br_result_code :: ResultCode
  br_error_message :: string
  br_order_ids :: "u64 list"

record order_cancel_request =
  oc_market :: string
  oc_order_id :: u64

record order_info =
  oi_id :: u64
  oi_market :: string
  oi_order_type :: i32
  oi_order_side :: i32
  oi_create_time :: i64
  oi_update_time :: i64
  oi_price :: string
  oi_amount :: string
  oi_taker_fee :: string
  oi_maker_fee :: string
  oi_remain :: string
  oi_finished_base :: string
  oi_finished_quote :: string
  oi_finished_fee :: string
  oi_post_only :: bool

record order_query_request =
  oq_market :: string
  oq_offset :: i32
  oq_limit :: i32

record order_query_response =
  or_offset :: i32
  or_limit :: i32
  or_total :: i32
  or_orders :: "order_info list"

record asset_balance =
  ab_asset_id :: string
  ab_available :: string
  ab_frozen :: string

record rpc_asset_info =
  ra_symbol :: string
  ra_name :: string
  ra_precision :: u32

record rpc_market_info =
  rm_name :: string
  rm_base :: string
  rm_quote :: string
  rm_fee_precision :: u32
  rm_amount_precision :: u32
  rm_price_precision :: u32
  rm_min_amount :: string

record market_summary =
  su_name :: string
  su_ask_count :: i32
  su_ask_amount :: string
  su_bid_count :: i32
  su_bid_amount :: string
  su_trade_count :: u64

record order_book_depth_request =
  dr_market :: string
  dr_limit :: i32
  dr_interval :: string

record rpc_price_info =
  rp_price :: string
  rp_amount :: string

text \<open>The operations that enter the operation log.\<close>

datatype operation =
    OpBalanceUpdate balance_update_request
  | OpOrderPut order_put_request
  | OpBatchOrderPut batch_order_put_request
  | OpOrderCancel order_cancel_request
  | OpOrderCancelAll string

record rpc_codec =
  req_to_json :: "operation \<Rightarrow> string"
  req_from_json :: "string \<Rightarrow> string \<Rightarrow> operation option"
  merge_desc :: "order list list \<Rightarrow> order list"

text \<open>
  \<open>req_from_json Q method params\<close> is \<^verbatim>\<open>serde_json::from_str\<close> at the request type of the method.
  \<open>merge_desc\<close> is \<^verbatim>\<open>MergeSortIterator::compare_by\<close> in descending order of the identifiers.
\<close>

section \<open>Conversions\<close>

definition str_to_decimal :: "env \<Rightarrow> string \<Rightarrow> bool \<Rightarrow> decimal option" where
  "str_to_decimal E s allow_empty = (if allow_empty \<and> s = [] then Some 0 else dec_from_str E s)"

definition order_info_of :: "env \<Rightarrow> order \<Rightarrow> order_info" where
  "order_info_of E o' = \<lparr>
     oi_id = o_id o', oi_market = o_market o', oi_order_type = (if o_type o' = LIMIT then 0 else 1),
     oi_order_side = (if o_side o' = ASK then 0 else 1),
     oi_create_time = as_milliseconds E (o_create_time o'),
     oi_update_time = as_milliseconds E (o_update_time o'),
     oi_price = dec_to_string E (o_price o'), oi_amount = dec_to_string E (o_amount o'),
     oi_taker_fee = dec_to_string E (o_taker_fee o'), oi_maker_fee = dec_to_string E (o_maker_fee o'),
     oi_remain = dec_to_string E (o_remain o'), oi_finished_base = dec_to_string E (o_finished_base o'),
     oi_finished_quote = dec_to_string E (o_finished_quote o'),
     oi_finished_fee = dec_to_string E (o_finished_fee o'), oi_post_only = o_post_only o'\<rparr>"

definition ok_or :: "'a option \<Rightarrow> string \<Rightarrow> string + 'a" where
  "ok_or x e = (case x of None \<Rightarrow> Inl e | Some v \<Rightarrow> Inr v)"

definition try_bind :: "'e + 'a \<Rightarrow> ('a \<Rightarrow> 'e + 'b) \<Rightarrow> 'e + 'b" where
  "try_bind x f = (case x of Inl e \<Rightarrow> Inl e | Inr v \<Rightarrow> f v)"

definition order_input_try_from :: "env \<Rightarrow> order_put_request \<Rightarrow> string + order_input" where
  "order_input_try_from E req =
     try_bind (ok_or (str_to_decimal E (r_amount req) False) ''invalid amount'') (\<lambda>amount.
     try_bind (ok_or (str_to_decimal E (r_price req) (r_order_type req = 1)) ''invalid price'') (\<lambda>price.
     try_bind (ok_or (str_to_decimal E (r_quote_limit req) True) ''invalid quote limit'') (\<lambda>quote_limit.
     try_bind (ok_or (str_to_decimal E (r_taker_fee req) True) ''invalid taker fee'') (\<lambda>taker_fee.
     try_bind (ok_or (str_to_decimal E (r_maker_fee req) True) ''invalid maker fee'') (\<lambda>maker_fee.
       Inr \<lparr>i_side = (if r_order_side req = 0 then ASK else BID),
            i_type = (if r_order_type req = 0 then LIMIT else MARKET),
            i_amount = amount, i_price = price, i_quote_limit = quote_limit, i_taker_fee = taker_fee,
            i_maker_fee = maker_fee, i_market = r_market req, i_post_only = r_post_only req\<rparr>)))))"

section \<open>State\<close>

record 'c controller =
  c_settings :: settings
  c_sequencer :: sequencer
  c_balance_manager :: balance_manager
  c_update_controller :: "balance_update_key list"
  c_markets :: "(string \<times> market) list"
  c_asset_market_names :: "((string \<times> string) \<times> string) list"
  c_log_config :: writer_config
  c_log_handler :: "(operation_log, 'c) writer"
  c_persistor :: "'c persistor"
  c_clock :: nat

definition ORDER_LIST_MAX_LEN :: nat where "ORDER_LIST_MAX_LEN = 100"
definition OPERATION_BALANCE_UPDATE :: string where "OPERATION_BALANCE_UPDATE = ''balance_update''"
definition OPERATION_ORDER_CANCEL :: string where "OPERATION_ORDER_CANCEL = ''order_cancel''"
definition OPERATION_ORDER_CANCEL_ALL :: string where "OPERATION_ORDER_CANCEL_ALL = ''order_cancel_all''"
definition OPERATION_ORDER_PUT :: string where "OPERATION_ORDER_PUT = ''order_put''"
definition OPERATION_BATCH_ORDER_PUT :: string where "OPERATION_BATCH_ORDER_PUT = ''batch_order_put''"

lemmas operation_names = OPERATION_BALANCE_UPDATE_def OPERATION_ORDER_CANCEL_def
  OPERATION_ORDER_CANCEL_ALL_def OPERATION_ORDER_PUT_def OPERATION_BATCH_ORDER_PUT_def

text \<open>
  \<^verbatim>\<open>create_persistor\<close>: with brokers, one messenger per message scheme; without, a file.
  The constants that switch the other persistors are fixed in the code.
\<close>

definition create_persistor :: "settings \<Rightarrow> 'c persistor" where
  "create_persistor gs =
     (let persist_to_mq = True; persist_to_mq_full_order = True; persist_to_file = False;
          ps = [];
          ps = (if st_brokers gs \<noteq> [] \<and> persist_to_mq
                then add_persistor (MessengerBasedPersistor rd_new_and_run) ps else ps);
          ps = (if st_brokers gs \<noteq> [] \<and> persist_to_mq_full_order
                then add_persistor (MessengerBasedPersistor rd_new_and_run) ps else ps);
          ps = (if st_brokers gs = [] \<or> persist_to_file
                then add_persistor (FileBasedPersistor []) ps else ps)
      in CompositePersistor ps)"

fun create_markets ::
  "settings \<Rightarrow> balance_manager \<Rightarrow> market_cfg list \<Rightarrow>
   (string \<times> market) list \<times> ((string \<times> string) \<times> string) list \<Rightarrow>
   ((string \<times> market) list \<times> ((string \<times> string) \<times> string) list) option" where
  "create_markets gs bm [] acc = Some acc"
| "create_markets gs bm (entry # es) acc =
     (case market_new entry gs bm of
        Some (Inr m) \<Rightarrow>
          create_markets gs bm es
            (AList.update (mc_name entry) m (fst acc),
             AList.update (mc_base entry, mc_quote entry) (mc_name entry) (snd acc))
      | _ \<Rightarrow> None)"

definition create_controller :: "settings \<Rightarrow> 'c \<Rightarrow> 'c controller option" where
  "create_controller gs pool = do {
     bm \<leftarrow> bm_new (st_assets gs);
     (markets, names) \<leftarrow> create_markets gs bm (st_markets gs) ([], []);
     Some \<lparr>c_settings = gs, c_sequencer = default_sequencer, c_balance_manager = bm,
           c_update_controller = update_controller_new, c_markets = markets,
           c_asset_market_names = names,
           c_log_config = \<lparr>wc_apply_benchmark = True, wc_spawn_limit = 4, wc_capability_limit = 8192\<rparr>,
           c_log_handler = start_schedule pool, c_persistor = create_persistor gs, c_clock = 0\<rparr>
   }"

definition check_service_available :: "'c controller \<Rightarrow> bool" where
  "check_service_available c =
     (if writer_is_block (c_log_config c) (c_log_handler c) then False
      else service_available (c_persistor c))"

text \<open>Lending the mutable parts with the chosen persistor, and taking them back.\<close>

definition lend :: "bool \<Rightarrow> 'c controller \<Rightarrow> ctx" where
  "lend is_real c = \<lparr>cx_sequencer = c_sequencer c, cx_bm = c_balance_manager c,
     cx_cache = c_update_controller c, cx_real_persist = (is_real \<and> real_persist (c_persistor c)),
     cx_calls = [], cx_clock = c_clock c\<rparr>"

definition give_back :: "env \<Rightarrow> serde \<Rightarrow> bool \<Rightarrow> ctx \<Rightarrow> 'c controller \<Rightarrow> 'c controller option" where
  "give_back E S is_real cx c = do {
     p \<leftarrow> (if is_real then persist_all E S (cx_calls cx) (c_persistor c) else Some (c_persistor c));
     Some (c\<lparr>c_sequencer := cx_sequencer cx, c_balance_manager := cx_bm cx,
             c_update_controller := cx_cache cx, c_clock := cx_clock cx, c_persistor := p\<rparr>)
   }"

definition set_market :: "string \<Rightarrow> market \<Rightarrow> 'c controller \<Rightarrow> 'c controller" where
  "set_market name m c = c\<lparr>c_markets := AList.update name m (c_markets c)\<rparr>"

definition append_operation_log ::
  "env \<Rightarrow> rpc_codec \<Rightarrow> string \<Rightarrow> operation \<Rightarrow> uuid \<Rightarrow> 'c controller \<Rightarrow> 'c controller" where
  "append_operation_log E Q method req user_id c = (
     let params = req_to_json Q req;
         (sq, i) = next_operation_log_id (c_sequencer c);
         log = \<lparr>ol_id = i, ol_user_id = uuid_to_string E user_id,
                ol_time = ftimestamp_to_db E (current_timestamp E (c_clock c)),
                ol_method = method, ol_params = params\<rparr>
     in c\<lparr>c_sequencer := sq, c_clock := Suc (c_clock c),
          c_log_handler := fst (writer_append log (c_log_handler c))\<rparr>)"

section \<open>Queries\<close>

definition asset_list :: "'c controller \<Rightarrow> rpc_asset_info list" where
  "asset_list c = map (\<lambda>item. \<lparr>ra_symbol = ac_symbol item, ra_name = ac_name item,
     ra_precision = ac_prec_show item\<rparr>) (st_assets (c_settings c))"

fun balances_of :: "env \<Rightarrow> balance_manager \<Rightarrow> uuid \<Rightarrow> string list \<Rightarrow> asset_balance list option" where
  "balances_of E bm u [] = Some []"
| "balances_of E bm u (asset_id # as) = do {
     available \<leftarrow> bm_get_with_round E bm u AVAILABLE asset_id;
     frozen \<leftarrow> bm_get_with_round E bm u FREEZE asset_id;
     rest \<leftarrow> balances_of E bm u as;
     Some (\<lparr>ab_asset_id = asset_id, ab_available = dec_to_string E available,
            ab_frozen = dec_to_string E frozen\<rparr> # rest) }"

definition balance_query ::
  "env \<Rightarrow> string list \<Rightarrow> uuid \<Rightarrow> 'c controller \<Rightarrow> (rpc_status + asset_balance list) option" where
  "balance_query E assets user_id c =
     (let ids = map ac_id (st_assets (c_settings c)) in
      if \<not> list_all (\<lambda>a. a \<in> set ids) assets then Some (Inl (InvalidArgument ''invalid asset''))
      else do {
        bs \<leftarrow> balances_of E (c_balance_manager c) user_id (if assets = [] then ids else assets);
        Some (Inr bs) })"

text \<open>\<^verbatim>\<open>as usize\<close> of a negative \<^verbatim>\<open>i32\<close> sign-extends.\<close>

definition i32_as_usize :: "i32 \<Rightarrow> nat" where
  "i32_as_usize n = unat (scast n :: u64)"

definition query_limit :: "i32 \<Rightarrow> i32" where
  "query_limit n =
     (let max_order_num = 100; default_order_num = 10
      in if sint n \<le> 0 then default_order_num else if sint n > sint max_order_num then max_order_num else n)"

definition order_query ::
  "env \<Rightarrow> rpc_codec \<Rightarrow> order_query_request \<Rightarrow> uuid \<Rightarrow> 'c controller \<Rightarrow> rpc_status + order_query_response" where
  "order_query E Q req user_id c =
     (if oq_market req \<noteq> ''all'' \<and> map_of (c_markets c) (oq_market req) = None
      then Inl (InvalidArgument ''invalid market'')
      else
        let limit = query_limit (oq_limit req);
            markets = map snd (filter (\<lambda>(key, _). oq_market req = ''all'' \<or> oq_market req = key) (c_markets c));
            total_order_count = sum_list (map (\<lambda>m. get_order_num_of_user m user_id) markets);
            orders_by_market = map (\<lambda>m. rev (get_order_of_user m user_id)) markets;
            orders = map (order_info_of E)
              (take (i32_as_usize limit) (drop (i32_as_usize (oq_offset req)) (merge_desc Q orders_by_market)))
        in Inr \<lparr>or_offset = oq_offset req, or_limit = limit, or_total = of_nat total_order_count,
                or_orders = orders\<rparr>)"

definition order_book_depth ::
  "env \<Rightarrow> order_book_depth_request \<Rightarrow> 'c controller \<Rightarrow> rpc_status + rpc_price_info list \<times> rpc_price_info list" where
  "order_book_depth E req c =
     (case map_of (c_markets c) (dr_market req) of
        None \<Rightarrow> Inl (InvalidArgument ''invalid market'')
      | Some m \<Rightarrow>
          (case (if dr_interval req = [] then Some 0 else dec_from_str E (dr_interval req)) of
             None \<Rightarrow> Inl (InvalidArgument ''invalid interval'')
           | Some interval \<Rightarrow>
               let d = depth E m (i32_as_usize (dr_limit req)) interval;
                   convert = map (\<lambda>p. \<lparr>rp_price = dec_to_string E (pi_price p), rp_amount = dec_to_string E (pi_amount p)\<rparr>)
               in Inr (convert (dp_asks d), convert (dp_bids d))))"

definition order_detail :: "env \<Rightarrow> string \<Rightarrow> u64 \<Rightarrow> 'c controller \<Rightarrow> rpc_status + order_info" where
  "order_detail E market order_id c =
     (case map_of (c_markets c) market of
        None \<Rightarrow> Inl (InvalidArgument ''invalid market'')
      | Some m \<Rightarrow>
          (case market_get m order_id of
             None \<Rightarrow> Inl (InvalidArgument ''invalid order_id'')
           | Some o' \<Rightarrow> Inr (order_info_of E o')))"

definition market_list :: "env \<Rightarrow> 'c controller \<Rightarrow> rpc_market_info list" where
  "market_list E c = map (\<lambda>(_, m). \<lparr>rm_name = m_name m, rm_base = m_base m, rm_quote = m_quote m,
     rm_fee_precision = m_fee_prec m, rm_amount_precision = m_amount_prec m,
     rm_price_precision = m_price_prec m, rm_min_amount = dec_to_string E (m_min_amount m)\<rparr>) (c_markets c)"

definition summary_of :: "env \<Rightarrow> market \<Rightarrow> market_summary" where
  "summary_of E m = (let st = status E m in
     \<lparr>su_name = mst_name st, su_ask_count = of_nat (mst_ask_count st),
      su_ask_amount = dec_to_string E (mst_ask_amount st), su_bid_count = of_nat (mst_bid_count st),
      su_bid_amount = dec_to_string E (mst_bid_amount st), su_trade_count = mst_trade_count st\<rparr>)"

definition market_summary_query :: "env \<Rightarrow> string list \<Rightarrow> 'c controller \<Rightarrow> rpc_status + market_summary list" where
  "market_summary_query E names c =
     (if names \<noteq> [] \<and> \<not> list_all (\<lambda>n. map_of (c_markets c) n \<noteq> None) names
      then Inl (InvalidArgument ''invalid market'')
      else Inr (map (\<lambda>n. summary_of E (the (map_of (c_markets c) n)))
                 (if names = [] then map fst (c_markets c) else names)))"

section \<open>Commands\<close>

definition market_price_of :: "'c controller \<Rightarrow> string \<Rightarrow> decimal option" where
  "market_price_of c asset =
     (case map_of (c_asset_market_names c) (asset, ''USDT'') of
        Some market_name \<Rightarrow> map_option m_price (map_of (c_markets c) market_name)
      | None \<Rightarrow> Some 0)"

definition update_balance ::
  "env \<Rightarrow> serde \<Rightarrow> rpc_codec \<Rightarrow> bool \<Rightarrow> balance_update_request \<Rightarrow> uuid \<Rightarrow> 'c controller \<Rightarrow>
   ('c controller \<times> (rpc_status + unit)) option" where
  "update_balance E S Q is_real req user_id c =
     (if \<not> check_service_available c then Some (c, Inl (Unavailable []))
      else if \<not> asset_exist (bm_asset_manager (c_balance_manager c)) (bu_asset req)
      then Some (c, Inl (InvalidArgument ''invalid asset''))
      else do {
        prec \<leftarrow> asset_prec_show (bm_asset_manager (c_balance_manager c)) (bu_asset req);
        case dec_from_str E (bu_delta req) of
          None \<Rightarrow> Some (c, Inl (InvalidArgument ''invalid amount''))
        | Some change_result \<Rightarrow>
            let change = round_dp E change_result prec in
            (case (if bu_detail req = [] then Some ''{}'' else json_from_str E (bu_detail req)) of
               None \<Rightarrow> Some (c, Inl (InvalidArgument ''invalid detail''))
             | Some detail_json \<Rightarrow> do {
                 market_price \<leftarrow> market_price_of c (bu_asset req);
                 (cx, res) \<leftarrow> update_user_balance E
                   \<lparr>up_balance_type = AVAILABLE,
                    up_business_type = (if 0 \<le> change then Deposit else Withdraw),
                    up_user_id = user_id, up_business_id = bu_business_id req, up_asset = bu_asset req,
                    up_business = bu_business req, up_market_price = market_price,
                    up_change = change, up_detail = detail_json\<rparr> (lend is_real c);
                 c \<leftarrow> give_back E S is_real cx c;
                 case res of
                   Inl e \<Rightarrow> Some (c, Inl (InvalidArgument e))
                 | Inr _ \<Rightarrow>
                     Some (if is_real then append_operation_log E Q OPERATION_BALANCE_UPDATE (OpBalanceUpdate req) user_id c
                           else c, Inr ())
               })
      })"

definition total_order_num :: "'c controller \<Rightarrow> uuid \<Rightarrow> nat" where
  "total_order_num c user_id = sum_list (map (\<lambda>(_, m). get_order_num_of_user m user_id) (c_markets c))"

definition ctrl_put_order ::
  "env \<Rightarrow> serde \<Rightarrow> bool \<Rightarrow> order_put_request \<Rightarrow> uuid \<Rightarrow> 'c controller \<Rightarrow>
   ('c controller \<times> (rpc_status + order)) option" where
  "ctrl_put_order E S is_real req user_id c =
     (case map_of (c_markets c) (r_market req) of
        None \<Rightarrow> Some (c, Inl (InvalidArgument ''invalid market''))
      | Some m \<Rightarrow>
          if total_order_num c user_id = st_user_order_num_limit (c_settings c)
          then Some (c, Inl (Unavailable ''too many active orders for user''))
          else
            (case order_input_try_from E req of
               Inl e \<Rightarrow> Some (c, Inl (InvalidArgument (''invalid decimal '' @ e)))
             | Inr order_input \<Rightarrow> do {
                 (m', cx, res) \<leftarrow> put_order E order_input user_id m (lend is_real c);
                 c \<leftarrow> give_back E S is_real cx c;
                 Some (set_market (r_market req) m' c,
                       case res of Inl e \<Rightarrow> Inl (UnknownErr e) | Inr o' \<Rightarrow> Inr o')
               }))"

definition order_put ::
  "env \<Rightarrow> serde \<Rightarrow> rpc_codec \<Rightarrow> bool \<Rightarrow> order_put_request \<Rightarrow> uuid \<Rightarrow> 'c controller \<Rightarrow>
   ('c controller \<times> (rpc_status + order_info)) option" where
  "order_put E S Q is_real req user_id c =
     (if \<not> check_service_available c then Some (c, Inl (Unavailable []))
      else do {
        (c, res) \<leftarrow> ctrl_put_order E S is_real req user_id c;
        case res of
          Inl e \<Rightarrow> Some (c, Inl e)
        | Inr o' \<Rightarrow>
            Some (if is_real then append_operation_log E Q OPERATION_ORDER_PUT (OpOrderPut req) user_id c else c,
                  Inr (order_info_of E o'))
      })"

definition ctrl_cancel_all ::
  "env \<Rightarrow> serde \<Rightarrow> bool \<Rightarrow> string \<Rightarrow> uuid \<Rightarrow> 'c controller \<Rightarrow> ('c controller \<times> nat) option" where
  "ctrl_cancel_all E S is_real market_name user_id c = do {
     m \<leftarrow> map_of (c_markets c) market_name;
     (m', cx, total) \<leftarrow> cancel_all_for_user E (uuid_to_string E user_id) m (lend is_real c);
     c \<leftarrow> give_back E S is_real cx c;
     Some (set_market market_name m' c, total)
   }"

text \<open>The reset loop cancels once per order request, and stops at a request for another market.\<close>

fun batch_reset ::
  "env \<Rightarrow> serde \<Rightarrow> bool \<Rightarrow> string \<Rightarrow> uuid \<Rightarrow> order_put_request list \<Rightarrow> 'c controller \<Rightarrow>
   ('c controller \<times> (rpc_status + unit)) option" where
  "batch_reset E S is_real market_name user_id [] c = Some (c, Inr ())"
| "batch_reset E S is_real market_name user_id (order_req # os) c =
     (if market_name \<noteq> r_market order_req then Some (c, Inl (InvalidArgument ''inconsistent order markets''))
      else do {
        (c, _) \<leftarrow> ctrl_cancel_all E S is_real market_name user_id c;
        batch_reset E S is_real market_name user_id os c })"

definition status_text :: "rpc_status \<Rightarrow> string" where
  "status_text s = (case s of
     InvalidArgument t \<Rightarrow> ''status: InvalidArgument, message: '' @ t
   | Unavailable t \<Rightarrow> ''status: Unavailable, message: '' @ t
   | UnknownErr t \<Rightarrow> ''status: Unknown, message: '' @ t
   | InternalErr t \<Rightarrow> ''status: Internal, message: '' @ t
   | PermissionDenied t \<Rightarrow> ''status: PermissionDenied, message: '' @ t
   | Unauthenticated t \<Rightarrow> ''status: Unauthenticated, message: '' @ t)"

fun batch_put ::
  "env \<Rightarrow> serde \<Rightarrow> bool \<Rightarrow> string \<Rightarrow> uuid \<Rightarrow> order_put_request list \<Rightarrow> u64 list \<Rightarrow> 'c controller \<Rightarrow>
   ('c controller \<times> (rpc_status + batch_order_put_response)) option" where
  "batch_put E S is_real market_name user_id [] order_ids c =
     Some (c, Inr \<lparr>br_result_code = Success, br_error_message = [], br_order_ids = order_ids\<rparr>)"
| "batch_put E S is_real market_name user_id (order_req # os) order_ids c =
     (if market_name \<noteq> r_market order_req then Some (c, Inl (InvalidArgument ''inconsistent order markets''))
      else do {
        (c, res) \<leftarrow> ctrl_put_order E S is_real order_req user_id c;
        case res of
          Inr o' \<Rightarrow> batch_put E S is_real market_name user_id os (order_ids @ [o_id o']) c
        | Inl e \<Rightarrow> Some (c, Inr \<lparr>br_result_code = InternalError, br_error_message = status_text e,
                                  br_order_ids = order_ids\<rparr>) })"

definition batch_order_put ::
  "env \<Rightarrow> serde \<Rightarrow> rpc_codec \<Rightarrow> bool \<Rightarrow> batch_order_put_request \<Rightarrow> uuid \<Rightarrow> 'c controller \<Rightarrow>
   ('c controller \<times> (rpc_status + batch_order_put_response)) option" where
  "batch_order_put E S Q is_real req user_id c =
     (if \<not> check_service_available c then Some (c, Inl (Unavailable []))
      else if map_of (c_markets c) (bo_market req) = None then Some (c, Inl (InvalidArgument ''invalid market''))
      else do {
        (c, r) \<leftarrow> (if bo_reset req then batch_reset E S is_real (bo_market req) user_id (bo_orders req) c
                   else Some (c, Inr ()));
        case r of
          Inl e \<Rightarrow> Some (c, Inl e)
        | Inr _ \<Rightarrow> do {
            (c, res) \<leftarrow> batch_put E S is_real (bo_market req) user_id (bo_orders req) [] c;
            case res of
              Inl e \<Rightarrow> Some (c, Inl e)
            | Inr resp \<Rightarrow>
                Some (if is_real then append_operation_log E Q OPERATION_BATCH_ORDER_PUT (OpBatchOrderPut req) user_id c
                      else c, Inr resp)
          }
      })"

definition order_cancel ::
  "env \<Rightarrow> serde \<Rightarrow> rpc_codec \<Rightarrow> bool \<Rightarrow> order_cancel_request \<Rightarrow> uuid \<Rightarrow> 'c controller \<Rightarrow>
   ('c controller \<times> (rpc_status + order_info)) option" where
  "order_cancel E S Q is_real req user_id c =
     (if \<not> check_service_available c then Some (c, Inl (Unavailable []))
      else case map_of (c_markets c) (oc_market req) of
        None \<Rightarrow> Some (c, Inl (InvalidArgument ''invalid market''))
      | Some m \<Rightarrow>
          (case market_get m (oc_order_id req) of
             None \<Rightarrow> Some (c, Inl (InvalidArgument ''invalid order_id''))
           | Some o' \<Rightarrow>
               if o_user o' \<noteq> user_id then Some (c, Inl (InvalidArgument ''invalid user''))
               else do {
                 (m', cx, _) \<leftarrow> market_cancel E (o_id o') m (lend is_real c);
                 c \<leftarrow> give_back E S is_real cx c;
                 let c = set_market (oc_market req) m' c;
                 Some (if is_real then append_operation_log E Q OPERATION_ORDER_CANCEL (OpOrderCancel req) user_id c else c,
                       Inr (order_info_of E o'))
               }))"

definition order_cancel_all ::
  "env \<Rightarrow> serde \<Rightarrow> rpc_codec \<Rightarrow> bool \<Rightarrow> string \<Rightarrow> uuid \<Rightarrow> 'c controller \<Rightarrow>
   ('c controller \<times> (rpc_status + u32)) option" where
  "order_cancel_all E S Q is_real market user_id c =
     (if \<not> check_service_available c then Some (c, Inl (Unavailable []))
      else if map_of (c_markets c) market = None then Some (c, Inl (InvalidArgument ''invalid market''))
      else do {
        (c, total) \<leftarrow> ctrl_cancel_all E S is_real market user_id c;
        Some (if is_real then append_operation_log E Q OPERATION_ORDER_CANCEL_ALL (OpOrderCancelAll market) user_id c else c,
              Inr (of_nat total))
      })"

definition reset_state :: "'c controller \<Rightarrow> 'c controller" where
  "reset_state c = c\<lparr>c_sequencer := sequencer_reset (c_sequencer c),
     c_markets := map (\<lambda>(n, m). (n, market_reset m)) (c_markets c),
     c_update_controller := update_controller_reset (c_update_controller c),
     c_balance_manager := bm_reset (c_balance_manager c)\<rparr>"

text \<open>
  \<^verbatim>\<open>market_reload\<close> with what the two database queries return; a market that is known already or
  has unusable precisions is logged and skipped.
\<close>

fun reload_markets :: "market_cfg list \<Rightarrow> 'c controller \<Rightarrow> 'c controller option" where
  "reload_markets [] c = Some c"
| "reload_markets (entry # es) c =
     (if map_of (c_markets c) (mc_name entry) = None then
        (case market_new entry (c_settings c) (c_balance_manager c) of
           None \<Rightarrow> None
         | Some (Inr m) \<Rightarrow>
             reload_markets es (c\<lparr>c_markets := AList.update (mc_name entry) m (c_markets c),
               c_asset_market_names := AList.update (mc_base entry, mc_quote entry) (mc_name entry) (c_asset_market_names c)\<rparr>)
         | Some (Inl _) \<Rightarrow> reload_markets es c)
      else reload_markets es c)"

definition market_reload ::
  "string + asset_cfg list \<Rightarrow> string + market_cfg list \<Rightarrow> 'c controller \<Rightarrow> ('c controller \<times> (rpc_status + unit)) option" where
  "market_reload new_assets new_markets c =
     (case new_assets of
        Inl e \<Rightarrow> Some (c, Inl (InternalErr e))
      | Inr as \<Rightarrow> do {
          am \<leftarrow> asset_manager_append (bm_asset_manager (c_balance_manager c)) as;
          let c = c\<lparr>c_balance_manager := (c_balance_manager c)\<lparr>bm_asset_manager := am\<rparr>\<rparr>;
          case new_markets of
            Inl e \<Rightarrow> Some (c, Inl (InternalErr e))
          | Inr ms \<Rightarrow> do { c \<leftarrow> reload_markets ms c; Some (c, Inr ()) }
        })"

definition replay_result ::
  "('c controller \<times> (rpc_status + 'r)) option \<Rightarrow> ('c controller \<times> (string + unit)) option" where
  "replay_result r = map_option (\<lambda>(c, res). (c, case res of Inl e \<Rightarrow> Inl (status_text e) | Inr _ \<Rightarrow> Inr ())) r"

definition replay ::
  "env \<Rightarrow> serde \<Rightarrow> rpc_codec \<Rightarrow> uuid \<Rightarrow> string \<Rightarrow> string \<Rightarrow> 'c controller \<Rightarrow>
   ('c controller \<times> (string + unit)) option" where
  "replay E S Q user_id method params c =
     (if method \<notin> {OPERATION_BALANCE_UPDATE, OPERATION_ORDER_CANCEL, OPERATION_ORDER_CANCEL_ALL,
           OPERATION_ORDER_PUT, OPERATION_BATCH_ORDER_PUT}
      then Some (c, Inl (''invalid operation '' @ method))
      else
        (case req_from_json Q method params of
           None \<Rightarrow> Some (c, Inl ''invalid params'')
         | Some (OpBalanceUpdate req) \<Rightarrow> replay_result (update_balance E S Q False req user_id c)
         | Some (OpOrderCancel req) \<Rightarrow> replay_result (order_cancel E S Q False req user_id c)
         | Some (OpOrderCancelAll market) \<Rightarrow> replay_result (order_cancel_all E S Q False market user_id c)
         | Some (OpOrderPut req) \<Rightarrow> replay_result (order_put E S Q False req user_id c)
         | Some (OpBatchOrderPut req) \<Rightarrow> replay_result (batch_order_put E S Q False req user_id c)))"

end
