(* ===== verification/ControllerInv.thy ===== *)
theory ControllerInv
  imports Controller MarketCancel
begin

text \<open>
  The invariant of the whole engine, over all markets and the shared balances: every market's book
  is well-formed, and every user's frozen balance of every asset is exactly what the user's
  resting orders in all markets hold. It is established by \<^verbatim>\<open>create_controller\<close> and kept by every
  handler of \<^verbatim>\<open>src/matchengine/controller.rs\<close>.

  The locale \<open>market_operation\<close> is what the controller relies on when it lends its state to a
  market; submission and the two kinds of cancellation are its instances.
\<close>

section \<open>The invariant\<close>

definition frozen_total :: "(string \<times> market) list \<Rightarrow> uuid \<Rightarrow> string \<Rightarrow> decimal" where
  "frozen_total ms u a = sum_list (map (\<lambda>(_, m). frozen_sum m u a) ms)"

text \<open>The resting orders of a market carry its labels and an identifier; no two markets share one.\<close>

definition order_ids :: "market \<Rightarrow> u64 set" where
  "order_ids m = fst ` set (m_orders m)"

definition tagged :: "market \<Rightarrow> bool" where
  "tagged m \<longleftrightarrow> (\<forall>(i, r) \<in> set (m_orders m). i \<noteq> 0 \<and>
     o_market (deep m r) = m_name m \<and> o_base (deep m r) = m_base m \<and> o_quote (deep m r) = m_quote m)"

definition apart :: "(string \<times> market) list \<Rightarrow> bool" where
  "apart ms \<longleftrightarrow> (\<forall>(n, m) \<in> set ms. \<forall>(k, m') \<in> set ms. n \<noteq> k \<longrightarrow> order_ids m \<inter> order_ids m' = {})"

definition exch_inv :: "(string \<times> market) list \<Rightarrow> ctx \<Rightarrow> bool" where
  "exch_inv ms cx \<longleftrightarrow> distinct (map fst ms) \<and> ctx_ok cx \<and>
     (\<forall>(n, m) \<in> set ms. book_ok m \<and> mkt_ok m (cx_bm cx) \<and> ids_below (sq_order_id (cx_sequencer cx)) m) \<and>
     (\<forall>u a. bm_get (cx_bm cx) u FREEZE a = frozen_total ms u a) \<and>
     (\<forall>(n, m) \<in> set ms. n = m_name m \<and> tagged m) \<and> apart ms"

lemma exch_invD:
  assumes "exch_inv ms cx"
  shows "distinct (map fst ms)" and "ctx_ok cx"
    and "\<And>n m. (n, m) \<in> set ms \<Longrightarrow> book_ok m \<and> mkt_ok m (cx_bm cx) \<and> ids_below (sq_order_id (cx_sequencer cx)) m"
    and "\<And>u a. bm_get (cx_bm cx) u FREEZE a = frozen_total ms u a"
    and "\<And>n m. (n, m) \<in> set ms \<Longrightarrow> n = m_name m \<and> tagged m" and "apart ms"
  using assms unfolding exch_inv_def by blast+

lemma exch_inv_cong:
  assumes "exch_inv ms cx" and "cx_bm cx' = cx_bm cx" and "cx_cache cx' = cx_cache cx"
    and "sq_order_id (cx_sequencer cx') = sq_order_id (cx_sequencer cx)"
    and "sq_trade_id (cx_sequencer cx') = sq_trade_id (cx_sequencer cx)"
  shows "exch_inv ms cx'"
  using assms by (simp add: exch_inv_def ctx_ok_def trade_ids_ok_def)

lemma frozen_sum_nonneg: "orders_ok m \<Longrightarrow> 0 \<le> frozen_sum m u a"
  unfolding frozen_sum_def
  by (rule sum_list_nonneg) (use order_ok_frozen in \<open>fastforce simp: orders_ok_def frozen_part_def\<close>)

lemma frozen_total_ge:
  "\<forall>(n, m) \<in> set ms. orders_ok m \<Longrightarrow> (n, m) \<in> set ms \<Longrightarrow> frozen_sum m u a \<le> frozen_total ms u a"
  unfolding frozen_total_def
proof (induction ms)
  case (Cons nm ms)
  have "0 \<le> sum_list (map (\<lambda>(_, m). frozen_sum m u a) ms)"
    using Cons.prems(1) by (intro sum_list_nonneg) (auto intro: frozen_sum_nonneg)
  moreover have "0 \<le> frozen_sum (snd nm) u a" using Cons.prems(1) by (auto intro: frozen_sum_nonneg)
  ultimately show ?case using Cons by (auto split: prod.splits)
qed simp

lemma exch_market_inv:
  assumes "exch_inv ms cx" and "map_of ms n = Some m" shows "market_inv m cx"
proof -
  have mem: "(n, m) \<in> set ms" using assms(2) by (rule map_of_SomeD)
  note D = exch_invD [OF assms(1)]
  have "\<forall>(n, m) \<in> set ms. orders_ok m" using D(3) by (auto simp: book_ok_def)
  from frozen_total_ge [OF this mem] have "solvent m (cx_bm cx)" by (simp add: solvent_def D(4))
  with D(2) D(3) [OF mem] show ?thesis by (simp add: market_inv_def)
qed

section \<open>Operations of a market\<close>

text \<open>
  What an operation on one market may do to the state it is lent: the market keeps its labels and its resting
  orders theirs, and orders it adds have identifiers above those already handed out.
\<close>

definition same_tags :: "market \<Rightarrow> market \<Rightarrow> bool" where
  "same_tags m m' \<longleftrightarrow> m_name m' = m_name m \<and> m_base m' = m_base m \<and> m_quote m' = m_quote m \<and> (tagged m \<longrightarrow> tagged m')"

definition lent_ok :: "market \<Rightarrow> ctx \<Rightarrow> market \<Rightarrow> ctx \<Rightarrow> bool" where
  "lent_ok m cx m' cx' \<longleftrightarrow> market_inv m' cx' \<and>
     (\<forall>u a. slack m' (cx_bm cx') u a = slack m (cx_bm cx) u a) \<and>
     bm_asset_manager (cx_bm cx') = bm_asset_manager (cx_bm cx) \<and>
     sq_order_id (cx_sequencer cx) \<le> sq_order_id (cx_sequencer cx') \<and>
     same_tags m m' \<and> (\<forall>i \<in> order_ids m'. i \<in> order_ids m \<or> sq_order_id (cx_sequencer cx) < i)"

lemma same_tags_refl [simp]: "same_tags m m"
  by (simp add: same_tags_def)

lemma lent_ok_trans: "lent_ok m cx m1 cx1 \<Longrightarrow> lent_ok m1 cx1 m2 cx2 \<Longrightarrow> lent_ok m cx m2 cx2"
  by (auto simp: lent_ok_def same_tags_def intro: order.strict_trans1)

lemma lent_ok_refl: "market_inv m cx \<Longrightarrow> lent_ok m cx m cx"
  by (simp add: lent_ok_def)

text \<open>How much the book and the counters may grow: by \<open>n\<close> orders, all of user \<open>u\<close>.\<close>

definition grows :: "nat \<Rightarrow> uuid \<Rightarrow> market \<Rightarrow> ctx \<Rightarrow> market \<Rightarrow> ctx \<Rightarrow> bool" where
  "grows n u m cx m' cx' \<longleftrightarrow> length (m_orders m') \<le> length (m_orders m) + n \<and>
     unat (sq_trade_id (cx_sequencer cx')) \<le> unat (sq_trade_id (cx_sequencer cx)) + n * length (m_orders m) \<and>
     unat (sq_order_id (cx_sequencer cx')) \<le> unat (sq_order_id (cx_sequencer cx)) + n \<and>
     (\<forall>v. get_order_num_of_user m' v \<le> get_order_num_of_user m v + (if v = u then n else 0))"

definition live_of :: "market \<Rightarrow> uuid \<Rightarrow> (u64 \<times> rc) set" where
  "live_of m u = {(i, r). (i, r) \<in> set (m_orders m) \<and> o_user (deep m r) = u}"

lemma live_of_finite [simp]: "finite (live_of m u)"
  by (rule finite_subset [of _ "set (m_orders m)"]) (auto simp: live_of_def)

lemma order_num_card: "book_struct m \<Longrightarrow> get_order_num_of_user m u = card (live_of m u)"
proof -
  assume bs: "book_struct m"
  have "live_of m u = set (user_map m u)" using user_map_set(2) [OF bs] by (auto simp: live_of_def)
  moreover have "distinct (user_map m u)"
    using bt_inv_distinct [OF user_map_set(1) [OF bs, of u]] by (simp add: distinct_map)
  ultimately have "card (live_of m u) = length (user_map m u)" by (simp add: distinct_card)
  then show ?thesis by (simp add: get_order_num_of_user_def user_map_def split: option.split)
qed

lemma growsI:
  assumes "book_struct m" and "book_struct m'"
    and new: "\<And>v. live_of m' v \<subseteq> live_of m v \<union> (if v = u then N else {})" and N: "finite N" "card N \<le> n"
    and "length (m_orders m') \<le> length (m_orders m) + n"
    and "unat (sq_trade_id (cx_sequencer cx')) \<le> unat (sq_trade_id (cx_sequencer cx)) + n * length (m_orders m)"
    and "unat (sq_order_id (cx_sequencer cx')) \<le> unat (sq_order_id (cx_sequencer cx)) + n"
  shows "grows n u m cx m' cx'"
proof -
  have "card (live_of m' v) \<le> card (live_of m v) + (if v = u then n else 0)" for v
  proof -
    have "card (live_of m' v) \<le> card (live_of m v \<union> (if v = u then N else {}))"
      using new N(1) by (intro card_mono) auto
    also have "\<dots> \<le> card (live_of m v) + card (if v = u then N else {})" by (rule card_Un_le)
    finally show ?thesis using N(2) by (auto split: if_splits)
  qed
  with assms show ?thesis by (simp add: grows_def order_num_card)
qed

lemma grows_trans0: "grows 0 u m cx m1 cx1 \<Longrightarrow> grows 0 u m1 cx1 m2 cx2 \<Longrightarrow> grows 0 u m cx m2 cx2"
  unfolding grows_def by (auto intro: order_trans)

lemma grows_refl [simp]: "grows n u m cx m cx"
  by (simp add: grows_def)

lemma lent_ok_apart:
  assumes inv: "exch_inv ms cx" and l: "lent_ok m cx m' cx'" and get: "map_of ms n = Some m"
  shows "apart (AList.update n m' ms)"
proof -
  note D = exch_invD [OF inv]
  have mem: "(n, m) \<in> set ms" using get by (rule map_of_SomeD)
  have new: "order_ids m' \<inter> order_ids k = {}" if "(j, k) \<in> set ms" "j \<noteq> n" for j k
  proof -
    have "order_ids m \<inter> order_ids k = {}" using D(6) mem that by (fastforce simp: apart_def)
    moreover have "i \<le> sq_order_id (cx_sequencer cx)" if "i \<in> order_ids k" for i
      using D(3) [OF \<open>(j, k) \<in> set ms\<close>] that by (auto simp: ids_below_def order_ids_def)
    ultimately show ?thesis using l by (fastforce simp: lent_ok_def disjoint_iff)
  qed
  then show ?thesis using D(6) unfolding apart_def set_alist_update [OF D(1), of n m'] by fastforce
qed

lemma lent_ok_exch:
  assumes inv: "exch_inv ms cx" and get: "map_of ms n = Some m" and l: "lent_ok m cx m' cx'"
  shows "exch_inv (AList.update n m' ms) cx'"
proof -
  note D = exch_invD [OF inv]
  have mi: "market_inv m' cx'" and le: "sq_order_id (cx_sequencer cx) \<le> sq_order_id (cx_sequencer cx')"
    and am: "bm_asset_manager (cx_bm cx') = bm_asset_manager (cx_bm cx)" using l by (simp_all add: lent_ok_def)
  have "book_ok k \<and> mkt_ok k (cx_bm cx') \<and> ids_below (sq_order_id (cx_sequencer cx')) k"
    if "(j, k) \<in> set (AList.update n m' ms)" for j k
  proof (cases "j = n")
    case True
    with that set_alist_update [OF D(1), of n m'] have "k = m'" by auto
    with mi show ?thesis by (simp add: market_inv_def)
  next
    case False
    with that set_alist_update [OF D(1), of n m'] have "(j, k) \<in> set ms" by auto
    from D(3) [OF this] le show ?thesis
      by (auto simp: mkt_ok_bm_cong [OF am] ids_below_def intro: order_trans)
  qed
  moreover have "bm_get (cx_bm cx') u FREEZE a = frozen_total (AList.update n m' ms) u a" for u a
  proof -
    have "slack m' (cx_bm cx') u a = slack m (cx_bm cx) u a" using l by (simp add: lent_ok_def)
    with D(4) [of u a] sum_alist_update [OF D(1), of "\<lambda>_ m. frozen_sum m u a" n m'] get show ?thesis
      by (simp add: frozen_total_def slack_def)
  qed
  moreover have "ctx_ok cx'" using mi by (simp add: market_inv_def)
  moreover have "j = m_name k \<and> tagged k" if "(j, k) \<in> set (AList.update n m' ms)" for j k
    using that set_alist_update [OF D(1), of n m'] D(5) [of j k] D(5) [OF map_of_SomeD [OF get]] l
    by (auto simp: lent_ok_def same_tags_def)
  ultimately show ?thesis using D(1) lent_ok_apart [OF inv l get] by (auto simp: exch_inv_def distinct_update)
qed

locale market_operation =
  fixes op :: "env \<Rightarrow> market \<Rightarrow> ctx \<Rightarrow> (market \<times> ctx \<times> 'r) option"
    and pre :: "env \<Rightarrow> market \<Rightarrow> ctx \<Rightarrow> bool"
    and n :: nat and u :: uuid
  assumes op_ok: "market_inv m cx \<Longrightarrow> pre E m cx \<Longrightarrow>
    \<exists>m' cx' r. op E m cx = Some (m', cx', r) \<and> lent_ok m cx m' cx' \<and> grows n u m cx m' cx'"
begin

lemma op_lent:
  assumes "exch_inv ms cx" and "map_of ms k = Some m" and "pre E m cx" and "op E m cx = Some (m', cx', r)"
  shows "lent_ok m cx m' cx'" and "grows n u m cx m' cx'"
  using op_ok [OF exch_market_inv [OF assms(1,2)] assms(3)] assms(4) by auto

lemma op_exch:
  assumes "exch_inv ms cx" and "map_of ms k = Some m" and "pre E m cx" and "op E m cx = Some (m', cx', r)"
  shows "exch_inv (AList.update k m' ms) cx'"
  by (rule lent_ok_exch [OF assms(1,2) op_lent(1) [OF assms]])

lemma op_total:
  assumes "exch_inv ms cx" and "map_of ms k = Some m" and "pre E m cx"
  shows "op E m cx \<noteq> None"
  using op_ok [OF exch_market_inv [OF assms(1,2)] assms(3)] by auto

end

lemma word_le_succ: "unat (x :: u64) + 1 < 2 ^ 64 \<Longrightarrow> x \<le> x + 1"
  by (simp add: word_le_nat_alt unat_word_ariths)

lemma unat_add_of_nat: "unat (x + of_nat k :: u64) \<le> unat x + k"
proof -
  have "unat (x + of_nat k :: u64) = (unat x + k) mod 2 ^ 64"
    by (simp add: unat_word_ariths unat_of_nat mod_simps)
  then show ?thesis by simp
qed

lemma run_trade_ids:
  "run E ql rs ms fills ms' \<Longrightarrow>
     sq_trade_id (cx_sequencer (ms_cx ms')) = sq_trade_id (cx_sequencer (ms_cx ms)) + of_nat (length fills)"
  by (induction rule: run.induct) (simp_all add: tradedD(13) stops_frame)

lemma set_bt_insert_sub: "set (bt_insert k v kvs) \<subseteq> insert (k, v) (set kvs)"
  by (induction k v kvs rule: bt_insert.induct) auto

lemma length_bt_insert_le: "length (bt_insert k v kvs) \<le> Suc (length kvs)"
  by (induction k v kvs rule: bt_insert.induct) auto

lemma length_remove_all: "length (m_orders (remove_all fs m)) \<le> length (m_orders m)"
proof (induction fs arbitrary: m)
  case (Cons x fs)
  have "length (m_orders (remove_order x m)) \<le> length (m_orders m)" by (simp add: bt_remove_def)
  with Cons [of "remove_order x m"] show ?case by simp
qed simp

text \<open>The orders that rest after an accepted submission: those of before, and perhaps the new one.\<close>

lemma put_order_orders:
  assumes E: "env_laws E" and inv: "market_inv m cx" and ok: "input_ok i" and room: "room m cx"
    and put: "put_order E i u m cx = Some (m', cx', Inr x')"
  shows "m_name m' = m_name m \<and> m_base m' = m_base m \<and> m_quote m' = m_quote m"
    and "(j, r) \<in> set (m_orders m') \<Longrightarrow> (j, r) \<in> set (m_orders m) \<and> same_const (deep m r) (deep m' r) \<or>
      j = sq_order_id (cx_sequencer cx) + 1 \<and> r = length (m_heap m) \<and> same_const (accepted_order E i u m cx) (deep m' r)"
    and "length (m_orders m') \<le> length (m_orders m) + 1"
proof -
  from put_order_accepted [OF assms] obtain ql fills ms where
    con: "conclude ms = (m', cx', x')" and
    run: "run E ql (counter_orders m (i_side i)) (start (accepted_order E i u m cx) m (accepted_ctx cx)) fills ms" by blast
  let ?m1 = "remove_all (ms_finished ms) (ms_market ms)" and ?x = "rested (ms_taker ms)"
  have sb: "same_book m (ms_market ms)" and sc: "same_const (accepted_order E i u m cx) ?x"
    using run_frame [OF run, simplified] by (simp_all add: same_const_def rested_def)
  then have oid: "o_id ?x = sq_order_id (cx_sequencer cx) + 1" by (simp add: same_const_def accepted_order_def order_of_input_def)
  have heap: "m_heap ?m1 = m_heap (ms_market ms)" "length (m_heap (ms_market ms)) = length (m_heap m)"
    using sb by (simp_all add: same_book_def)
  have m': "m' = (if rests ms then add_order ?x ?m1 else ?m1)" using con by (auto simp: conclude_def Let_def split: if_splits)
  then show "m_name m' = m_name m \<and> m_base m' = m_base m \<and> m_quote m' = m_quote m" using sb by (simp add: same_book_def)
  have old: "same_const (deep m r) (deep m' r)" if "r < length (m_heap m)" for r
    using that m' heap sb by (simp add: same_book_def)
  have sub: "set (m_orders ?m1) \<subseteq> set (m_orders m)" using sb by (auto simp: set_orders_remove_all same_book_def)
  have rc: "r < length (m_heap m)" if "(j, r) \<in> set (m_orders m)" for j r
    using inv that by (auto simp: market_inv_def book_ok_def book_struct_def)
  show "(j, r) \<in> set (m_orders m) \<and> same_const (deep m r) (deep m' r) \<or>
      j = sq_order_id (cx_sequencer cx) + 1 \<and> r = length (m_heap m) \<and> same_const (accepted_order E i u m cx) (deep m' r)"
    if jr: "(j, r) \<in> set (m_orders m')"
  proof (cases "(j, r) \<in> set (m_orders ?m1)")
    case False
    then have "rests ms" "(j, r) = (o_id ?x, length (m_heap m))"
      using jr m' heap set_bt_insert_sub [of "o_id ?x" "length (m_heap m)" "m_orders ?m1"] by (auto split: if_splits)
    then show ?thesis using m' heap deep_add_order_new [of ?x ?m1] sc oid by simp
  qed (use sub rc old in blast)
  have "length (m_orders m') \<le> Suc (length (m_orders ?m1))" by (simp add: m' length_bt_insert_le)
  then show "length (m_orders m') \<le> length (m_orders m) + 1"
    using length_remove_all [of "ms_finished ms" "ms_market ms"] sb by (simp add: same_book_def)
qed

lemma put_order_grows:
  assumes E: "env_laws E" and inv: "market_inv m cx" and ok: "input_ok i" and room: "room m cx"
    and put: "put_order E i u m cx = Some (m', cx', Inr x')"
  shows "grows 1 u m cx m' cx'"
proof -
  from put_order_accepted [OF assms] obtain ql fills ms where
    con: "conclude ms = (m', cx', x')" and
    run: "run E ql (counter_orders m (i_side i)) (start (accepted_order E i u m cx) m (accepted_ctx cx)) fills ms" by blast
  note res = put_order_result [OF assms] and os = put_order_orders [OF assms]
  have bs: "book_struct m" "book_struct m'" using inv res(1) by (simp_all add: market_inv_def book_ok_def)
  have live: "live_of m' v \<subseteq> live_of m v \<union> (if v = u then {(sq_order_id (cx_sequencer cx) + 1, length (m_heap m))} else {})" for v
    using os(2) by (fastforce simp: live_of_def same_const_def)
  obtain rest where "counter_orders m (i_side i) = map fst fills @ rest" using run_prefix [OF run] by blast
  then have fl: "length fills \<le> length (m_orders m)" using length_counter_orders [OF bs(1), of "i_side i"]
    by (metis add_leD1 length_append length_map)
  have "sq_trade_id (cx_sequencer cx') = sq_trade_id (cx_sequencer cx) + of_nat (length fills)"
    using run_trade_ids [OF run] conclude_frame(2) [OF con] by simp
  then have tid: "unat (sq_trade_id (cx_sequencer cx')) \<le> unat (sq_trade_id (cx_sequencer cx)) + length (m_orders m)"
    using unat_add_of_nat fl by (metis add_left_mono order_trans)
  have "unat (sq_order_id (cx_sequencer cx')) \<le> unat (sq_order_id (cx_sequencer cx)) + 1"
    using res(5) unat_add_of_nat [of "sq_order_id (cx_sequencer cx)" 1] by simp
  with os(3) tid show ?thesis by (intro growsI [OF bs live]) simp_all
qed

lemma word_less_succ: "unat (x :: u64) + 1 < 2 ^ 64 \<Longrightarrow> x < x + 1"
  by (simp add: word_less_nat_alt unat_word_ariths)

lemma put_order_tags:
  assumes E: "env_laws E" and inv: "market_inv m cx" and ok: "input_ok i" and room: "room m cx"
    and put: "put_order E i u m cx = Some (m', cx', Inr x')"
  shows "same_tags m m'" and "j \<in> order_ids m' \<Longrightarrow> j \<in> order_ids m \<or> sq_order_id (cx_sequencer cx) < j"
proof -
  note os = put_order_orders [OF assms]
  have lt: "sq_order_id (cx_sequencer cx) < sq_order_id (cx_sequencer cx) + 1"
    using room by (intro word_less_succ) (simp add: room_def)
  then show "j \<in> order_ids m' \<Longrightarrow> j \<in> order_ids m \<or> sq_order_id (cx_sequencer cx) < j"
    using os(2) by (fastforce simp: order_ids_def)
  have "sq_order_id (cx_sequencer cx) + 1 \<noteq> 0" using lt by auto
  moreover have "o_market (accepted_order E i u m cx) = m_name m \<and> o_base (accepted_order E i u m cx) = m_base m \<and>
      o_quote (accepted_order E i u m cx) = m_quote m"
    by (simp add: accepted_order_def order_of_input_def)
  ultimately have "tagged m'" if t: "tagged m"
    unfolding tagged_def
  proof (clarify)
    fix j r assume "(j, r) \<in> set (m_orders m')"
    from os(2) [OF this] os(1) t \<open>sq_order_id (cx_sequencer cx) + 1 \<noteq> 0\<close>
      \<open>o_market (accepted_order E i u m cx) = m_name m \<and> _\<close>
    show "j \<noteq> 0 \<and> o_market (deep m' r) = m_name m' \<and> o_base (deep m' r) = m_base m' \<and> o_quote (deep m' r) = m_quote m'"
      by (auto simp: tagged_def same_const_def)
  qed
  with os(1) show "same_tags m m'" by (simp add: same_tags_def)
qed

interpretation put: market_operation "\<lambda>E. put_order E i u" "\<lambda>E m cx. env_laws E \<and> input_ok i \<and> room m cx" 1 u for i u
proof
  fix m cx E
  assume inv: "market_inv m cx" and pre: "env_laws E \<and> input_ok i \<and> room m cx"
  then have h: "env_laws E" "market_inv m cx" "input_ok i" "room m cx" by simp_all
  show "\<exists>m' cx' r. put_order E i u m cx = Some (m', cx', r) \<and> lent_ok m cx m' cx' \<and> grows 1 u m cx m' cx'"
    using put_order_run [OF h, of u]
  proof (elim disjE exE conjE)
    fix e assume "put_order E i u m cx = Some (m, cx, Inl e)"
    with inv show ?thesis by (auto intro: lent_ok_refl)
  next
    fix m' cx' x' assume put: "put_order E i u m cx = Some (m', cx', Inr x')"
    have "unat (sq_order_id (cx_sequencer cx)) + 1 < 2 ^ 64" using h(4) by (simp add: room_def)
    with put put_order_result [OF h put] put_order_grows [OF h put] put_order_tags [OF h put] show ?thesis
      by (auto simp: lent_ok_def intro: word_le_succ)
  qed
qed

lemma finish_lent:
  assumes E: "env_laws E" and inv: "market_inv m cx" and get: "bt_get (m_orders m) i = Some r"
  shows "order_finish E (deep m r) (m, cx) = Some (finish_state (deep m r) (m, cx))"
    and "lent_ok m cx (fst (finish_state (deep m r) (m, cx))) (snd (finish_state (deep m r) (m, cx)))"
    and "grows 0 u m cx (fst (finish_state (deep m r) (m, cx))) (snd (finish_state (deep m r) (m, cx)))"
proof -
  note fin = finish_live [OF assms]
  show "order_finish E (deep m r) (m, cx) = Some (finish_state (deep m r) (m, cx))" by (rule fin(1))
  show "lent_ok m cx (fst (finish_state (deep m r) (m, cx))) (snd (finish_state (deep m r) (m, cx)))"
    using fin by (simp_all add: lent_ok_def)
      (auto simp: finish_state_def released_def same_tags_def tagged_def order_ids_def bt_remove_def)
  have "book_struct m" "book_struct (fst (finish_state (deep m r) (m, cx)))"
    using inv fin(2) by (simp_all add: market_inv_def book_ok_def)
  then show "grows 0 u m cx (fst (finish_state (deep m r) (m, cx))) (snd (finish_state (deep m r) (m, cx)))"
    by (rule growsI [where N = "{}"]) (auto simp: finish_state_def live_of_def bt_remove_def)
qed

interpretation cancel: market_operation "\<lambda>E. market_cancel E i" "\<lambda>E m cx. env_laws E \<and> market_get m i \<noteq> None" 0 u for i u
proof
  fix m cx E
  assume inv: "market_inv m cx" and pre: "env_laws E \<and> market_get m i \<noteq> None"
  then obtain r where r: "bt_get (m_orders m) i = Some r" by (auto simp: market_get_def)
  have E: "env_laws E" using pre by simp
  from finish_lent(1,2) [OF E inv r] finish_lent(3) [OF E inv r, of u] r
  show "\<exists>m' cx' x. market_cancel E i m cx = Some (m', cx', x) \<and> lent_ok m cx m' cx' \<and> grows 0 u m cx m' cx'"
    by (cases "finish_state (deep m r) (m, cx)") (auto simp: market_cancel_def)
qed

lemma cancel_orders_lent:
  assumes E: "env_laws E"
  shows "market_inv m cx \<Longrightarrow> map fst (user_map m u) = js \<Longrightarrow>
    \<exists>m' cx'. cancel_orders E js (m, cx) = Some (m', cx') \<and> lent_ok m cx m' cx' \<and> grows 0 v m cx m' cx'"
proof (induction js arbitrary: m cx)
  case Nil
  then show ?case by (simp add: lent_ok_refl)
next
  case (Cons i js)
  have bs: "book_struct m" using Cons.prems(1) by (simp add: market_inv_def book_ok_def)
  from Cons.prems(2) obtain r um where um: "user_map m u = (i, r) # um" and js: "map fst um = js" by auto
  then have "(i, r) \<in> set (user_map m u)" by simp
  then have ir: "(i, r) \<in> set (m_orders m)" and ou: "o_user (deep m r) = u" by (simp_all add: user_map_set(2) [OF bs])
  have get: "bt_get (m_orders m) i = Some r" by (simp add: bt_get_iff [OF book_structD(1) [OF bs]] ir)
  let ?x = "deep m r"
  define m1 cx1 where "m1 = fst (finish_state ?x (m, cx))" and "cx1 = snd (finish_state ?x (m, cx))"
  note fin = finish_lent [OF E Cons.prems(1) get, folded m1_def cx1_def]
  have id: "o_id ?x = i" by (rule book_structD(7) [OF bs ir])
  have "i \<notin> fst ` set um" using bt_inv_distinct [OF user_map_set(1) [OF bs, of u]] by (simp add: um)
  then have "bt_remove i ((i, r) # um) = um" by (force simp: bt_remove_def filter_id_conv)
  moreover have "m1 = remove_order ?x m" by (simp add: m1_def finish_state_def)
  ultimately have um1: "map fst (user_map m1 u) = js"
    using user_map_remove [OF bs _ refl, of r u] ir id um js ou by simp
  have inv1: "market_inv m1 cx1" using fin(2) by (simp add: lent_ok_def)
  from Cons.IH [OF inv1 um1] obtain m' cx' where
    "cancel_orders E js (m1, cx1) = Some (m', cx')" "lent_ok m1 cx1 m' cx'" "grows 0 v m1 cx1 m' cx'" by blast
  with fin lent_ok_trans [OF fin(2)] grows_trans0 [OF fin(3) [of v]] show ?case by (auto simp: get m1_def cx1_def)
qed

interpretation cancel_all:
  market_operation "\<lambda>E. cancel_all_for_user E (uuid_to_string E u)" "\<lambda>E m cx. env_laws E" 0 v for u v
proof
  fix m cx E
  assume inv: "market_inv m cx" and E: "env_laws E"
  from cancel_orders_lent [OF E inv refl, of u v] obtain m' cx' where
    "cancel_orders E (map fst (user_map m u)) (m, cx) = Some (m', cx')" "lent_ok m cx m' cx'" "grows 0 v m cx m' cx'" by blast
  then show "\<exists>m' cx' r. cancel_all_for_user E (uuid_to_string E u) m cx = Some (m', cx', r) \<and>
      lent_ok m cx m' cx' \<and> grows 0 v m cx m' cx'"
    by (simp add: cancel_all_for_user_def env_uuid [OF E] flip: user_map_def)
qed

end
