(* ===== verification/MarketTests.thy ===== *)
theory MarketTests
  imports MarketSpend EngineCalls ControllerInv
begin

text \<open>
  The unit tests of \<^verbatim>\<open>src/matchengine/market/mod.rs\<close> and the fixtures of \<^verbatim>\<open>src/matchengine/mock.rs\<close>, run
  on the model: the two scripted tests are evaluated, and the randomised one is proved to pass whatever
  the random generator draws. A failed assertion, \<^verbatim>\<open>unwrap\<close> or \<^verbatim>\<open>panic!\<close> is the value \<open>None\<close>. The
  operations called are those of the release build: the \<^verbatim>\<open>debug_assert!\<close> checks inside them, which a test build makes too,
  are not part of the model.
\<close>

section \<open>Fixtures\<close>

datatype MockAsset = MockETH | MockUSDT

fun mock_id :: "MockAsset \<Rightarrow> string" where
  "mock_id MockETH = ''ETH''"
| "mock_id MockUSDT = ''USDT''"

fun mock_symbol :: "MockAsset \<Rightarrow> string" where
  "mock_symbol MockETH = ''ETH''"
| "mock_symbol MockUSDT = ''USDT''"

fun mock_name :: "MockAsset \<Rightarrow> string" where
  "mock_name MockETH = ''Ether''"
| "mock_name MockUSDT = ''Tether USD''"

definition get_simple_market_config :: market_cfg where
  "get_simple_market_config = \<lparr>mc_name = ''ETH_USDT'', mc_base = mock_id MockETH, mc_quote = mock_id MockUSDT,
     mc_amount_prec = 4, mc_price_prec = 2, mc_fee_prec = 2, mc_min_amount = 1 / 100\<rparr>"

definition get_integer_prec_market_config :: market_cfg where
  "get_integer_prec_market_config = \<lparr>mc_name = ''ETH_USDT'', mc_base = mock_id MockETH, mc_quote = mock_id MockUSDT,
     mc_amount_prec = 0, mc_price_prec = 0, mc_fee_prec = 0, mc_min_amount = 0\<rparr>"

definition get_simple_asset_config :: "u32 \<Rightarrow> asset_cfg list" where
  "get_simple_asset_config prec =
     [\<lparr>ac_id = mock_id MockUSDT, ac_symbol = mock_symbol MockUSDT, ac_name = mock_name MockUSDT,
        ac_prec_save = prec, ac_prec_show = prec\<rparr>,
      \<lparr>ac_id = mock_id MockETH, ac_symbol = mock_symbol MockETH, ac_name = mock_name MockETH,
        ac_prec_save = prec, ac_prec_show = prec\<rparr>]"

definition get_simple_asset_manager :: "asset_cfg list \<Rightarrow> asset_manager option" where
  "get_simple_asset_manager assets = asset_manager_new assets"

definition get_simple_balance_manager :: "asset_cfg list \<Rightarrow> balance_manager option" where
  "get_simple_balance_manager assets = bm_new assets"

section \<open>The scripted tests\<close>

definition assert_that :: "bool \<Rightarrow> unit option" where
  "assert_that b = (if b then Some () else None)"

text \<open>\<^verbatim>\<open>put_order(..).unwrap()\<close>\<close>

definition put_unwrap :: "env \<Rightarrow> order_input \<Rightarrow> uuid \<Rightarrow> market \<times> ctx \<Rightarrow> (market \<times> ctx \<times> order) option" where
  "put_unwrap E i u mc = do {
     (m, cx, res) \<leftarrow> put_order E i u (fst mc) (snd mc);
     case res of Inl e \<Rightarrow> None | Inr x \<Rightarrow> Some (m, cx, x)
   }"

text \<open>The context at the start of a test: the given balances and persistor, everything else fresh.\<close>

definition test_ctx :: "unit persistor \<Rightarrow> balance_manager \<Rightarrow> ctx" where
  "test_ctx persistor bm = \<lparr>cx_sequencer = default_sequencer, cx_bm = bm, cx_cache = update_controller_new,
     cx_real_persist = real_persist persistor, cx_calls = [], cx_clock = 0\<rparr>"

definition add_300_1000 :: "env \<Rightarrow> uuid \<Rightarrow> uuid \<Rightarrow> balance_manager \<Rightarrow> balance_manager option" where
  "add_300_1000 E u v bm = do {
     (bm, _) \<leftarrow> bm_add E bm u AVAILABLE (mock_id MockUSDT) 300;
     (bm, _) \<leftarrow> bm_add E bm v AVAILABLE (mock_id MockUSDT) 300;
     (bm, _) \<leftarrow> bm_add E bm u AVAILABLE (mock_id MockETH) 1000;
     (bm, _) \<leftarrow> bm_add E bm v AVAILABLE (mock_id MockETH) 1000;
     Some bm
   }"

definition unwrap_market :: "(string + market) option \<Rightarrow> market option" where
  "unwrap_market r = (case r of Some (Inr m) \<Rightarrow> Some m | _ \<Rightarrow> None)"

text \<open>The second half of the test, from the bid order on.\<close>

definition taker_is_bid_second :: "env \<Rightarrow> uuid \<Rightarrow> uuid \<Rightarrow> order \<Rightarrow> market \<Rightarrow> ctx \<Rightarrow> unit option" where
  "taker_is_bid_second E ask_user_id bid_user_id ask_order market cx = do {
     let bid_order_input = \<lparr>i_side = BID, i_type = MARKET, i_amount = 10, i_price = 0, i_quote_limit = 0,
       i_taker_fee = 1 / 1000, i_maker_fee = 1 / 1000, i_market = m_name market, i_post_only = False\<rparr>;
     (market, cx, bid_order) \<leftarrow> put_unwrap E bid_order_input bid_user_id (market, cx);
     assert_that (o_id bid_order = 2);
     assert_that (o_remain bid_order = 0);
     assert_that (o_finished_quote bid_order = 1);
     assert_that (o_finished_base bid_order = 10);
     assert_that (o_finished_fee bid_order = 1 / 100);
     ask_order \<leftarrow> market_get market (o_id ask_order);
     assert_that (o_remain ask_order = 10);
     assert_that (o_finished_quote ask_order = 1);
     assert_that (o_finished_base ask_order = 10);
     assert_that (o_finished_fee ask_order = 1 / 1000);
     assert_that (bm_get (cx_bm cx) ask_user_id AVAILABLE (mock_id MockETH) = 980);
     assert_that (bm_get (cx_bm cx) ask_user_id FREEZE (mock_id MockETH) = 10);
     assert_that (bm_get (cx_bm cx) ask_user_id AVAILABLE (mock_id MockUSDT) = 300999 / 1000);
     assert_that (bm_get (cx_bm cx) ask_user_id FREEZE (mock_id MockUSDT) = 0);
     assert_that (bm_get (cx_bm cx) bid_user_id AVAILABLE (mock_id MockETH) = 100999 / 100);
     assert_that (bm_get (cx_bm cx) bid_user_id FREEZE (mock_id MockETH) = 0);
     assert_that (bm_get (cx_bm cx) bid_user_id AVAILABLE (mock_id MockUSDT) = 299);
     assert_that (bm_get (cx_bm cx) bid_user_id FREEZE (mock_id MockUSDT) = 0)
   }"

definition test_market_taker_is_bid :: "env \<Rightarrow> unit option" where
  "test_market_taker_is_bid E = do {
     bm \<leftarrow> get_simple_balance_manager (get_simple_asset_config 8);
     ask_user_id \<leftarrow> uuid_parse E ''f2c3a119-efc8-4a8a-9e44-9e3c378a7145'';
     bid_user_id \<leftarrow> uuid_parse E ''9f165718-6f7a-49f0-a619-85add5d0aacb'';
     bm \<leftarrow> add_300_1000 E ask_user_id bid_user_id bm;
     market \<leftarrow> unwrap_market (market_new get_simple_market_config default_settings bm);
     let ask_order_input = \<lparr>i_side = ASK, i_type = LIMIT, i_amount = 20, i_price = 1 / 10, i_quote_limit = 0,
       i_taker_fee = 1 / 1000, i_maker_fee = 1 / 1000, i_market = m_name market, i_post_only = False\<rparr>;
     (market, cx, ask_order) \<leftarrow> put_unwrap E ask_order_input ask_user_id (market, test_ctx DummyPersistor bm);
     assert_that (o_id ask_order = 1);
     assert_that (o_remain ask_order = 20);
     taker_is_bid_second E ask_user_id bid_user_id ask_order market cx
   }"

text \<open>The second test reads back the messages that a \<^verbatim>\<open>MemBasedPersistor\<close> has kept.\<close>

fun mem_messages :: "unit persistor \<Rightarrow> message list" where
  "mem_messages (MemBasedPersistor ms) = ms"
| "mem_messages p = []"

definition post_only_second :: "env \<Rightarrow> serde \<Rightarrow> uuid \<Rightarrow> uuid \<Rightarrow> order \<Rightarrow> market \<Rightarrow> ctx \<Rightarrow> unit option" where
  "post_only_second E S ask_user_id bid_user_id ask_order market cx = do {
     let bid_order_input = \<lparr>i_side = BID, i_type = LIMIT, i_amount = 10, i_price = 1 / 10, i_quote_limit = 0,
       i_taker_fee = 1 / 1000, i_maker_fee = 1 / 1000, i_market = m_name market, i_post_only = True\<rparr>;
     (market, cx, bid_order) \<leftarrow> put_unwrap E bid_order_input bid_user_id (market, cx);
     assert_that (o_id bid_order = 2);
     assert_that (o_remain bid_order = 10);
     assert_that (o_finished_quote bid_order = 0);
     assert_that (o_finished_base bid_order = 0);
     assert_that (o_finished_fee bid_order = 0);
     ask_order \<leftarrow> market_get market (o_id ask_order);
     assert_that (o_remain ask_order = 20);
     assert_that (o_finished_quote ask_order = 0);
     assert_that (o_finished_base ask_order = 0);
     assert_that (o_finished_fee ask_order = 0);
     persistor \<leftarrow> persist_all E S (cx_calls cx) (MemBasedPersistor []);
     assert_that (mem_messages persistor \<noteq> []);
     (case last (mem_messages persistor) of
        OrderMessage msg \<Rightarrow> do {
          assert_that (omsg_event msg = FINISH \<and> o_id (omsg_order msg) = 2);
          assert_that (o_user (omsg_order msg) = bid_user_id) }
      | _ \<Rightarrow> None);
     assert_that (bm_get (cx_bm cx) ask_user_id AVAILABLE (mock_id MockETH) = 980);
     assert_that (bm_get (cx_bm cx) ask_user_id FREEZE (mock_id MockETH) = 20);
     assert_that (bm_get (cx_bm cx) ask_user_id AVAILABLE (mock_id MockUSDT) = 300);
     assert_that (bm_get (cx_bm cx) ask_user_id FREEZE (mock_id MockUSDT) = 0);
     assert_that (bm_get (cx_bm cx) bid_user_id AVAILABLE (mock_id MockETH) = 1000);
     assert_that (bm_get (cx_bm cx) bid_user_id FREEZE (mock_id MockETH) = 0);
     assert_that (bm_get (cx_bm cx) bid_user_id AVAILABLE (mock_id MockUSDT) = 300);
     assert_that (bm_get (cx_bm cx) bid_user_id FREEZE (mock_id MockUSDT) = 0)
   }"

definition test_limit_post_only_orders :: "env \<Rightarrow> serde \<Rightarrow> unit option" where
  "test_limit_post_only_orders E S = do {
     bm \<leftarrow> get_simple_balance_manager (get_simple_asset_config 8);
     ask_user_id \<leftarrow> uuid_parse E ''74a3c761-0fbd-4a8c-8a38-b8c1a3e9138a'';
     bid_user_id \<leftarrow> uuid_parse E ''3e8bd3ba-baf5-4052-91de-abde8e062b57'';
     bm \<leftarrow> add_300_1000 E ask_user_id bid_user_id bm;
     market \<leftarrow> unwrap_market (market_new get_simple_market_config default_settings bm);
     let ask_order_input = \<lparr>i_side = ASK, i_type = LIMIT, i_amount = 20, i_price = 1 / 10, i_quote_limit = 0,
       i_taker_fee = 1 / 1000, i_maker_fee = 1 / 1000, i_market = m_name market, i_post_only = True\<rparr>;
     (market, cx, ask_order) \<leftarrow> put_unwrap E ask_order_input ask_user_id (market, test_ctx (MemBasedPersistor []) bm);
     assert_that (o_id ask_order = 1);
     assert_that (o_remain ask_order = 20);
     post_only_second E S ask_user_id bid_user_id ask_order market cx
   }"

text \<open>
  The scripted unit tests of the market pass on the model: every assertion that the source makes about
  the identifiers, amounts and fees of the orders, the balances of both users and the last message holds.
\<close>

definition test_env :: env where
  "test_env = ref_env\<lparr>uuid_parse := (\<lambda>s.
     if s = ''f2c3a119-efc8-4a8a-9e44-9e3c378a7145'' \<or> s = ''74a3c761-0fbd-4a8c-8a38-b8c1a3e9138a'' then Some 1
     else if s = ''9f165718-6f7a-49f0-a619-85add5d0aacb'' \<or> s = ''3e8bd3ba-baf5-4052-91de-abde8e062b57'' then Some 2
     else uuid_parse ref_env s)\<rparr>"

text \<open>The state of both tests after the first order, evaluated once.\<close>

definition test_am :: "u32 \<Rightarrow> asset_manager" where
  "test_am p = \<lparr>am_assets = [(''USDT'', \<lparr>ai_prec_save = p, ai_prec_show = p, ai_inner_id = 1436465\<rparr>),
     (''ETH'', \<lparr>ai_prec_save = p, ai_prec_show = p, ai_inner_id = 19205\<rparr>)]\<rparr>"

definition test_bm :: balance_manager where
  "test_bm = \<lparr>bm_asset_manager = test_am 8, bm_balances = [(bkey 1 AVAILABLE ''USDT'', 300), (bkey 2 AVAILABLE ''USDT'', 300),
     (bkey 1 AVAILABLE ''ETH'', 1000), (bkey 2 AVAILABLE ''ETH'', 1000)]\<rparr>"

definition test_market :: market where
  "test_market = \<lparr>m_name = ''ETH_USDT'', m_base = ''ETH'', m_quote = ''USDT'', m_amount_prec = 4, m_price_prec = 2,
     m_base_prec = 8, m_quote_prec = 8, m_fee_prec = 2, m_min_amount = 1 / 100, m_price = 0, m_heap = [],
     m_orders = [], m_users = [], m_asks = [], m_bids = [], m_trade_count = 0,
     m_disable_self_trade = True, m_disable_market_order = False\<rparr>"

definition test_ask :: "bool \<Rightarrow> order" where
  "test_ask post_only = \<lparr>o_id = 1, o_base = ''ETH'', o_quote = ''USDT'', o_market = ''ETH_USDT'', o_type = LIMIT, o_side = ASK,
     o_user = 1, o_post_only = post_only, o_price = 1 / 10, o_amount = 20, o_maker_fee = 1 / 1000, o_taker_fee = 1 / 1000,
     o_create_time = 0, o_remain = 20, o_frozen = 20, o_finished_base = 0, o_finished_quote = 0, o_finished_fee = 0,
     o_update_time = 0\<rparr>"

definition test_market1 :: "bool \<Rightarrow> market" where
  "test_market1 post_only = test_market\<lparr>m_heap := [test_ask post_only], m_orders := [(1, 0)], m_users := [(1, [(1, 0)])],
     m_asks := [(MarketKeyAsk (1 / 10) 1, 0)]\<rparr>"

definition test_ctx1 :: "unit persistor \<Rightarrow> bool \<Rightarrow> ctx" where
  "test_ctx1 p post_only = (test_ctx p test_bm)\<lparr>cx_sequencer := default_sequencer\<lparr>sq_order_id := 1\<rparr>,
     cx_bm := test_bm\<lparr>bm_balances := [(bkey 1 AVAILABLE ''USDT'', 300), (bkey 2 AVAILABLE ''USDT'', 300),
       (bkey 1 AVAILABLE ''ETH'', 980), (bkey 2 AVAILABLE ''ETH'', 1000), (bkey 1 FREEZE ''ETH'', 20)]\<rparr>,
     cx_calls := [PutOrder ((test_ask post_only)\<lparr>o_frozen := 0\<rparr>) PUT], cx_clock := 1\<rparr>"

definition test_input :: "bool \<Rightarrow> order_input" where
  "test_input post_only = \<lparr>i_side = ASK, i_type = LIMIT, i_amount = 20, i_price = 1 / 10, i_quote_limit = 0,
     i_taker_fee = 1 / 1000, i_maker_fee = 1 / 1000, i_market = ''ETH_USDT'', i_post_only = post_only\<rparr>"

lemma test_assets:
  "get_simple_balance_manager (get_simple_asset_config p) = Some \<lparr>bm_asset_manager = test_am p, bm_balances = []\<rparr>"
proof -
  have "from_str_radix36 ''USDT'' = Some 1436465" "from_str_radix36 ''ETH'' = Some 19205"
    by (simp_all add: from_str_radix36_def radix36_digit_def)
  then show ?thesis
    by (simp add: get_simple_balance_manager_def get_simple_asset_config_def bm_new_def asset_manager_new_def asset_info_of_def test_am_def)
qed

lemma test_deposits: "add_300_1000 test_env 1 2 \<lparr>bm_asset_manager = test_am 8, bm_balances = []\<rparr> = Some test_bm"
  by code_simp

lemma test_created: "unwrap_market (market_new get_simple_market_config default_settings test_bm) = Some test_market"
  by code_simp

lemma test_first:
  "put_unwrap test_env (test_input False) 1 (test_market, test_ctx DummyPersistor test_bm) =
     Some (test_market1 False, test_ctx1 DummyPersistor False, test_ask False)"
  "put_unwrap test_env (test_input True) 1 (test_market, test_ctx (MemBasedPersistor []) test_bm) =
     Some (test_market1 True, test_ctx1 (MemBasedPersistor []) True, test_ask True)"
  by code_simp+

lemma test_users:
  "uuid_parse test_env ''f2c3a119-efc8-4a8a-9e44-9e3c378a7145'' = Some 1"
  "uuid_parse test_env ''9f165718-6f7a-49f0-a619-85add5d0aacb'' = Some 2"
  "uuid_parse test_env ''74a3c761-0fbd-4a8c-8a38-b8c1a3e9138a'' = Some 1"
  "uuid_parse test_env ''3e8bd3ba-baf5-4052-91de-abde8e062b57'' = Some 2"
  by (simp_all add: test_env_def)

lemma taker_is_bid_second_passes:
  "taker_is_bid_second test_env 1 2 (test_ask False) (test_market1 False) (test_ctx1 DummyPersistor False) = Some ()"
  by code_simp

lemma post_only_second_passes:
  "post_only_second test_env demo_serde 1 2 (test_ask True) (test_market1 True) (test_ctx1 (MemBasedPersistor []) True) = Some ()"
  by code_simp

lemmas test_steps = test_users test_assets test_deposits test_created

text \<open>
  The scripted unit tests of the market pass on the model: every assertion that
  \<^verbatim>\<open>test_market_taker_is_bid\<close> and \<^verbatim>\<open>test_limit_post_only_orders\<close> make about the identifiers, amounts and
  fees of the orders, the balances of both users and the last message holds.
\<close>

theorem unit_tests_pass:
  "test_market_taker_is_bid test_env = Some () \<and> test_limit_post_only_orders test_env demo_serde = Some ()"
proof -
  have "m_name test_market = ''ETH_USDT''" "o_id (test_ask b) = 1" "o_remain (test_ask b) = 20" for b
    by (simp_all add: test_market_def test_ask_def)
  then show ?thesis
    using test_first taker_is_bid_second_passes post_only_second_passes
    by (simp add: test_market_taker_is_bid_def test_limit_post_only_orders_def test_steps test_input_def assert_that_def)
qed

section \<open>The randomised test\<close>

text \<open>What the generator draws in one turn: the first user or the second, a bid or an ask, an amount and a price.\<close>

type_synonym draw = "bool \<times> bool \<times> int \<times> int"

definition draw_ok :: "draw \<Rightarrow> bool" where
  "draw_ok = (\<lambda>(_, _, amount, price). 1 \<le> amount \<and> amount < 10 \<and> 120 \<le> price \<and> price < 140)"

definition update_balance_fn :: "env \<Rightarrow> u64 \<Rightarrow> uuid \<Rightarrow> string \<Rightarrow> decimal \<Rightarrow> ctx \<Rightarrow> ctx option" where
  "update_balance_fn E seq_id user_id asset amount cx = update_unwrap E
     \<lparr>up_balance_type = AVAILABLE, up_business_type = Deposit, up_user_id = user_id, up_business_id = seq_id,
      up_asset = asset, up_business = ''deposit'', up_market_price = 0, up_change = amount, up_detail = ''null''\<rparr> cx"

definition drawn_order :: "string \<Rightarrow> draw \<Rightarrow> order_input" where
  "drawn_order name = (\<lambda>(_, bid, amount, price). \<lparr>i_side = (if bid then BID else ASK), i_type = LIMIT, i_amount = of_int amount,
     i_price = of_int price, i_quote_limit = 0, i_taker_fee = 0, i_maker_fee = 0, i_market = name, i_post_only = False\<rparr>)"

fun put_drawn :: "env \<Rightarrow> uuid \<Rightarrow> uuid \<Rightarrow> draw list \<Rightarrow> market \<times> ctx \<Rightarrow> (market \<times> ctx) option" where
  "put_drawn E uid0 uid1 [] mc = Some mc"
| "put_drawn E uid0 uid1 (d # ds) mc = do {
     (m, cx, _) \<leftarrow> put_unwrap E (drawn_order (m_name (fst mc)) d) (if fst d then uid0 else uid1) mc;
     put_drawn E uid0 uid1 ds (m, cx)
   }"

text \<open>The random generator is a parameter: \<open>rng i\<close> is what the turn \<open>i\<close> draws. The variable \<^verbatim>\<open>KAFKA_BROKER\<close> decides
  whether the test persists to a messenger or to a file.\<close>

definition test_multi_orders :: "env \<Rightarrow> serde \<Rightarrow> string option \<Rightarrow> (nat \<Rightarrow> draw) \<Rightarrow> unit persistor option" where
  "test_multi_orders E S broker rng = do {
     let persistor = (case broker of Some b \<Rightarrow> MessengerBasedPersistor rd_new_and_run | None \<Rightarrow> FileBasedPersistor []);
     bm \<leftarrow> get_simple_balance_manager (get_simple_asset_config 0);
     uid0 \<leftarrow> uuid_parse E ''b7c65c7f-7c73-4e3b-a450-2816df872929'';
     uid1 \<leftarrow> uuid_parse E ''8a81b91a-ed38-4a52-8352-3b765dee2420'';
     cx \<leftarrow> update_balance_fn E 0 uid0 (mock_id MockUSDT) 1000000 (test_ctx persistor bm);
     cx \<leftarrow> update_balance_fn E 1 uid0 (mock_id MockETH) 1000000 cx;
     cx \<leftarrow> update_balance_fn E 2 uid1 (mock_id MockUSDT) 1000000 cx;
     cx \<leftarrow> update_balance_fn E 3 uid1 (mock_id MockETH) 1000000 cx;
     market \<leftarrow> unwrap_market (market_new get_integer_prec_market_config default_settings (cx_bm cx));
     (market, cx) \<leftarrow> put_drawn E uid0 uid1 (map rng [0..<100]) (market, cx);
     persist_all E S (cx_calls cx) persistor
   }"

text \<open>An order that passes the checks is not refused.\<close>

lemma put_order_accepts:
  assumes E: "env_laws E" and inv: "market_inv m cx" and ok: "input_ok i" and room: "room m cx"
    and check: "check_order_input E m i = Inr ()" and bal: "check_balance E m i u (cx_bm cx) = Some (Inr ())"
  obtains m' cx' x where "put_order E i u m cx = Some (m', cx', Inr x)"
proof -
  have "put_order E i u m cx \<noteq> Some (m, cx, Inl e)" for e
    using check bal by (auto simp: put_order_def Let_def split: Option.bind_splits prod.splits)
  with put_order_run [OF E inv ok room, of u] that show thesis by blast
qed

lemma put_order_precisions:
  assumes "env_laws E" and "market_inv m cx" and "input_ok i" and "room m cx"
    and "put_order E i u m cx = Some (m', cx', Inr x')"
  shows "m_amount_prec m' = m_amount_prec m \<and> m_price_prec m' = m_price_prec m \<and> m_min_amount m' = m_min_amount m"
proof -
  from put_order_accepted [OF assms] obtain ql fills ms where con: "conclude ms = (m', cx', x')" and
    run: "run E ql (counter_orders m (i_side i)) (start (accepted_order E i u m cx) m (accepted_ctx cx)) fills ms" by blast
  have "same_book m (ms_market ms)" using run_frame [OF run] by simp
  with con show ?thesis by (auto simp: conclude_def Let_def same_book_def split: if_splits)
qed

text \<open>What holds after \<open>k\<close> turns of the randomised test: the funds have been reduced by at most 1251 per turn.\<close>

definition multi_inv :: "env \<Rightarrow> uuid set \<Rightarrow> nat \<Rightarrow> market \<Rightarrow> ctx \<Rightarrow> bool" where
  "multi_inv E us k m cx \<longleftrightarrow> market_inv m cx \<and> m_base m = ''ETH'' \<and> m_quote m = ''USDT'' \<and>
     m_amount_prec m = 0 \<and> m_price_prec m = 0 \<and> m_min_amount m = 0 \<and> length (m_orders m) \<le> k \<and>
     unat (sq_order_id (cx_sequencer cx)) \<le> k \<and> unat (sq_trade_id (cx_sequencer cx)) \<le> 100 * k \<and>
     list_all (call_ok E) (cx_calls cx) \<and>
     (\<forall>u \<in> us. \<forall>a \<in> {''ETH'', ''USDT''}. 1000000 - 1251 * of_nat k \<le> bm_get (cx_bm cx) u AVAILABLE a)"

lemma has_prec_of_int: "has_prec n (of_int k)"
  by (rule has_precI [of _ "k * 10 ^ n"]) simp

lemma drawn_cost:
  assumes "1 \<le> a" and "a < 10" and "120 \<le> p" and "p < (140::int)"
  shows "of_int a * of_int p \<le> (1251::rat)" and "of_int a \<le> (1251::rat)" and "0 \<le> (of_int a * of_int p :: rat)"
proof -
  have "a * p \<le> 9 * 139" using assms by (intro mult_mono) simp_all
  then have "of_int (a * p) \<le> (of_int 1251 :: rat)" by (simp only: of_int_le_iff)
  then show "of_int a * of_int p \<le> (1251::rat)" by simp
  show "of_int a \<le> (1251::rat)" "0 \<le> (of_int a * of_int p :: rat)" using assms by simp_all
qed

lemma put_drawn_step:
  assumes E: "env_laws E" and inv: "multi_inv E us k m cx" and d: "draw_ok d" and k: "k < 100" and u: "u \<in> us"
  obtains m' cx' x where "put_unwrap E (drawn_order n d) u (m, cx) = Some (m', cx', x)" and "multi_inv E us (Suc k) m' cx'"
proof -
  obtain f bid a p where dd: "d = (f, bid, a, p)" by (cases d)
  let ?i = "drawn_order n d"
  note M = inv [unfolded multi_inv_def]
  have rng: "1 \<le> a" "a < 10" "120 \<le> p" "p < 140" using d by (simp_all add: draw_ok_def dd)
  note cost = drawn_cost [OF rng]
  have i: "i_type ?i = LIMIT" "i_side ?i = (if bid then BID else ASK)" "i_amount ?i = of_int a" "i_price ?i = of_int p"
    and ok: "input_ok ?i"
    using rng by (simp_all add: drawn_order_def dd input_ok_def)
  have room: "room m cx" using M k by (auto simp: room_def)
  have check: "check_order_input E m ?i = Inr ()"
    using M rng env_round_id [OF E has_prec_of_int] by (simp add: check_order_input_def drawn_order_def dd)
  have funds: "1000000 - 1251 * of_nat k \<le> bm_get (cx_bm cx) v AVAILABLE b" if "v \<in> us" "b \<in> {''ETH'', ''USDT''}" for v b
    using M that by blast
  have k': "(of_nat k :: rat) \<le> 99" using k by simp
  have bal: "check_balance E m ?i u (cx_bm cx) = Some (Inr ())"
    using M funds [OF u, of "''ETH''"] funds [OF u, of "''USDT''"] cost k'
    by (auto simp: check_balance_def balance_get_def env_uuid [OF E] env_arith [OF E] i)
  have mi: "market_inv m cx" using M by simp
  note h = E mi ok room
  from put_order_accepts [OF h check bal] obtain m' cx' x where put: "put_order E ?i u m cx = Some (m', cx', Inr x)" .
  have g: "grows 1 u m cx m' cx'" by (rule put_order_grows [OF h put])
  have "1000000 - 1251 * of_nat (Suc k) \<le> bm_get (cx_bm cx') v AVAILABLE b" if "v \<in> us" "b \<in> {''ETH'', ''USDT''}" for v b
    using limit_order_cost [OF h put i(1), of v b] funds [OF that] cost by (auto simp: i split: if_splits)
  moreover have "list_all (call_ok E) (cx_calls cx')"
    using put_order_calls [OF E put] M by (auto simp: adds_calls_def)
  moreover have "unat (sq_trade_id (cx_sequencer cx')) \<le> 100 * Suc k" using g M k by (auto simp: grows_def)
  ultimately have "multi_inv E us (Suc k) m' cx'"
    unfolding multi_inv_def
    using put_order_result(1) [OF h put] put_order_orders(1) [OF h put] put_order_precisions [OF h put] g M
    by (auto simp: grows_def)
  with put that show thesis by (auto simp: put_unwrap_def)
qed

lemma put_drawn_passes:
  assumes E: "env_laws E" and us: "{uid0, uid1} \<subseteq> us"
  shows "multi_inv E us k m cx \<Longrightarrow> list_all draw_ok ds \<Longrightarrow> k + length ds \<le> 100 \<Longrightarrow>
    \<exists>m' cx'. put_drawn E uid0 uid1 ds (m, cx) = Some (m', cx') \<and> list_all (call_ok E) (cx_calls cx')"
proof (induction ds arbitrary: k m cx)
  case Nil
  then show ?case by (simp add: multi_inv_def)
next
  case (Cons d ds)
  have u: "(if fst d then uid0 else uid1) \<in> us" using us by simp
  from Cons.prems have "draw_ok d" "k < 100" by simp_all
  from put_drawn_step [OF E Cons.prems(1) this u] obtain m' cx' x where
    "put_unwrap E (drawn_order (m_name m) d) (if fst d then uid0 else uid1) (m, cx) = Some (m', cx', x)"
    "multi_inv E us (Suc k) m' cx'" .
  with Cons.IH [of "Suc k" m' cx'] Cons.prems show ?case by auto
qed

text \<open>The deposits at the start of the test.\<close>

definition dep_inv :: "env \<Rightarrow> u64 \<Rightarrow> ctx \<Rightarrow> bool" where
  "dep_inv E s cx \<longleftrightarrow> bm_ok (cx_bm cx) \<and> bm_asset_manager (cx_bm cx) = test_am 0 \<and> cx_sequencer cx = default_sequencer \<and>
     (\<forall>k \<in> set (cx_cache cx). uk_business_type k = Deposit \<and> uk_business_id k < s) \<and> list_all (call_ok E) (cx_calls cx)"

lemma test_am_prec: "a \<in> {''ETH'', ''USDT''} \<Longrightarrow> asset_prec (test_am p) a = Some p"
  by (auto simp: asset_prec_def asset_get_def test_am_def)

lemma deposit_step:
  assumes E: "env_laws E" and inv: "dep_inv E s cx" and a: "a \<in> {''ETH'', ''USDT''}" and s: "s < s + 1"
  obtains cx' where "update_balance_fn E s u a 1000000 cx = Some cx'" and "dep_inv E (s + 1) cx'"
    and "\<And>v t b. bm_get (cx_bm cx') v t b = bm_get (cx_bm cx) v t b + (if v = u \<and> t = AVAILABLE \<and> b = a then 1000000 else 0)"
proof -
  let ?p = "\<lparr>up_balance_type = AVAILABLE, up_business_type = Deposit, up_user_id = u, up_business_id = s,
      up_asset = a, up_business = ''deposit'', up_market_price = 0, up_change = 1000000, up_detail = ''null''\<rparr>"
  have am: "amount_ok (cx_bm cx) (up_asset ?p) (up_change ?p)" and ok: "bm_ok (cx_bm cx)"
    using inv test_am_prec [OF a] by (simp_all add: dep_inv_def amount_ok_def)
  have fresh: "cache_key_of ?p \<notin> set (cx_cache cx)" using inv by (force simp: dep_inv_def cache_key_of_def)
  have json: "json_set_id E (up_detail ?p) (up_business_id ?p) \<noteq> None" using env_json [OF E, of s] by auto
  from update_user_balance_accepts [OF E ok am fresh _ json] obtain cx' where
    upd: "update_user_balance E ?p cx = Some (cx', Inr ())" and b: "booked ?p cx cx'" by auto
  have bm: "cx_bm cx' = book_change ?p (cx_bm cx)" using b by (simp add: booked_def)
  have "bm_ok (cx_bm cx')" unfolding bm by (rule book_change_ok [OF ok am])
  moreover have "uk_business_id k < s + 1" if "uk_business_id k < s" for k using that s by (rule less_trans)
  ultimately have "dep_inv E (s + 1) cx'"
    using b inv s update_user_balance_calls [OF E upd]
    by (auto simp: dep_inv_def booked_def same_frame_def cache_key_of_def adds_calls_def)
  with upd that show thesis by (simp add: update_balance_fn_def update_unwrap_def bm book_change_get)
qed

lemma multi_start:
  assumes "dep_inv E s cx" and funds: "\<And>u a. u \<in> us \<Longrightarrow> a \<in> {''ETH'', ''USDT''} \<Longrightarrow> 1000000 \<le> bm_get (cx_bm cx) u AVAILABLE a"
    and nonneg: "\<And>u a. 0 \<le> bm_get (cx_bm cx) u AVAILABLE a" and frozen: "\<And>u a. bm_get (cx_bm cx) u FREEZE a = 0"
  obtains m where "unwrap_market (market_new get_integer_prec_market_config default_settings (cx_bm cx)) = Some m"
    and "multi_inv E us 0 m cx"
proof -
  define m where "m = \<lparr>m_name = ''ETH_USDT'', m_base = ''ETH'', m_quote = ''USDT'', m_amount_prec = 0, m_price_prec = 0,
     m_base_prec = 0, m_quote_prec = 0, m_fee_prec = 0, m_min_amount = 0, m_price = 0, m_heap = [], m_orders = [], m_users = [],
     m_asks = [], m_bids = [], m_trade_count = 0, m_disable_self_trade = True, m_disable_market_order = False\<rparr>"
  have am: "bm_asset_manager (cx_bm cx) = test_am 0" using assms(1) by (simp add: dep_inv_def)
  note prec = test_am_prec [of "''ETH''" 0, simplified] test_am_prec [of "''USDT''" 0, simplified]
  have "unwrap_market (market_new get_integer_prec_market_config default_settings (cx_bm cx)) = Some m"
    using am prec by (simp add: market_new_def get_integer_prec_market_config_def default_settings_def unwrap_market_def
        asset_exist_iff m_def)
  moreover have "book_ok m"
    by (auto simp: book_ok_def m_def book_struct_def in_users_def bt_inv_def orders_ok_def all_open_def uncrossed_def)
  moreover have "solvent m (cx_bm cx)" using frozen by (simp add: solvent_def frozen_sum_def m_def)
  moreover have "mkt_ok m (cx_bm cx)" using am prec by (simp add: mkt_ok_def m_def)
  moreover have "ctx_ok cx" using assms(1) nonneg by (auto simp: ctx_ok_def dep_inv_def avail_ok_def trade_ids_ok_def)
  ultimately have "market_inv m cx \<and> unwrap_market (market_new get_integer_prec_market_config default_settings (cx_bm cx)) = Some m"
    by (simp add: market_inv_def ids_below_def) (simp add: m_def)
  with that [of m] assms(1) funds show thesis by (auto simp: multi_inv_def dep_inv_def default_sequencer_def m_def)
qed

text \<open>
  Without a broker, the randomised test of the market passes whatever is drawn: after the four deposits, a hundred limit
  orders of either user and either side, with amounts from 1 to 9 and prices from 120 to 139, are
  all accepted and the test returns.
\<close>

theorem multi_orders_pass:
  assumes "env_laws E" and "uuid_parse E ''b7c65c7f-7c73-4e3b-a450-2816df872929'' = Some uid0"
    and "uuid_parse E ''8a81b91a-ed38-4a52-8352-3b765dee2420'' = Some uid1" and "\<And>i. i < 100 \<Longrightarrow> draw_ok (rng i)"
  shows "\<exists>persistor. test_multi_orders E S None rng = Some persistor"
proof -
  let ?p = "FileBasedPersistor [] :: unit persistor"
  let ?cx = "test_ctx ?p \<lparr>bm_asset_manager = test_am 0, bm_balances = []\<rparr>"
  note E = assms(1)
  have "dep_inv E 0 ?cx" by (simp add: dep_inv_def test_ctx_def bm_ok_def update_controller_new_def)
  from deposit_step [OF E this, of "''USDT''" uid0] obtain cx1 where 1: "update_balance_fn E 0 uid0 ''USDT'' 1000000 ?cx = Some cx1"
    "dep_inv E 1 cx1" "\<And>v t b. bm_get (cx_bm cx1) v t b = bm_get (cx_bm ?cx) v t b + (if v = uid0 \<and> t = AVAILABLE \<and> b = ''USDT'' then 1000000 else 0)"
    by auto
  from deposit_step [OF E 1(2), of "''ETH''" uid0] obtain cx2 where 2: "update_balance_fn E 1 uid0 ''ETH'' 1000000 cx1 = Some cx2"
    "dep_inv E 2 cx2" "\<And>v t b. bm_get (cx_bm cx2) v t b = bm_get (cx_bm cx1) v t b + (if v = uid0 \<and> t = AVAILABLE \<and> b = ''ETH'' then 1000000 else 0)"
    by auto
  from deposit_step [OF E 2(2), of "''USDT''" uid1] obtain cx3 where 3: "update_balance_fn E 2 uid1 ''USDT'' 1000000 cx2 = Some cx3"
    "dep_inv E 3 cx3" "\<And>v t b. bm_get (cx_bm cx3) v t b = bm_get (cx_bm cx2) v t b + (if v = uid1 \<and> t = AVAILABLE \<and> b = ''USDT'' then 1000000 else 0)"
    by auto
  from deposit_step [OF E 3(2), of "''ETH''" uid1] obtain cx4 where 4: "update_balance_fn E 3 uid1 ''ETH'' 1000000 cx3 = Some cx4"
    "dep_inv E 4 cx4" "\<And>v t b. bm_get (cx_bm cx4) v t b = bm_get (cx_bm cx3) v t b + (if v = uid1 \<and> t = AVAILABLE \<and> b = ''ETH'' then 1000000 else 0)"
    by auto
  have zero: "bm_get (cx_bm ?cx) v t b = 0" for v t b by (simp add: test_ctx_def bm_get_def bm_get_by_key_def)
  obtain m where m: "unwrap_market (market_new get_integer_prec_market_config default_settings (cx_bm cx4)) = Some m"
    "multi_inv E {uid0, uid1} 0 m cx4"
    by (rule multi_start [OF 4(2), of "{uid0, uid1}"]) (auto simp: 4(3) 3(3) 2(3) 1(3) zero)
  have "list_all draw_ok (map rng [0..<100])" using assms(4) by (simp add: list_all_iff)
  from put_drawn_passes [OF E order_refl m(2) this] obtain m' cx' where
    put: "put_drawn E uid0 uid1 (map rng [0..<100]) (m, cx4) = Some (m', cx')" "list_all (call_ok E) (cx_calls cx')" by auto
  have "\<exists>p'. persist_all E S (cx_calls cx') ?p = Some p'"
    using px.put_all_room [of "cx_calls cx'" 0 ?p E S] put(2) by (auto simp: persist_all_put_all)
  with put(1) m(1) 1(1) 2(1) 3(1) 4(1) assms(2,3) show ?thesis
    by (auto simp: test_multi_orders_def test_assets simp del: upt_Suc)
qed

theorem multi_orders_pass_witness:
  "\<exists>persistor. test_multi_orders ref_env demo_serde None (\<lambda>i. (even i, i mod 3 = 0, 1 + int (i mod 9), 120 + int (i mod 20))) = Some persistor"
proof -
  obtain uid0 uid1 where "uuid_parse ref_env ''b7c65c7f-7c73-4e3b-a450-2816df872929'' = Some uid0"
    "uuid_parse ref_env ''8a81b91a-ed38-4a52-8352-3b765dee2420'' = Some uid1" by (simp add: ref_env_def)
  then show ?thesis by (rule multi_orders_pass [OF ref_env_laws]) (simp add: draw_ok_def)
qed

end
