(* ===== verification/ControllerOps.thy ===== *)
theory ControllerOps
  imports ControllerInv
begin

text \<open>
  Every handler of the controller keeps the invariant of the exchange. A handler lends its state
  to a market operation and takes it back; \<open>lent_ctrl\<close> carries the contract of the operation
  over to the controller.
\<close>

section \<open>The invariant of the controller\<close>

text \<open>
  The display precision of an asset is at most its storage precision, and every pair of assets
  names an existing market.
\<close>

definition shows_ok :: "asset_manager \<Rightarrow> bool" where
  "shows_ok am \<longleftrightarrow> (\<forall>a i. asset_get am a = Some i \<longrightarrow> ai_prec_show i \<le> ai_prec_save i)"

definition names_ok :: "'c controller \<Rightarrow> bool" where
  "names_ok c \<longleftrightarrow> (\<forall>k n. map_of (c_asset_market_names c) k = Some n \<longrightarrow> map_of (c_markets c) n \<noteq> None)"

definition ctrl_inv :: "'c controller \<Rightarrow> bool" where
  "ctrl_inv c \<longleftrightarrow> exch_inv (c_markets c) (lend False c) \<and> shows_ok (bm_asset_manager (c_balance_manager c)) \<and>
     names_ok c \<and> st_disable_self_trade (c_settings c) \<and>
     (\<forall>v. total_order_num c v \<le> st_user_order_num_limit (c_settings c))"

definition same_engine :: "'c controller \<Rightarrow> 'c controller \<Rightarrow> bool" where
  "same_engine c c' \<longleftrightarrow> c_markets c' = c_markets c \<and> c_balance_manager c' = c_balance_manager c \<and>
     c_update_controller c' = c_update_controller c \<and> c_asset_market_names c' = c_asset_market_names c \<and>
     c_settings c' = c_settings c \<and> sq_order_id (c_sequencer c') = sq_order_id (c_sequencer c) \<and>
     sq_trade_id (c_sequencer c') = sq_trade_id (c_sequencer c)"

lemma lend_sel [simp]:
  "cx_sequencer (lend b c) = c_sequencer c" "cx_bm (lend b c) = c_balance_manager c"
  "cx_cache (lend b c) = c_update_controller c" "cx_clock (lend b c) = c_clock c" "cx_calls (lend b c) = []"
  "cx_real_persist (lend False c) = False"
  by (simp_all add: lend_def)

lemma set_market_sel [simp]:
  "c_settings (set_market n m c) = c_settings c" "c_sequencer (set_market n m c) = c_sequencer c"
  "c_balance_manager (set_market n m c) = c_balance_manager c"
  "c_update_controller (set_market n m c) = c_update_controller c"
  "c_asset_market_names (set_market n m c) = c_asset_market_names c"
  "c_markets (set_market n m c) = AList.update n m (c_markets c)"
  by (simp_all add: set_market_def)

lemma same_engine_inv: "same_engine c c' \<Longrightarrow> ctrl_inv c \<Longrightarrow> ctrl_inv c'"
  by (auto simp: ctrl_inv_def same_engine_def names_ok_def total_order_num_def elim!: exch_inv_cong)

lemma append_operation_log_same [simp]: "same_engine c (append_operation_log E Q meth req u c)"
  by (simp add: same_engine_def append_operation_log_def Let_def next_operation_log_id_def)

lemma append_operation_log_inv: "ctrl_inv c \<Longrightarrow> ctrl_inv (append_operation_log E Q meth req u c)"
  by (rule same_engine_inv [OF append_operation_log_same])

lemma ctrl_exch: "ctrl_inv c \<Longrightarrow> exch_inv (c_markets c) (lend b c)"
  by (auto simp: ctrl_inv_def elim: exch_inv_cong)

lemma give_back_sel:
  assumes "give_back E S b cx c = Some c'"
  shows "c_sequencer c' = cx_sequencer cx" "c_balance_manager c' = cx_bm cx" "c_update_controller c' = cx_cache cx"
    "c_markets c' = c_markets c" "c_asset_market_names c' = c_asset_market_names c" "c_settings c' = c_settings c"
  using assms by (auto simp: give_back_def split: Option.bind_splits)

lemma give_back_dummy [simp]: "give_back E S False cx c = Some (c\<lparr>c_sequencer := cx_sequencer cx,
    c_balance_manager := cx_bm cx, c_update_controller := cx_cache cx, c_clock := cx_clock cx\<rparr>)"
  by (simp add: give_back_def)

lemma map_of_update: "map_of (AList.update k v xs) k' = (if k' = k then Some v else map_of xs k')"
  by (simp add: update_conv)

section \<open>Order limits\<close>

lemma total_order_num_update:
  assumes "distinct (map fst ms)" and "map_of ms n = Some m" and "f m' \<le> f m + (d::nat)"
  shows "sum_list (map (\<lambda>(_, m). f m) (AList.update n m' ms)) \<le> sum_list (map (\<lambda>(_, m). f m) ms) + d"
  using assms
proof (induction ms)
  case (Cons nm ms)
  then show ?case by (cases nm) auto
qed simp

lemma total_order_num_grows:
  assumes inv: "ctrl_inv c" and get: "map_of (c_markets c) n = Some m" and g: "grows k u m cx m' cx'"
    and gb: "give_back E S b cx' c = Some c'"
  shows "total_order_num (set_market n m' c') v \<le> total_order_num c v + (if v = u then k else 0)"
proof -
  have "distinct (map fst (c_markets c))" using inv by (simp add: ctrl_inv_def exch_inv_def)
  then show ?thesis unfolding total_order_num_def set_market_sel give_back_sel [OF gb]
    by (rule total_order_num_update [OF _ get]) (use g in \<open>simp add: grows_def\<close>)
qed

lemma lent_ctrl:
  assumes inv: "ctrl_inv c" and get: "map_of (c_markets c) n = Some m"
    and l: "lent_ok m (lend b c) m' cx" and g: "grows k u m (lend b c) m' cx"
    and free: "total_order_num c u + k \<le> st_user_order_num_limit (c_settings c)"
    and gb: "give_back E S b cx c = Some c'"
  shows "ctrl_inv (set_market n m' c')"
proof -
  note sel = give_back_sel [OF gb]
  from lent_ok_exch [OF ctrl_exch [OF inv, of b] get l]
  have "exch_inv (AList.update n m' (c_markets c)) cx" .
  then have "exch_inv (c_markets (set_market n m' c')) (lend False (set_market n m' c'))"
    unfolding set_market_sel sel by (rule exch_inv_cong) (simp_all add: sel)
  moreover have "bm_asset_manager (cx_bm cx) = bm_asset_manager (c_balance_manager c)"
    using l by (simp add: lent_ok_def)
  moreover have "total_order_num (set_market n m' c') v \<le> st_user_order_num_limit (c_settings c)" for v
    using total_order_num_grows [OF inv get g gb, of v] free inv
    by (cases "v = u") (auto simp: ctrl_inv_def intro: order_trans)
  ultimately show ?thesis using inv by (auto simp: ctrl_inv_def sel names_ok_def map_of_update)
qed

section \<open>Orders\<close>

definition put_req_ok :: "env \<Rightarrow> order_put_request \<Rightarrow> bool" where
  "put_req_ok E req = (case order_input_try_from E req of Inl _ \<Rightarrow> True | Inr i \<Rightarrow> input_ok i)"

text \<open>Room in the counters for \<open>k\<close> more orders in the market \<open>n\<close>.\<close>

definition room_for :: "nat \<Rightarrow> market \<Rightarrow> ctx \<Rightarrow> bool" where
  "room_for k m cx \<longleftrightarrow> unat (sq_order_id (cx_sequencer cx)) + k < 2 ^ 64 \<and>
     unat (sq_trade_id (cx_sequencer cx)) + k * (length (m_orders m) + k) < 2 ^ 64"

definition ctrl_room :: "nat \<Rightarrow> string \<Rightarrow> 'c controller \<Rightarrow> bool" where
  "ctrl_room k n c = (case map_of (c_markets c) n of None \<Rightarrow> True | Some m \<Rightarrow> room_for k m (lend False c))"

lemma room_for_room: "room_for (Suc k) m cx \<Longrightarrow> room m cx"
  by (simp add: room_for_def room_def)

lemma room_for_grows:
  assumes "room_for (Suc k) m cx" and "grows 1 u m cx m' cx'" shows "room_for k m' cx'"
proof -
  let ?L = "length (m_orders m)"
  have "k * (length (m_orders m') + k) \<le> k * (?L + 1 + k)" using assms(2) by (intro mult_left_mono) (simp_all add: grows_def)
  also have "\<dots> + ?L \<le> Suc k * (?L + Suc k)" by (simp add: algebra_simps)
  finally have "k * (length (m_orders m') + k) + ?L \<le> Suc k * (?L + Suc k)" by simp
  with assms show ?thesis by (simp add: room_for_def grows_def)
qed

lemma room_for_shrinks:
  assumes "room_for k m cx" and "grows 0 u m cx m' cx'" shows "room_for k m' cx'"
proof -
  have "k * (length (m_orders m') + k) \<le> k * (length (m_orders m) + k)"
    using assms(2) by (intro mult_left_mono) (simp_all add: grows_def)
  moreover have "unat (sq_trade_id (cx_sequencer cx')) \<le> unat (sq_trade_id (cx_sequencer cx))"
    "unat (sq_order_id (cx_sequencer cx')) \<le> unat (sq_order_id (cx_sequencer cx))"
    using assms(2) by (simp_all add: grows_def)
  ultimately show ?thesis using assms(1) unfolding room_for_def by linarith
qed

lemma room_lend: "room_for k m (lend b c) = room_for k m (lend False c)" "room m (lend b c) = room m (lend False c)"
  by (simp_all add: room_for_def room_def)

lemma ctrl_room_set_market:
  assumes "give_back E S b cx' c = Some c'" and "room_for k m' cx'"
  shows "ctrl_room k n (set_market n m' c')"
  using assms(2) by (simp add: ctrl_room_def map_of_update room_for_def give_back_sel [OF assms(1)])

text \<open>A submitted order: the invariant, the order limit and the room that is left.\<close>

lemma ctrl_put_order_ok:
  assumes inv: "ctrl_inv c" and E: "env_laws E" and req: "put_req_ok E req"
    and room: "ctrl_room (Suc k) (r_market req) c" and put: "ctrl_put_order E S b req u c = Some (c', res)"
  shows "ctrl_inv c' \<and> ctrl_room k (r_market req) c'"
proof (cases "c' = c")
  case True
  have "room_for k m (lend False c)" if "room_for (Suc k) m (lend False c)" for m
    using that by (auto simp: room_for_def algebra_simps)
  then have "ctrl_room k (r_market req) c"
    using room by (cases "map_of (c_markets c) (r_market req)") (simp_all add: ctrl_room_def)
  with True inv show ?thesis by simp
next
  case False
  with put obtain m i m' cx r c1 where
    get: "map_of (c_markets c) (r_market req) = Some m" and i: "order_input_try_from E req = Inr i" and
    run: "put_order E i u m (lend b c) = Some (m', cx, r)" and gb: "give_back E S b cx c = Some c1" and
    c': "c' = set_market (r_market req) m' c1" and lim': "total_order_num c u \<noteq> st_user_order_num_limit (c_settings c)"
    by (auto simp: ctrl_put_order_def split: option.splits if_splits sum.splits Option.bind_splits)
  have rf: "room_for (Suc k) m (lend b c)" using room get by (simp add: ctrl_room_def room_lend(1) [of _ _ b])
  have pre: "env_laws E \<and> input_ok i \<and> room m (lend b c)"
    using E req i room_for_room [OF rf] by (simp add: put_req_ok_def)
  note l = put.op_lent [OF ctrl_exch [OF inv] get pre run]
  have "total_order_num c u + 1 \<le> st_user_order_num_limit (c_settings c)"
    using inv lim' by (simp add: ctrl_inv_def le_neq_implies_less Suc_le_eq)
  from lent_ctrl [OF inv get l this gb] ctrl_room_set_market [OF gb room_for_grows [OF rf l(2)]]
  show ?thesis by (simp add: c')
qed

lemma ctrl_put_order_total:
  assumes inv: "ctrl_inv c" and E: "env_laws E" and req: "put_req_ok E req" and room: "ctrl_room (Suc k) (r_market req) c"
  shows "ctrl_put_order E S False req u c \<noteq> None"
proof (cases "map_of (c_markets c) (r_market req)")
  case None
  then show ?thesis by (simp add: ctrl_put_order_def)
next
  case (Some m)
  show ?thesis
  proof (cases "order_input_try_from E req")
    case (Inr i)
    have rf: "room_for (Suc k) m (lend False c)" using room Some by (simp add: ctrl_room_def)
    have "put_order E i u m (lend False c) \<noteq> None"
      by (rule put.op_total [OF ctrl_exch [OF inv] Some]) (use E req Inr room_for_room [OF rf] in \<open>simp add: put_req_ok_def\<close>)
    with Some Inr show ?thesis by (auto simp: ctrl_put_order_def split: prod.splits)
  qed (simp add: ctrl_put_order_def Some)
qed

lemma ctrl_cancel_all_ok:
  assumes inv: "ctrl_inv c" and E: "env_laws E" and can: "ctrl_cancel_all E S b n u c = Some (c', t)"
  shows "ctrl_inv c'" and "ctrl_room k n c \<Longrightarrow> ctrl_room k n c'"
proof -
  from can obtain m m' cx c1 where
    get: "map_of (c_markets c) n = Some m" and
    run: "cancel_all_for_user E (uuid_to_string E u) m (lend b c) = Some (m', cx, t)" and
    gb: "give_back E S b cx c = Some c1" and c': "c' = set_market n m' c1"
    by (auto simp: ctrl_cancel_all_def split: Option.bind_splits)
  note l = cancel_all.op_lent(1) [OF ctrl_exch [OF inv] get E run]
    cancel_all.op_lent(2) [OF ctrl_exch [OF inv] get E run, of u]
  have "total_order_num c u + 0 \<le> st_user_order_num_limit (c_settings c)" using inv by (simp add: ctrl_inv_def)
  from lent_ctrl [OF inv get l this gb] show "ctrl_inv c'" by (simp add: c')
  assume "ctrl_room k n c"
  then have "room_for k m (lend b c)" using get by (simp add: ctrl_room_def room_lend(1) [of _ _ b])
  from ctrl_room_set_market [OF gb room_for_shrinks [OF this l(2)]] show "ctrl_room k n c'" by (simp add: c')
qed

lemma ctrl_cancel_all_total:
  assumes inv: "ctrl_inv c" and E: "env_laws E" and get: "map_of (c_markets c) n = Some m"
  shows "ctrl_cancel_all E S False n u c \<noteq> None"
  using cancel_all.op_total [OF ctrl_exch [OF inv, of False] get E, of u]
  by (auto simp: ctrl_cancel_all_def get)

lemma batch_reset_ok:
  assumes E: "env_laws E"
  shows "ctrl_inv c \<Longrightarrow> batch_reset E S b n u os c = Some (c', res) \<Longrightarrow>
    ctrl_inv c' \<and> (ctrl_room k n c \<longrightarrow> ctrl_room k n c')"
proof (induction os arbitrary: c)
  case (Cons req os)
  then show ?case
    by (auto split: if_splits Option.bind_splits dest!: Cons.IH [rotated] dest: ctrl_cancel_all_ok [OF _ E])
qed auto

lemma batch_put_ok:
  assumes E: "env_laws E"
  shows "ctrl_inv c \<Longrightarrow> list_all (put_req_ok E) os \<Longrightarrow> ctrl_room (length os) n c \<Longrightarrow>
    batch_put E S b n u os ids c = Some (c', res) \<Longrightarrow> ctrl_inv c'"
proof (induction os arbitrary: c ids)
  case (Cons req os)
  show ?case
  proof (cases "n = r_market req")
    case True
    with Cons.prems(4) obtain c1 r where put: "ctrl_put_order E S b req u c = Some (c1, r)" and
      rest: "(case r of Inr o' \<Rightarrow> batch_put E S b n u os (ids @ [o_id o']) c1
         | Inl e \<Rightarrow> Some (c1, Inr \<lparr>br_result_code = InternalError, br_error_message = status_text e,
             br_order_ids = ids\<rparr>)) = Some (c', res)"
      by (auto split: Option.bind_splits)
    have "ctrl_inv c1 \<and> ctrl_room (length os) n c1"
      using ctrl_put_order_ok [OF Cons.prems(1) E _ _ put, of "length os"] Cons.prems(2,3) True by simp
    with rest Cons.IH [of c1] Cons.prems(2) show ?thesis by (auto split: sum.splits)
  next
    case False
    with Cons.prems show ?thesis by simp
  qed
qed simp

lemma batch_put_total:
  assumes E: "env_laws E"
  shows "ctrl_inv c \<Longrightarrow> list_all (put_req_ok E) os \<Longrightarrow> ctrl_room (length os) n c \<Longrightarrow>
    batch_put E S False n u os ids c \<noteq> None"
proof (induction os arbitrary: c ids)
  case (Cons req os)
  show ?case
  proof (cases "n = r_market req")
    case True
    then have room: "ctrl_room (Suc (length os)) (r_market req) c" using Cons.prems(3) by simp
    have req: "put_req_ok E req" using Cons.prems(2) by simp
    from ctrl_put_order_total [OF Cons.prems(1) E req room] obtain c1 r where
      put: "ctrl_put_order E S False req u c = Some (c1, r)" by fastforce
    from ctrl_put_order_ok [OF Cons.prems(1) E req room put] have "ctrl_inv c1" "ctrl_room (length os) n c1"
      using True by simp_all
    with Cons.IH [of c1] Cons.prems(2) put True show ?thesis by (simp split: sum.split)
  qed simp
qed simp

lemma ctrl_cancel_all_markets: "ctrl_cancel_all E S b n u c = Some (c', t) \<Longrightarrow> map_of (c_markets c') n \<noteq> None"
  by (auto simp: ctrl_cancel_all_def map_of_update split: Option.bind_splits)

lemma batch_reset_total:
  assumes E: "env_laws E"
  shows "ctrl_inv c \<Longrightarrow> map_of (c_markets c) n \<noteq> None \<Longrightarrow> batch_reset E S False n u os c \<noteq> None"
proof (induction os arbitrary: c)
  case (Cons req os)
  from Cons.prems(2) obtain m where "map_of (c_markets c) n = Some m" by blast
  from ctrl_cancel_all_total [OF Cons.prems(1) E this] obtain c1 t where
    can: "ctrl_cancel_all E S False n u c = Some (c1, t)" by fastforce
  with Cons.IH [OF ctrl_cancel_all_ok(1) [OF Cons.prems(1) E can] ctrl_cancel_all_markets [OF can]] show ?case by auto
qed simp

lemma market_get_id:
  assumes "market_inv m cx" and "market_get m i = Some x" shows "o_id x = i"
proof -
  have bs: "book_struct m" using assms(1) by (simp add: market_inv_def book_ok_def)
  from assms(2) obtain r where "bt_get (m_orders m) i = Some r" and x: "x = deep m r"
    by (auto simp: market_get_def)
  then have "(i, r) \<in> set (m_orders m)" by (simp add: bt_get_iff [OF book_structD(1) [OF bs]])
  with book_structD(7) [OF bs] x show ?thesis by simp
qed

lemma order_cancel_ok:
  assumes inv: "ctrl_inv c" and E: "env_laws E"
  shows "order_cancel E S Q b req u c = Some (c', res) \<Longrightarrow> ctrl_inv c'" and "order_cancel E S Q False req u c \<noteq> None"
proof -
  show "order_cancel E S Q False req u c \<noteq> None"
  proof (cases "map_of (c_markets c) (oc_market req)")
    case (Some m)
    show ?thesis
    proof (cases "market_get m (oc_order_id req)")
      case (Some x)
      note get = \<open>map_of (c_markets c) (oc_market req) = Some m\<close>
      have mi: "market_inv m (lend False c)" by (rule exch_market_inv [OF ctrl_exch [OF inv] get])
      have "o_id x = oc_order_id req" using market_get_id [OF mi Some] .
      with Some have "market_cancel E (o_id x) m (lend False c) \<noteq> None"
        by (intro cancel.op_total [OF ctrl_exch [OF inv] get]) (simp add: E)
      with Some get show ?thesis by (auto simp: order_cancel_def)
    qed (simp add: order_cancel_def Some)
  qed (simp add: order_cancel_def)
  assume can: "order_cancel E S Q b req u c = Some (c', res)"
  show "ctrl_inv c'"
  proof (cases "c' = c")
    case False
    with can obtain m x m' cx r c1 where
      get: "map_of (c_markets c) (oc_market req) = Some m" and x: "market_get m (oc_order_id req) = Some x" and
      run: "market_cancel E (o_id x) m (lend b c) = Some (m', cx, r)" and gb: "give_back E S b cx c = Some c1" and
      c': "c' = (if b then append_operation_log E Q OPERATION_ORDER_CANCEL (OpOrderCancel req) u (set_market (oc_market req) m' c1)
        else set_market (oc_market req) m' c1)"
      by (auto simp: order_cancel_def Let_def split: option.splits if_splits Option.bind_splits)
    have mi: "market_inv m (lend b c)" by (rule exch_market_inv [OF ctrl_exch [OF inv] get])
    have pre: "env_laws E \<and> market_get m (o_id x) \<noteq> None" using E x market_get_id [OF mi x] by simp
    have "total_order_num c u + 0 \<le> st_user_order_num_limit (c_settings c)" using inv by (simp add: ctrl_inv_def)
    from lent_ctrl [OF inv get cancel.op_lent(1) [OF ctrl_exch [OF inv] get pre run]
        cancel.op_lent(2) [OF ctrl_exch [OF inv] get pre run] this gb]
    show ?thesis by (simp add: c' append_operation_log_inv)
  qed (use inv in simp)
qed

lemma order_cancel_all_ok:
  assumes inv: "ctrl_inv c" and E: "env_laws E"
  shows "order_cancel_all E S Q b n u c = Some (c', res) \<Longrightarrow> ctrl_inv c'"
    and "order_cancel_all E S Q False n u c \<noteq> None"
proof -
  show "order_cancel_all E S Q False n u c \<noteq> None"
  proof (cases "map_of (c_markets c) n")
    case (Some m)
    from ctrl_cancel_all_total [OF inv E this, of S u] obtain c1 t where
      "ctrl_cancel_all E S False n u c = Some (c1, t)" by fastforce
    then show ?thesis by (simp add: order_cancel_all_def)
  qed (simp add: order_cancel_all_def)
  assume "order_cancel_all E S Q b n u c = Some (c', res)"
  then show "ctrl_inv c'" using inv ctrl_cancel_all_ok(1) [OF inv E]
    by (auto simp: order_cancel_all_def append_operation_log_inv split: if_splits Option.bind_splits)
qed

lemma order_put_ok:
  assumes inv: "ctrl_inv c" and E: "env_laws E" and req: "put_req_ok E req" and room: "ctrl_room 1 (r_market req) c"
  shows "order_put E S Q b req u c = Some (c', res) \<Longrightarrow> ctrl_inv c'" and "order_put E S Q False req u c \<noteq> None"
proof -
  have room': "ctrl_room (Suc 0) (r_market req) c" using room by simp
  show "order_put E S Q False req u c \<noteq> None"
  proof -
    from ctrl_put_order_total [OF inv E req room', of S u] obtain c1 r where
      "ctrl_put_order E S False req u c = Some (c1, r)" by fastforce
    then show ?thesis by (cases r) (simp_all add: order_put_def)
  qed
  assume "order_put E S Q b req u c = Some (c', res)"
  then show "ctrl_inv c'" using inv ctrl_put_order_ok [OF inv E req room']
    by (auto simp: order_put_def append_operation_log_inv split: if_splits Option.bind_splits sum.splits)
qed

definition batch_ok :: "env \<Rightarrow> batch_order_put_request \<Rightarrow> 'c controller \<Rightarrow> bool" where
  "batch_ok E req c \<longleftrightarrow> list_all (put_req_ok E) (bo_orders req) \<and> ctrl_room (length (bo_orders req)) (bo_market req) c"

definition maybe_reset where
  "maybe_reset E S b req u c = (if bo_reset req then batch_reset E S b (bo_market req) u (bo_orders req) c else Some (c, Inr ()))"

lemma maybe_reset_ok:
  assumes "ctrl_inv c" and "env_laws E"
  shows "maybe_reset E S b req u c = Some (c', res) \<Longrightarrow>
      ctrl_inv c' \<and> (ctrl_room k (bo_market req) c \<longrightarrow> ctrl_room k (bo_market req) c')"
    and "map_of (c_markets c) (bo_market req) \<noteq> None \<Longrightarrow> maybe_reset E S False req u c \<noteq> None"
  using batch_reset_ok [OF assms(2,1)] batch_reset_total [OF assms(2,1)] assms(1)
  by (auto simp: maybe_reset_def split: if_splits)

lemma batch_order_put_ok:
  assumes inv: "ctrl_inv c" and E: "env_laws E" and req: "batch_ok E req c"
  shows "batch_order_put E S Q b req u c = Some (c', res) \<Longrightarrow> ctrl_inv c'"
    and "batch_order_put E S Q False req u c \<noteq> None"
proof -
  let ?n = "bo_market req" and ?k = "length (bo_orders req)"
  note def = batch_order_put_def [folded maybe_reset_def]
  have os: "list_all (put_req_ok E) (bo_orders req)" and room: "ctrl_room ?k ?n c" using req by (simp_all add: batch_ok_def)
  show "batch_order_put E S Q False req u c \<noteq> None"
  proof (cases "check_service_available c \<and> map_of (c_markets c) ?n \<noteq> None")
    case True
    with maybe_reset_ok(2) [OF inv E, of req S u] obtain c1 r where r: "maybe_reset E S False req u c = Some (c1, r)" by fastforce
    from maybe_reset_ok(1) [OF inv E r, of ?k] room have "ctrl_inv c1" "ctrl_room ?k ?n c1" by simp_all
    from batch_put_total [OF E this(1) os this(2), of S u "[]"] obtain c2 s where
      "batch_put E S False ?n u (bo_orders req) [] c1 = Some (c2, s)" by fastforce
    with r True show ?thesis by (auto simp: def split: sum.split)
  qed (auto simp: def)
  assume run: "batch_order_put E S Q b req u c = Some (c', res)"
  show "ctrl_inv c'"
  proof (cases "check_service_available c \<and> map_of (c_markets c) ?n \<noteq> None")
    case True
    with run obtain c1 r where r: "maybe_reset E S b req u c = Some (c1, r)" and
      rest: "(case r of Inl e \<Rightarrow> Some (c1, Inl e) | Inr _ \<Rightarrow> do {
         (c, res) \<leftarrow> batch_put E S b ?n u (bo_orders req) [] c1;
         case res of Inl e \<Rightarrow> Some (c, Inl e)
         | Inr resp \<Rightarrow> Some (if b then append_operation_log E Q OPERATION_BATCH_ORDER_PUT (OpBatchOrderPut req) u c
                             else c, Inr resp)}) = Some (c', res)"
      by (auto simp: def split: if_splits Option.bind_splits)
    from maybe_reset_ok(1) [OF inv E r, of ?k] room have c1: "ctrl_inv c1" "ctrl_room ?k ?n c1" by simp_all
    with rest batch_put_ok [OF E c1(1) os c1(2)] show ?thesis
      by (auto simp: append_operation_log_inv split: sum.splits Option.bind_splits)
  qed (use run inv in \<open>auto simp: def split: if_splits\<close>)
qed

section \<open>Balances\<close>

lemma exch_booked:
  assumes inv: "exch_inv ms cx" and b: "booked p cx cx'" and amt: "amount_ok (cx_bm cx) (up_asset p) (up_change p)"
    and avail: "up_balance_type p = AVAILABLE" "up_business_type p \<noteq> Trade"
    and enough: "0 \<le> up_change p \<or> 0 \<le> bm_get (cx_bm cx) (up_user_id p) AVAILABLE (up_asset p) + up_change p"
  shows "exch_inv ms cx'"
proof -
  note D = exch_invD [OF inv]
  have bm: "cx_bm cx' = book_change p (cx_bm cx)" and sq: "cx_sequencer cx' = cx_sequencer cx"
    and cache: "cx_cache cx' = cache_key_of p # cx_cache cx"
    using b by (simp_all add: booked_def same_frame_def)
  have "bm_ok (cx_bm cx')" using D(2) amt by (simp add: bm ctx_ok_def book_change_ok)
  moreover have "avail_ok (cx_bm cx')"
    using D(2) enough avail(1) by (auto simp: bm ctx_ok_def avail_ok_def book_change_get)
  moreover have "uk_business_type (cache_key_of p) \<noteq> Trade" using avail(2) by (simp add: cache_key_of_def)
  then have "trade_ids_ok cx'" using D(2) by (auto simp: ctx_ok_def trade_ids_ok_def cache sq)
  moreover have "mkt_ok m (cx_bm cx') = mkt_ok m (cx_bm cx)" for m by (rule mkt_ok_bm_cong) (simp add: bm)
  moreover have "bm_get (cx_bm cx') u FREEZE a = bm_get (cx_bm cx) u FREEZE a" for u a
    using avail(1) by (simp add: bm book_change_get)
  ultimately show ?thesis using D by (auto simp: exch_inv_def ctx_ok_def sq)
qed

lemma shows_ok_amount:
  assumes "env_laws E" and "shows_ok (bm_asset_manager bm)" and "asset_prec_show (bm_asset_manager bm) a = Some p"
  shows "amount_ok bm a (round_dp E x p)"
proof -
  from assms(3) obtain i where i: "asset_get (bm_asset_manager bm) a = Some i" "ai_prec_show i = p"
    by (auto simp: asset_prec_show_def)
  with assms(2) have "unat p \<le> unat (ai_prec_save i)" by (auto simp: shows_ok_def word_le_nat_alt)
  moreover have "has_prec (unat p) (round_dp E x p)" by (rule env_round_prec [OF assms(1)])
  ultimately show ?thesis using i by (auto simp: amount_ok_def asset_prec_def intro: has_prec_mono)
qed

text \<open>The parameters of the update a request for a balance change leads to.\<close>

definition update_of :: "balance_update_request \<Rightarrow> uuid \<Rightarrow> decimal \<Rightarrow> string \<Rightarrow> decimal \<Rightarrow> balance_update_params" where
  "update_of req u price detail change =
     \<lparr>up_balance_type = AVAILABLE, up_business_type = (if 0 \<le> change then Deposit else Withdraw), up_user_id = u,
      up_business_id = bu_business_id req, up_asset = bu_asset req, up_business = bu_business req,
      up_market_price = price, up_change = change, up_detail = detail\<rparr>"

lemma update_balanceE:
  assumes run: "update_balance E S Q b req u c = Some (c', res)"
  obtains (rejected) e where "c' = c" "res = Inl e"
  | (applied) prec x price detail cx r c1 where "asset_prec_show (bm_asset_manager (c_balance_manager c)) (bu_asset req) = Some prec"
      "dec_from_str E (bu_delta req) = Some x" "market_price_of c (bu_asset req) = Some price"
      "update_user_balance E (update_of req u price detail (round_dp E x prec)) (lend b c) = Some (cx, r)"
      "give_back E S b cx c = Some c1" "check_service_available c"
      "(case r of Inl e \<Rightarrow> c' = c1 \<and> res = Inl (InvalidArgument e)
        | Inr _ \<Rightarrow> c' = (if b then append_operation_log E Q OPERATION_BALANCE_UPDATE (OpBalanceUpdate req) u c1 else c1) \<and>
            res = Inr ())"
  using assms unfolding update_balance_def update_of_def [symmetric] Let_def
  by (auto split: if_splits option.splits Option.bind_splits sum.splits)

lemma update_balance_ok:
  assumes inv: "ctrl_inv c" and E: "env_laws E" and run: "update_balance E S Q b req u c = Some (c', res)"
  shows "ctrl_inv c'"
  using run
proof (cases rule: update_balanceE)
  case (applied prec x price detail cx r c1)
  let ?p = "update_of req u price detail (round_dp E x prec)"
  have amt: "amount_ok (cx_bm (lend b c)) (up_asset ?p) (up_change ?p)"
    using shows_ok_amount [OF E _ applied(1)] inv by (simp add: ctrl_inv_def update_of_def)
  have ex: "exch_inv (c_markets c) (lend b c)" by (rule ctrl_exch [OF inv])
  then have ok: "bm_ok (cx_bm (lend b c))" by (simp add: exch_inv_def ctx_ok_def)
  have "exch_inv (c_markets c) cx \<and> bm_asset_manager (cx_bm cx) = bm_asset_manager (c_balance_manager c)"
  proof (cases rule: update_user_balance_cases [OF E ok amt applied(4)])
    case (1 e)
    with exch_inv_cong [OF ex, of cx] show ?thesis by simp
  next
    case 2
    with exch_booked [OF ex 2(2) amt] show ?thesis by (simp add: update_of_def booked_def)
  qed
  then have "ctrl_inv c1"
    using inv exch_inv_cong [of "c_markets c" cx "lend False c1"] give_back_sel [OF applied(5)]
    by (auto simp: ctrl_inv_def names_ok_def total_order_num_def)
  with applied(7) show ?thesis by (cases r) (auto simp: append_operation_log_inv)
qed (use inv in simp)

lemma market_price_of_total: "names_ok c \<Longrightarrow> market_price_of c a \<noteq> None"
  unfolding names_ok_def market_price_of_def by (auto split: option.split)

lemma update_user_balance_dummy:
  assumes E: "env_laws E" and ok: "bm_ok (cx_bm cx)" and amt: "amount_ok (cx_bm cx) (up_asset p) (up_change p)"
    and "\<not> cx_real_persist cx"
  shows "update_user_balance E p cx \<noteq> None"
proof -
  have "amount_ok (cx_bm cx) (up_asset p) \<bar>up_change p\<bar>" using amt by (simp add: amount_ok_def)
  with bm_add_eq [OF E ok] bm_sub_eq [OF E ok] assms(4) show ?thesis
    by (auto simp: update_user_balance_def Let_def persist_balance_update_def)
qed

lemma update_balance_total:
  assumes inv: "ctrl_inv c" and E: "env_laws E"
  shows "update_balance E S Q False req u c \<noteq> None"
proof (cases "asset_exist (bm_asset_manager (c_balance_manager c)) (bu_asset req)")
  case True
  then obtain prec where prec: "asset_prec_show (bm_asset_manager (c_balance_manager c)) (bu_asset req) = Some prec"
    unfolding asset_exist_iff by (auto simp: asset_prec_def asset_prec_show_def)
  have "names_ok c" using inv by (simp add: ctrl_inv_def)
  from market_price_of_total [OF this] obtain price where price: "market_price_of c (bu_asset req) = Some price" by blast
  have ok: "bm_ok (cx_bm (lend False c))" using ctrl_exch [OF inv] by (simp add: exch_inv_def ctx_ok_def)
  have upd: "update_user_balance E (update_of req u price d (round_dp E x prec)) (lend False c) \<noteq> None" for x d
    by (rule update_user_balance_dummy [OF E ok])
      (use shows_ok_amount [OF E _ prec] inv in \<open>simp_all add: ctrl_inv_def update_of_def\<close>)
  note def = update_balance_def [of E S Q False req u c, folded update_of_def, unfolded Let_def]
  show ?thesis
  proof (cases "dec_from_str E (bu_delta req)")
    case (Some x)
    note x = this
    show ?thesis
    proof (cases "if bu_detail req = [] then Some ''{}'' else json_from_str E (bu_detail req)")
      case (Some d)
      from upd [of d x] obtain cx r where
        "update_user_balance E (update_of req u price d (round_dp E x prec)) (lend False c) = Some (cx, r)" by fastforce
      with prec price x Some show ?thesis by (cases r) (simp_all add: def)
    qed (simp add: def x prec)
  qed (simp add: def prec)
qed (simp add: update_balance_def)

end
