(* ===== verification/ControllerReach.thy ===== *)
theory ControllerReach
  imports ControllerOps
begin

text \<open>
  The life of the controller: it is created from the settings, executes operations, is reset and
  reloads assets and markets. Every state it can reach satisfies the invariant.
\<close>

section \<open>New and empty markets\<close>

definition market_cfg_ok :: "market_cfg \<Rightarrow> bool" where
  "market_cfg_ok conf \<longleftrightarrow> mc_base conf \<noteq> mc_quote conf \<and>
     unat (mc_amount_prec conf) + unat (mc_price_prec conf) < 2 ^ 32"

definition empty_market :: "market \<Rightarrow> bool" where
  "empty_market m \<longleftrightarrow> m_orders m = [] \<and> m_users m = [] \<and> m_asks m = [] \<and> m_bids m = [] \<and> m_disable_self_trade m"

lemma empty_market_ok:
  assumes "empty_market m"
  shows "book_ok m" and "ids_below n m" and "frozen_sum m u a = 0" and "get_order_num_of_user m u = 0"
    and "tagged m" and "order_ids m = {}"
  using assms
  by (simp_all add: tagged_def order_ids_def empty_market_def book_ok_def book_struct_def orders_ok_def all_open_def uncrossed_def ids_below_def
      frozen_sum_def get_order_num_of_user_def in_users_def bt_get_def bt_inv_Nil)

lemma market_new_ok:
  assumes new: "market_new conf gs bm = Some (Inr m)" and conf: "market_cfg_ok conf" and "st_disable_self_trade gs"
  shows "empty_market m" and "mkt_ok m bm" and "mc_name conf = m_name m"
proof -
  have "unat (mc_amount_prec conf + mc_price_prec conf) = unat (mc_amount_prec conf) + unat (mc_price_prec conf)"
    using conf by (simp add: market_cfg_ok_def unat_word_ariths)
  with assms show "empty_market m" "mkt_ok m bm" "mc_name conf = m_name m"
    by (auto simp: market_new_def empty_market_def mkt_ok_def market_cfg_ok_def Let_def word_le_nat_alt not_less
        split: if_splits Option.bind_splits)
qed

lemma exch_put_market:
  assumes inv: "exch_inv ms cx" and m: "empty_market m" "mkt_ok m (cx_bm cx)" "n = m_name m"
    and old: "\<And>m'. map_of ms n = Some m' \<Longrightarrow> empty_market m'"
  shows "exch_inv (AList.update n m ms) cx"
proof -
  note D = exch_invD [OF inv] and E = empty_market_ok [OF m(1)]
  have "frozen_total (AList.update n m ms) u a = frozen_total ms u a" for u a
    using sum_alist_update [OF D(1), of "\<lambda>_ m. frozen_sum m u a" n m] old E(3)
    by (auto simp: frozen_total_def empty_market_ok(3) split: option.splits)
  moreover have "book_ok k \<and> mkt_ok k (cx_bm cx) \<and> ids_below (sq_order_id (cx_sequencer cx)) k"
    if "(j, k) \<in> set (AList.update n m ms)" for j k
    using that set_alist_update [OF D(1), of n m] D(3) [of j k] E(1,2) m(2) by auto
  moreover have "j = m_name k \<and> tagged k" if "(j, k) \<in> set (AList.update n m ms)" for j k
    using that set_alist_update [OF D(1), of n m] D(5) [of j k] E(5) m(3) by auto
  moreover have "apart (AList.update n m ms)"
    using D(6) unfolding apart_def set_alist_update [OF D(1), of n m] by (fastforce simp: E(6))
  ultimately show ?thesis using D by (auto simp: exch_inv_def distinct_update)
qed

lemma total_order_num_put:
  assumes "distinct (map fst ms)" and m: "f m = (0::nat)" and old: "\<And>m'. map_of ms n = Some m' \<Longrightarrow> f m' = 0"
  shows "sum_list (map (\<lambda>(_, m). f m) (AList.update n m ms)) = sum_list (map (\<lambda>(_, m). f m) ms)"
  using assms
proof (induction ms)
  case (Cons nm ms)
  then show ?case by (cases nm) (auto split: if_splits)
qed simp

lemma ctrl_put_market:
  assumes inv: "ctrl_inv c" and m: "empty_market m" "mkt_ok m (c_balance_manager c)" "n = m_name m"
    and old: "\<And>m'. map_of (c_markets c) n = Some m' \<Longrightarrow> empty_market m'"
  shows "ctrl_inv (c\<lparr>c_markets := AList.update n m (c_markets c),
    c_asset_market_names := AList.update k n (c_asset_market_names c)\<rparr>)" (is "ctrl_inv ?c")
proof -
  have ex: "exch_inv (c_markets c) (lend False c)" using inv by (simp add: ctrl_inv_def)
  have "exch_inv (c_markets ?c) (lend False c)"
    using exch_put_market [OF ex m(1) _ m(3) old] m(2) by simp
  then have "exch_inv (c_markets ?c) (lend False ?c)" by (rule exch_inv_cong) simp_all
  moreover have "total_order_num ?c v = total_order_num c v" for v
    unfolding total_order_num_def
    using total_order_num_put [OF exch_invD(1) [OF ex], of "\<lambda>m. get_order_num_of_user m v" m n]
      empty_market_ok(4) m(1) old by simp
  ultimately show ?thesis using inv by (auto simp: ctrl_inv_def names_ok_def map_of_update)
qed

section \<open>Reset\<close>

lemma sum_list_zero: "(\<And>x. x \<in> set xs \<Longrightarrow> f x = 0) \<Longrightarrow> sum_list (map f xs) = (0::'a::monoid_add)"
  by (induction xs) simp_all

lemma reset_state_inv:
  assumes inv: "ctrl_inv c" shows "ctrl_inv (reset_state c)"
proof -
  note D = exch_invD [OF ctrl_exch [OF inv, of False]]
  have empty: "empty_market (market_reset m)" if "(n, m) \<in> set (c_markets c)" for n m
    using D(3) [OF that] by (simp add: market_reset_def empty_market_def book_ok_def)
  let ?ms = "map (\<lambda>(n, m). (n, market_reset m)) (c_markets c)"
  have [simp]: "fst \<circ> (\<lambda>(n, m). (n, market_reset m)) = fst" by auto
  have zero: "frozen_total ?ms u a = 0" for u a
    unfolding frozen_total_def by (rule sum_list_zero) (auto dest!: empty simp: empty_market_ok(3))
  have num: "total_order_num (reset_state c) v = 0" for v
    unfolding total_order_num_def by (rule sum_list_zero) (auto dest!: empty simp: empty_market_ok(4) reset_state_def)
  have mk: "mkt_ok (market_reset m) (bm_reset (c_balance_manager c))" if "(n, m) \<in> set (c_markets c)" for n m
    using D(3) [OF that] by (simp add: mkt_ok_def market_reset_def bm_reset_def)
  have name: "n = m_name (market_reset m)" if "(n, m) \<in> set (c_markets c)" for n m
    using D(5) [OF that] by (simp add: market_reset_def)
  have ap: "apart ?ms" unfolding apart_def using empty by (auto simp: empty_market_ok(6))
  have "exch_inv (c_markets (reset_state c)) (lend False (reset_state c))"
    unfolding exch_inv_def
    using D(1) mk name ap empty_market_ok(1,2,5) empty zero
    by (auto simp: reset_state_def ctx_ok_def bm_ok_def bm_reset_def avail_ok_def bm_get_def bm_get_by_key_def
        trade_ids_ok_def update_controller_reset_def)
  moreover have "names_ok (reset_state c)"
    using inv by (auto simp: ctrl_inv_def names_ok_def reset_state_def map_of_map)
  ultimately show ?thesis using inv num by (simp add: ctrl_inv_def) (simp add: reset_state_def bm_reset_def)
qed

section \<open>Assets\<close>

text \<open>New assets are displayed with at most their storage precision; a known asset keeps its storage precision.\<close>

definition new_assets_ok :: "asset_manager \<Rightarrow> asset_cfg list \<Rightarrow> bool" where
  "new_assets_ok am cfg \<longleftrightarrow> list_all (\<lambda>item. ac_prec_show item \<le> ac_prec_save item \<and>
     (case asset_prec am (ac_id item) of None \<Rightarrow> True | Some p \<Rightarrow> p = ac_prec_save item)) cfg"

lemma insert_assets_info: "insert_assets cfg m = Some m' \<Longrightarrow> c \<in> set cfg \<Longrightarrow> asset_info_of c \<noteq> None"
  by (induction cfg m arbitrary: m' rule: insert_assets.induct) (auto split: Option.bind_splits)

lemma asset_append_ok:
  assumes app: "insert_assets cfg (am_assets am) = Some m" and ok: "new_assets_ok am cfg" and am: "shows_ok am"
  shows "shows_ok (am\<lparr>am_assets := m\<rparr>)" and "asset_prec am a = Some p \<Longrightarrow> asset_prec (am\<lparr>am_assets := m\<rparr>) a = Some p"
proof -
  have get: "asset_get (am\<lparr>am_assets := m\<rparr>) a = (case find (\<lambda>c. ac_id c = a) (rev cfg) of
      None \<Rightarrow> asset_get am a | Some c \<Rightarrow> asset_info_of c)" for a
    using insert_assets_get [OF app, of a] unfolding asset_get_def by simp
  have found: "c \<in> set cfg \<and> ac_id c = a" if "find (\<lambda>c. ac_id c = a) (rev cfg) = Some c" for c a
    using find_Some_set [OF that] by simp
  show "shows_ok (am\<lparr>am_assets := m\<rparr>)"
    unfolding shows_ok_def
  proof (intro allI impI)
    fix a i assume i: "asset_get (am\<lparr>am_assets := m\<rparr>) a = Some i"
    show "ai_prec_show i \<le> ai_prec_save i"
    proof (cases "find (\<lambda>c. ac_id c = a) (rev cfg)")
      case None
      with i get am show ?thesis by (simp add: shows_ok_def)
    next
      case (Some c)
      with i get found [OF Some] ok show ?thesis
        by (auto simp: asset_info_of_def new_assets_ok_def list_all_iff split: Option.bind_splits)
    qed
  qed
  assume p: "asset_prec am a = Some p"
  show "asset_prec (am\<lparr>am_assets := m\<rparr>) a = Some p"
  proof (cases "find (\<lambda>c. ac_id c = a) (rev cfg)")
    case (Some c)
    then have mem: "(a, the (asset_info_of c)) = (a, the (asset_info_of c)) \<and> asset_get (am\<lparr>am_assets := m\<rparr>) a = asset_info_of c"
      using get by simp
    have "asset_info_of c \<noteq> None" using insert_assets_info [OF app] found [OF Some] by blast
    with mem found [OF Some] ok p show ?thesis
      by (auto simp: asset_prec_def asset_info_of_def new_assets_ok_def list_all_iff split: Option.bind_splits)
  qed (use p get in \<open>simp add: asset_prec_def\<close>)
qed

lemma exch_more_assets:
  assumes inv: "exch_inv ms cx" and bm: "cx_bm cx' = (cx_bm cx)\<lparr>bm_asset_manager := am\<rparr>"
    and cx: "cx_sequencer cx' = cx_sequencer cx" "cx_cache cx' = cx_cache cx"
    and prec: "\<And>a p. asset_prec (bm_asset_manager (cx_bm cx)) a = Some p \<Longrightarrow> asset_prec am a = Some p"
  shows "exch_inv ms cx'"
proof -
  note D = exch_invD [OF inv]
  have get: "bm_get (cx_bm cx') u t a = bm_get (cx_bm cx) u t a" for u t a
    by (simp add: bm bm_get_def bm_get_by_key_def)
  have "amount_ok (cx_bm cx) a x \<Longrightarrow> amount_ok (cx_bm cx') a x" for a x
    using prec by (auto simp: amount_ok_def bm)
  then have "bm_ok (cx_bm cx')" using D(2) by (fastforce simp: ctx_ok_def bm_ok_def bm)
  moreover have "mkt_ok m (cx_bm cx')" if "mkt_ok m (cx_bm cx)" for m using that prec by (simp add: mkt_ok_def bm)
  ultimately show ?thesis
    using D by (auto simp: exch_inv_def ctx_ok_def trade_ids_ok_def avail_ok_def get cx)
qed

section \<open>Reload\<close>

definition reload_ok :: "string + asset_cfg list \<Rightarrow> string + market_cfg list \<Rightarrow> 'c controller \<Rightarrow> bool" where
  "reload_ok as ms c \<longleftrightarrow>
     (case as of Inl _ \<Rightarrow> True | Inr as \<Rightarrow> new_assets_ok (bm_asset_manager (c_balance_manager c)) as) \<and>
     (case ms of Inl _ \<Rightarrow> True | Inr ms \<Rightarrow> list_all market_cfg_ok ms)"

lemma reload_markets_inv:
  "ctrl_inv c \<Longrightarrow> list_all market_cfg_ok ms \<Longrightarrow> reload_markets ms c = Some c' \<Longrightarrow> ctrl_inv c'"
proof (induction ms c rule: reload_markets.induct)
  case (2 entry es c)
  have st: "st_disable_self_trade (c_settings c)" using "2.prems"(1) by (simp add: ctrl_inv_def)
  have "ctrl_inv (c\<lparr>c_markets := AList.update (mc_name entry) m (c_markets c),
      c_asset_market_names := AList.update (mc_base entry, mc_quote entry) (mc_name entry) (c_asset_market_names c)\<rparr>)"
    if "market_new entry (c_settings c) (c_balance_manager c) = Some (Inr m)" "map_of (c_markets c) (mc_name entry) = None" for m
    using market_new_ok [OF that(1) _ st] "2.prems"(1,2) that(2) by (intro ctrl_put_market) simp_all
  with 2 show ?case by (auto split: if_splits option.splits sum.splits)
qed simp

lemma market_reload_inv:
  assumes inv: "ctrl_inv c" and ok: "reload_ok as ms c" and run: "market_reload as ms c = Some (c', res)"
  shows "ctrl_inv c'"
proof (cases as)
  case (Inr xs)
  from run Inr obtain m where m: "insert_assets xs (am_assets (bm_asset_manager (c_balance_manager c))) = Some m"
    by (auto simp: market_reload_def asset_manager_append_def split: Option.bind_splits)
  let ?am = "(bm_asset_manager (c_balance_manager c))\<lparr>am_assets := m\<rparr>"
  let ?c = "c\<lparr>c_balance_manager := (c_balance_manager c)\<lparr>bm_asset_manager := ?am\<rparr>\<rparr>"
  have new: "new_assets_ok (bm_asset_manager (c_balance_manager c)) xs" using ok Inr by (simp add: reload_ok_def)
  have sh: "shows_ok (bm_asset_manager (c_balance_manager c))" using inv by (simp add: ctrl_inv_def)
  note ap = asset_append_ok [OF m new sh]
  have "exch_inv (c_markets c) (lend False ?c)"
    by (rule exch_more_assets [OF ctrl_exch [OF inv, of False], of _ ?am]) (simp_all add: ap(2))
  with inv ap(1) have "ctrl_inv ?c" by (auto simp: ctrl_inv_def names_ok_def total_order_num_def)
  with run Inr m ok reload_markets_inv [of ?c] show ?thesis
    by (auto simp: market_reload_def asset_manager_append_def reload_ok_def Let_def split: sum.splits Option.bind_splits)
qed (use run inv in \<open>simp add: market_reload_def\<close>)

section \<open>Creation\<close>

definition settings_ok :: "settings \<Rightarrow> bool" where
  "settings_ok gs \<longleftrightarrow> st_disable_self_trade gs \<and> list_all (\<lambda>a. ac_prec_show a \<le> ac_prec_save a) (st_assets gs) \<and>
     list_all market_cfg_ok (st_markets gs)"

lemma create_markets_inv:
  "ctrl_inv c \<Longrightarrow> \<forall>(n, m) \<in> set (c_markets c). empty_market m \<Longrightarrow> list_all market_cfg_ok es \<Longrightarrow>
   create_markets (c_settings c) (c_balance_manager c) es (c_markets c, c_asset_market_names c) = Some (ms, names) \<Longrightarrow>
   ctrl_inv (c\<lparr>c_markets := ms, c_asset_market_names := names\<rparr>)"
proof (induction es arbitrary: c)
  case (Cons entry es)
  from Cons.prems(4) obtain m where m: "market_new entry (c_settings c) (c_balance_manager c) = Some (Inr m)"
    by (auto split: option.splits sum.splits)
  let ?c = "c\<lparr>c_markets := AList.update (mc_name entry) m (c_markets c),
    c_asset_market_names := AList.update (mc_base entry, mc_quote entry) (mc_name entry) (c_asset_market_names c)\<rparr>"
  have st: "st_disable_self_trade (c_settings c)" and d: "distinct (map fst (c_markets c))"
    using Cons.prems(1) by (simp_all add: ctrl_inv_def exch_inv_def)
  note new = market_new_ok [OF m _ st]
  have "ctrl_inv ?c" using new Cons.prems by (intro ctrl_put_market) (auto dest!: map_of_SomeD)
  moreover have "\<forall>(n, m) \<in> set (c_markets ?c). empty_market m"
    using Cons.prems(2,3) new(1) set_alist_update [OF d, of "mc_name entry" m] by auto
  ultimately have "ctrl_inv (?c\<lparr>c_markets := ms, c_asset_market_names := names\<rparr>)"
    using Cons.prems(3,4) m by (intro Cons.IH) simp_all
  then show ?case by simp
next
  case Nil
  then have eq: "c\<lparr>c_markets := ms, c_asset_market_names := names\<rparr> = c" by (cases c) simp
  show ?case unfolding eq by (rule Nil(1))
qed

lemma create_controller_inv:
  assumes gs: "settings_ok gs" and cr: "create_controller gs pool = Some c"
  shows "ctrl_inv c"
proof -
  from cr obtain am bm ms names where am: "insert_assets (st_assets gs) [] = Some am" and
    bm: "bm = \<lparr>bm_asset_manager = \<lparr>am_assets = am\<rparr>, bm_balances = []\<rparr>" and
    cm: "create_markets gs bm (st_markets gs) ([], []) = Some (ms, names)" and
    c: "c_markets c = ms" "c_asset_market_names c = names" "c_balance_manager c = bm" "c_settings c = gs"
       "c_update_controller c = []" "c_sequencer c = default_sequencer"
    by (auto simp: create_controller_def bm_new_def asset_manager_new_def update_controller_new_def split: Option.bind_splits)
  let ?c0 = "c\<lparr>c_markets := [], c_asset_market_names := []\<rparr>"
  have empty: "shows_ok \<lparr>am_assets = []\<rparr>" by (simp add: shows_ok_def asset_get_def)
  have "new_assets_ok \<lparr>am_assets = []\<rparr> (st_assets gs)"
    using gs by (auto simp: settings_ok_def new_assets_ok_def list_all_iff asset_prec_def asset_get_def)
  from asset_append_ok(1) [of _ "\<lparr>am_assets = []\<rparr>", simplified, OF am this empty]
  have "shows_ok (bm_asset_manager bm)" by (simp add: bm)
  then have "ctrl_inv ?c0"
    using gs by (simp add: ctrl_inv_def exch_inv_def c bm ctx_ok_def bm_ok_def avail_ok_def trade_ids_ok_def
        frozen_total_def apart_def names_ok_def total_order_num_def settings_ok_def bm_get_def bm_get_by_key_def)
  from create_markets_inv [OF this, of "st_markets gs" ms names]
  have "ctrl_inv (c\<lparr>c_markets := ms, c_asset_market_names := names\<rparr>)"
    using gs by (simp add: c cm settings_ok_def)
  moreover have "c\<lparr>c_markets := ms, c_asset_market_names := names\<rparr> = c" using c(1,2) by (cases c) simp
  ultimately show ?thesis by simp
qed

section \<open>Reachable states\<close>

definition exec_operation ::
  "env \<Rightarrow> serde \<Rightarrow> rpc_codec \<Rightarrow> bool \<Rightarrow> operation \<Rightarrow> uuid \<Rightarrow> 'c controller \<Rightarrow> 'c controller option" where
  "exec_operation E S Q b oper u c =
     (case oper of
        OpBalanceUpdate req \<Rightarrow> map_option fst (update_balance E S Q b req u c)
      | OpOrderPut req \<Rightarrow> map_option fst (order_put E S Q b req u c)
      | OpBatchOrderPut req \<Rightarrow> map_option fst (batch_order_put E S Q b req u c)
      | OpOrderCancel req \<Rightarrow> map_option fst (order_cancel E S Q b req u c)
      | OpOrderCancelAll n \<Rightarrow> map_option fst (order_cancel_all E S Q b n u c))"

text \<open>
  What the controller does not check itself: amounts, prices, limits and fee rates are not
  negative, fee rates are at most one, and the 64-bit counters have room. The theorems on reachable states suppose
  it of every request; \<open>negative_price_accepted\<close> and its companions show what happens otherwise.
\<close>

definition operation_ok :: "env \<Rightarrow> operation \<Rightarrow> 'c controller \<Rightarrow> bool" where
  "operation_ok E oper c =
     (case oper of
        OpOrderPut req \<Rightarrow> put_req_ok E req \<and> ctrl_room 1 (r_market req) c
      | OpBatchOrderPut req \<Rightarrow> batch_ok E req c
      | _ \<Rightarrow> True)"

lemma exec_operation_inv:
  assumes "ctrl_inv c" and "env_laws E" and "operation_ok E oper c" and "exec_operation E S Q b oper u c = Some c'"
  shows "ctrl_inv c'"
  using assms update_balance_ok [OF assms(1,2)] order_put_ok(1) [OF assms(1,2)] batch_order_put_ok(1) [OF assms(1,2)]
    order_cancel_ok(1) [OF assms(1,2)] order_cancel_all_ok(1) [OF assms(1,2)]
  by (cases oper) (auto simp: exec_operation_def operation_ok_def)

lemma exec_operation_total:
  assumes "ctrl_inv c" and "env_laws E" and "operation_ok E oper c"
  shows "exec_operation E S Q False oper u c \<noteq> None"
  using assms update_balance_total [OF assms(1,2)] order_put_ok(2) [OF assms(1,2)] batch_order_put_ok(2) [OF assms(1,2)]
    order_cancel_ok(2) [OF assms(1,2)] order_cancel_all_ok(2) [OF assms(1,2)]
  by (cases oper) (simp_all add: exec_operation_def operation_ok_def)

text \<open>
  A step of the controller: an operation (of a client or from the log), a reset, a reload, or
  the background threads moving on: they change the persistor's and the log writer's channels.
\<close>

inductive ctrl_step :: "env \<Rightarrow> serde \<Rightarrow> rpc_codec \<Rightarrow> 'c controller \<Rightarrow> 'c controller \<Rightarrow> bool" for E S Q where
  step_operation: "operation_ok E oper c \<Longrightarrow> exec_operation E S Q b oper u c = Some c' \<Longrightarrow> ctrl_step E S Q c c'"
| step_reset: "ctrl_step E S Q c (reset_state c)"
| step_reload: "reload_ok as ms c \<Longrightarrow> market_reload as ms c = Some (c', res) \<Longrightarrow> ctrl_step E S Q c c'"
| step_background: "ctrl_step E S Q c (c\<lparr>c_log_handler := h, c_persistor := p\<rparr>)"

lemma ctrl_step_inv: "ctrl_step E S Q c c' \<Longrightarrow> env_laws E \<Longrightarrow> ctrl_inv c \<Longrightarrow> ctrl_inv c'"
proof (induction rule: ctrl_step.induct)
  case (step_background c h p)
  then show ?case by (auto intro: same_engine_inv [of c] simp: same_engine_def)
qed (auto intro: exec_operation_inv reset_state_inv market_reload_inv)

lemma reachable_inv:
  assumes "(ctrl_step E S Q)\<^sup>*\<^sup>* c0 c" and "env_laws E" and "ctrl_inv c0"
  shows "ctrl_inv c"
  using assms by (induction rule: rtranclp_induct) (auto intro: ctrl_step_inv)

end
