(* ===== verification/StateSave.thy ===== *)
theory StateSave
  imports ControllerReach
begin

text \<open>
  \<^verbatim>\<open>src/matchengine/persist/state_save_load.rs\<close> (and the rows of \<^verbatim>\<open>src/storage/config.rs\<close>): the engine's
  state is dumped as a slice of balances and orders with a line in the slice history, and is
  recovered from the last slice and the operations logged since.

  The database is a parameter, the record \<open>store\<close>: what its tables hold and what an insert does to
  them. The \<^verbatim>\<open>select\<close> statements of the code are definitions on the tables' rows.
\<close>

section \<open>The database\<close>

record 'c store =
  insert_orders :: "order_slice list \<Rightarrow> 'c \<Rightarrow> 'c \<times> (sql_error + SqlResultExt)"
  insert_balances :: "balance_slice_insert list \<Rightarrow> 'c \<Rightarrow> 'c \<times> (sql_error + SqlResultExt)"
  insert_history :: "slice_history \<Rightarrow> 'c \<Rightarrow> 'c \<times> (sql_error + SqlResultExt)"
  delete_balances :: "i64 \<Rightarrow> 'c \<Rightarrow> 'c \<times> (sql_error + unit)"
  delete_orders :: "i64 \<Rightarrow> 'c \<Rightarrow> 'c \<times> (sql_error + unit)"
  delete_history :: "i64 \<Rightarrow> 'c \<Rightarrow> 'c \<times> (sql_error + unit)"
  order_rows :: "'c \<Rightarrow> order_slice list"
  balance_rows :: "'c \<Rightarrow> balance_slice list"
  history_rows :: "'c \<Rightarrow> (i32 \<times> slice_history) list"
  log_rows :: "'c \<Rightarrow> operation_log list"

definition QUERY_LIMIT :: nat where "QUERY_LIMIT = 1000"

text \<open>\<^verbatim>\<open>select * from T where id > $1 order by id asc limit 1000\<close>\<close>

definition select_page :: "('r \<Rightarrow> int) \<Rightarrow> 'r list \<Rightarrow> int \<Rightarrow> 'r list" where
  "select_page idf rows from_id = take QUERY_LIMIT (sort_key idf (filter (\<lambda>r. from_id < idf r) rows))"

text \<open>\<^verbatim>\<open>select * from slice_history order by id desc limit 1\<close>\<close>

definition get_last_slice :: "'c store \<Rightarrow> 'c \<Rightarrow> slice_history option" where
  "get_last_slice St conn =
     (case rev (sort_key (\<lambda>(i, _). sint i) (history_rows St conn)) of [] \<Rightarrow> None | (_, h) # _ \<Rightarrow> Some h)"

fun fold_opt :: "('r \<Rightarrow> 's \<Rightarrow> 's option) \<Rightarrow> 'r list \<Rightarrow> 's \<Rightarrow> 's option" where
  "fold_opt f [] s = Some s"
| "fold_opt f (r # rs) s = (case f r s of None \<Rightarrow> None | Some s' \<Rightarrow> fold_opt f rs s')"

lemma fold_opt_append: "fold_opt f (xs @ ys) s = (case fold_opt f xs s of None \<Rightarrow> None | Some s' \<Rightarrow> fold_opt f ys s')"
  by (induction xs arbitrary: s) (auto split: option.split)

lemma select_page_set: "r \<in> set (select_page idf rows n) \<Longrightarrow> r \<in> set rows \<and> n < idf r"
  by (auto simp: select_page_def dest: in_set_takeD)

text \<open>
  The loading loops of balances and orders: a page is processed row by row; a full page is
  followed by the next one, behind the last identifier seen.
\<close>

function page_loop :: "('r \<Rightarrow> int) \<Rightarrow> 'r list \<Rightarrow> ('r \<Rightarrow> 's \<Rightarrow> 's option) \<Rightarrow> int \<Rightarrow> 's \<Rightarrow> 's option" where
  "page_loop idf rows f from_id s =
     (let page = select_page idf rows from_id in
      case fold_opt f page s of
        None \<Rightarrow> None
      | Some s' \<Rightarrow>
          if length page \<noteq> QUERY_LIMIT then Some s'
          else page_loop idf rows f (idf (last page)) s')"
  by pat_completeness auto

lemma rows_left_less:
  assumes "page = select_page idf rows n" and "page \<noteq> []"
  shows "length (filter (\<lambda>r. idf (last page) < idf r) rows) < length (filter (\<lambda>r. n < idf r) rows)"
proof -
  have l: "last page \<in> set rows" "n < idf (last page)" using assms select_page_set [of "last page" idf rows n] by auto
  have "filter (\<lambda>r. idf (last page) < idf r) rows = filter (\<lambda>r. idf (last page) < idf r) (filter (\<lambda>r. n < idf r) rows)"
    using l(2) by (auto intro!: filter_cong)
  moreover have "length (filter (\<lambda>r. idf (last page) < idf r) (filter (\<lambda>r. n < idf r) rows)) < length (filter (\<lambda>r. n < idf r) rows)"
    by (rule length_filter_less [of "last page"]) (use l in auto)
  ultimately show ?thesis by simp
qed

termination page_loop
proof (relation "measure (\<lambda>(idf, rows, f, n, s). length (filter (\<lambda>r. n < idf r) rows))", simp)
  fix idf :: "'r \<Rightarrow> int" and rows and f :: "'r \<Rightarrow> 's \<Rightarrow> 's option" and n s page s'
  assume page: "page = select_page idf rows n" and "fold_opt f page s = Some s'" and "\<not> length page \<noteq> QUERY_LIMIT"
  then have "page \<noteq> []" by (auto simp: QUERY_LIMIT_def)
  from rows_left_less [OF page this]
  show "((idf, rows, f, idf (last page), s'), idf, rows, f, n, s) \<in> measure (\<lambda>(idf, rows, f, n, s). length (filter (\<lambda>r. n < idf r) rows))"
    by simp
qed

declare page_loop.simps [simp del]

section \<open>Loading a slice\<close>

definition load_balance :: "env \<Rightarrow> balance_slice \<Rightarrow> 'c controller \<Rightarrow> 'c controller option" where
  "load_balance E balance c = do {
     balance_type \<leftarrow> balance_type_try_from (bs_t balance);
     user \<leftarrow> uuid_parse E (bs_user_id balance);
     bm \<leftarrow> bm_set E (c_balance_manager c) user balance_type (bs_asset balance) (bs_balance balance);
     Some (c\<lparr>c_balance_manager := bm\<rparr>)
   }"

definition order_of_slice :: "env \<Rightarrow> market \<Rightarrow> order_slice \<Rightarrow> order option" where
  "order_of_slice E m row = do {
     user \<leftarrow> uuid_parse E (os_user_id row);
     Some \<lparr>o_id = os_id row, o_base = m_base m, o_quote = m_quote m, o_market = m_name m,
       o_type = os_order_type row, o_side = os_order_side row, o_user = user, o_post_only = os_post_only row,
       o_price = os_price row, o_amount = os_amount row, o_maker_fee = os_maker_fee row, o_taker_fee = os_taker_fee row,
       o_create_time = ftimestamp_from_db E (os_create_time row), o_remain = os_remain row, o_frozen = os_frozen row,
       o_finished_base = os_finished_base row, o_finished_quote = os_finished_quote row,
       o_finished_fee = os_finished_fee row, o_update_time = ftimestamp_from_db E (os_update_time row)\<rparr>
   }"

definition load_order :: "env \<Rightarrow> order_slice \<Rightarrow> 'c controller \<Rightarrow> 'c controller option" where
  "load_order E row c = do {
     m \<leftarrow> map_of (c_markets c) (os_market row);
     x \<leftarrow> order_of_slice E m row;
     Some (set_market (os_market row) (fst (insert_order_into_orderbook E x m)) c)
   }"

definition load_slice_from_db :: "env \<Rightarrow> 'd store \<Rightarrow> 'd \<Rightarrow> i64 \<Rightarrow> 'c controller \<Rightarrow> 'c controller option" where
  "load_slice_from_db E St conn slice_id c = do {
     c \<leftarrow> page_loop (\<lambda>r. sint (bs_id r)) (filter (\<lambda>r. bs_slice_id r = slice_id) (balance_rows St conn)) (load_balance E) 0 c;
     page_loop (\<lambda>r. sint (os_id r)) (filter (\<lambda>r. os_slice_id r = slice_id) (order_rows St conn)) (load_order E) 0 c
   }"

section \<open>Replaying the operation log\<close>

definition replay_log :: "env \<Rightarrow> serde \<Rightarrow> rpc_codec \<Rightarrow> operation_log \<Rightarrow> 'c controller \<Rightarrow> 'c controller option" where
  "replay_log E S Q entry c = do {
     user \<leftarrow> uuid_parse E (ol_user_id entry);
     (c, r) \<leftarrow> replay E S Q user (ol_method entry) (ol_params entry) c;
     case r of Inl _ \<Rightarrow> None | Inr _ \<Rightarrow> Some c
   }"

function log_loop ::
  "('r \<Rightarrow> int) \<Rightarrow> 'r list \<Rightarrow> ('r \<Rightarrow> 's \<Rightarrow> 's option) \<Rightarrow> int \<Rightarrow> 's \<Rightarrow> ('s \<times> int) option" where
  "log_loop idf rows f from_id s =
     (let page = select_page idf rows from_id in
      if page = [] then Some (s, from_id)
      else case fold_opt f page s of
             None \<Rightarrow> None
           | Some s' \<Rightarrow> log_loop idf rows f (idf (last page)) s')"
  by pat_completeness auto
termination log_loop
proof (relation "measure (\<lambda>(idf, rows, f, n, s). length (filter (\<lambda>r. n < idf r) rows))", simp)
  fix idf :: "'r \<Rightarrow> int" and rows and f :: "'r \<Rightarrow> 's \<Rightarrow> 's option" and n s page s'
  assume page: "page = select_page idf rows n" and ne: "page \<noteq> []"
  from rows_left_less [OF page ne]
  show "((idf, rows, f, idf (last page), s'), idf, rows, f, n, s) \<in> measure (\<lambda>(idf, rows, f, n, s). length (filter (\<lambda>r. n < idf r) rows))"
    by simp
qed

declare log_loop.simps [simp del]

definition load_operation_log_from_db ::
  "env \<Rightarrow> serde \<Rightarrow> rpc_codec \<Rightarrow> 'd store \<Rightarrow> 'd \<Rightarrow> u64 \<Rightarrow> 'c controller \<Rightarrow> 'c controller option" where
  "load_operation_log_from_db E S Q St conn start_id c = do {
     (c, last_id) \<leftarrow> log_loop (\<lambda>r. sint (ol_id r)) (log_rows St conn) (replay_log E S Q) (sint start_id) c;
     Some (c\<lparr>c_sequencer := set_operation_log_id (of_int last_id) (c_sequencer c)\<rparr>)
   }"

definition init_from_db ::
  "env \<Rightarrow> serde \<Rightarrow> rpc_codec \<Rightarrow> 'd store \<Rightarrow> 'd \<Rightarrow> 'c controller \<Rightarrow> 'c controller option" where
  "init_from_db E S Q St conn c =
     (case get_last_slice St conn of
        Some last_slice \<Rightarrow> do {
          c \<leftarrow> load_slice_from_db E St conn (sh_time last_slice) c;
          let c = c\<lparr>c_sequencer := set_trade_id (sh_end_trade_id last_slice) (set_order_id (sh_end_order_id last_slice) (c_sequencer c))\<rparr>;
          load_operation_log_from_db E S Q St conn (sh_end_operation_log_id last_slice) c
        }
      | None \<Rightarrow> load_operation_log_from_db E S Q St conn 0 c)"

section \<open>Dumping\<close>

definition DUMPING_SET_LIMIT :: nat where "DUMPING_SET_LIMIT = 100000"

text \<open>The iterator is the list of the items still to come; it is returned with the record.\<close>

fun collect_more :: "'a list \<Rightarrow> nat \<Rightarrow> 'a list \<Rightarrow> 'a list \<times> 'a list" where
  "collect_more [] n record = (record, [])"
| "collect_more (i # iter) n record =
     (let record = record @ [i] in if length record \<ge> n then (record, iter) else collect_more iter n record)"

definition collect_n :: "'a list \<Rightarrow> nat \<Rightarrow> 'a list \<Rightarrow> 'a list \<times> 'a list" where
  "collect_n iter n record = (if length record \<ge> n then (record, iter) else collect_more iter n record)"

partial_function (option) dump_loop ::
  "('q list \<Rightarrow> 'd \<Rightarrow> 'd \<times> (sql_error + SqlResultExt)) \<Rightarrow> nat \<Rightarrow> 'q list \<Rightarrow> 'q list \<Rightarrow> nat \<Rightarrow> 'd \<Rightarrow> ('d \<times> nat) option" where
  "dump_loop query n records iter inserted conn =
     (if records = [] then Some (conn, inserted)
      else
        (case sql_query_fine query records conn of
           (conn', Inl (resident, e)) \<Rightarrow>
             dump_loop query n (fst (collect_n iter n resident)) (snd (collect_n iter n resident))
               (inserted + length records - length resident) conn'
         | (conn', Inr _) \<Rightarrow>
             dump_loop query n (fst (collect_n iter n [])) (snd (collect_n iter n []))
               (inserted + length records) conn'))"

definition dump_records ::
  "('q list \<Rightarrow> 'd \<Rightarrow> 'd \<times> (sql_error + SqlResultExt)) \<Rightarrow> 'q list \<Rightarrow> nat \<Rightarrow> 'd \<Rightarrow> ('d \<times> nat) option" where
  "dump_records query iter n conn =
     dump_loop query n (fst (collect_n iter n [])) (snd (collect_n iter n [])) 0 conn"

definition balance_slice_of :: "env \<Rightarrow> i64 \<Rightarrow> balance_map_key \<times> decimal \<Rightarrow> balance_slice_insert" where
  "balance_slice_of E slice_id item = (let (k, v) = item in
     \<lparr>bi_slice_id = slice_id, bi_user_id = uuid_to_string E (bk_user_id k), bi_asset = bk_asset k,
      bi_t = balance_type_i16 (bk_balance_type k), bi_balance = v\<rparr>)"

definition dump_balance :: "env \<Rightarrow> 'd store \<Rightarrow> i64 \<Rightarrow> balance_manager \<Rightarrow> 'd \<Rightarrow> 'd option" where
  "dump_balance E St slice_id bm conn = do {
     (conn, _) \<leftarrow> dump_records (insert_balances St) (map (balance_slice_of E slice_id) (bm_balances bm)) DUMPING_SET_LIMIT conn;
     Some conn
   }"

definition order_slice_of :: "env \<Rightarrow> i64 \<Rightarrow> order \<Rightarrow> order_slice" where
  "order_slice_of E slice_id x =
     \<lparr>os_id = o_id x, os_slice_id = slice_id, os_order_type = o_type x, os_order_side = o_side x,
      os_create_time = ftimestamp_to_db E (o_create_time x), os_update_time = ftimestamp_to_db E (o_update_time x),
      os_user_id = uuid_to_string E (o_user x), os_market = o_market x, os_price = o_price x, os_amount = o_amount x,
      os_taker_fee = o_taker_fee x, os_maker_fee = o_maker_fee x, os_remain = o_remain x, os_frozen = o_frozen x,
      os_finished_base = o_finished_base x, os_finished_quote = o_finished_quote x,
      os_finished_fee = o_finished_fee x, os_post_only = o_post_only x\<rparr>"

definition market_orders :: "market \<Rightarrow> order list" where
  "market_orders m = map (\<lambda>(_, r). deep m r) (m_orders m)"

definition dump_orders :: "env \<Rightarrow> 'd store \<Rightarrow> i64 \<Rightarrow> 'c controller \<Rightarrow> 'd \<Rightarrow> 'd option" where
  "dump_orders E St slice_id c conn = do {
     (conn, _) \<leftarrow> dump_records (insert_orders St)
       (map (order_slice_of E slice_id) (concat (map (\<lambda>(_, m). market_orders m) (c_markets c)))) DUMPING_SET_LIMIT conn;
     Some conn
   }"

definition update_slice_history :: "'d store \<Rightarrow> i64 \<Rightarrow> 'c controller \<Rightarrow> 'd \<Rightarrow> 'd \<times> (sql_error + unit)" where
  "update_slice_history St slice_id c conn =
     (let s = c_sequencer c;
          h = \<lparr>sh_time = slice_id, sh_end_operation_log_id = sq_operation_log_id s,
               sh_end_order_id = sq_order_id s, sh_end_trade_id = sq_trade_id s\<rparr>
      in case insert_history St h conn of
           (conn, Inl e) \<Rightarrow> (conn, Inl e)
         | (conn, Inr _) \<Rightarrow> (conn, Inr ()))"

definition dump_to_db :: "env \<Rightarrow> 'd store \<Rightarrow> i64 \<Rightarrow> 'c controller \<Rightarrow> 'd \<Rightarrow> ('d \<times> (sql_error + unit)) option" where
  "dump_to_db E St slice_id c conn = do {
     conn \<leftarrow> dump_orders E St slice_id c conn;
     conn \<leftarrow> dump_balance E St slice_id (c_balance_manager c) conn;
     Some (update_slice_history St slice_id c conn)
   }"

definition SLICE_KEEP_TIME :: i64 where "SLICE_KEEP_TIME = 30"

definition delete_slice :: "'d store \<Rightarrow> i64 \<Rightarrow> 'd \<Rightarrow> 'd \<times> (sql_error + unit)" where
  "delete_slice St slice_id conn =
     (case delete_balances St slice_id conn of
        (conn, Inl e) \<Rightarrow> (conn, Inl e)
      | (conn, Inr _) \<Rightarrow>
          (case delete_orders St slice_id conn of
             (conn, Inl e) \<Rightarrow> (conn, Inl e)
           | (conn, Inr _) \<Rightarrow> delete_history St slice_id conn))"

fun delete_slices :: "'d store \<Rightarrow> i64 list \<Rightarrow> 'd \<Rightarrow> 'd \<times> (sql_error + unit)" where
  "delete_slices St [] conn = (conn, Inr ())"
| "delete_slices St (entry_time # es) conn =
     (case delete_slice St entry_time conn of
        (conn, Inl e) \<Rightarrow> (conn, Inl e)
      | (conn, Inr _) \<Rightarrow> delete_slices St es conn)"

text \<open>\<^verbatim>\<open>select time from slice_history where time <= $1\<close>; the count before it is only logged.\<close>

definition clear_slice :: "'d store \<Rightarrow> i64 \<Rightarrow> 'd \<Rightarrow> 'd \<times> (sql_error + unit)" where
  "clear_slice St slice_id conn =
     delete_slices St
       (map (\<lambda>(_, h). sh_time h) (filter (\<lambda>(_, h). sint (sh_time h) \<le> sint (slice_id - SLICE_KEEP_TIME)) (history_rows St conn))) conn"

definition make_slice :: "env \<Rightarrow> 'd store \<Rightarrow> i64 \<Rightarrow> 'c controller \<Rightarrow> 'd \<Rightarrow> ('d \<times> (sql_error + unit)) option" where
  "make_slice E St slice_id c conn = do {
     (conn, r) \<leftarrow> dump_to_db E St slice_id c conn;
     case r of Inl e \<Rightarrow> Some (conn, Inl e) | Inr _ \<Rightarrow> Some (clear_slice St slice_id conn)
   }"

section \<open>The debugging handlers of the controller\<close>

text \<open>
  \<^verbatim>\<open>debug_dump\<close> and \<^verbatim>\<open>debug_reload\<close> of \<^verbatim>\<open>src/matchengine/controller.rs\<close>. \<open>db_conn\<close> is the result of
  connecting to the database, \<open>text\<close> the textual form of a database error.
\<close>

definition debug_dump ::
  "env \<Rightarrow> 'd store \<Rightarrow> (sql_error \<Rightarrow> string) \<Rightarrow> i64 \<Rightarrow> sql_error + 'd \<Rightarrow> 'c controller \<Rightarrow> ('d option \<times> (rpc_status + unit)) option" where
  "debug_dump E St text now db_conn c =
     (case db_conn of
        Inl e \<Rightarrow> Some (None, Inl (UnknownErr (text e)))
      | Inr conn \<Rightarrow> do {
          (conn, r) \<leftarrow> dump_to_db E St now c conn;
          case r of Inl e \<Rightarrow> Some (Some conn, Inl (UnknownErr (text e))) | Inr _ \<Rightarrow> Some (Some conn, Inr ())
        })"

definition debug_reload ::
  "env \<Rightarrow> serde \<Rightarrow> rpc_codec \<Rightarrow> 'd store \<Rightarrow> (sql_error \<Rightarrow> string) \<Rightarrow> sql_error + 'd \<Rightarrow> 'c controller \<Rightarrow>
   ('c controller \<times> (rpc_status + unit)) option" where
  "debug_reload E S Q St text db_conn c =
     (let c = reset_state c in
      case db_conn of
        Inl e \<Rightarrow> Some (c, Inl (UnknownErr (text e)))
      | Inr conn \<Rightarrow> do { c \<leftarrow> init_from_db E S Q St conn c; Some (c, Inr ()) })"

end
