(* ===== verification/ControllerProps.thy ===== *)
theory ControllerProps
  imports ControllerReach "HOL-Library.Code_Target_Nat"
begin

text \<open>
  The properties of the whole exchange, with a small exchange as the witness: it is created from
  settings with two assets and one market, a user deposits and submits an order.
\<close>

section \<open>A concrete exchange\<close>

definition demo_settings :: settings where
  "demo_settings = default_settings\<lparr>st_brokers := [],
     st_assets := [\<lparr>ac_id = ''ETH'', ac_symbol = ''ETH'', ac_name = ''Ether'', ac_prec_save = 4, ac_prec_show = 4\<rparr>,
       \<lparr>ac_id = ''USDT'', ac_symbol = ''USDT'', ac_name = ''Tether'', ac_prec_save = 6, ac_prec_show = 4\<rparr>],
     st_markets := [\<lparr>mc_name = ''ETH_USDT'', mc_base = ''ETH'', mc_quote = ''USDT'', mc_amount_prec = 4,
         mc_price_prec = 2, mc_fee_prec = 2, mc_min_amount = 1 / 1000\<rparr>]\<rparr>"

definition demo_codec :: rpc_codec where
  "demo_codec = \<lparr>req_to_json = (\<lambda>_. ''{}''), req_from_json = (\<lambda>_ _. Some (OpOrderCancelAll ''ETH_USDT'')),
     merge_desc = (\<lambda>xss. rev (sort_key o_id (concat xss)))\<rparr>"

definition demo_deposit :: balance_update_request where
  "demo_deposit = \<lparr>bu_asset = ''ETH'', bu_business = ''deposit'', bu_business_id = 7, bu_delta = ''10.5'', bu_detail = []\<rparr>"

definition demo_put :: order_put_request where
  "demo_put = \<lparr>r_market = ''ETH_USDT'', r_order_side = 0, r_order_type = 0, r_amount = ''2.5'', r_price = ''100'',
     r_quote_limit = [], r_taker_fee = ''0.01'', r_maker_fee = [], r_post_only = False\<rparr>"

definition demo_c0 :: "unit controller" where
  "demo_c0 = the (create_controller demo_settings ())"

definition demo_c1 :: "unit controller" where
  "demo_c1 = the (exec_operation ref_env demo_serde demo_codec True (OpBalanceUpdate demo_deposit) 1 demo_c0)"

definition demo_c2 :: "unit controller" where
  "demo_c2 = the (exec_operation ref_env demo_serde demo_codec True (OpOrderPut demo_put) 1 demo_c1)"

lemma demo_settings_ok: "settings_ok demo_settings" by code_simp

lemma demo_created: "create_controller demo_settings () \<noteq> None" by code_simp

lemma demo_c1_some: "exec_operation ref_env demo_serde demo_codec True (OpBalanceUpdate demo_deposit) 1 demo_c0 \<noteq> None" by code_simp

lemma demo_put_ok: "operation_ok ref_env (OpOrderPut demo_put) demo_c1" by code_simp

lemma demo_c2_some: "exec_operation ref_env demo_serde demo_codec True (OpOrderPut demo_put) 1 demo_c1 \<noteq> None" by code_simp

text \<open>The state after the two operations, evaluated once.\<close>

lemma demo_c2_value [code]: "demo_c2 = demo_c0\<lparr>
    c_sequencer := \<lparr>sq_order_id = 1, sq_trade_id = 0, sq_msg_id = 0, sq_operation_log_id = 2\<rparr>,
    c_balance_manager := (c_balance_manager demo_c0)\<lparr>bm_balances :=
      [(\<lparr>bk_user_id = 1, bk_balance_type = AVAILABLE, bk_asset = ''ETH''\<rparr>, 8),
       (\<lparr>bk_user_id = 1, bk_balance_type = FREEZE, bk_asset = ''ETH''\<rparr>, 5 / 2)]\<rparr>,
    c_update_controller := [\<lparr>uk_balance_type = AVAILABLE, uk_business_type = Deposit, uk_user_id = 1, uk_asset = ''ETH'',
      uk_business = ''deposit'', uk_business_id = 7\<rparr>],
    c_markets := map (\<lambda>(n, m). (n, m\<lparr>
      m_heap := [\<lparr>o_id = 1, o_base = ''ETH'', o_quote = ''USDT'', o_market = ''ETH_USDT'', o_type = LIMIT, o_side = ASK, o_user = 1,
        o_post_only = False, o_price = 100, o_amount = 5 / 2, o_maker_fee = 0, o_taker_fee = 1 / 100, o_create_time = 3,
        o_remain = 5 / 2, o_frozen = 5 / 2, o_finished_base = 0, o_finished_quote = 0, o_finished_fee = 0, o_update_time = 3\<rparr>],
      m_orders := [(1, 0)], m_users := [(1, [(1, 0)])], m_asks := [(MarketKeyAsk 100 1, 0)]\<rparr>)) (c_markets demo_c0),
    c_log_handler := (c_log_handler demo_c0)\<lparr>
      wr_chan := [Data \<lparr>ol_id = 1, ol_user_id = ''1'', ol_time = 2, ol_method = ''balance_update'', ol_params = ''{}''\<rparr> None,
        Data \<lparr>ol_id = 2, ol_user_id = ''1'', ol_time = 4, ol_method = ''order_put'', ol_params = ''{}''\<rparr> None],
      wr_sent := [Data \<lparr>ol_id = 1, ol_user_id = ''1'', ol_time = 2, ol_method = ''balance_update'', ol_params = ''{}''\<rparr> None,
        Data \<lparr>ol_id = 2, ol_user_id = ''1'', ol_time = 4, ol_method = ''order_put'', ol_params = ''{}''\<rparr> None]\<rparr>,
    c_persistor := CompositePersistor [FileBasedPersistor (concat (replicate 3 (''message'' @ [CHR 10])))],
    c_clock := 5\<rparr>"
  by code_simp

lemma demo_c2_balance: "bm_get (c_balance_manager demo_c2) 1 FREEZE ''ETH'' = 5 / 2" by code_simp

lemma demo_ctrl_reach: "(ctrl_step ref_env demo_serde demo_codec)\<^sup>*\<^sup>* demo_c0 demo_c2"
proof -
  have "ctrl_step ref_env demo_serde demo_codec demo_c0 demo_c1"
    using demo_c1_some by (intro step_operation [of _ "OpBalanceUpdate demo_deposit"]) (auto simp: operation_ok_def demo_c1_def)
  moreover have "ctrl_step ref_env demo_serde demo_codec demo_c1 demo_c2"
    using demo_c2_some by (intro step_operation [OF demo_put_ok]) (auto simp: demo_c2_def)
  ultimately show ?thesis by (metis converse_rtranclp_into_rtranclp rtranclp.rtrancl_refl)
qed

lemma demo_c0: "create_controller demo_settings () = Some demo_c0"
  using demo_created by (simp add: demo_c0_def)

lemma demo_inv2: "ctrl_inv demo_c2"
  by (rule reachable_inv [OF demo_ctrl_reach ref_env_laws create_controller_inv [OF demo_settings_ok demo_c0]])

section \<open>The books balance\<close>

text \<open>
  C1: In every state the exchange can reach by admissible requests, accepted or refused, cancellations, resets and reloads:
  the frozen balance of every user in every asset is exactly what the user's resting
  orders in all markets hold, no available balance is negative, in every market the two sides
  of the book do not cross, and no user has more orders than the limit of the settings. A request to submit is admissible
  (\<open>operation_ok\<close>) when its price, amount and quote limit are not negative, its fee rates lie between 0 and 1 and the 64-bit
  counters do not wrap; the code does not check this, and a bid with a negative price does break the books
  (\<open>negative_price_accepted\<close>). The settings forbid self-trades, no asset shows more digits than it stores, and every market, also a
  reloaded one, has two different assets and precisions that can be added; a reload changes the stored digits of no known asset
  (\<open>settings_ok\<close>, \<open>reload_ok\<close>).
\<close>

theorem exchange_books_balance:
  assumes "settings_ok gs" and "create_controller gs pool = Some c0" and "env_laws E"
    and "(ctrl_step E S Q)\<^sup>*\<^sup>* c0 c"
  shows "(\<forall>u a. bm_get (c_balance_manager c) u FREEZE a = frozen_total (c_markets c) u a \<and>
      0 \<le> bm_get (c_balance_manager c) u AVAILABLE a) \<and>
    (\<forall>(n, m) \<in> set (c_markets c). uncrossed m) \<and>
    (\<forall>u. total_order_num c u \<le> st_user_order_num_limit (c_settings c))"
proof -
  have "ctrl_inv c" by (rule reachable_inv [OF assms(4,3) create_controller_inv [OF assms(1,2)]])
  then show ?thesis
    by (auto simp: ctrl_inv_def exch_inv_def ctx_ok_def avail_ok_def book_ok_def)
qed

theorem exchange_books_balance_witness:
  "settings_ok demo_settings \<and> (ctrl_step ref_env demo_serde demo_codec)\<^sup>*\<^sup>* demo_c0 demo_c2 \<and>
   bm_get (c_balance_manager demo_c2) 1 FREEZE ''ETH'' = 5 / 2 \<and> frozen_total (c_markets demo_c2) 1 ''ETH'' = 5 / 2"
  using exchange_books_balance [OF demo_settings_ok demo_c0 ref_env_laws demo_ctrl_reach] demo_settings_ok demo_ctrl_reach demo_c2_balance
  by metis

section \<open>Types\<close>

text \<open>What the types of the source leave open: which decimals, identifiers and labels the engine's data holds.\<close>

definition typed_balance :: "asset_manager \<Rightarrow> balance_map_key \<Rightarrow> decimal \<Rightarrow> bool" where
  "typed_balance am k v = (case asset_prec am (bk_asset k) of None \<Rightarrow> False | Some p \<Rightarrow> 0 \<le> v \<and> has_prec (unat p) v)"

definition typed_order :: "u64 \<Rightarrow> market \<Rightarrow> u64 \<Rightarrow> order \<Rightarrow> bool" where
  "typed_order issued m i x \<longleftrightarrow> o_id x = i \<and> 0 < i \<and> i \<le> issued \<and>
     o_market x = m_name m \<and> o_base x = m_base m \<and> o_quote x = m_quote m \<and> o_type x = LIMIT \<and>
     0 < o_price x \<and> has_prec (unat (m_price_prec m)) (o_price x) \<and>
     0 < o_remain x \<and> has_prec (unat (m_amount_prec m)) (o_remain x) \<and> o_remain x + o_finished_base x = o_amount x"

definition typed_market :: "asset_manager \<Rightarrow> u64 \<Rightarrow> string \<Rightarrow> market \<Rightarrow> bool" where
  "typed_market am issued n m \<longleftrightarrow> n = m_name m \<and> m_base m \<noteq> m_quote m \<and>
     asset_prec am (m_base m) = Some (m_base_prec m) \<and> asset_prec am (m_quote m) = Some (m_quote_prec m) \<and>
     m_amount_prec m \<le> m_base_prec m \<and> unat (m_amount_prec m) + unat (m_price_prec m) \<le> unat (m_quote_prec m) \<and>
     (\<forall>(i, r) \<in> set (m_orders m). typed_order issued m i (deep m r))"

lemma typed_market_inv:
  assumes "exch_inv ms cx" and m: "(n, m) \<in> set ms"
  shows "typed_market (bm_asset_manager (cx_bm cx)) (sq_order_id (cx_sequencer cx)) n m"
proof -
  note D = exch_invD [OF assms(1)]
  have "typed_order (sq_order_id (cx_sequencer cx)) m i (deep m r)" if "(i, r) \<in> set (m_orders m)" for i r
  proof -
    have "o_id (deep m r) = i" using D(3) [OF m] book_structD(7) [OF _ that] by (simp add: book_ok_def)
    with that D(3,5) [OF m] show ?thesis
      by (auto simp: typed_order_def book_ok_def orders_ok_def order_ok_def all_open_def ids_below_def tagged_def word_gt_0)
  qed
  with D(3,5) [OF m] show ?thesis by (auto simp: typed_market_def mkt_ok_def)
qed

lemma typed_balance_inv:
  assumes "exch_inv ms cx" and kv: "(k, v) \<in> set (bm_balances (cx_bm cx))"
  shows "typed_balance (bm_asset_manager (cx_bm cx)) k v"
proof -
  note D = exch_invD [OF assms(1)]
  have ok: "bm_ok (cx_bm cx)" and av: "avail_ok (cx_bm cx)" using D(2) by (simp_all add: ctx_ok_def)
  have "\<forall>(n, m) \<in> set ms. orders_ok m" using D(3) by (auto simp: book_ok_def)
  then have "0 \<le> frozen_total ms u a" for u a
    unfolding frozen_total_def by (intro sum_list_nonneg) (auto intro: frozen_sum_nonneg)
  then have nonneg: "0 \<le> bm_get (cx_bm cx) u t a" for u t a
    using av D(4) by (cases t) (simp_all add: avail_ok_def)
  have "map_of (bm_balances (cx_bm cx)) k = Some v" using ok kv by (simp add: bm_ok_def)
  then have "bm_get (cx_bm cx) (bk_user_id k) (bk_balance_type k) (bk_asset k) = v"
    by (cases k) (simp add: bm_get_def bm_get_by_key_def bkey_def)
  with nonneg [of "bk_user_id k" "bk_balance_type k" "bk_asset k"] ok kv show ?thesis
    by (auto simp: typed_balance_def bm_ok_def amount_ok_def)
qed

text \<open>
  C2: Every state reachable by admissible requests is well typed beyond what the types of the source express. Admissible is
  meant as for the books (\<open>operation_ok\<close>: no negative price, amount or limit and fee rates between 0 and 1, which the code itself does not
  check; \<open>settings_ok\<close> and \<open>reload_ok\<close> for the configuration). Every stored balance
  belongs to a known asset, is not negative and is a multiple of the unit of that asset. Every market is stored
  under its name, between two different known assets whose precisions it respects. Every resting order is
  stored under its identifier, which is positive and already handed out, carries the name and assets of its market,
  is a limit order with a positive price and a positive rest in the market's precisions, and rest and executed
  part make up its amount. No identifier is used by two markets.
\<close>

theorem exchange_well_typed:
  assumes "settings_ok gs" and "create_controller gs pool = Some c0" and "env_laws E"
    and "(ctrl_step E S Q)\<^sup>*\<^sup>* c0 c"
  shows "(\<forall>(k, v) \<in> set (bm_balances (c_balance_manager c)).
      typed_balance (bm_asset_manager (c_balance_manager c)) k v) \<and>
    (\<forall>(n, m) \<in> set (c_markets c).
      typed_market (bm_asset_manager (c_balance_manager c)) (sq_order_id (c_sequencer c)) n m) \<and>
    (\<forall>(n, m) \<in> set (c_markets c). \<forall>(k, m') \<in> set (c_markets c).
      n \<noteq> k \<longrightarrow> fst ` set (m_orders m) \<inter> fst ` set (m_orders m') = {})"
proof -
  have ex: "exch_inv (c_markets c) (lend False c)"
    by (rule ctrl_exch [OF reachable_inv [OF assms(4,3) create_controller_inv [OF assms(1,2)]]])
  show ?thesis
    using typed_balance_inv [OF ex] typed_market_inv [OF ex] exch_invD(6) [OF ex]
    by (auto simp: apart_def order_ids_def)
qed

lemma demo_c2_order: "map (\<lambda>(n, m). (n, m_orders m)) (c_markets demo_c2) = [(''ETH_USDT'', [(1, 0)])]"
  by code_simp

theorem exchange_well_typed_witness:
  "\<exists>m. (''ETH_USDT'', m) \<in> set (c_markets demo_c2) \<and> typed_order (sq_order_id (c_sequencer demo_c2)) m 1 (deep m 0)"
proof -
  obtain m where m: "(''ETH_USDT'', m) \<in> set (c_markets demo_c2)" "(1, 0) \<in> set (m_orders m)"
    using demo_c2_order by (auto simp: map_eq_Cons_conv)
  from exchange_well_typed [OF demo_settings_ok demo_c0 ref_env_laws demo_ctrl_reach] m(1)
  have "typed_market (bm_asset_manager (c_balance_manager demo_c2)) (sq_order_id (c_sequencer demo_c2)) ''ETH_USDT'' m" by blast
  with m show ?thesis by (auto simp: typed_market_def)
qed

text \<open>
  C16: Replaying an entry of the operation log returns: in every state reachable by admissible requests \<^verbatim>\<open>replay\<close> of any method name
  and any parameters gives a result or an error and no unwrap, index or assertion on the way fails, provided that the operation the
  parameters parse to, if they do, is admissible itself (\<open>operation_ok\<close>: no negative price, amount or limit, fee rates between 0 and 1,
  counters that do not wrap) and that no sum, difference or product of \<^verbatim>\<open>Decimal\<close>s in the run overflows or rounds (\<open>env_laws\<close>). The code checks
  neither: an order with a negative limit, a fee rate above 1 or an amount times price beyond the range of \<^verbatim>\<open>Decimal\<close> panics.
\<close>

theorem replay_returns:
  assumes "settings_ok gs" and "create_controller gs pool = Some c0" and "env_laws E"
    and "(ctrl_step E S Q)\<^sup>*\<^sup>* c0 c"
    and "\<And>oper. req_from_json Q meth params = Some oper \<Longrightarrow> operation_ok E oper c"
  shows "\<exists>c' res. replay E S Q u meth params c = Some (c', res)"
proof -
  have inv: "ctrl_inv c" by (rule reachable_inv [OF assms(4,3) create_controller_inv [OF assms(1,2)]])
  define unknown where "unknown \<longleftrightarrow> meth \<notin> {OPERATION_BALANCE_UPDATE, OPERATION_ORDER_CANCEL,
    OPERATION_ORDER_CANCEL_ALL, OPERATION_ORDER_PUT, OPERATION_BATCH_ORDER_PUT}"
  note def = replay_def [of E S Q u meth params c, folded unknown_def]
  show ?thesis
  proof (cases "unknown \<or> req_from_json Q meth params = None")
    case False
    then obtain oper where oper: "\<not> unknown" "req_from_json Q meth params = Some oper" by blast
    from exec_operation_total [OF inv assms(3) assms(5) [OF oper(2)], of S Q u]
    have "exec_operation E S Q False oper u c \<noteq> None" .
    then show ?thesis using oper by (cases oper) (auto simp: def replay_result_def exec_operation_def)
  qed (auto simp: def)
qed

theorem replay_returns_witness:
  "\<exists>c' res. replay ref_env demo_serde demo_codec 1 OPERATION_ORDER_CANCEL_ALL ''{}'' demo_c2 = Some (c', res)"
  by (rule replay_returns [OF demo_settings_ok demo_c0 ref_env_laws demo_ctrl_reach]) (simp add: demo_codec_def operation_ok_def)

section \<open>Deposits and withdrawals\<close>

lemma update_balance_booked:
  assumes E: "env_laws E" and inv: "ctrl_inv c" and run: "update_balance E S Q b req u c = Some (c', Inr ())"
  obtains x prec price detail cx where "dec_from_str E (bu_delta req) = Some x"
    "asset_prec_show (bm_asset_manager (c_balance_manager c)) (bu_asset req) = Some prec"
    "booked (update_of req u price detail (round_dp E x prec)) (lend b c) cx"
    "0 \<le> bm_get (cx_bm cx) u AVAILABLE (bu_asset req)" "bm_ok (c_balance_manager c)"
    "c_balance_manager c' = cx_bm cx" "c_update_controller c' = cx_cache cx" "c_markets c' = c_markets c"
  using run
proof (cases rule: update_balanceE)
  case (applied prec x price detail cx r c1)
  let ?p = "update_of req u price detail (round_dp E x prec)"
  from applied(7) have r: "r = Inr ()" by (cases r) auto
  have amt: "amount_ok (cx_bm (lend b c)) (up_asset ?p) (up_change ?p)"
    using shows_ok_amount [OF E _ applied(1)] inv by (simp add: ctrl_inv_def update_of_def)
  have ok: "bm_ok (cx_bm (lend b c))" using ctrl_exch [OF inv, of b] by (simp add: exch_inv_def ctx_ok_def)
  have bk: "booked ?p (lend b c) cx"
    using update_user_balance_cases [OF E ok amt applied(4)] r by auto
  have "ctrl_inv c'" by (rule update_balance_ok [OF inv E run])
  then have nn: "0 \<le> bm_get (c_balance_manager c') u AVAILABLE (bu_asset req)"
    by (simp add: ctrl_inv_def exch_inv_def ctx_ok_def avail_ok_def)
  note sel = give_back_sel [OF applied(5)]
  have "same_engine c1 c'" using applied(7) r by (auto simp: same_engine_def append_operation_log_def Let_def next_operation_log_id_def)
  then have "c_balance_manager c' = cx_bm cx" "c_update_controller c' = cx_cache cx" "c_markets c' = c_markets c"
    by (simp_all add: same_engine_def sel)
  with that [OF applied(2,1) bk] nn ok show thesis by simp
qed simp

text \<open>
  C18: An accepted deposit or withdrawal changes one number: the available balance of this user in this
  asset, by the requested amount rounded to the asset's display precision. The result is not
  negative, the supply of the asset changes by the same amount and no market is touched.
\<close>

theorem update_balance_effect:
  assumes "env_laws E" and "ctrl_inv c" and "update_balance E S Q b req u c = Some (c', Inr ())"
  shows "\<exists>x prec. dec_from_str E (bu_delta req) = Some x \<and>
    asset_prec_show (bm_asset_manager (c_balance_manager c)) (bu_asset req) = Some prec \<and>
    (\<forall>v t a. bm_get (c_balance_manager c') v t a = bm_get (c_balance_manager c) v t a +
       (if v = u \<and> t = AVAILABLE \<and> a = bu_asset req then round_dp E x prec else 0)) \<and>
    0 \<le> bm_get (c_balance_manager c') u AVAILABLE (bu_asset req) \<and>
    (\<forall>a. total_supply (c_balance_manager c') a = total_supply (c_balance_manager c) a +
       (if a = bu_asset req then round_dp E x prec else 0)) \<and>
    c_markets c' = c_markets c"
proof -
  obtain x prec price detail cx where
    "dec_from_str E (bu_delta req) = Some x"
    "asset_prec_show (bm_asset_manager (c_balance_manager c)) (bu_asset req) = Some prec" and
    bk: "booked (update_of req u price detail (round_dp E x prec)) (lend b c) cx" and
    "0 \<le> bm_get (cx_bm cx) u AVAILABLE (bu_asset req)" and ok: "bm_ok (c_balance_manager c)" and
    "c_balance_manager c' = cx_bm cx" "c_update_controller c' = cx_cache cx" "c_markets c' = c_markets c"
    by (rule update_balance_booked [OF assms])
  moreover have "cx_bm cx = book_change (update_of req u price detail (round_dp E x prec)) (c_balance_manager c)"
    using bk by (simp add: booked_def)
  ultimately show ?thesis
    by (auto simp: book_change_get book_change_supply [OF ok] update_of_def)
qed

fun succeeded :: "('c controller \<times> (rpc_status + 'r)) option \<Rightarrow> bool" where
  "succeeded (Some (c, Inr r)) = True"
| "succeeded r = False"

lemma succeededE:
  assumes "succeeded r" obtains c x where "r = Some (c, Inr x)"
  using assms by (cases r rule: succeeded.cases) auto

lemma demo_deposited: "update_balance ref_env demo_serde demo_codec True demo_deposit 1 demo_c0 = Some (demo_c1, Inr ())"
proof -
  have "succeeded (update_balance ref_env demo_serde demo_codec True demo_deposit 1 demo_c0)" by code_simp
  then show ?thesis by (elim succeededE) (simp add: demo_c1_def exec_operation_def)
qed

lemma demo_inv0: "ctrl_inv demo_c0"
  by (rule create_controller_inv [OF demo_settings_ok demo_c0])

lemma demo_inv1: "ctrl_inv demo_c1"
  by (rule update_balance_ok [OF demo_inv0 ref_env_laws demo_deposited])

theorem update_balance_effect_witness:
  "update_balance ref_env demo_serde demo_codec True demo_deposit 1 demo_c0 = Some (demo_c1, Inr ()) \<and>
   0 \<le> bm_get (c_balance_manager demo_c1) 1 AVAILABLE ''ETH'' \<and> c_markets demo_c1 = c_markets demo_c0"
  using update_balance_effect [OF ref_env_laws demo_inv0 demo_deposited] demo_deposited
  by (auto simp: demo_deposit_def)

text \<open>
  C19: A balance change is applied at most once: while the duplicate filter holds its key, repeating an
  accepted request, with the same user and business identifier, is refused and leaves balances,
  markets and identifiers as they are, whatever the background threads do in between.
\<close>

theorem update_balance_idempotent:
  assumes "env_laws E" and "ttl_retains E" and "ctrl_inv c"
    and "update_balance E S Q b req u c = Some (c1, Inr ())" and "same_engine c1 c2"
    and "update_balance E S Q b' req u c2 = Some (c3, res)"
  shows "res \<noteq> Inr () \<and> same_engine c2 c3"
proof -
  obtain x prec price detail cx where
    x: "dec_from_str E (bu_delta req) = Some x"
    "asset_prec_show (bm_asset_manager (c_balance_manager c)) (bu_asset req) = Some prec" and
    bk: "booked (update_of req u price detail (round_dp E x prec)) (lend b c) cx" and
    "0 \<le> bm_get (cx_bm cx) u AVAILABLE (bu_asset req)" and ok: "bm_ok (c_balance_manager c)" and
    c1: "c_balance_manager c1 = cx_bm cx" "c_update_controller c1 = cx_cache cx" "c_markets c1 = c_markets c"
    by (rule update_balance_booked [OF assms(1,3,4)])
  have am: "bm_asset_manager (c_balance_manager c2) = bm_asset_manager (c_balance_manager c)"
    using bk c1 assms(5) by (simp add: booked_def same_engine_def)
  let ?key = "cache_key_of (update_of req u price detail (round_dp E x prec))"
  have cache: "c_update_controller c2 = ?key # c_update_controller c"
    using bk c1 assms(5) by (simp add: booked_def same_engine_def)
  from assms(6) show ?thesis
  proof (cases rule: update_balanceE)
    case (applied prec' x' price' detail' cx' r c')
    have same: "prec' = prec" "x' = x" using applied(1,2) x am by simp_all
    have "cache_key_of (update_of req u price' detail' (round_dp E x prec)) = ?key"
      by (simp add: cache_key_of_def update_of_def)
    then have "ttl_contains E (c_clock c2) (c_update_controller c2) (cache_key_of (update_of req u price' detail' (round_dp E x prec)))"
      using assms(2) by (simp add: ttl_retains_def cache)
    then have cx': "cx' = (lend b' c2)\<lparr>cx_clock := Suc (c_clock c2)\<rparr>" and r: "r = Inl ''duplicate request''"
      using applied(4) by (simp_all add: update_user_balance_def Let_def same)
    from give_back_sel [OF applied(5)] cx' have "same_engine c2 c'" by (simp add: same_engine_def)
    with applied(7) r show ?thesis by simp
  qed (simp add: same_engine_def)
qed

lemma demo_again: "succeeded (map_option (\<lambda>(c, r). (c, case r of Inl e \<Rightarrow> Inr e | Inr _ \<Rightarrow> Inl (Unavailable [])))
    (update_balance ref_env demo_serde demo_codec True demo_deposit 1 demo_c1))" by code_simp

theorem update_balance_idempotent_witness:
  "\<exists>c3 res. update_balance ref_env demo_serde demo_codec True demo_deposit 1 demo_c1 = Some (c3, res) \<and>
     res \<noteq> Inr () \<and> same_engine demo_c1 c3"
proof -
  from demo_again obtain c3 res where again: "update_balance ref_env demo_serde demo_codec True demo_deposit 1 demo_c1 = Some (c3, res)"
    by (elim succeededE) auto
  have "same_engine demo_c1 demo_c1" by (simp add: same_engine_def)
  from update_balance_idempotent [OF ref_env_laws ref_env_ttl_retains demo_inv0 demo_deposited this again] again
  show ?thesis by blast
qed

section \<open>Cancellation\<close>

lemma same_engine_refl: "same_engine c c"
  by (simp add: same_engine_def)

lemma market_cancel_effect:
  assumes E: "env_laws E" and inv: "market_inv m cx" and x: "market_get m i = Some x"
    and run: "market_cancel E i m cx = Some (m', cx', y)"
  shows "\<forall>j. market_get m' j = (if j = i then None else market_get m j)"
    and "\<forall>u t a. bm_get (cx_bm cx') u t a = bm_get (cx_bm cx) u t a +
      (if u = o_user x \<and> a = asset_of m x then (if t = AVAILABLE then o_frozen x else - o_frozen x) else 0)"
proof -
  from x obtain r where r: "bt_get (m_orders m) i = Some r" and xr: "x = deep m r" by (auto simp: market_get_def)
  note live = market_inv_live [OF inv r] and fin = finish_live(1) [OF E inv r]
  from run fin r have mc: "(m', cx') = finish_state (deep m r) (m, cx)"
    by (cases "finish_state (deep m r) (m, cx)") (simp add: market_cancel_def Let_def)
  then show "\<forall>j. market_get m' j = (if j = i then None else market_get m j)"
    using live(2) by (simp add: finish_state_def market_get_remove)
  from mc show "\<forall>u t a. bm_get (cx_bm cx') u t a = bm_get (cx_bm cx) u t a +
      (if u = o_user x \<and> a = asset_of m x then (if t = AVAILABLE then o_frozen x else - o_frozen x) else 0)"
    using live(5) by (auto simp: finish_state_def released_get xr)
qed

text \<open>
  C20: Only its owner can cancel an order. A refused cancellation changes nothing. An accepted one was
  requested by the owner of the order; afterwards the order is gone and every other order of the
  market is still there, all other markets are untouched, and the owner's frozen amount of
  exactly this order is available again while nobody else's balance changes.
\<close>

theorem order_cancel_authorised:
  assumes "env_laws E" and "ctrl_inv c" and "order_cancel E S Q b req u c = Some (c', res)"
  shows "case res of
      Inl e \<Rightarrow> c' = c
    | Inr info \<Rightarrow> \<exists>m x m'. map_of (c_markets c) (oc_market req) = Some m \<and> market_get m (oc_order_id req) = Some x \<and>
        o_user x = u \<and> info = order_info_of E x \<and> c_markets c' = AList.update (oc_market req) m' (c_markets c) \<and>
        (\<forall>j. market_get m' j = (if j = oc_order_id req then None else market_get m j)) \<and>
        (\<forall>v t a. bm_get (c_balance_manager c') v t a = bm_get (c_balance_manager c) v t a +
           (if v = u \<and> a = asset_of m x then (if t = AVAILABLE then o_frozen x else - o_frozen x) else 0))"
proof (cases res)
  case (Inl e)
  with assms(3) show ?thesis
    by (auto simp: order_cancel_def Let_def split: option.splits if_splits Option.bind_splits)
next
  case (Inr info)
  with assms(3) obtain m x m' cx r c1 where
    get: "map_of (c_markets c) (oc_market req) = Some m" and x: "market_get m (oc_order_id req) = Some x" "o_user x = u" and
    run: "market_cancel E (o_id x) m (lend b c) = Some (m', cx, r)" and gb: "give_back E S b cx c = Some c1" and
    c': "c' = (if b then append_operation_log E Q OPERATION_ORDER_CANCEL (OpOrderCancel req) u (set_market (oc_market req) m' c1)
      else set_market (oc_market req) m' c1)" and info: "info = order_info_of E x"
    by (auto simp: order_cancel_def Let_def split: option.splits if_splits Option.bind_splits)
  have inv: "market_inv m (lend b c)" by (rule exch_market_inv [OF ctrl_exch [OF assms(2)] get])
  have id: "o_id x = oc_order_id req" by (rule market_get_id [OF inv x(1)])
  note eff = market_cancel_effect [OF assms(1) inv x(1) run [unfolded id]] and sel = give_back_sel [OF gb]
  have "same_engine (set_market (oc_market req) m' c1) c'" by (simp add: c' same_engine_refl)
  then have "c_markets c' = AList.update (oc_market req) m' (c_markets c)" "c_balance_manager c' = cx_bm cx"
    by (simp_all add: same_engine_def sel)
  with get x info eff Inr show ?thesis by auto
qed

lemma demo_cancelled: "succeeded (order_cancel ref_env demo_serde demo_codec True \<lparr>oc_market = ''ETH_USDT'', oc_order_id = 1\<rparr> 1 demo_c2)"
  by code_simp

theorem order_cancel_authorised_witness:
  "\<exists>c' info m m'. order_cancel ref_env demo_serde demo_codec True \<lparr>oc_market = ''ETH_USDT'', oc_order_id = 1\<rparr> 1 demo_c2 =
      Some (c', Inr info) \<and> map_of (c_markets demo_c2) ''ETH_USDT'' = Some m \<and> market_get m 1 \<noteq> None \<and>
      c_markets c' = AList.update ''ETH_USDT'' m' (c_markets demo_c2) \<and> market_get m' 1 = None"
proof -
  from demo_cancelled obtain c' info where
    run: "order_cancel ref_env demo_serde demo_codec True \<lparr>oc_market = ''ETH_USDT'', oc_order_id = 1\<rparr> 1 demo_c2 = Some (c', Inr info)"
    by (elim succeededE)
  from order_cancel_authorised [OF ref_env_laws demo_inv2 run] run show ?thesis by fastforce
qed

text \<open>
  Back pressure: while the log writer is full or the persistor is not available, every command is
  refused with the status unavailable and changes nothing.
\<close>

theorem unavailable_refuses:
  assumes "\<not> check_service_available c"
  shows "update_balance E S Q b req u c = Some (c, Inl (Unavailable [])) \<and>
    order_put E S Q b put u c = Some (c, Inl (Unavailable [])) \<and>
    batch_order_put E S Q b batch u c = Some (c, Inl (Unavailable [])) \<and>
    order_cancel E S Q b cancel u c = Some (c, Inl (Unavailable [])) \<and>
    order_cancel_all E S Q b n u c = Some (c, Inl (Unavailable []))"
  using assms
  by (simp add: update_balance_def order_put_def batch_order_put_def order_cancel_def order_cancel_all_def)

definition demo_full :: "unit controller" where
  "demo_full = demo_c2\<lparr>c_persistor := MessengerBasedPersistor \<lparr>rd_sender = replicate 3 (ORDERS_TOPIC, []), rd_capacity = 1002, rd_connected = True\<rparr>\<rparr>"

lemma demo_full: "\<not> check_service_available demo_full" by code_simp

theorem unavailable_refuses_witness:
  "\<not> check_service_available demo_full \<and>
   order_cancel_all ref_env demo_serde demo_codec True ''ETH_USDT'' 1 demo_full = Some (demo_full, Inl (Unavailable []))"
  using unavailable_refuses [OF demo_full] demo_full by blast

section \<open>Batches\<close>

text \<open>Orders submitted one after the other, all accepted, with the identifiers they got.\<close>

inductive puts :: "env \<Rightarrow> serde \<Rightarrow> bool \<Rightarrow> uuid \<Rightarrow> 'c controller \<Rightarrow> order_put_request list \<Rightarrow> u64 list \<Rightarrow> 'c controller \<Rightarrow> bool"
  for E S b u where
  puts_nil: "puts E S b u c [] [] c"
| puts_cons: "ctrl_put_order E S b req u c = Some (c1, Inr o') \<Longrightarrow> puts E S b u c1 os js c' \<Longrightarrow>
    puts E S b u c (req # os) (o_id o' # js) c'"

lemma batch_put_prefix:
  "batch_put E S b n u os ids c = Some (c', Inr resp) \<Longrightarrow>
   \<exists>k new c1. br_order_ids resp = ids @ new \<and> k \<le> length os \<and> puts E S b u c (take k os) new c1 \<and>
     (if br_result_code resp = Success then k = length os \<and> c' = c1 \<and> br_error_message resp = []
      else k < length os \<and> (\<exists>e. ctrl_put_order E S b (os ! k) u c1 = Some (c', Inl e) \<and>
             br_error_message resp = status_text e))"
proof (induction os arbitrary: ids c)
  case Nil
  then show ?case by (auto intro: puts_nil)
next
  case (Cons req os)
  from Cons.prems obtain c1 r where put: "ctrl_put_order E S b req u c = Some (c1, r)" and n: "n = r_market req" and
    rest: "(case r of Inr o' \<Rightarrow> batch_put E S b n u os (ids @ [o_id o']) c1
      | Inl e \<Rightarrow> Some (c1, Inr \<lparr>br_result_code = InternalError, br_error_message = status_text e,
          br_order_ids = ids\<rparr>)) = Some (c', Inr resp)"
    by (auto split: if_splits Option.bind_splits)
  show ?case
  proof (cases r)
    case (Inl e)
    with rest put show ?thesis
      by (intro exI [of _ 0] exI [of _ "[]"] exI [of _ c]) (auto intro: puts_nil)
  next
    case (Inr o')
    with rest Cons.IH [of "ids @ [o_id o']" c1] obtain k new c2 where
      h: "br_order_ids resp = (ids @ [o_id o']) @ new" "k \<le> length os" "puts E S b u c1 (take k os) new c2"
      "if br_result_code resp = Success then k = length os \<and> c' = c2 \<and> br_error_message resp = []
       else k < length os \<and> (\<exists>e. ctrl_put_order E S b (os ! k) u c2 = Some (c', Inl e) \<and>
             br_error_message resp = status_text e)" by auto
    with put Inr show ?thesis
      by (intro exI [of _ "Suc k"] exI [of _ "o_id o' # new"] exI [of _ c2])
        (auto intro: puts_cons split: if_splits)
  qed
qed

lemma put_order_id:
  assumes "env_laws E" and "market_inv m cx" and "input_ok i" and "room m cx"
    and "put_order E i u m cx = Some (m', cx', Inr x')"
  shows "o_id x' = sq_order_id (cx_sequencer cx) + 1"
proof -
  from put_order_accepted [OF assms] obtain ql fills ms where con: "conclude ms = (m', cx', x')" and
    run: "run E ql (counter_orders m (i_side i)) (start (accepted_order E i u m cx) m (accepted_ctx cx)) fills ms" by blast
  have "same_const (accepted_order E i u m cx) x'"
    using run_frame [OF run] conclude_frame(7) [OF con] by (auto intro: same_const_trans)
  then show ?thesis by (simp add: same_const_def)
qed

lemma ctrl_room_mono:
  assumes "ctrl_room k n c" and "j \<le> k" shows "ctrl_room j n c"
proof -
  have "room_for j m cx" if "room_for k m cx" for m cx
  proof -
    have "j * (length (m_orders m) + j) \<le> k * (length (m_orders m) + k)" using assms(2) by (intro mult_mono) simp_all
    with that assms(2) show ?thesis unfolding room_for_def by linarith
  qed
  with assms(1) show ?thesis by (simp add: ctrl_room_def split: option.splits)
qed

lemma puts_ids:
  assumes "puts E S b u c os js c'"
  shows "env_laws E \<Longrightarrow> ctrl_inv c \<Longrightarrow> list_all (\<lambda>req. put_req_ok E req \<and> r_market req = n) os \<Longrightarrow>
    ctrl_room (length os) n c \<Longrightarrow>
    js = map (\<lambda>i. sq_order_id (c_sequencer c) + 1 + of_nat i) [0..<length os]"
  using assms
proof (induction rule: puts.induct)
  case (puts_cons req c c1 o' os js c')
  note E = puts_cons.prems(1) and inv = puts_cons.prems(2)
  have req: "put_req_ok E req" "r_market req = n" and room: "ctrl_room (Suc (length os)) (r_market req) c"
    using puts_cons.prems(3,4) by simp_all
  from puts_cons.hyps(1) obtain m i m' cx where
    get: "map_of (c_markets c) (r_market req) = Some m" and i: "order_input_try_from E req = Inr i" and
    run: "put_order E i u m (lend b c) = Some (m', cx, Inr o')" and
    c1: "c_sequencer c1 = cx_sequencer cx"
    by (auto simp: ctrl_put_order_def give_back_def split: option.splits if_splits sum.splits Option.bind_splits)
  have rf: "room_for (Suc (length os)) m (lend b c)" using room get by (simp add: ctrl_room_def room_lend(1) [of _ _ b])
  have ok: "input_ok i" using req i by (simp add: put_req_ok_def)
  have mi: "market_inv m (lend b c)" by (rule exch_market_inv [OF ctrl_exch [OF inv] get])
  note h = E mi ok room_for_room [OF rf] run
  have "o_id o' = sq_order_id (c_sequencer c) + 1" using put_order_id [OF h] by simp
  moreover have "sq_order_id (c_sequencer c1) = sq_order_id (c_sequencer c) + 1" using put_order_result(5) [OF h] c1 by simp
  moreover have "js = map (\<lambda>i. sq_order_id (c_sequencer c1) + 1 + of_nat i) [0..<length os]"
    using puts_cons.IH [OF E] ctrl_put_order_ok [OF inv E req(1) room puts_cons.hyps(1)] puts_cons.prems(3) req(2) by simp
  ultimately show ?case by (simp add: upt_conv_Cons map_Suc_upt [symmetric] algebra_simps del: upt_Suc)
qed simp

text \<open>
  C21: A batch is a sequence of single submissions. A response to a batch names exactly the orders of
  the longest accepted prefix: the state is the one that submitting this prefix order by order
  leads to (followed, when the batch was cut short, by the refused submission, whose message is
  reported); the identifiers are consecutive, starting after the last one given out.
\<close>

theorem batch_is_sequence:
  assumes "env_laws E" and "ctrl_inv c" and "list_all (\<lambda>req. put_req_ok E req \<and> r_market req = n) os"
    and "ctrl_room (length os) n c" and "batch_put E S b n u os [] c = Some (c', Inr resp)"
  shows "\<exists>k c1. k \<le> length os \<and> puts E S b u c (take k os) (br_order_ids resp) c1 \<and>
    br_order_ids resp = map (\<lambda>i. sq_order_id (c_sequencer c) + 1 + of_nat i) [0..<k] \<and>
    (if br_result_code resp = Success then k = length os \<and> c' = c1 \<and> br_error_message resp = []
     else k < length os \<and> (\<exists>e. ctrl_put_order E S b (os ! k) u c1 = Some (c', Inl e) \<and>
            br_error_message resp = status_text e))"
proof -
  from batch_put_prefix [OF assms(5)] obtain k c1 where k: "k \<le> length os" and
    p: "puts E S b u c (take k os) (br_order_ids resp) c1" and
    rest: "if br_result_code resp = Success then k = length os \<and> c' = c1 \<and> br_error_message resp = []
      else k < length os \<and> (\<exists>e. ctrl_put_order E S b (os ! k) u c1 = Some (c', Inl e) \<and>
            br_error_message resp = status_text e)" by auto
  have "list_all (\<lambda>req. put_req_ok E req \<and> r_market req = n) (take k os)"
    using assms(3) by (auto simp: list_all_iff dest: in_set_takeD)
  moreover have "ctrl_room (length (take k os)) n c"
    by (rule ctrl_room_mono [OF assms(4)]) simp
  ultimately have "br_order_ids resp = map (\<lambda>i. sq_order_id (c_sequencer c) + 1 + of_nat i) [0..<length (take k os)]"
    by (rule puts_ids [OF p assms(1,2)])
  with k p rest show ?thesis by (intro exI [of _ k] exI [of _ c1]) (simp add: min_absorb2)
qed

definition demo_orders :: "order_put_request list" where
  "demo_orders = [demo_put, demo_put\<lparr>r_amount := ''20''\<rparr>]"

lemma demo_batch: "succeeded (batch_put ref_env demo_serde True ''ETH_USDT'' 1 demo_orders [] demo_c1)" by code_simp

lemma demo_orders_ok: "list_all (\<lambda>req. put_req_ok ref_env req \<and> r_market req = ''ETH_USDT'') demo_orders" by code_simp

lemma demo_orders_room: "ctrl_room (length demo_orders) ''ETH_USDT'' demo_c1" by code_simp

lemma demo_batch_ids: "map_option (\<lambda>(c, r). case r of Inr resp \<Rightarrow> br_order_ids resp | Inl _ \<Rightarrow> [])
    (batch_put ref_env demo_serde True ''ETH_USDT'' 1 demo_orders [] demo_c1) = Some [1]"
  by code_simp

theorem batch_is_sequence_witness:
  "\<exists>c' resp k c1. batch_put ref_env demo_serde True ''ETH_USDT'' 1 demo_orders [] demo_c1 = Some (c', Inr resp) \<and>
      br_order_ids resp = [1] \<and> puts ref_env demo_serde True 1 demo_c1 (take k demo_orders) [1] c1"
proof -
  from demo_batch obtain c' resp where
    run: "batch_put ref_env demo_serde True ''ETH_USDT'' 1 demo_orders [] demo_c1 = Some (c', Inr resp)"
    by (auto elim: succeededE)
  with demo_batch_ids have "br_order_ids resp = [1]" by simp
  with batch_is_sequence [OF ref_env_laws demo_inv1 demo_orders_ok demo_orders_room run] run show ?thesis by metis
qed

section \<open>Order listing\<close>

text \<open>What the merging iterator promises: descending inputs are merged into one descending sequence.\<close>

definition merge_law :: "rpc_codec \<Rightarrow> bool" where
  "merge_law Q \<longleftrightarrow> (\<forall>xss. (\<forall>xs \<in> set xss. sorted_wrt (\<lambda>x y. o_id y \<le> o_id x) xs) \<longrightarrow>
     sorted_wrt (\<lambda>x y. o_id y \<le> o_id x) (merge_desc Q xss) \<and> mset (merge_desc Q xss) = mset (concat xss))"

lemma get_order_of_user_map: "get_order_of_user m u = map (\<lambda>(_, r). deep m r) (user_map m u)"
  by (auto simp: get_order_of_user_def user_map_def split: option.split)

lemma user_orders_sorted:
  assumes bs: "book_struct m"
  shows "sorted_wrt (\<lambda>x y. o_id y \<le> o_id x) (rev (get_order_of_user m u))"
    and "length (get_order_of_user m u) = get_order_num_of_user m u"
proof -
  have id: "o_id (deep m r) = i" if "(i, r) \<in> set (user_map m u)" for i r
    using that user_map_set(2) [OF bs] book_structD(7) [OF bs] by blast
  have "sorted_wrt (<) (map fst (user_map m u))" using user_map_set(1) [OF bs, of u] by (simp add: bt_inv_def)
  then have "sorted_wrt (\<lambda>a b. fst a < fst b) (user_map m u)" by (simp add: sorted_wrt_map)
  then have "sorted_wrt (\<lambda>a b. o_id (deep m (snd a)) \<le> o_id (deep m (snd b))) (user_map m u)"
    by (rule sorted_wrt_mono_rel [rotated]) (auto simp: id)
  then show "sorted_wrt (\<lambda>x y. o_id y \<le> o_id x) (rev (get_order_of_user m u))"
    by (simp add: get_order_of_user_map sorted_wrt_rev sorted_wrt_map case_prod_beta)
  show "length (get_order_of_user m u) = get_order_num_of_user m u"
    by (simp add: get_order_of_user_map get_order_num_of_user_def user_map_def split: option.split)
qed

definition chosen_markets :: "string \<Rightarrow> 'c controller \<Rightarrow> market list" where
  "chosen_markets market c = map snd (filter (\<lambda>(key, _). market = ''all'' \<or> market = key) (c_markets c))"

text \<open>
  C22: Listing orders is paging through one sequence: for every user and every market name that exists
  (or \<^verbatim>\<open>all\<close>) there is a sequence of exactly the user's resting orders in these markets, newest
  first, and every query returns the piece of it that starts at its offset, of at most the
  effective limit, which is between 1 and 100, together with the sequence's length as the total.
\<close>

theorem order_query_pages:
  assumes "merge_law Q" and "ctrl_inv c" and "market = ''all'' \<or> map_of (c_markets c) market \<noteq> None"
  shows "\<exists>all. sorted_wrt (\<lambda>x y. o_id y \<le> o_id x) all \<and>
    mset all = mset (concat (map (\<lambda>m. get_order_of_user m u) (chosen_markets market c))) \<and>
    (\<forall>offset lim. 1 \<le> sint (query_limit lim) \<and> sint (query_limit lim) \<le> 100 \<and>
       order_query E Q \<lparr>oq_market = market, oq_offset = offset, oq_limit = lim\<rparr> u c =
         Inr \<lparr>or_offset = offset, or_limit = query_limit lim, or_total = of_nat (length all),
              or_orders = map (order_info_of E)
                (take (i32_as_usize (query_limit lim)) (drop (i32_as_usize offset) all))\<rparr>)"
proof -
  let ?ms = "chosen_markets market c" and ?all = "merge_desc Q (map (\<lambda>m. rev (get_order_of_user m u)) (chosen_markets market c))"
  have bs: "book_struct m" if "m \<in> set ?ms" for m
    using that assms(2) by (auto simp: chosen_markets_def ctrl_inv_def exch_inv_def book_ok_def)
  have law: "sorted_wrt (\<lambda>x y. o_id y \<le> o_id x) ?all" "mset ?all = mset (concat (map (\<lambda>m. rev (get_order_of_user m u)) ?ms))"
    using assms(1) user_orders_sorted(1) [OF bs] unfolding merge_law_def by (auto simp: image_iff)
  have perm: "mset ?all = mset (concat (map (\<lambda>m. get_order_of_user m u) ?ms))"
    unfolding law(2) by (induction ?ms) (simp_all add: mset_concat comp_def)
  have "length ?all = length (concat (map (\<lambda>m. get_order_of_user m u) ?ms))" by (rule mset_eq_length [OF perm])
  also have "\<dots> = sum_list (map (\<lambda>m. get_order_num_of_user m u) ?ms)"
    unfolding length_concat map_map comp_def using user_orders_sorted(2) [OF bs] by (metis (mono_tags, lifting) map_eq_conv)
  finally have len: "sum_list (map (\<lambda>m. get_order_num_of_user m u) ?ms) = length ?all" by simp
  have lim: "1 \<le> sint (query_limit l) \<and> sint (query_limit l) \<le> 100" for l by (simp add: query_limit_def Let_def)
  from assms(3) have "order_query E Q \<lparr>oq_market = market, oq_offset = offset, oq_limit = l\<rparr> u c =
     Inr \<lparr>or_offset = offset, or_limit = query_limit l, or_total = of_nat (sum_list (map (\<lambda>m. get_order_num_of_user m u) ?ms)),
          or_orders = map (order_info_of E) (take (i32_as_usize (query_limit l)) (drop (i32_as_usize offset) ?all))\<rparr>" for offset l
    by (auto simp: order_query_def Let_def chosen_markets_def)
  with law(1) perm lim show ?thesis unfolding len by blast
qed

lemma sorted_wrt_rev_sort_key: "sorted_wrt (\<lambda>x y. f y \<le> f x) (rev (sort_key f xs))" for f :: "'a \<Rightarrow> 'b::linorder"
  using sorted_sort_key [of f xs] by (simp add: sorted_wrt_rev sorted_map)

lemma demo_merge_law: "merge_law demo_codec"
  by (auto simp: merge_law_def demo_codec_def sorted_wrt_rev_sort_key)

lemma demo_listing: "get_order_num_of_user (snd (hd (c_markets demo_c2))) 1 = 1" by code_simp

theorem order_query_pages_witness:
  "merge_law demo_codec \<and> ctrl_inv demo_c2 \<and>
   (\<exists>resp. order_query ref_env demo_codec \<lparr>oq_market = ''all'', oq_offset = 0, oq_limit = 500\<rparr> 1 demo_c2 = Inr resp \<and>
      sint (or_limit resp) \<le> 100)"
  using order_query_pages [OF demo_merge_law demo_inv2, of "''all''" 1 ref_env] demo_merge_law demo_inv2 by fastforce

end
