(* ===== verification/Server.thy ===== *)
theory Server
  imports ControllerProps
begin

text \<open>
  \<^verbatim>\<open>src/matchengine/authentication.rs\<close> and \<^verbatim>\<open>src/matchengine/server.rs\<close>: the check of a bearer token, the handlers
  of the remote calls with their access rules, and the scheduler that runs the writing operations one after
  the other on the controller.

  The JWT library and the RSA keys are parameters (record \<open>J\<close>): decoding checks the signature
  and the expiry. A panic of the interceptor, of a handler or of a task of the scheduler is a step too: the first two lose the
  call, the last one ends the scheduler with everything that waits. The reading and the debugging calls are in \<open>ServerReads\<close>.
\<close>

section \<open>Tokens\<close>

record claims =
  cl_exp :: u64
  cl_iat :: u64
  cl_sub :: uuid
  cl_realm_access :: "string list option"

record user_extension =
  ux_user_id :: uuid
  ux_is_admin :: bool
  ux_is_deposit_admin :: bool
  ux_is_withdrawal_admin :: bool

record 'k jwt_lib =
  from_rsa_pem :: "string \<Rightarrow> 'k option"
  jwt_decode :: "string \<Rightarrow> 'k \<Rightarrow> string + claims"

definition MARKET_RELOAD_ENDPOINT :: string where
  "MARKET_RELOAD_ENDPOINT = ''/api/exchange/panel/manage/market/reload''"

definition ONE_HOUR_IN_SECS :: u64 where "ONE_HOUR_IN_SECS = 60 * 60"

definition validate_issue_date :: "u64 \<Rightarrow> claims \<Rightarrow> bool" where
  "validate_issue_date now cl = (if cl_iat cl < now - ONE_HOUR_IN_SECS then False else True)"

definition validate_expiry_date :: "u64 \<Rightarrow> claims \<Rightarrow> bool" where
  "validate_expiry_date now cl = (if cl_exp cl > now + ONE_HOUR_IN_SECS then False else True)"

text \<open>The clock is read once for either date.\<close>

definition ensure_timely_boundaries :: "u64 \<times> u64 \<Rightarrow> claims \<Rightarrow> bool" where
  "ensure_timely_boundaries now cl \<longleftrightarrow> validate_issue_date (fst now) cl \<and> validate_expiry_date (snd now) cl"

definition has_role :: "claims \<Rightarrow> string \<Rightarrow> bool" where
  "has_role cl kc_role = (case cl_realm_access cl of Some roles \<Rightarrow> list_ex (\<lambda>role. role = kc_role) roles | None \<Rightarrow> False)"

definition validate_jwt :: "'k jwt_lib \<Rightarrow> settings \<Rightarrow> u64 \<times> u64 \<Rightarrow> string \<Rightarrow> (string + claims) option" where
  "validate_jwt J gs now jwt = do {
     key \<leftarrow> from_rsa_pem J (st_keycloak_pubkey gs);
     case jwt_decode J jwt key of
       Inl err \<Rightarrow> Some (Inl err)
     | Inr token \<Rightarrow>
         if \<not> ensure_timely_boundaries now token then Some (Inl ''Token does not fulfill timely boundaries.'')
         else Some (Inr token)
   }"

definition get_user_extension :: "settings \<Rightarrow> claims \<Rightarrow> user_extension" where
  "get_user_extension gs token =
     \<lparr>ux_user_id = cl_sub token, ux_is_admin = has_role token (st_keycloak_admin_role gs),
      ux_is_deposit_admin = has_role token (st_keycloak_deposit_admin_role gs),
      ux_is_withdrawal_admin = has_role token (st_keycloak_withdrawal_admin_role gs)\<rparr>"

text \<open>\<^verbatim>\<open>str::replace(pat, "")\<close>: the occurrences from left to right, not overlapping.\<close>

function str_remove :: "string \<Rightarrow> string \<Rightarrow> string" where
  "str_remove pat s =
     (if pat \<noteq> [] \<and> take (length pat) s = pat then str_remove pat (drop (length pat) s)
      else case s of [] \<Rightarrow> [] | c # s' \<Rightarrow> c # str_remove pat s')"
  by pat_completeness auto
termination
proof (relation "measure (\<lambda>(pat, s). length s)")
  fix pat s :: string
  assume a: "pat \<noteq> [] \<and> take (length pat) s = pat"
  then have "s \<noteq> []" by force
  with a show "((pat, drop (length pat) s), pat, s) \<in> measure (\<lambda>(pat, s). length s)" by simp
qed simp_all

declare str_remove.simps [simp del]

text \<open>
  The request's \<^verbatim>\<open>authorization\<close> entry, when there is one, is text or fails to be (\<^verbatim>\<open>to_str\<close>). The result
  is the extension added to the request, or an error.
\<close>

definition grpc_interceptor ::
  "'k jwt_lib \<Rightarrow> settings \<Rightarrow> u64 \<times> u64 \<Rightarrow> (string + string) option \<Rightarrow> (rpc_status + user_extension option) option" where
  "grpc_interceptor J gs now authorization =
     (case authorization of
        None \<Rightarrow> Some (Inr None)
      | Some (Inl err) \<Rightarrow> Some (Inl (Unauthenticated err))
      | Some (Inr token) \<Rightarrow> do {
          r \<leftarrow> validate_jwt J gs now (str_remove ''Bearer '' token);
          case r of
            Inl err \<Rightarrow> Some (Inl (Unauthenticated err))
          | Inr claims \<Rightarrow> Some (Inr (Some (get_user_extension gs claims)))
        })"

text \<open>The REST side: the extension and, for the reload of markets, the token itself.\<close>

definition rest_auth ::
  "'k jwt_lib \<Rightarrow> settings \<Rightarrow> u64 \<times> u64 \<Rightarrow> string \<Rightarrow> string \<Rightarrow> (string + user_extension \<times> string option) option" where
  "rest_auth J gs now path jwt = do {
     r \<leftarrow> validate_jwt J gs now jwt;
     case r of
       Inl err \<Rightarrow> Some (Inl err)
     | Inr token \<Rightarrow> Some (Inr (get_user_extension gs token, if path = MARKET_RELOAD_ENDPOINT then Some jwt else None))
   }"

section \<open>Access rules\<close>

definition credentials_missing :: rpc_status where
  "credentials_missing = Unauthenticated ''Token not found''"

definition grpc_block_anonymous :: "user_extension option \<Rightarrow> rpc_status + unit" where
  "grpc_block_anonymous ext = (if ext = None then Inl credentials_missing else Inr ())"

definition grpc_block_non_admins :: "user_extension option \<Rightarrow> rpc_status + unit" where
  "grpc_block_non_admins ext =
     (case ext of
        Some x \<Rightarrow> if \<not> ux_is_admin x then Inl (PermissionDenied ''Requires admin role.'') else Inr ()
      | None \<Rightarrow> Inl credentials_missing)"

definition grpc_block_non_deposit_admins :: "user_extension option \<Rightarrow> rpc_status + unit" where
  "grpc_block_non_deposit_admins ext =
     (case ext of
        Some x \<Rightarrow> if \<not> ux_is_deposit_admin x then Inl (PermissionDenied ''Requires deposit-admin role.'') else Inr ()
      | None \<Rightarrow> Inl credentials_missing)"

definition grpc_block_non_withdrawal_admins :: "user_extension option \<Rightarrow> rpc_status + unit" where
  "grpc_block_non_withdrawal_admins ext =
     (case ext of
        Some x \<Rightarrow> if \<not> ux_is_withdrawal_admin x then Inl (PermissionDenied ''Requires withdrawal-admin role.'') else Inr ()
      | None \<Rightarrow> Inl credentials_missing)"

text \<open>\<^verbatim>\<open>unwrap\<close> panics without an extension.\<close>

definition get_user_id_from_request :: "user_extension option \<Rightarrow> uuid option" where
  "get_user_id_from_request ext = map_option ux_user_id ext"

section \<open>The writing calls, up to the dispatch\<close>

definition MAX_BATCH_ORDER_NUM :: nat where "MAX_BATCH_ORDER_NUM = 40"

record grpc_balance_update_request = balance_update_request +
  bu_user_id :: string

text \<open>
  What a handler hands to the scheduler: the user and the operation; or the error it answers with;
  \<^const>\<open>None\<close> is a panic of the handler. The sign of a zero is not represented: \<^verbatim>\<open>-0\<close> counts as positive.
\<close>

definition handle_balance_update ::
  "env \<Rightarrow> user_extension option \<Rightarrow> grpc_balance_update_request \<Rightarrow> (rpc_status + uuid \<times> operation) option" where
  "handle_balance_update E ext req =
     (case grpc_block_anonymous ext of
        Inl e \<Rightarrow> Some (Inl e)
      | Inr _ \<Rightarrow>
          (case dec_from_str E (bu_delta req) of
             None \<Rightarrow> Some (Inl (InvalidArgument ''invalid amount''))
           | Some amount \<Rightarrow>
               (case (if 0 \<le> amount then grpc_block_non_deposit_admins ext else grpc_block_non_withdrawal_admins ext) of
                  Inl e \<Rightarrow> Some (Inl e)
                | Inr _ \<Rightarrow>
                    (case uuid_parse E (bu_user_id req) of
                       None \<Rightarrow> Some (Inl (InvalidArgument ''User id is not a valid UUID''))
                     | Some user_id \<Rightarrow> Some (Inr (user_id, OpBalanceUpdate (balance_update_request.truncate req)))))))"

definition handle_order_put ::
  "env \<Rightarrow> 'c controller \<Rightarrow> user_extension option \<Rightarrow> order_put_request \<Rightarrow> (rpc_status + uuid \<times> operation) option" where
  "handle_order_put E stub ext req =
     (case grpc_block_anonymous ext of Inl e \<Rightarrow> Some (Inl e) | Inr _ \<Rightarrow> do {
        user_id \<leftarrow> get_user_id_from_request ext;
        case map_of (c_markets stub) (r_market req) of
          None \<Rightarrow> Some (Inl (InvalidArgument ''invalid market''))
        | Some market \<Rightarrow> do {
            r \<leftarrow> commit_order E (bm_asset_manager (c_balance_manager stub)) req (m_amount_prec market) (m_price_prec market);
            case r of
              Inl _ \<Rightarrow> Some (Inl (InvalidArgument ''invalid order params''))
            | Inr _ \<Rightarrow> Some (Inr (user_id, OpOrderPut req)) }
      })"

definition handle_batch_order_put ::
  "user_extension option \<Rightarrow> batch_order_put_request \<Rightarrow> (rpc_status + uuid \<times> operation) option" where
  "handle_batch_order_put ext req =
     (case grpc_block_anonymous ext of Inl e \<Rightarrow> Some (Inl e) | Inr _ \<Rightarrow> do {
        user_id \<leftarrow> get_user_id_from_request ext;
        if length (bo_orders req) > MAX_BATCH_ORDER_NUM
        then Some (Inl (InvalidArgument ''out of maximum support order number (40)''))
        else Some (Inr (user_id, OpBatchOrderPut req))
      })"

definition handle_order_cancel ::
  "user_extension option \<Rightarrow> order_cancel_request \<Rightarrow> (rpc_status + uuid \<times> operation) option" where
  "handle_order_cancel ext req =
     (case grpc_block_anonymous ext of Inl e \<Rightarrow> Some (Inl e) | Inr _ \<Rightarrow> do {
        user_id \<leftarrow> get_user_id_from_request ext;
        Some (Inr (user_id, OpOrderCancel req)) })"

definition handle_order_cancel_all ::
  "user_extension option \<Rightarrow> string \<Rightarrow> (rpc_status + uuid \<times> operation) option" where
  "handle_order_cancel_all ext market =
     (case grpc_block_anonymous ext of Inl e \<Rightarrow> Some (Inl e) | Inr _ \<Rightarrow> do {
        user_id \<leftarrow> get_user_id_from_request ext;
        Some (Inr (user_id, OpOrderCancelAll market)) })"

datatype writing_call =
    BalanceUpdateCall grpc_balance_update_request
  | OrderPutCall order_put_request
  | BatchOrderPutCall batch_order_put_request
  | OrderCancelCall order_cancel_request
  | OrderCancelAllCall string

definition handle :: "env \<Rightarrow> 'c controller \<Rightarrow> user_extension option \<Rightarrow> writing_call \<Rightarrow> (rpc_status + uuid \<times> operation) option" where
  "handle E stub ext rc =
     (case rc of
        BalanceUpdateCall req \<Rightarrow> handle_balance_update E ext req
      | OrderPutCall req \<Rightarrow> handle_order_put E stub ext req
      | BatchOrderPutCall req \<Rightarrow> handle_batch_order_put ext req
      | OrderCancelCall req \<Rightarrow> handle_order_cancel ext req
      | OrderCancelAllCall market \<Rightarrow> handle_order_cancel_all ext market)"

section \<open>The reading calls\<close>

definition handle_balance_query ::
  "env \<Rightarrow> user_extension option \<Rightarrow> string list \<Rightarrow> 'c controller \<Rightarrow> (rpc_status + asset_balance list) option" where
  "handle_balance_query E ext assets stub =
     (case grpc_block_anonymous ext of Inl e \<Rightarrow> Some (Inl e) | Inr _ \<Rightarrow> do {
        user_id \<leftarrow> get_user_id_from_request ext;
        balance_query E assets user_id stub })"

definition handle_order_query ::
  "env \<Rightarrow> rpc_codec \<Rightarrow> user_extension option \<Rightarrow> order_query_request \<Rightarrow> 'c controller \<Rightarrow> (rpc_status + order_query_response) option" where
  "handle_order_query E Q ext req stub =
     (case grpc_block_anonymous ext of Inl e \<Rightarrow> Some (Inl e) | Inr _ \<Rightarrow> do {
        user_id \<leftarrow> get_user_id_from_request ext;
        Some (order_query E Q req user_id stub) })"

definition handle_reload_markets ::
  "user_extension option \<Rightarrow> string + asset_cfg list \<Rightarrow> string + market_cfg list \<Rightarrow> 'c controller \<Rightarrow>
   ('c controller \<times> (rpc_status + unit)) option" where
  "handle_reload_markets ext assets markets stub =
     (case grpc_block_non_admins ext of
        Inl e \<Rightarrow> Some (stub, Inl e)
      | Inr _ \<Rightarrow> market_reload assets markets stub)"

section \<open>The scheduler\<close>

text \<open>
  A dispatched task is the closure of \<^verbatim>\<open>ControllerDispatch\<close>: the user and the operation it calls the controller with, and
  the sender of the reply (the number of the call). For the statements, \<open>tk_auth\<close> keeps the \<^verbatim>\<open>authorization\<close> entry the call came
  with and the two readings of the clock, and \<open>tk_call\<close> the call.
\<close>

record task =
  tk_id :: nat
  tk_user :: uuid
  tk_oper :: operation
  tk_auth :: "(string + string) option \<times> u64 \<times> u64"
  tk_call :: writing_call

datatype reply = UpdateReply | OrderReply order_info | BatchReply batch_order_put_response | CancelAllReply u32

definition dispatch_reply ::
  "('r \<Rightarrow> reply) \<Rightarrow> ('c controller \<times> (rpc_status + 'r)) option \<Rightarrow> ('c controller \<times> (rpc_status + reply)) option" where
  "dispatch_reply f r = map_option (\<lambda>(c, res). (c, map_sum id f res)) r"

definition run_task :: "env \<Rightarrow> serde \<Rightarrow> rpc_codec \<Rightarrow> task \<Rightarrow> 'c controller \<Rightarrow> ('c controller \<times> (rpc_status + reply)) option" where
  "run_task E S Q t c =
     (case tk_oper t of
        OpBalanceUpdate req \<Rightarrow> dispatch_reply (\<lambda>_. UpdateReply) (update_balance E S Q True req (tk_user t) c)
      | OpOrderPut req \<Rightarrow> dispatch_reply OrderReply (order_put E S Q True req (tk_user t) c)
      | OpBatchOrderPut req \<Rightarrow> dispatch_reply BatchReply (batch_order_put E S Q True req (tk_user t) c)
      | OpOrderCancel req \<Rightarrow> dispatch_reply OrderReply (order_cancel E S Q True req (tk_user t) c)
      | OpOrderCancelAll market \<Rightarrow> dispatch_reply CancelAllReply (order_cancel_all E S Q True market (tk_user t) c))"

definition DISPATCH_CHANNEL :: nat where "DISPATCH_CHANNEL = 16"

text \<open>
  The state of the server: the shared controller, the channel of tasks, whether the scheduler was
  told to close and whether it has exited. \<open>sv_calls\<close> numbers the writing calls, \<open>sv_replies\<close> lists what was
  answered, \<open>sv_aborted\<close> the calls whose handler panicked, and \<open>sv_dispatched\<close>, \<open>sv_ran\<close>, \<open>sv_lost\<close> the tasks sent, run, and dropped when
  the scheduler died. \<open>sv_damaged\<close> says that a panic interrupted a change of the controller, whose state is then unknown.
\<close>

record 'c server =
  sv_stub :: "'c controller"
  sv_channel :: "task list"
  sv_closed :: bool
  sv_exited :: bool
  sv_calls :: nat
  sv_replies :: "(nat \<times> (rpc_status + reply)) list"
  sv_aborted :: "nat list"
  sv_dispatched :: "task list"
  sv_ran :: "task list"
  sv_lost :: "task list"
  sv_damaged :: bool

definition server_new :: "'c controller \<Rightarrow> 'c server" where
  "server_new stub = \<lparr>sv_stub = stub, sv_channel = [], sv_closed = False, sv_exited = False, sv_calls = 0,
     sv_replies = [], sv_aborted = [], sv_dispatched = [], sv_ran = [], sv_lost = [], sv_damaged = False\<rparr>"

definition answer :: "nat \<Rightarrow> rpc_status + reply \<Rightarrow> 'c server \<Rightarrow> 'c server" where
  "answer n r s = s\<lparr>sv_replies := sv_replies s @ [(n, r)]\<rparr>"

definition dispatch :: "task \<Rightarrow> 'c server \<Rightarrow> 'c server" where
  "dispatch t s = s\<lparr>sv_channel := sv_channel s @ [t], sv_dispatched := sv_dispatched s @ [t]\<rparr>"

definition abort :: "nat \<Rightarrow> 'c server \<Rightarrow> 'c server" where
  "abort n s = s\<lparr>sv_aborted := sv_aborted s @ [n]\<rparr>"

text \<open>
  A panic in a task ends the scheduler's thread of execution: the receiver and the tasks in it are dropped, so the channel is closed
  and every waiting caller, whose reply can no longer be sent, gets the error of \<^verbatim>\<open>map_dispatch_ret\<close>.
\<close>

definition scheduler_dies :: "'c controller \<Rightarrow> 'c server \<Rightarrow> 'c server" where
  "scheduler_dies c s = s\<lparr>sv_stub := c, sv_damaged := True, sv_closed := True, sv_exited := True, sv_channel := [],
     sv_lost := sv_channel s,
     sv_replies := sv_replies s @ map (\<lambda>t. (tk_id t, Inl (UnknownErr ''Dispatch ret unreach''))) (sv_channel s)\<rparr>"

text \<open>
  One writing call arrives: its interceptor or handler panics, it is refused at once, refused because the channel is closed, or
  dispatched; it waits while the channel is full. The scheduler runs the next task, or dies of its panic; the server is told to
  close; the scheduler leaves its loops, which it does only when \<^verbatim>\<open>recv\<close> finds the closed channel empty; an administrator reloads the
  markets under the write lock, which may panic halfway; or the background threads move on. The periodic slice is
  made in a forked process and changes nothing here.
\<close>

inductive sv_step :: "'k jwt_lib \<Rightarrow> settings \<Rightarrow> env \<Rightarrow> serde \<Rightarrow> rpc_codec \<Rightarrow> 'c server \<Rightarrow> 'c server \<Rightarrow> bool" for J gs E S Q where
  interceptor_panics: "grpc_interceptor J gs now auth = None \<Longrightarrow>
    sv_step J gs E S Q s (abort (sv_calls s) (s\<lparr>sv_calls := Suc (sv_calls s)\<rparr>))"
| handler_panics: "grpc_interceptor J gs now auth = Some (Inr ext) \<Longrightarrow> handle E (sv_stub s) ext rc = None \<Longrightarrow>
    sv_step J gs E S Q s (abort (sv_calls s) (s\<lparr>sv_calls := Suc (sv_calls s)\<rparr>))"
| unauthenticated: "grpc_interceptor J gs now auth = Some (Inl e) \<Longrightarrow>
    sv_step J gs E S Q s (answer (sv_calls s) (Inl e) (s\<lparr>sv_calls := Suc (sv_calls s)\<rparr>))"
| refused: "grpc_interceptor J gs now auth = Some (Inr ext) \<Longrightarrow> handle E (sv_stub s) ext rc = Some (Inl e) \<Longrightarrow>
    sv_step J gs E S Q s (answer (sv_calls s) (Inl e) (s\<lparr>sv_calls := Suc (sv_calls s)\<rparr>))"
| channel_closed: "grpc_interceptor J gs now auth = Some (Inr ext) \<Longrightarrow> handle E (sv_stub s) ext rc = Some (Inr uo) \<Longrightarrow> sv_closed s \<Longrightarrow>
    sv_step J gs E S Q s (answer (sv_calls s) (Inl (UnknownErr ''Server temporary unavaliable'')) (s\<lparr>sv_calls := Suc (sv_calls s)\<rparr>))"
| dispatched: "grpc_interceptor J gs now auth = Some (Inr ext) \<Longrightarrow> handle E (sv_stub s) ext rc = Some (Inr (u, oper)) \<Longrightarrow>
    \<not> sv_closed s \<Longrightarrow> length (sv_channel s) < DISPATCH_CHANNEL \<Longrightarrow>
    t = \<lparr>tk_id = sv_calls s, tk_user = u, tk_oper = oper, tk_auth = (auth, now), tk_call = rc\<rparr> \<Longrightarrow>
    sv_step J gs E S Q s (dispatch t (s\<lparr>sv_calls := Suc (sv_calls s)\<rparr>))"
| runs: "sv_channel s = t # ts \<Longrightarrow> \<not> sv_exited s \<Longrightarrow> run_task E S Q t (sv_stub s) = Some (c, r) \<Longrightarrow>
    sv_step J gs E S Q s (answer (tk_id t) r (s\<lparr>sv_stub := c, sv_channel := ts, sv_ran := sv_ran s @ [t]\<rparr>))"
| task_panics: "sv_channel s = t # ts \<Longrightarrow> \<not> sv_exited s \<Longrightarrow> run_task E S Q t (sv_stub s) = None \<Longrightarrow>
    sv_step J gs E S Q s (scheduler_dies c s)"
| leaves: "sv_step J gs E S Q s (s\<lparr>sv_closed := True\<rparr>)"
| exits: "sv_closed s \<Longrightarrow> sv_channel s = [] \<Longrightarrow> sv_step J gs E S Q s (s\<lparr>sv_exited := True\<rparr>)"
| reloads: "grpc_interceptor J gs now auth = Some (Inr ext) \<Longrightarrow> handle_reload_markets ext as ms (sv_stub s) = Some (c, res) \<Longrightarrow>
    sv_step J gs E S Q s (s\<lparr>sv_stub := c\<rparr>)"
| reload_panics: "grpc_interceptor J gs now auth = Some (Inr ext) \<Longrightarrow> handle_reload_markets ext as ms (sv_stub s) = None \<Longrightarrow>
    sv_step J gs E S Q s (s\<lparr>sv_stub := c, sv_damaged := True\<rparr>)"
| background: "sv_step J gs E S Q s (s\<lparr>sv_stub := (sv_stub s)\<lparr>c_log_handler := h, c_persistor := p\<rparr>\<rparr>)"

inductive_cases sv_stepE: "sv_step J gs E S Q s s'"

section \<open>Who may do what\<close>

text \<open>
  A token that entitles to an operation: it decodes under the exchange's key, is within the
  time limits, and names the user of an order operation or carries the role that the sign of a
  balance update needs.
\<close>

definition entitled :: "'k jwt_lib \<Rightarrow> settings \<Rightarrow> env \<Rightarrow> task \<Rightarrow> bool" where
  "entitled J gs E t \<longleftrightarrow> (\<exists>token key cl now. tk_auth t = (Some (Inr token), now) \<and>
     from_rsa_pem J (st_keycloak_pubkey gs) = Some key \<and>
     jwt_decode J (str_remove ''Bearer '' token) key = Inr cl \<and> ensure_timely_boundaries now cl \<and>
     (case tk_oper t of
        OpBalanceUpdate req \<Rightarrow> (\<exists>x. dec_from_str E (bu_delta req) = Some x \<and>
          has_role cl (if 0 \<le> x then st_keycloak_deposit_admin_role gs else st_keycloak_withdrawal_admin_role gs))
      | OpBatchOrderPut req \<Rightarrow> tk_user t = cl_sub cl \<and> length (bo_orders req) \<le> 40
      | _ \<Rightarrow> tk_user t = cl_sub cl))"

lemma interceptor_extension:
  assumes "grpc_interceptor J gs now auth = Some (Inr (Some x))"
  obtains token key cl where "auth = Some (Inr token)" and "from_rsa_pem J (st_keycloak_pubkey gs) = Some key"
    and "jwt_decode J (str_remove ''Bearer '' token) key = Inr cl" and "ensure_timely_boundaries now cl"
    and "x = get_user_extension gs cl"
  using assms
  by (auto simp: grpc_interceptor_def validate_jwt_def split: option.splits sum.splits Option.bind_splits if_splits)

lemma handle_extension: "handle E c ext rc = Some (Inr uo) \<Longrightarrow> \<exists>x. ext = Some x"
  by (cases ext) (auto simp: handle_def handle_balance_update_def handle_order_put_def handle_batch_order_put_def
      handle_order_cancel_def handle_order_cancel_all_def grpc_block_anonymous_def split: writing_call.splits)

lemma handle_user:
  assumes "handle E c (Some x) rc = Some (Inr (u, oper))"
  shows "case oper of
      OpBalanceUpdate req \<Rightarrow> \<exists>d. dec_from_str E (bu_delta req) = Some d \<and> (if 0 \<le> d then ux_is_deposit_admin x else ux_is_withdrawal_admin x)
    | OpBatchOrderPut req \<Rightarrow> u = ux_user_id x \<and> length (bo_orders req) \<le> 40
    | _ \<Rightarrow> u = ux_user_id x"
proof (cases rc)
  case (BalanceUpdateCall req)
  with assms show ?thesis
    by (auto simp: handle_def handle_balance_update_def grpc_block_anonymous_def grpc_block_non_deposit_admins_def
        grpc_block_non_withdrawal_admins_def balance_update_request.truncate_def split: option.splits if_splits sum.splits)
next
  case (OrderPutCall req)
  with assms show ?thesis
    by (auto simp: handle_def handle_order_put_def grpc_block_anonymous_def get_user_id_from_request_def
        split: option.splits if_splits sum.splits Option.bind_splits)
qed (use assms in \<open>auto simp: handle_def handle_batch_order_put_def handle_order_cancel_def handle_order_cancel_all_def
    grpc_block_anonymous_def get_user_id_from_request_def MAX_BATCH_ORDER_NUM_def split: if_splits\<close>)

lemma dispatched_entitled:
  assumes i: "grpc_interceptor J gs now auth = Some (Inr ext)" and h: "handle E c ext rc = Some (Inr (u, oper))"
  shows "entitled J gs E \<lparr>tk_id = n, tk_user = u, tk_oper = oper, tk_auth = (auth, now), tk_call = rc\<rparr>"
proof -
  from handle_extension [OF h] obtain x where x: "ext = Some x" by blast
  from interceptor_extension [OF i [unfolded x]] obtain token key cl where
    t: "auth = Some (Inr token)" "from_rsa_pem J (st_keycloak_pubkey gs) = Some key"
      "jwt_decode J (str_remove ''Bearer '' token) key = Inr cl" "ensure_timely_boundaries now cl" "x = get_user_extension gs cl" .
  from handle_user [OF h [unfolded x]] t show ?thesis
    by (cases oper) (auto simp: entitled_def get_user_extension_def split: if_splits)
qed

section \<open>The invariant of the server\<close>

definition sv_inv :: "'k jwt_lib \<Rightarrow> settings \<Rightarrow> env \<Rightarrow> 'c server \<Rightarrow> bool" where
  "sv_inv J gs E s \<longleftrightarrow> sv_dispatched s = sv_ran s @ sv_lost s @ sv_channel s \<and> list_all (entitled J gs E) (sv_dispatched s) \<and>
     length (sv_channel s) \<le> DISPATCH_CHANNEL \<and> (sv_exited s \<longrightarrow> sv_closed s \<and> sv_channel s = []) \<and>
     (sv_lost s \<noteq> [] \<longrightarrow> sv_exited s) \<and>
     (\<forall>t \<in> set (sv_lost s). (tk_id t, Inl (UnknownErr ''Dispatch ret unreach'')) \<in> set (sv_replies s)) \<and>
     distinct (map fst (sv_replies s) @ sv_aborted s @ map tk_id (sv_channel s)) \<and>
     fst ` set (sv_replies s) \<union> set (sv_aborted s) \<union> tk_id ` set (sv_channel s) = {..<sv_calls s}"

lemma sv_inv_new: "sv_inv J gs E (server_new c)"
  by (simp add: sv_inv_def server_new_def lessThan_def)

lemma sv_inv_answer_call:
  "sv_inv J gs E s \<Longrightarrow> sv_inv J gs E (answer (sv_calls s) r (s\<lparr>sv_calls := Suc (sv_calls s)\<rparr>))"
  by (auto simp: sv_inv_def answer_def lessThan_Suc)

lemma sv_inv_abort_call:
  "sv_inv J gs E s \<Longrightarrow> sv_inv J gs E (abort (sv_calls s) (s\<lparr>sv_calls := Suc (sv_calls s)\<rparr>))"
  by (auto simp: sv_inv_def abort_def lessThan_Suc)

lemma sv_inv_dispatch:
  assumes "sv_inv J gs E s" and "entitled J gs E t" and "tk_id t = sv_calls s" and "\<not> sv_closed s" and "length (sv_channel s) < DISPATCH_CHANNEL"
  shows "sv_inv J gs E (dispatch t (s\<lparr>sv_calls := Suc (sv_calls s)\<rparr>))"
  using assms by (auto simp: sv_inv_def dispatch_def lessThan_Suc)

lemma sv_inv_run:
  assumes "sv_inv J gs E s" and "sv_channel s = t # ts" and "\<not> sv_exited s"
  shows "sv_inv J gs E (answer (tk_id t) r (s\<lparr>sv_stub := c, sv_channel := ts, sv_ran := sv_ran s @ [t]\<rparr>))"
  using assms by (auto simp: sv_inv_def answer_def)

lemma sv_inv_dies:
  assumes "sv_inv J gs E s" and "\<not> sv_exited s"
  shows "sv_inv J gs E (scheduler_dies c s)"
  using assms by (auto simp: sv_inv_def scheduler_dies_def comp_def image_Un image_image)

lemma sv_step_inv:
  assumes "sv_step J gs E S Q s s'" and "sv_inv J gs E s"
  shows "sv_inv J gs E s'"
  using assms(1)
proof cases
  case (dispatched now auth ext rc u oper t)
  then show ?thesis using assms(2) by (auto intro!: sv_inv_dispatch dispatched_entitled)
next
  case (runs t ts c r)
  then show ?thesis using assms(2) by (auto intro: sv_inv_run)
next
  case (reloads now auth ext as ms c res)
  then show ?thesis using assms(2) by (auto simp: sv_inv_def)
next
  case (reload_panics now auth ext as ms c)
  then show ?thesis using assms(2) by (auto simp: sv_inv_def)
next
  case leaves
  then show ?thesis using assms(2) by (auto simp: sv_inv_def)
next
  case exits
  then show ?thesis using assms(2) by (auto simp: sv_inv_def)
next
  case background
  then show ?thesis using assms(2) by (auto simp: sv_inv_def)
qed (use assms(2) in \<open>simp_all add: sv_inv_answer_call sv_inv_abort_call sv_inv_dies\<close>)

lemma sv_reach_inv:
  assumes "(sv_step J gs E S Q)\<^sup>*\<^sup>* (server_new c) s" shows "sv_inv J gs E s"
  using assms by (induction rule: rtranclp_induct) (auto intro: sv_inv_new sv_step_inv)

lemma sv_reach_lost:
  assumes "(sv_step J gs E S Q)\<^sup>*\<^sup>* (server_new c) s" shows "\<not> sv_damaged s \<longrightarrow> sv_lost s = []"
  using assms
proof (induction rule: rtranclp_induct)
  case (step s s')
  from step.hyps(2) step.IH show ?case
    by cases (auto simp: answer_def abort_def dispatch_def scheduler_dies_def)
qed (simp add: server_new_def)

text \<open>
  C24: Nothing is executed without a token that entitles to it. In every state the server can reach, each operation the scheduler
  has run came with a bearer token that decodes under the exchange's key and is within the time limits;
  an order was placed or cancelled only for the user the token names, a batch had at most forty
  orders, a deposit (or zero) needed the role of deposit administrators and a withdrawal that of
  withdrawal administrators.
\<close>

theorem server_authorised:
  assumes "(sv_step J gs E S Q)\<^sup>*\<^sup>* (server_new c) s" and "t \<in> set (sv_ran s)"
  shows "\<exists>token key cl now. tk_auth t = (Some (Inr token), now) \<and>
     from_rsa_pem J (st_keycloak_pubkey gs) = Some key \<and>
     jwt_decode J (str_remove ''Bearer '' token) key = Inr cl \<and> ensure_timely_boundaries now cl \<and>
     (case tk_oper t of
        OpBalanceUpdate req \<Rightarrow> (\<exists>x. dec_from_str E (bu_delta req) = Some x \<and>
          has_role cl (if 0 \<le> x then st_keycloak_deposit_admin_role gs else st_keycloak_withdrawal_admin_role gs))
      | OpBatchOrderPut req \<Rightarrow> tk_user t = cl_sub cl \<and> length (bo_orders req) \<le> 40
      | _ \<Rightarrow> tk_user t = cl_sub cl)"
proof -
  have "entitled J gs E t" using sv_reach_inv [OF assms(1)] assms(2) by (auto simp: sv_inv_def list_all_iff)
  then show ?thesis unfolding entitled_def .
qed

text \<open>
  C26: Every writing call gets exactly one answer, also when the engine panics. In every reachable state the calls answered, those waiting
  in the channel and those whose own interceptor or handler panicked (their connection breaks) are exactly the calls
  made, each counted once. The tasks dispatched are, in this order, those that ran, those dropped when a task panicked
  and those waiting, at most sixteen. The dropped ones have been answered with the error \<^verbatim>\<open>Dispatch ret unreach\<close>. When the
  scheduler has exited, in order or by a panic, nothing waits, and after an orderly exit everything dispatched ran.
\<close>

theorem server_answers_once:
  assumes "(sv_step J gs E S Q)\<^sup>*\<^sup>* (server_new c) s"
  shows "distinct (map fst (sv_replies s) @ sv_aborted s @ map tk_id (sv_channel s)) \<and>
    fst ` set (sv_replies s) \<union> set (sv_aborted s) \<union> tk_id ` set (sv_channel s) = {..<sv_calls s} \<and>
    sv_dispatched s = sv_ran s @ sv_lost s @ sv_channel s \<and> length (sv_channel s) \<le> 16 \<and>
    (\<forall>t \<in> set (sv_lost s). (tk_id t, Inl (UnknownErr ''Dispatch ret unreach'')) \<in> set (sv_replies s)) \<and>
    (sv_exited s \<longrightarrow> sv_channel s = [] \<and> fst ` set (sv_replies s) \<union> set (sv_aborted s) = {..<sv_calls s}) \<and>
    (sv_exited s \<and> \<not> sv_damaged s \<longrightarrow> sv_ran s = sv_dispatched s)"
proof -
  have inv: "sv_inv J gs E s" by (rule sv_reach_inv [OF assms])
  moreover have "\<not> sv_damaged s \<longrightarrow> sv_lost s = []" by (rule sv_reach_lost [OF assms])
  ultimately show ?thesis by (auto simp: sv_inv_def DISPATCH_CHANNEL_def)
qed

section \<open>The server as a sequence of calls\<close>

text \<open>
  What a caller with a valid token may expect of a call, without queue and scheduler: the operation of the controller for the user
  of the token, or, for a balance update, for the user that the request names.
\<close>

definition exec_call ::
  "env \<Rightarrow> serde \<Rightarrow> rpc_codec \<Rightarrow> claims \<Rightarrow> writing_call \<Rightarrow> 'c controller \<Rightarrow> ('c controller \<times> (rpc_status + reply)) option" where
  "exec_call E S Q cl rc c =
     (case rc of
        BalanceUpdateCall req \<Rightarrow> do {
          u \<leftarrow> uuid_parse E (bu_user_id req);
          (c, r) \<leftarrow> update_balance E S Q True (balance_update_request.truncate req) u c;
          Some (c, map_sum id (\<lambda>_. UpdateReply) r) }
      | OrderPutCall req \<Rightarrow> do { (c, r) \<leftarrow> order_put E S Q True req (cl_sub cl) c; Some (c, map_sum id OrderReply r) }
      | BatchOrderPutCall req \<Rightarrow> do { (c, r) \<leftarrow> batch_order_put E S Q True req (cl_sub cl) c; Some (c, map_sum id BatchReply r) }
      | OrderCancelCall req \<Rightarrow> do { (c, r) \<leftarrow> order_cancel E S Q True req (cl_sub cl) c; Some (c, map_sum id OrderReply r) }
      | OrderCancelAllCall market \<Rightarrow> do { (c, r) \<leftarrow> order_cancel_all E S Q True market (cl_sub cl) c; Some (c, map_sum id CancelAllReply r) })"

text \<open>
  A sequential exchange: calls with valid tokens are executed one after the other; in between an administrator may reload the
  markets and the background threads move on. The list holds the calls in order with their results.
\<close>

inductive serial ::
  "'k jwt_lib \<Rightarrow> settings \<Rightarrow> env \<Rightarrow> serde \<Rightarrow> rpc_codec \<Rightarrow> 'c controller \<Rightarrow> (task \<times> (rpc_status + reply)) list \<Rightarrow> 'c controller \<Rightarrow> bool"
  for J gs E S Q c0 where
  serial_start: "serial J gs E S Q c0 [] c0"
| serial_call: "serial J gs E S Q c0 h c \<Longrightarrow> tk_auth t = (Some (Inr token), now) \<Longrightarrow>
    validate_jwt J gs now (str_remove ''Bearer '' token) = Some (Inr cl) \<Longrightarrow> exec_call E S Q cl (tk_call t) c = Some (c', r) \<Longrightarrow>
    serial J gs E S Q c0 (h @ [(t, r)]) c'"
| serial_reload: "serial J gs E S Q c0 h c \<Longrightarrow> validate_jwt J gs now (str_remove ''Bearer '' token) = Some (Inr cl) \<Longrightarrow>
    has_role cl (st_keycloak_admin_role gs) \<Longrightarrow> market_reload as ms c = Some (c', res) \<Longrightarrow> serial J gs E S Q c0 h c'"
| serial_background: "serial J gs E S Q c0 h c \<Longrightarrow> serial J gs E S Q c0 h (c\<lparr>c_log_handler := k, c_persistor := p\<rparr>)"

lemma interceptor_claims:
  assumes "grpc_interceptor J gs now auth = Some (Inr (Some x))"
  obtains token cl where "auth = Some (Inr token)" and "validate_jwt J gs now (str_remove ''Bearer '' token) = Some (Inr cl)"
    and "x = get_user_extension gs cl"
  using assms by (auto simp: grpc_interceptor_def split: option.splits sum.splits Option.bind_splits)

text \<open>What the scheduler runs for a task is what its caller may expect.\<close>

definition faithful_task :: "'k jwt_lib \<Rightarrow> settings \<Rightarrow> env \<Rightarrow> task \<Rightarrow> bool" where
  "faithful_task J gs E t \<longleftrightarrow> (\<exists>token now cl. tk_auth t = (Some (Inr token), now) \<and>
     validate_jwt J gs now (str_remove ''Bearer '' token) = Some (Inr cl) \<and>
     (case tk_call t of
        BalanceUpdateCall req \<Rightarrow> uuid_parse E (bu_user_id req) = Some (tk_user t) \<and>
          tk_oper t = OpBalanceUpdate (balance_update_request.truncate req)
      | OrderPutCall req \<Rightarrow> tk_user t = cl_sub cl \<and> tk_oper t = OpOrderPut req
      | BatchOrderPutCall req \<Rightarrow> tk_user t = cl_sub cl \<and> tk_oper t = OpBatchOrderPut req
      | OrderCancelCall req \<Rightarrow> tk_user t = cl_sub cl \<and> tk_oper t = OpOrderCancel req
      | OrderCancelAllCall market \<Rightarrow> tk_user t = cl_sub cl \<and> tk_oper t = OpOrderCancelAll market))"

lemma handle_faithful:
  assumes i: "grpc_interceptor J gs now auth = Some (Inr ext)" and h: "handle E c ext rc = Some (Inr (u, oper))"
  shows "faithful_task J gs E \<lparr>tk_id = n, tk_user = u, tk_oper = oper, tk_auth = (auth, now), tk_call = rc\<rparr>"
proof -
  from handle_extension [OF h] obtain x where x: "ext = Some x" by blast
  from interceptor_claims [OF i [unfolded x]] obtain token cl where
    t: "auth = Some (Inr token)" "validate_jwt J gs now (str_remove ''Bearer '' token) = Some (Inr cl)" "x = get_user_extension gs cl" .
  from h t show ?thesis unfolding x faithful_task_def
    by (cases rc) (auto simp: handle_def handle_balance_update_def handle_order_put_def handle_batch_order_put_def handle_order_cancel_def
        handle_order_cancel_all_def get_user_id_from_request_def get_user_extension_def
        split: sum.splits option.splits if_splits Option.bind_splits)
qed

lemma faithful_run:
  assumes "faithful_task J gs E t" and "run_task E S Q t c = Some (c', r)"
  shows "\<exists>token now cl. tk_auth t = (Some (Inr token), now) \<and> validate_jwt J gs now (str_remove ''Bearer '' token) = Some (Inr cl) \<and>
    exec_call E S Q cl (tk_call t) c = Some (c', r)"
proof -
  from assms(1) obtain token now cl where
    t: "tk_auth t = (Some (Inr token), now)" "validate_jwt J gs now (str_remove ''Bearer '' token) = Some (Inr cl)" and
    f: "case tk_call t of
        BalanceUpdateCall req \<Rightarrow> uuid_parse E (bu_user_id req) = Some (tk_user t) \<and>
          tk_oper t = OpBalanceUpdate (balance_update_request.truncate req)
      | OrderPutCall req \<Rightarrow> tk_user t = cl_sub cl \<and> tk_oper t = OpOrderPut req
      | BatchOrderPutCall req \<Rightarrow> tk_user t = cl_sub cl \<and> tk_oper t = OpBatchOrderPut req
      | OrderCancelCall req \<Rightarrow> tk_user t = cl_sub cl \<and> tk_oper t = OpOrderCancel req
      | OrderCancelAllCall market \<Rightarrow> tk_user t = cl_sub cl \<and> tk_oper t = OpOrderCancelAll market"
    unfolding faithful_task_def by blast
  have "exec_call E S Q cl (tk_call t) c = Some (c', r)"
    using assms(2) f by (cases "tk_call t") (auto simp: run_task_def exec_call_def dispatch_reply_def)
  with t show ?thesis by blast
qed

lemma reload_by_admin:
  assumes "grpc_interceptor J gs now auth = Some (Inr ext)" and "handle_reload_markets ext as ms c = Some (c', res)"
  shows "c' = c \<or> (\<exists>token cl. validate_jwt J gs now (str_remove ''Bearer '' token) = Some (Inr cl) \<and>
    has_role cl (st_keycloak_admin_role gs) \<and> market_reload as ms c = Some (c', res))"
proof (cases ext)
  case (Some x)
  from interceptor_claims [OF assms(1) [unfolded Some]] obtain token cl where
    "validate_jwt J gs now (str_remove ''Bearer '' token) = Some (Inr cl)" "x = get_user_extension gs cl" .
  with assms(2) Some show ?thesis
    by (auto simp: handle_reload_markets_def grpc_block_non_admins_def get_user_extension_def split: if_splits)
qed (use assms(2) in \<open>auto simp: handle_reload_markets_def grpc_block_non_admins_def\<close>)

definition serial_inv :: "'k jwt_lib \<Rightarrow> settings \<Rightarrow> env \<Rightarrow> serde \<Rightarrow> rpc_codec \<Rightarrow> 'c controller \<Rightarrow> 'c server \<Rightarrow> bool" where
  "serial_inv J gs E S Q c0 s \<longleftrightarrow> list_all (faithful_task J gs E) (sv_channel s) \<and>
     (\<not> sv_damaged s \<longrightarrow> (\<exists>h. serial J gs E S Q c0 h (sv_stub s) \<and> map fst h = sv_ran s \<and>
        (\<forall>(t, r) \<in> set h. (tk_id t, r) \<in> set (sv_replies s))))"

lemma serial_inv_same:
  assumes "serial_inv J gs E S Q c0 s" and "sv_channel s' = sv_channel s" and "sv_stub s' = sv_stub s" and "sv_ran s' = sv_ran s"
    and "sv_damaged s' = sv_damaged s" and "set (sv_replies s) \<subseteq> set (sv_replies s')"
  shows "serial_inv J gs E S Q c0 s'"
  using assms unfolding serial_inv_def by auto blast+

lemma serial_inv_run:
  assumes "serial_inv J gs E S Q c0 s" and "sv_channel s = t # ts" and "run_task E S Q t (sv_stub s) = Some (c, r)"
  shows "serial_inv J gs E S Q c0 (answer (tk_id t) r (s\<lparr>sv_stub := c, sv_channel := ts, sv_ran := sv_ran s @ [t]\<rparr>))"
proof -
  have "faithful_task J gs E t" using assms(1,2) by (simp add: serial_inv_def)
  from faithful_run [OF this assms(3)] obtain token now cl where
    t: "tk_auth t = (Some (Inr token), now)" "validate_jwt J gs now (str_remove ''Bearer '' token) = Some (Inr cl)"
      "exec_call E S Q cl (tk_call t) (sv_stub s) = Some (c, r)" by blast
  {
    assume "\<not> sv_damaged s"
    with assms(1) obtain h where h: "serial J gs E S Q c0 h (sv_stub s)" "map fst h = sv_ran s" "\<forall>(t, r) \<in> set h. (tk_id t, r) \<in> set (sv_replies s)"
      unfolding serial_inv_def by blast
    from serial_call [OF h(1) t] h(2,3) have "\<exists>h. serial J gs E S Q c0 h c \<and> map fst h = sv_ran s @ [t] \<and>
      (\<forall>(t', r') \<in> set h. (tk_id t', r') \<in> set (sv_replies s @ [(tk_id t, r)]))"
      by (intro exI [of _ "h @ [(t, r)]"]) auto
  }
  then show ?thesis using assms(1,2) unfolding serial_inv_def answer_def by simp
qed

lemma sv_step_serial:
  assumes "sv_step J gs E S Q s s'" and inv: "serial_inv J gs E S Q c0 s"
  shows "serial_inv J gs E S Q c0 s'"
  using assms(1)
proof cases
  case (dispatched now auth ext rc u oper t)
  then have "faithful_task J gs E t" by (simp add: handle_faithful)
  with inv dispatched(1) show ?thesis by (simp add: serial_inv_def dispatch_def)
next
  case (runs t ts c r)
  then show ?thesis using inv by (auto intro: serial_inv_run)
next
  case (task_panics t ts c)
  then show ?thesis by (simp add: serial_inv_def scheduler_dies_def)
next
  case (reload_panics now auth ext as ms c)
  then show ?thesis using inv by (simp add: serial_inv_def)
next
  case (reloads now auth ext as ms c res)
  from reload_by_admin [OF reloads(2,3)] inv reloads(1) show ?thesis
    by (auto simp: serial_inv_def intro: serial_reload)
next
  case (background h p)
  then show ?thesis using inv by (auto simp: serial_inv_def intro: serial_background)
qed (auto intro: serial_inv_same [OF inv] simp: answer_def abort_def)

text \<open>
  C25: The server is linearizable. As long as no panic has interrupted a change of the controller, its state is the result of
  executing the calls it has run one after the other, in the order in which they were dispatched, each once, for the user that a valid
  token names (for a balance update the user that the request names), with nothing in between but reloads by an administrator
  and progress of the background threads; and what such a sequential execution answers to a call is what its caller was answered.
\<close>

theorem server_linearizable:
  assumes "(sv_step J gs E S Q)\<^sup>*\<^sup>* (server_new c0) s" and "\<not> sv_damaged s"
  shows "\<exists>h. serial J gs E S Q c0 h (sv_stub s) \<and> map fst h @ sv_channel s = sv_dispatched s \<and>
    (\<forall>(t, r) \<in> set h. (tk_id t, r) \<in> set (sv_replies s))"
proof -
  have "serial_inv J gs E S Q c0 s" using assms(1)
  proof (induction rule: rtranclp_induct)
    case (step s s')
    from sv_step_serial [OF step.hyps(2) step.IH] show ?case .
  qed (simp add: serial_inv_def server_new_def serial_start)
  with assms(2) obtain h where h: "serial J gs E S Q c0 h (sv_stub s)" "map fst h = sv_ran s"
    "\<forall>(t, r) \<in> set h. (tk_id t, r) \<in> set (sv_replies s)" unfolding serial_inv_def by blast
  have "sv_dispatched s = sv_ran s @ sv_channel s"
    using sv_reach_inv [OF assms(1)] sv_reach_lost [OF assms(1)] assms(2) by (simp add: sv_inv_def)
  with h show ?thesis by auto
qed

text \<open>
  A token is good for an hour at most. When the interceptor adds a user to a request, the token decoded
  under the exchange's key was issued at most an hour ago and expires at most an hour from
  now; the user is its subject and the three flags are exactly the roles it carries. The
  arithmetic on the 64-bit times does not wrap between the years 1970 and five hundred billion.
\<close>

theorem token_window:
  assumes "grpc_interceptor J gs (now1, now2) auth = Some (Inr (Some x))"
    and "3600 \<le> unat now1" and "unat now2 + 3600 < 2 ^ 64"
  shows "\<exists>token key cl. auth = Some (Inr token) \<and> jwt_decode J (str_remove ''Bearer '' token) key = Inr cl \<and>
    unat now1 \<le> unat (cl_iat cl) + 3600 \<and> unat (cl_exp cl) \<le> unat now2 + 3600 \<and> ux_user_id x = cl_sub cl \<and>
    (ux_is_admin x \<longleftrightarrow> (\<exists>rs. cl_realm_access cl = Some rs \<and> st_keycloak_admin_role gs \<in> set rs)) \<and>
    (ux_is_deposit_admin x \<longleftrightarrow> (\<exists>rs. cl_realm_access cl = Some rs \<and> st_keycloak_deposit_admin_role gs \<in> set rs)) \<and>
    (ux_is_withdrawal_admin x \<longleftrightarrow> (\<exists>rs. cl_realm_access cl = Some rs \<and> st_keycloak_withdrawal_admin_role gs \<in> set rs))"
proof -
  have role: "has_role cl r \<longleftrightarrow> (\<exists>rs. cl_realm_access cl = Some rs \<and> r \<in> set rs)" for cl r
    by (auto simp: has_role_def list_ex_iff split: option.split)
  from interceptor_extension [OF assms(1)] obtain token key cl where
    t: "auth = Some (Inr token)" "jwt_decode J (str_remove ''Bearer '' token) key = Inr cl"
      "ensure_timely_boundaries (now1, now2) cl" "x = get_user_extension gs cl" by metis
  have "unat (now1 - 3600) = unat now1 - 3600" "unat (now2 + 3600) = unat now2 + 3600"
    using assms(2,3) by (simp_all add: unat_sub word_le_nat_alt unat_word_ariths)
  with t(3) assms(2) have "unat now1 \<le> unat (cl_iat cl) + 3600" "unat (cl_exp cl) \<le> unat now2 + 3600"
    by (auto simp: ensure_timely_boundaries_def validate_issue_date_def validate_expiry_date_def ONE_HOUR_IN_SECS_def
        word_less_nat_alt not_less split: if_splits)
  with t show ?thesis by (auto simp: get_user_extension_def role)
qed

section \<open>A concrete run\<close>

text \<open>An administrator for deposits credits user 1; the server is then told to leave and exits.\<close>

definition demo_jwt :: "unit jwt_lib" where
  "demo_jwt = \<lparr>from_rsa_pem = (\<lambda>_. Some ()), jwt_decode = (\<lambda>s _. if s = ''tok''
     then Inr \<lparr>cl_exp = 5100, cl_iat = 4900, cl_sub = 2, cl_realm_access = Some [''dep'']\<rparr> else Inl ''bad token'')\<rparr>"

definition demo_gs :: settings where
  "demo_gs = demo_settings\<lparr>st_keycloak_admin_role := ''adm'', st_keycloak_deposit_admin_role := ''dep'',
     st_keycloak_withdrawal_admin_role := ''wdr''\<rparr>"

definition demo_auth :: "(string + string) option" where "demo_auth = Some (Inr ''Bearer tok'')"

definition demo_ext :: user_extension where
  "demo_ext = \<lparr>ux_user_id = 2, ux_is_admin = False, ux_is_deposit_admin = True, ux_is_withdrawal_admin = False\<rparr>"

definition demo_call :: grpc_balance_update_request where
  "demo_call = balance_update_request.extend demo_deposit (grpc_balance_update_request.fields ''1'')"

definition demo_task :: task where
  "demo_task = \<lparr>tk_id = 0, tk_user = 1, tk_oper = OpBalanceUpdate demo_deposit, tk_auth = (demo_auth, 5000, 5000), tk_call = BalanceUpdateCall demo_call\<rparr>"

definition demo_s0 :: "unit server" where "demo_s0 = server_new demo_c0"

definition demo_s1 :: "unit server" where "demo_s1 = dispatch demo_task (demo_s0\<lparr>sv_calls := Suc (sv_calls demo_s0)\<rparr>)"

definition demo_s2 :: "unit server" where
  "demo_s2 = (case run_task ref_env demo_serde demo_codec demo_task demo_c0 of
     Some (c, r) \<Rightarrow> answer (tk_id demo_task) r (demo_s1\<lparr>sv_stub := c, sv_channel := [], sv_ran := sv_ran demo_s1 @ [demo_task]\<rparr>)
   | None \<Rightarrow> demo_s1)"

lemma demo_interceptor: "grpc_interceptor demo_jwt demo_gs (5000, 5000) demo_auth = Some (Inr (Some demo_ext))"
  by code_simp

lemma demo_handle: "handle ref_env demo_c0 (Some demo_ext) (BalanceUpdateCall demo_call) = Some (Inr (1, OpBalanceUpdate demo_deposit))"
  by code_simp

lemma demo_step1: "sv_step demo_jwt demo_gs ref_env demo_serde demo_codec demo_s0 demo_s1"
proof -
  have "handle ref_env (sv_stub demo_s0) (Some demo_ext) (BalanceUpdateCall demo_call) = Some (Inr (1, OpBalanceUpdate demo_deposit))"
    by (simp add: demo_s0_def server_new_def demo_handle)
  from dispatched [OF demo_interceptor this] show ?thesis
    by (simp add: demo_s1_def demo_s0_def server_new_def demo_task_def DISPATCH_CHANNEL_def)
qed

lemma demo_run: "run_task ref_env demo_serde demo_codec demo_task demo_c0 \<noteq> None"
  using demo_c1_some by (simp add: run_task_def demo_task_def exec_operation_def dispatch_reply_def)

lemma demo_step2: "sv_step demo_jwt demo_gs ref_env demo_serde demo_codec demo_s1 demo_s2"
proof -
  obtain c r where run: "run_task ref_env demo_serde demo_codec demo_task demo_c0 = Some (c, r)" using demo_run by auto
  then have "demo_s2 = answer (tk_id demo_task) r (demo_s1\<lparr>sv_stub := c, sv_channel := [], sv_ran := sv_ran demo_s1 @ [demo_task]\<rparr>)"
    by (simp add: demo_s2_def)
  moreover have "sv_channel demo_s1 = [demo_task]" "\<not> sv_exited demo_s1" "sv_stub demo_s1 = demo_c0"
    by (simp_all add: demo_s1_def demo_s0_def server_new_def dispatch_def)
  ultimately show ?thesis using runs [of demo_s1 demo_task "[]" ref_env demo_serde demo_codec c r demo_jwt demo_gs] run by simp
qed

lemma demo_server_reach: "(sv_step demo_jwt demo_gs ref_env demo_serde demo_codec)\<^sup>*\<^sup>* (server_new demo_c0) demo_s2"
  using demo_step1 demo_step2 unfolding demo_s0_def by (metis converse_rtranclp_into_rtranclp rtranclp.rtrancl_refl)

lemma demo_ran: "sv_ran demo_s2 = [demo_task]" "sv_calls demo_s2 = 1" "sv_channel demo_s2 = []"
  using demo_run by (auto simp: demo_s2_def demo_s1_def demo_s0_def server_new_def dispatch_def answer_def split: option.splits)

theorem server_authorised_witness:
  "demo_task \<in> set (sv_ran demo_s2) \<and> (\<exists>token key cl. demo_auth = Some (Inr token) \<and>
     jwt_decode demo_jwt (str_remove ''Bearer '' token) key = Inr cl \<and> has_role cl ''dep'')"
proof -
  have x: "dec_from_str ref_env (bu_delta demo_deposit) = Some (21 / 2)" by code_simp
  have m: "demo_task \<in> set (sv_ran demo_s2)" by (simp add: demo_ran)
  from server_authorised [OF demo_server_reach m] x show ?thesis
    by (auto simp: demo_task_def demo_gs_def demo_ran)
qed

theorem server_answers_once_witness:
  "fst ` set (sv_replies demo_s2) \<union> set (sv_aborted demo_s2) = {0} \<and> sv_dispatched demo_s2 = sv_ran demo_s2 @ sv_lost demo_s2"
  using server_answers_once [OF demo_server_reach] by (auto simp: demo_ran)

lemma demo_undamaged: "\<not> sv_damaged demo_s2"
  using demo_run by (auto simp: demo_s2_def demo_s1_def demo_s0_def server_new_def dispatch_def answer_def split: option.splits)

theorem server_linearizable_witness:
  "\<exists>r. serial demo_jwt demo_gs ref_env demo_serde demo_codec demo_c0 [(demo_task, r)] (sv_stub demo_s2) \<and> (0, r) \<in> set (sv_replies demo_s2)"
proof -
  have d: "sv_dispatched demo_s2 = [demo_task]" using sv_reach_inv [OF demo_server_reach] sv_reach_lost [OF demo_server_reach] demo_undamaged
    by (simp add: sv_inv_def demo_ran)
  from server_linearizable [OF demo_server_reach demo_undamaged] obtain h where
    "serial demo_jwt demo_gs ref_env demo_serde demo_codec demo_c0 h (sv_stub demo_s2)" "map fst h = [demo_task]"
    "\<forall>(t, r) \<in> set h. (tk_id t, r) \<in> set (sv_replies demo_s2)" by (auto simp: d demo_ran)
  then show ?thesis by (auto simp: map_eq_Cons_conv demo_task_def)
qed

theorem token_window_witness:
  "\<exists>token key cl. demo_auth = Some (Inr token) \<and> jwt_decode demo_jwt (str_remove ''Bearer '' token) key = Inr cl \<and>
     5000 \<le> unat (cl_iat cl) + 3600 \<and> unat (cl_exp cl) \<le> 8600"
  using token_window [OF demo_interceptor] by auto

end
