(* ===== verification/RestQuery.thy ===== *)
theory RestQuery
  imports Server
begin

text \<open>
  The reading side of the REST service: \<^verbatim>\<open>src/restapi/errors.rs\<close>, the access check of \<^verbatim>\<open>src/bin/restapi.rs\<close>,
  \<^verbatim>\<open>personal_history.rs\<close>, \<^verbatim>\<open>public_history.rs\<close> and \<^verbatim>\<open>tradingview.rs\<close>.

  A table is the list of its rows and a \<^verbatim>\<open>select\<close> a definition on it, in which rows that the query does not
  order keep the table's order. Every query may fail; the failure is an argument. The HTTP framework has parsed path, query string
  and token. The aggregates of TimescaleDB and the libraries for durations and floating-point numbers are parameters.
\<close>

section \<open>Errors\<close>

datatype query_error = RowNotFound | QueryDatabaseErr string | QueryOtherErr string

datatype ErrorType = NotFound | Forbidden | BadRequest | Unknown

definition error_text :: "ErrorType \<Rightarrow> string" where
  "error_text e = (case e of
       NotFound \<Rightarrow> ''Requested resource was not found''
     | Forbidden \<Rightarrow> ''You are forbidden to access''
     | BadRequest \<Rightarrow> ''Invalid request''
     | Unknown \<Rightarrow> ''Unknown Internal Error'')"

record rpc_error =
  re_error :: ErrorType
  re_message :: string

definition rpc_error_new :: "ErrorType \<Rightarrow> string \<Rightarrow> rpc_error" where
  "rpc_error_new e message = \<lparr>re_error = e, re_message = message\<rparr>"

definition rpc_error_unknown :: "string \<Rightarrow> rpc_error" where
  "rpc_error_unknown message = rpc_error_new Unknown message"

definition rpc_error_bad_request :: "string \<Rightarrow> rpc_error" where
  "rpc_error_bad_request message = rpc_error_new BadRequest message"

definition rpc_error_display :: "rpc_error \<Rightarrow> string" where
  "rpc_error_display e = ''('' @ error_text (re_error e) @ '', '' @ re_message e @ '')''"

definition rpc_error_of_sqlx :: "query_error \<Rightarrow> rpc_error" where
  "rpc_error_of_sqlx original = (case original of
       RowNotFound \<Rightarrow> rpc_error_new NotFound ''db query nothing''
     | QueryDatabaseErr e \<Rightarrow> rpc_error_bad_request e
     | QueryOtherErr e \<Rightarrow> rpc_error_unknown e)"

section \<open>Access\<close>

definition PUBLIC_ENDPOINTS :: "string list" where
  "PUBLIC_ENDPOINTS = [''/api/exchange/panel/ping'', ''/api/exchange/panel/recenttrades'', ''/api/exchange/panel/ordertrades'',
     ''/api/exchange/panel/ticker_'', ''/api/exchange/panel/tradingview'', ''/api/spec'']"

definition ADMIN_ENDPOINTS :: "string list" where
  "ADMIN_ENDPOINTS = [''/api/exchange/panel/manage'']"

definition starts_with :: "string \<Rightarrow> string \<Rightarrow> bool" where
  "starts_with s prefix \<longleftrightarrow> take (length prefix) s = prefix"

datatype rest_denied = AuthenticationError

definition rest_block_non_admins :: "user_extension \<Rightarrow> rest_denied + unit" where
  "rest_block_non_admins ext = (if \<not> ux_is_admin ext then Inl AuthenticationError else Inr ())"

text \<open>
  The result is what the request carries on its way to the handler: nothing for a public path, otherwise the user and, for the reload
  of markets, the token.
\<close>

definition validator ::
  "'k jwt_lib \<Rightarrow> settings \<Rightarrow> u64 \<times> u64 \<Rightarrow> string \<Rightarrow> string \<Rightarrow> (rest_denied + (user_extension \<times> string option) option) option" where
  "validator J gs now path credentials =
     (if list_ex (starts_with path) PUBLIC_ENDPOINTS then Some (Inr None)
      else do {
        r \<leftarrow> rest_auth J gs now path credentials;
        case r of
          Inl _ \<Rightarrow> Some (Inl AuthenticationError)
        | Inr (ext, jwt) \<Rightarrow>
            if list_ex (starts_with path) ADMIN_ENDPOINTS
            then (case rest_block_non_admins ext of
                    Inl e \<Rightarrow> Some (Inl e)
                  | Inr _ \<Rightarrow> Some (Inr (Some (ext, jwt))))
            else Some (Inr (Some (ext, jwt)))
      })"

section \<open>History\<close>

text \<open>\<^verbatim>\<open>str::parse::<usize>\<close>.\<close>

definition digit_of :: "char \<Rightarrow> nat option" where
  "digit_of c = (let n = of_char c :: nat in if 48 \<le> n \<and> n \<le> 57 then Some (n - 48) else None)"

definition parse_usize :: "string \<Rightarrow> nat option" where
  "parse_usize s =
     (let ds = (case s of c # cs \<Rightarrow> if c = CHR ''+'' then cs else s | [] \<Rightarrow> [])
      in if ds = [] \<or> list_ex (\<lambda>c. digit_of c = None) ds then None
         else let n = foldl (\<lambda>a c. 10 * a + the (digit_of c)) 0 ds in if n < 2 ^ 64 then Some n else None)"

definition query_number :: "(string \<times> string) list \<Rightarrow> string \<Rightarrow> nat \<Rightarrow> nat" where
  "query_number qstring key dflt =
     (case parse_usize (case map_of qstring key of Some v \<Rightarrow> v | None \<Rightarrow> []) of Some n \<Rightarrow> n | None \<Rightarrow> dflt)"

record order_response =
  or_total :: nat
  or_orders :: "order_history list"

definition my_orders_condition :: "env \<Rightarrow> string \<Rightarrow> uuid \<Rightarrow> order_history \<Rightarrow> bool" where
  "my_orders_condition E market user_id r \<longleftrightarrow>
     (if market = ''all'' then oh_user_id r = uuid_to_string E user_id
      else oh_market r = market \<and> oh_user_id r = uuid_to_string E user_id)"

definition my_orders ::
  "env \<Rightarrow> query_error option \<Rightarrow> query_error option \<Rightarrow> order_history list \<Rightarrow> string \<Rightarrow> (user_extension \<times> string option) option \<Rightarrow>
   (string \<times> string) list \<Rightarrow> (rpc_error + order_response) option" where
  "my_orders E fails fails_count table market ext qstring = do {
     (x, _) \<leftarrow> ext;
     let user_id = ux_user_id x;
     let limit = min 100 (query_number qstring ''limit'' 20);
     let offset = query_number qstring ''offset'' 0;
     let rows = filter (my_orders_condition E market user_id) table;
     case fails of
       Some err \<Rightarrow> Some (Inl (rpc_error_of_sqlx err))
     | None \<Rightarrow>
         (let orders = take limit (drop offset (sort_key (\<lambda>r. - sint (oh_id r)) rows))
          in case fails_count of
               Some err \<Rightarrow> Some (Inl (rpc_error_of_sqlx err))
             | None \<Rightarrow> Some (Inr \<lparr>or_total = length rows, or_orders = orders\<rparr>))
   }"

definition check_market_exists :: "string \<Rightarrow> bool" where
  "check_market_exists market = True"

definition recent_trades ::
  "query_error option \<Rightarrow> market_trade list \<Rightarrow> string \<Rightarrow> (string \<times> string) list \<Rightarrow> rpc_error + market_trade list" where
  "recent_trades fails table market qstring =
     (let limit = min 100 (query_number qstring ''limit'' 20) in
      if \<not> check_market_exists market then Inl (rpc_error_bad_request ''invalid market'')
      else case fails of
        Some err \<Rightarrow> Inl (rpc_error_of_sqlx err)
      | None \<Rightarrow> Inr (take limit (sort_key (\<lambda>r. - mt_time r) (filter (\<lambda>r. mt_market r = market) table))))"

record rest_market_trade =
  rt_time :: string
  rt_trade_id :: i64
  rt_amount :: string
  rt_quote_amount :: string
  rt_price :: string
  rt_fee :: string

definition order_trades ::
  "env \<Rightarrow> (timestamp \<Rightarrow> string) \<Rightarrow> query_error option \<Rightarrow> user_trade list \<Rightarrow> string \<Rightarrow> i64 \<Rightarrow> rpc_error + rest_market_trade list" where
  "order_trades E rfc3339 fails table market_name order_id =
     (case fails of
        Some err \<Rightarrow> Inl (rpc_error_of_sqlx err)
      | None \<Rightarrow>
          (let trades = sort_key (\<lambda>r. sint (ut_trade_id r)) (sort_key ut_time
                 (filter (\<lambda>r. ut_market r = market_name \<and> ut_order_id r = order_id) table))
           in Inr (map (\<lambda>v. \<lparr>rt_time = rfc3339 (ut_time v), rt_trade_id = ut_trade_id v, rt_amount = dec_to_string E (ut_amount v),
                rt_quote_amount = dec_to_string E (ut_quote_amount v), rt_price = dec_to_string E (ut_price v),
                rt_fee = dec_to_string E (ut_fee v)\<rparr>) trades)))"

section \<open>Symbols\<close>

definition DEFAULT_EXCHANGE :: string where "DEFAULT_EXCHANGE = ''test''"
definition DEFAULT_SYMBOL :: string where "DEFAULT_SYMBOL = ''tradepair''"
definition DEFAULT_SESSION :: string where "DEFAULT_SESSION = ''24x7''"

record chart_symbol =
  sy_name :: string
  sy_ticker :: string
  sy_sym_type :: string
  sy_session :: string
  sy_exchange :: string
  sy_listed_exchange :: string
  sy_timezone :: string
  sy_minmov :: u32
  sy_pricescale :: u32
  sy_minmovement2 :: u32
  sy_minmov2 :: u32
  sy_minmove2 :: "u32 option"
  sy_fractional :: "bool option"
  sy_has_intraday :: bool
  sy_has_daily :: bool
  sy_has_weekly_and_monthly :: bool

definition symbology :: "market_desc \<Rightarrow> string \<times> string" where
  "symbology origin =
     (let s_name = md_base_asset origin @ ''_'' @ md_quote_asset origin
      in (case md_market_name origin of Some n \<Rightarrow> n | None \<Rightarrow> s_name,
          case md_market_name origin of Some n \<Rightarrow> n @ ''('' @ s_name @ '')'' | None \<Rightarrow> s_name))"

text \<open>
  \<open>repr\<close> gives the scale and the low 32 bits of the mantissa of the minimal amount, which its value does not determine.
\<close>

definition symbol_of_desc :: "(market_desc \<Rightarrow> nat \<times> u32) \<Rightarrow> market_desc \<Rightarrow> chart_symbol" where
  "symbol_of_desc repr origin =
     (let (name, _) = symbology origin;
          pricescale = 10 ^ fst (repr origin);
          minmov = snd (repr origin)
      in \<lparr>sy_name = name, sy_ticker = name, sy_sym_type = DEFAULT_SYMBOL, sy_session = DEFAULT_SESSION,
          sy_exchange = DEFAULT_EXCHANGE, sy_listed_exchange = DEFAULT_EXCHANGE, sy_timezone = ''Etc/UTC'',
          sy_minmov = minmov, sy_pricescale = pricescale, sy_minmovement2 = 0, sy_minmov2 = 0, sy_minmove2 = None,
          sy_fractional = None, sy_has_intraday = True, sy_has_daily = True, sy_has_weekly_and_monthly = True\<rparr>)"

definition resolve_canionical_symbol :: "string \<Rightarrow> string option \<times> string" where
  "resolve_canionical_symbol symbol =
     (if CHR '':'' \<in> set symbol
      then (Some (takeWhile (\<lambda>c. c \<noteq> CHR '':'') symbol), drop 1 (dropWhile (\<lambda>c. c \<noteq> CHR '':'') symbol))
      else (None, symbol))"

fun split_symbol :: "string \<Rightarrow> string list" where
  "split_symbol [] = [[]]"
| "split_symbol (c # cs) =
     (if c = CHR ''-'' \<or> c = CHR ''_'' then [] # split_symbol cs
      else case split_symbol cs of p # ps \<Rightarrow> (c # p) # ps | [] \<Rightarrow> [[c]])"

definition pair_rows :: "string \<Rightarrow> string \<Rightarrow> market_desc list \<Rightarrow> market_desc list" where
  "pair_rows a b table = filter (\<lambda>r. md_base_asset r = a \<and> md_quote_asset r = b \<or> md_base_asset r = b \<and> md_quote_asset r = a) table"

definition fetch_optional :: "query_error option \<Rightarrow> 'r list \<Rightarrow> query_error + 'r option" where
  "fetch_optional fails rows = (case fails of Some e \<Rightarrow> Inl e | None \<Rightarrow> Inr (case rows of [] \<Rightarrow> None | r # _ \<Rightarrow> Some r))"

definition fetch_one :: "query_error option \<Rightarrow> 'r list \<Rightarrow> query_error + 'r" where
  "fetch_one fails rows = (case fails of Some e \<Rightarrow> Inl e | None \<Rightarrow> (case rows of [] \<Rightarrow> Inl RowNotFound | r # _ \<Rightarrow> Inr r))"

definition symbols ::
  "(market_desc \<Rightarrow> nat \<times> u32) \<Rightarrow> query_error option \<Rightarrow> query_error option \<Rightarrow> market_desc list \<Rightarrow> string \<Rightarrow> rpc_error + chart_symbol" where
  "symbols repr fails_pair fails_name table symbol =
     (let (_, rsymbol) = resolve_canionical_symbol symbol;
          as_asset = split_symbol rsymbol;
          queried_market = (if length as_asset = 2
            then fetch_optional fails_pair (pair_rows (as_asset ! 0) (as_asset ! 1) table) else Inr None)
      in case queried_market of
           Inl e \<Rightarrow> Inl (rpc_error_of_sqlx e)
         | Inr (Some r) \<Rightarrow> Inr (symbol_of_desc repr r)
         | Inr None \<Rightarrow>
             (case fetch_one fails_name (filter (\<lambda>r. md_market_name r = Some symbol) table) of
                Inl e \<Rightarrow> Inl (rpc_error_of_sqlx e)
              | Inr r \<Rightarrow> Inr (symbol_of_desc repr r)))"

record symbol_desc =
  sd_symbol :: string
  sd_full_name :: string
  sd_description :: string
  sd_exchange :: string
  sd_ticker :: string
  sd_sym_type :: string

definition symbol_desc_of :: "market_desc \<Rightarrow> symbol_desc" where
  "symbol_desc_of origin =
     (let (name, full_name) = symbology origin
      in \<lparr>sd_symbol = name, sd_full_name = DEFAULT_EXCHANGE @ '':'' @ full_name, sd_description = [],
          sd_exchange = DEFAULT_EXCHANGE, sd_ticker = name, sd_sym_type = DEFAULT_SYMBOL\<rparr>)"

definition search_symbols ::
  "query_error option \<Rightarrow> market_desc list \<Rightarrow> string \<Rightarrow> u32 \<Rightarrow> rpc_error + symbol_desc list" where
  "search_symbols fails table query limit =
     (let (_, rsymbol) = resolve_canionical_symbol query;
          as_asset = split_symbol rsymbol;
          limited = (\<lambda>rows. if limit = 0 then rows else take (unat limit) rows);
          ret = limited (if length as_asset = 2 then pair_rows (as_asset ! 0) (as_asset ! 1) table
            else filter (\<lambda>r. md_base_asset r = rsymbol \<or> md_quote_asset r = rsymbol \<or> md_market_name r = Some rsymbol) table)
      in case fails of Some e \<Rightarrow> Inl (rpc_error_of_sqlx e) | None \<Rightarrow> Inr (map symbol_desc_of ret))"

section \<open>Ticker\<close>

record 'f chart_lib =
  ch_parse_duration :: "string \<Rightarrow> rat option"
  ch_duration_trunc :: "timestamp \<Rightarrow> rat \<Rightarrow> string + timestamp"
  ch_from_std :: "rat \<Rightarrow> string + rat"
  ch_checked_sub_signed :: "timestamp \<Rightarrow> rat \<Rightarrow> timestamp option"
  ch_checked_sub :: "decimal \<Rightarrow> decimal \<Rightarrow> decimal option"
  ch_checked_div :: "decimal \<Rightarrow> decimal \<Rightarrow> decimal option"
  ch_to_f32 :: "decimal \<Rightarrow> 'f option"
  ch_zero :: 'f
  ch_no_change :: 'f

text \<open>The numbers \<^verbatim>\<open>0.0\<close> and \<^verbatim>\<open>9999.9\<close> are the last two fields. Durations are seconds.\<close>

record ticker_item =
  ti_first :: "decimal option"
  ti_last :: "decimal option"
  ti_max :: "decimal option"
  ti_min :: "decimal option"
  ti_sum :: "decimal option"
  ti_quote_sum :: "decimal option"

record 'f ticker_result =
  tr_market :: string
  tr_change :: 'f
  tr_last :: 'f
  tr_high :: 'f
  tr_low :: 'f
  tr_volume :: 'f
  tr_quote_volume :: 'f
  tr_from :: u64
  tr_to :: u64

record trading_conf =
  ticker_update_interval :: rat
  ticker_interval :: rat

definition default_trading :: trading_conf where
  "default_trading = \<lparr>ticker_update_interval = 5, ticker_interval = 86400\<rparr>"

definition unix_secs :: "timestamp \<Rightarrow> u64" where
  "unix_secs t = word_of_int \<lfloor>t\<rfloor>"

definition dur_add :: "rat \<Rightarrow> rat \<Rightarrow> rat option" where
  "dur_add a b = (if a + b < 2 ^ 64 then Some (a + b) else None)"

definition dur_sub :: "rat \<Rightarrow> rat \<Rightarrow> rat option" where
  "dur_sub a b = (if b \<le> a then Some (a - b) else None)"

definition cache_valid :: "rat \<Rightarrow> u64 \<Rightarrow> u64 \<Rightarrow> bool option" where
  "cache_valid update_inv cached_to now_secs = do {
     let now_ts_dur = of_nat (unat now_secs);
     let cached_now = of_nat (unat cached_to);
     upper \<leftarrow> dur_add cached_now update_inv;
     if upper > now_ts_dur then do {
       lower \<leftarrow> dur_sub cached_now update_inv;
       Some (now_ts_dur > lower)
     } else Some False
   }"

definition f32_or_zero :: "'f chart_lib \<Rightarrow> decimal option \<Rightarrow> 'f" where
  "f32_or_zero C d = (case Option.bind d (ch_to_f32 C) of Some f \<Rightarrow> f | None \<Rightarrow> ch_zero C)"

definition ticker_change :: "'f chart_lib \<Rightarrow> ticker_item \<Rightarrow> 'f" where
  "ticker_change C item =
     (case ti_last item of
        Some lst \<Rightarrow>
          (case do { first \<leftarrow> ti_first item; r1 \<leftarrow> ch_checked_sub C lst first; q \<leftarrow> ch_checked_div C r1 lst; ch_to_f32 C q } of
             Some f \<Rightarrow> f
           | None \<Rightarrow> ch_no_change C)
      | None \<Rightarrow> ch_zero C)"

definition ticker_result_of :: "'f chart_lib \<Rightarrow> string \<Rightarrow> timestamp \<Rightarrow> timestamp \<Rightarrow> ticker_item \<Rightarrow> 'f ticker_result" where
  "ticker_result_of C market_name from_ts now_ts item = \<lparr>
     tr_market = market_name, tr_change = ticker_change C item, tr_last = f32_or_zero C (ti_last item),
     tr_high = f32_or_zero C (ti_max item), tr_low = f32_or_zero C (ti_min item), tr_volume = f32_or_zero C (ti_sum item),
     tr_quote_volume = f32_or_zero C (ti_quote_sum item), tr_from = unix_secs from_ts, tr_to = unix_secs now_ts\<rparr>"

definition ticker_query ::
  "'f chart_lib \<Rightarrow> trading_conf \<Rightarrow> (string \<Rightarrow> timestamp \<Rightarrow> query_error + ticker_item) \<Rightarrow> timestamp \<Rightarrow> rat \<Rightarrow> string \<Rightarrow>
   rpc_error + 'f ticker_result" where
  "ticker_query C conf query now ticker_inv market_name =
     (let ticker_inv = (if ticker_inv > ticker_interval conf then ticker_interval conf else ticker_inv)
      in case ch_from_std C (ticker_update_interval conf) of
           Inl e \<Rightarrow> Inl (rpc_error_unknown e)
         | Inr update_inv \<Rightarrow>
      (case ch_from_std C ticker_inv of
           Inl e \<Rightarrow> Inl (rpc_error_unknown e)
         | Inr ticker_inv \<Rightarrow>
      (case ch_duration_trunc C now update_inv of
           Inl e \<Rightarrow> Inl (rpc_error_unknown e)
         | Inr now_ts \<Rightarrow>
      (case ch_checked_sub_signed C now_ts ticker_inv of
           None \<Rightarrow> Inl (rpc_error_unknown ''Internal clock error'')
         | Some from_ts \<Rightarrow>
      (case query market_name from_ts of
           Inl e \<Rightarrow> Inl (rpc_error_of_sqlx e)
         | Inr item \<Rightarrow> Inr (ticker_result_of C market_name from_ts now_ts item))))))"

definition ticker ::
  "'f chart_lib \<Rightarrow> trading_conf \<Rightarrow> (string \<Rightarrow> timestamp \<Rightarrow> query_error + ticker_item) \<Rightarrow> timestamp \<Rightarrow> string \<Rightarrow> string \<Rightarrow>
   (string \<times> 'f ticker_result) list \<Rightarrow> ((string \<times> 'f ticker_result) list \<times> (rpc_error + 'f ticker_result)) option" where
  "ticker C conf query now ticker_inv market_name cache = do {
     ticker_inv \<leftarrow> ch_parse_duration C ticker_inv;
     hit \<leftarrow> (case map_of cache market_name of
               None \<Rightarrow> Some None
             | Some cached \<Rightarrow> do {
                 v \<leftarrow> cache_valid (ticker_update_interval conf) (tr_to cached) (unix_secs now);
                 Some (if v then Some cached else None) });
     case hit of
       Some cached \<Rightarrow> Some (cache, Inr cached)
     | None \<Rightarrow>
         (case ticker_query C conf query now ticker_inv market_name of
            Inl e \<Rightarrow> Some (cache, Inl e)
          | Inr ret \<Rightarrow> Some (AList.update market_name ret cache, Inr ret))
   }"

section \<open>Candles\<close>

record kline_req =
  kr_from :: i32
  kr_to :: i32
  kr_symbol :: string
  kr_resolution :: i32
  kr_usemock :: "string option"

record kline_item =
  ki_ts :: "timestamp option"
  ki_first :: "decimal option"
  ki_last :: "decimal option"
  ki_max :: "decimal option"
  ki_min :: "decimal option"
  ki_sum :: "decimal option"

record 'f kline_result =
  kl_s :: string
  kl_t :: "i32 list"
  kl_c :: "'f list"
  kl_o :: "'f list"
  kl_h :: "'f list"
  kl_l :: "'f list"
  kl_v :: "'f list"
  kl_nxt :: "i32 option"

definition kline_push :: "'f chart_lib \<Rightarrow> kline_item \<Rightarrow> 'f kline_result \<Rightarrow> 'f kline_result" where
  "kline_push C item r = r\<lparr>
     kl_t := kl_t r @ [case ki_ts item of Some t \<Rightarrow> word_of_int \<lfloor>t\<rfloor> | None \<Rightarrow> 0],
     kl_c := kl_c r @ [f32_or_zero C (ki_last item)], kl_o := kl_o r @ [f32_or_zero C (ki_first item)],
     kl_h := kl_h r @ [f32_or_zero C (ki_max item)], kl_l := kl_l r @ [f32_or_zero C (ki_min item)],
     kl_v := kl_v r @ [f32_or_zero C (ki_sum item)]\<rparr>"

fun kline_loop :: "'f chart_lib \<Rightarrow> (query_error + kline_item) list \<Rightarrow> 'f kline_result \<Rightarrow> rpc_error + 'f kline_result" where
  "kline_loop C [] r = Inr r"
| "kline_loop C (Inl e # rows) r = Inl (rpc_error_of_sqlx e)"
| "kline_loop C (Inr item # rows) r = kline_loop C rows (kline_push C item r)"

definition kline_empty :: "'f kline_result" where
  "kline_empty = \<lparr>kl_s = ''ok'', kl_t = [], kl_c = [], kl_o = [], kl_h = [], kl_l = [], kl_v = [], kl_nxt = None\<rparr>"

text \<open>
  \<open>query\<close> is the aggregation per time bucket and \<open>next_time\<close> the query for the latest earlier trade. The mock mode
  answers with random candles, the argument \<open>mock\<close>; it may panic.
\<close>

definition history ::
  "'f chart_lib \<Rightarrow> (kline_req \<Rightarrow> 'f kline_result option) \<Rightarrow> (u64 \<Rightarrow> string \<Rightarrow> timestamp \<Rightarrow> timestamp \<Rightarrow> (query_error + kline_item) list) \<Rightarrow>
   (timestamp \<Rightarrow> query_error + timestamp option) \<Rightarrow> kline_req \<Rightarrow> (rpc_error + 'f kline_result) option" where
  "history C mock query next_time req =
     (if kr_usemock req \<noteq> None then map_option Inr (mock req)
      else Some (case kline_loop C (query (scast (kr_resolution req) * 60) (kr_symbol req) (of_int (sint (kr_from req))) (of_int (sint (kr_to req))))
                  kline_empty of
        Inl e \<Rightarrow> Inl e
      | Inr r \<Rightarrow>
          if kl_t r = [] then
            (case next_time (of_int (sint (kr_from req))) of
               Inl e \<Rightarrow> Inl (rpc_error_of_sqlx e)
             | Inr nxt \<Rightarrow> Inr (r\<lparr>kl_s := ''no_data'', kl_nxt := map_option (\<lambda>x. word_of_int \<lfloor>x\<rfloor>) nxt\<rparr>))
          else Inr r))"

section \<open>Who reaches the administration\<close>

lemma starts_with_both:
  assumes "starts_with s p" and "starts_with s q"
  shows "take (min (length p) (length q)) p = take (min (length p) (length q)) q"
proof -
  have "take k p = take k s" if "k \<le> length p" for k
    using assms(1) that by (metis min.absorb1 starts_with_def take_take)
  moreover have "take k q = take k s" if "k \<le> length q" for k
    using assms(2) that by (metis min.absorb1 starts_with_def take_take)
  ultimately show ?thesis by simp
qed

lemma endpoints_apart:
  "list_all (\<lambda>q. take (min (length p) (length q)) p \<noteq> take (min (length p) (length q)) q) PUBLIC_ENDPOINTS"
  if "p = ''/api/exchange/panel/manage''"
  unfolding that by code_simp

lemma manage_not_public:
  assumes "starts_with path ''/api/exchange/panel/manage''"
  shows "\<not> list_ex (starts_with path) PUBLIC_ENDPOINTS"
  using starts_with_both [OF assms] endpoints_apart [OF refl] by (auto simp: list_ex_iff list_all_iff)

text \<open>
  A request reaches a handler of the REST service's administration only with a token that the exchange's key
  verifies, that is within its time limits and carries the administrator role; the handler is given exactly that user,
  and the token when markets are to be reloaded. Every path that is not public needs a valid token.
\<close>

theorem rest_admin_only:
  assumes "validator J gs now path credentials = Some (Inr r)" and "\<not> list_ex (starts_with path) PUBLIC_ENDPOINTS \<or>
    starts_with path ''/api/exchange/panel/manage''"
  shows "\<exists>key token. from_rsa_pem J (st_keycloak_pubkey gs) = Some key \<and> jwt_decode J credentials key = Inr token \<and>
    ensure_timely_boundaries now token \<and>
    r = Some (get_user_extension gs token, if path = MARKET_RELOAD_ENDPOINT then Some credentials else None) \<and>
    (starts_with path ''/api/exchange/panel/manage'' \<longrightarrow> has_role token (st_keycloak_admin_role gs))"
proof -
  have "\<not> list_ex (starts_with path) PUBLIC_ENDPOINTS" using assms(2) manage_not_public by blast
  with assms(1) show ?thesis
    by (auto simp: validator_def rest_auth_def validate_jwt_def rest_block_non_admins_def ADMIN_ENDPOINTS_def get_user_extension_def
        split: Option.bind_splits sum.splits if_splits)
qed

definition admin_jwt :: "unit jwt_lib" where
  "admin_jwt = \<lparr>from_rsa_pem = (\<lambda>_. Some ()), jwt_decode = (\<lambda>s _. if s = ''tok''
     then Inr \<lparr>cl_exp = 5100, cl_iat = 4900, cl_sub = 2, cl_realm_access = Some [''adm'']\<rparr> else Inl ''bad token'')\<rparr>"

theorem rest_admin_only_witness:
  "\<exists>key token. from_rsa_pem admin_jwt (st_keycloak_pubkey demo_gs) = Some key \<and> jwt_decode admin_jwt ''tok'' key = Inr token \<and>
    has_role token (st_keycloak_admin_role demo_gs)"
proof -
  have "validator admin_jwt demo_gs (5000, 5000) MARKET_RELOAD_ENDPOINT ''tok'' =
      Some (Inr (Some (\<lparr>ux_user_id = 2, ux_is_admin = True, ux_is_deposit_admin = False, ux_is_withdrawal_admin = False\<rparr>, Some ''tok'')))"
    by code_simp
  moreover have "starts_with MARKET_RELOAD_ENDPOINT ''/api/exchange/panel/manage''" by code_simp
  ultimately show ?thesis using rest_admin_only [of admin_jwt demo_gs "(5000, 5000)" MARKET_RELOAD_ENDPOINT "''tok''"] by blast
qed

section \<open>Pages of a user's orders\<close>

lemma concat_pages:
  "length xs \<le> n * l \<Longrightarrow> concat (map (\<lambda>k. take l (drop (k * l) xs)) [0..<n]) = xs"
proof (induction n arbitrary: xs)
  case (Suc n)
  have shift: "map (\<lambda>k. take l (drop (k * l) xs)) [0..<Suc n] =
      take l xs # map (\<lambda>k. take l (drop (k * l) (drop l xs))) [0..<n]"
    by (simp add: upt_conv_Cons map_Suc_upt [symmetric] add.commute del: upt_Suc)
  from Suc.prems have "length (drop l xs) \<le> n * l" by simp
  from Suc.IH [OF this] show ?case unfolding shift by (simp only: concat.simps append_take_drop_id)
qed simp

text \<open>
  Asking for the pages of a user's closed orders one after the other, with any page size up to a hundred, yields
  each order of that user (and of the market asked for) exactly once, newest first, and no order of anybody else; each page reports the
  total number.
\<close>

theorem my_orders_pages:
  assumes "ext = Some (x, jwt)" and "0 < l" and "l \<le> 100"
    and "\<forall>k < n. query_number (qs k) ''limit'' 20 = l \<and> query_number (qs k) ''offset'' 0 = k * l"
    and "length (filter (my_orders_condition E market (ux_user_id x)) table) \<le> n * l"
  shows "\<exists>pages. (\<forall>k < n. my_orders E None None table market ext (qs k) = Some (Inr (pages k)) \<and>
      or_total (pages k) = length (filter (my_orders_condition E market (ux_user_id x)) table)) \<and>
    concat (map (\<lambda>k. or_orders (pages k)) [0..<n]) =
      sort_key (\<lambda>r. - sint (oh_id r)) (filter (my_orders_condition E market (ux_user_id x)) table) \<and>
    (\<forall>k < n. \<forall>r \<in> set (or_orders (pages k)). r \<in> set table \<and> oh_user_id r = uuid_to_string E (ux_user_id x))"
proof -
  let ?rows = "filter (my_orders_condition E market (ux_user_id x)) table"
  let ?sorted = "sort_key (\<lambda>r. - sint (oh_id r)) ?rows"
  define pages where "pages k = \<lparr>or_total = length ?rows, or_orders = take l (drop (k * l) ?sorted)\<rparr>" for k
  have run: "my_orders E None None table market ext (qs k) = Some (Inr (pages k))" if "k < n" for k
    using assms that by (simp add: my_orders_def pages_def Let_def)
  have "concat (map (\<lambda>k. or_orders (pages k)) [0..<n]) = ?sorted"
    unfolding pages_def using concat_pages [of ?sorted n l] assms(5) by simp
  moreover have "r \<in> set table \<and> oh_user_id r = uuid_to_string E (ux_user_id x)" if "r \<in> set (or_orders (pages k))" for r k
  proof -
    from that have "r \<in> set (take l (drop (k * l) ?sorted))" by (simp add: pages_def)
    then have "r \<in> set ?sorted" by (rule in_set_dropD [OF in_set_takeD])
    then show ?thesis by (auto simp: my_orders_condition_def split: if_splits)
  qed
  moreover have "or_total (pages k) = length ?rows" for k by (simp add: pages_def)
  ultimately show ?thesis using run by blast
qed

definition rest_row :: "i64 \<Rightarrow> string \<Rightarrow> order_history" where
  "rest_row i u = \<lparr>oh_id = i, oh_create_time = 0, oh_finish_time = 0, oh_status = Filled, oh_user_id = u, oh_market = ''BTC_USDT'',
     oh_order_type = LIMIT, oh_order_side = ASK, oh_price = 1, oh_amount = 1, oh_taker_fee = 0, oh_maker_fee = 0, oh_finished_base = 1,
     oh_finished_quote = 1, oh_finished_fee = 0, oh_post_only = False\<rparr>"

definition rest_rows :: "order_history list" where
  "rest_rows = [rest_row 4 (uuid_to_string ref_env 2), rest_row 5 ''other'', rest_row 7 (uuid_to_string ref_env 2)]"

definition rest_qs :: "nat \<Rightarrow> (string \<times> string) list" where
  "rest_qs k = [(''limit'', ''1''), (''offset'', if k = 0 then ''0'' else ''1'')]"

lemma rest_uuid: "uuid_to_string ref_env 2 \<noteq> ''other''"
  by (simp add: ref_env_def ref_show.simps)

theorem my_orders_pages_witness:
  "\<exists>pages. my_orders ref_env None None rest_rows ''all'' (Some (demo_ext, None)) (rest_qs 1) = Some (Inr (pages (1 :: nat))) \<and>
    map oh_id (concat (map (\<lambda>k. or_orders (pages k)) [0..<2])) = [7, 4]"
proof -
  have rows: "filter (my_orders_condition ref_env ''all'' 2) rest_rows = [rest_row 4 (uuid_to_string ref_env 2), rest_row 7 (uuid_to_string ref_env 2)]"
    by (simp add: rest_rows_def my_orders_condition_def rest_row_def rest_uuid rest_uuid [symmetric])
  have "query_number (rest_qs k) ''limit'' 20 = 1 \<and> query_number (rest_qs k) ''offset'' 0 = k * 1" if "k < 2" for k
  proof -
    from that have "k = 0 \<or> k = 1" by auto
    moreover have "query_number (rest_qs 0) ''limit'' 20 = 1 \<and> query_number (rest_qs 0) ''offset'' 0 = 0"
      "query_number (rest_qs 1) ''limit'' 20 = 1 \<and> query_number (rest_qs 1) ''offset'' 0 = 1" by code_simp+
    ultimately show ?thesis by auto
  qed
  moreover have "map oh_id (sort_key (\<lambda>r. - sint (oh_id r)) [rest_row 4 (uuid_to_string ref_env 2), rest_row 7 (uuid_to_string ref_env 2)]) = [7, 4]"
    by (simp add: rest_row_def)
  ultimately show ?thesis
    using my_orders_pages [of "Some (demo_ext, None)" demo_ext None 1 2 rest_qs ref_env "''all''" rest_rows]
    by (force simp: demo_ext_def rows)
qed

section \<open>Freshness of the ticker\<close>

definition chart_laws :: "'f chart_lib \<Rightarrow> bool" where
  "chart_laws C \<longleftrightarrow>
     (\<forall>d d'. ch_from_std C d = Inr d' \<longrightarrow> d' = d) \<and>
     (\<forall>t d t'. ch_duration_trunc C t d = Inr t' \<longrightarrow> t' \<le> t \<and> t - d < t')"

lemma chart_lawsD:
  assumes "chart_laws C"
  shows "ch_from_std C d = Inr d' \<Longrightarrow> d' = d" and "ch_duration_trunc C t d = Inr t' \<Longrightarrow> t' \<le> t \<and> t - d < t'"
  using assms by (auto simp: chart_laws_def)

lemma unat_unix_secs: "0 \<le> t \<Longrightarrow> t < 2 ^ 64 \<Longrightarrow> int (unat (unix_secs t)) = \<lfloor>t\<rfloor>"
proof -
  assume t: "0 \<le> t" "t < 2 ^ 64"
  then have "0 \<le> \<lfloor>t\<rfloor>" "\<lfloor>t\<rfloor> < 2 ^ 64" by (simp_all add: floor_less_iff)
  then have "uint (unix_secs t) = \<lfloor>t\<rfloor>" by (simp add: unix_secs_def uint_word_of_int_eq take_bit_int_eq_self)
  then show ?thesis by (simp only: uint_nat)
qed

lemma cache_valid_near:
  assumes "cache_valid d cached_to now_secs = Some True"
  shows "\<bar>of_nat (unat now_secs) - of_nat (unat cached_to)\<bar> < d"
  using assms by (auto simp: cache_valid_def dur_add_def dur_sub_def Let_def split: if_splits)

lemma ticker_query_near:
  assumes laws: "chart_laws C" and run: "ticker_query C conf query now ticker_inv market = Inr r"
    and now: "ticker_update_interval conf \<le> now" "0 \<le> ticker_update_interval conf" "now < 2 ^ 64"
  shows "\<bar>of_int \<lfloor>now\<rfloor> - of_nat (unat (tr_to r))\<bar> < ticker_update_interval conf + 1"
proof -
  from run laws obtain now_ts where ts: "now_ts \<le> now" "now - ticker_update_interval conf < now_ts" and r: "tr_to r = unix_secs now_ts"
    by (auto simp: ticker_query_def ticker_result_of_def Let_def split: sum.splits option.splits
        dest!: chart_lawsD(1) [OF laws] dest: chart_lawsD(2) [OF laws])
  have "int (unat (tr_to r)) = \<lfloor>now_ts\<rfloor>" unfolding r using ts now by (intro unat_unix_secs) linarith+
  then have eq: "(of_nat (unat (tr_to r)) :: rat) = of_int \<lfloor>now_ts\<rfloor>" by (metis of_int_of_nat_eq)
  have "\<lfloor>now_ts\<rfloor> \<le> \<lfloor>now\<rfloor>" using ts(1) by (rule floor_mono)
  moreover have "now_ts < of_int \<lfloor>now_ts\<rfloor> + 1" "of_int \<lfloor>now\<rfloor> \<le> now" by linarith+
  ultimately show ?thesis unfolding eq using ts(2) by linarith
qed

text \<open>
  Whatever the ticker answers with, from its cache or from the database, describes a moment less than the update
  interval and a second away from now, and it is what the cache holds for the market afterwards; the entries of other markets
  stay as they are.
\<close>

theorem ticker_fresh:
  assumes "chart_laws C" and "ticker C conf query now ticker_inv market cache = Some (cache', Inr r)"
    and "0 \<le> ticker_update_interval conf" and "ticker_update_interval conf \<le> now" and "now < 2 ^ 64"
  shows "\<bar>of_int \<lfloor>now\<rfloor> - of_nat (unat (tr_to r))\<bar> < ticker_update_interval conf + 1 \<and>
    map_of cache' market = Some r \<and> (\<forall>n. n \<noteq> market \<longrightarrow> map_of cache' n = map_of cache n)"
proof -
  have now0: "0 \<le> now" using assms(3,4) by simp
  have "int (unat (unix_secs now)) = \<lfloor>now\<rfloor>" using now0 assms(5) by (rule unat_unix_secs)
  then have now_eq: "(of_nat (unat (unix_secs now)) :: rat) = of_int \<lfloor>now\<rfloor>" by (metis of_int_of_nat_eq)
  consider (hit) "cache' = cache" "map_of cache market = Some r"
      "cache_valid (ticker_update_interval conf) (tr_to r) (unix_secs now) = Some True"
    | (asked) inv where "ticker_query C conf query now inv market = Inr r" "cache' = AList.update market r cache"
    using assms(2) by (auto simp: ticker_def split: Option.bind_splits option.splits sum.splits if_splits)
  then show ?thesis
  proof cases
    case hit
    with cache_valid_near [OF hit(3)] show ?thesis unfolding now_eq by simp
  next
    case asked
    with ticker_query_near [OF assms(1) asked(1) assms(4,3,5)] show ?thesis by (simp add: update_conv')
  qed
qed

definition demo_chart :: "rat chart_lib" where
  "demo_chart = \<lparr>ch_parse_duration = (\<lambda>s. if s = ''24h'' then Some 86400 else None),
     ch_duration_trunc = (\<lambda>t d. if 0 < d then Inr (of_int \<lfloor>t / d\<rfloor> * d) else Inl ''duration''), ch_from_std = Inr,
     ch_checked_sub_signed = (\<lambda>t d. Some (t - d)), ch_checked_sub = (\<lambda>a b. Some (a - b)),
     ch_checked_div = (\<lambda>a b. if b = 0 then None else Some (a / b)), ch_to_f32 = Some, ch_zero = 0, ch_no_change = 99999 / 10\<rparr>"

lemma demo_chart_laws: "chart_laws demo_chart"
proof -
  have "of_int \<lfloor>t / d\<rfloor> * d \<le> t \<and> t - d < of_int \<lfloor>t / d\<rfloor> * d" if "0 < d" for t d :: rat
  proof -
    have "of_int \<lfloor>t / d\<rfloor> \<le> t / d" "t / d < of_int \<lfloor>t / d\<rfloor> + 1" by linarith+
    then have "of_int \<lfloor>t / d\<rfloor> * d \<le> t" "t < (of_int \<lfloor>t / d\<rfloor> + 1) * d"
      unfolding pos_le_divide_eq [OF that] pos_divide_less_eq [OF that] by this+
    then show ?thesis by (simp add: algebra_simps)
  qed
  then show ?thesis by (simp add: chart_laws_def demo_chart_def)
qed

theorem ticker_fresh_witness:
  "\<exists>cache r. ticker demo_chart default_trading
      (\<lambda>_ _. Inr \<lparr>ti_first = Some 1, ti_last = Some 2, ti_max = Some 2, ti_min = Some 1, ti_sum = Some 3, ti_quote_sum = Some 4\<rparr>)
      100008 ''24h'' ''BTC_USDT'' [] = Some (cache, Inr r) \<and>
    \<bar>of_int \<lfloor>100008 :: rat\<rfloor> - of_nat (unat (tr_to r))\<bar> < (6 :: rat) \<and> map_of cache ''BTC_USDT'' = Some r"
proof -
  let ?q = "\<lambda>_ _. Inr \<lparr>ti_first = Some 1, ti_last = Some 2, ti_max = Some 2, ti_min = Some 1, ti_sum = Some 3, ti_quote_sum = Some 4\<rparr>"
  obtain r where run: "ticker demo_chart default_trading ?q 100008 ''24h'' ''BTC_USDT'' [] = Some ([(''BTC_USDT'', r)], Inr r)"
    by (simp add: ticker_def ticker_query_def demo_chart_def default_trading_def)
  have "\<bar>of_int \<lfloor>100008 :: rat\<rfloor> - of_nat (unat (tr_to r))\<bar> < (6 :: rat)" "map_of [(''BTC_USDT'', r)] ''BTC_USDT'' = Some r"
    using ticker_fresh [OF demo_chart_laws run] by (simp_all add: default_trading_def)
  with run show ?thesis by blast
qed

text \<open>The cache does not distinguish the intervals asked for: a valid entry answers every interval.\<close>

lemma ticker_ignores_interval:
  assumes "map_of cache market = Some r" and "cache_valid (ticker_update_interval conf) (tr_to r) (unix_secs now) = Some True"
    and "ch_parse_duration C ticker_inv \<noteq> None"
  shows "ticker C conf query now ticker_inv market cache = Some (cache, Inr r)"
  using assms by (auto simp: ticker_def)

section \<open>Symbols\<close>

lemma split_symbol_plain: "\<forall>c \<in> set s. c \<noteq> CHR ''-'' \<and> c \<noteq> CHR ''_'' \<Longrightarrow> split_symbol s = [s]"
  by (induction s) auto

lemma split_symbol_pair:
  assumes "\<forall>c \<in> set a. c \<noteq> CHR ''-'' \<and> c \<noteq> CHR ''_''"
  shows "split_symbol (a @ CHR ''_'' # s) = a # split_symbol s"
  using assms by (induction a) auto

lemma resolve_exchange:
  assumes "CHR '':'' \<notin> set e"
  shows "resolve_canionical_symbol (e @ CHR '':'' # s) = (Some e, s)"
  using assms by (auto simp: resolve_canionical_symbol_def takeWhile_append dropWhile_append)

text \<open>
  A chart finds a market by the names of its two assets, in either order and with or without the exchange in
  front, when no other market trades the same pair: the answer is that market's symbol.
\<close>

theorem pair_symbol_resolves:
  assumes "r \<in> set table" and "md_base_asset r = a" and "md_quote_asset r = b"
    and "\<forall>c \<in> set a \<union> set b. c \<noteq> CHR ''-'' \<and> c \<noteq> CHR ''_'' \<and> c \<noteq> CHR '':''"
    and "\<forall>r' \<in> set table. {md_base_asset r', md_quote_asset r'} = {a, b} \<longrightarrow> r' = r"
    and "s \<in> {a @ ''_'' @ b, b @ ''_'' @ a, ''test:'' @ a @ ''_'' @ b, ''test:'' @ b @ ''_'' @ a}"
  shows "symbols repr None fails table s = Inr (symbol_of_desc repr r)"
proof -
  define plain where "plain p q = p @ CHR ''_'' # q" for p q :: string
  have sp: "split_symbol (plain p q) = [p, q] \<and> CHR '':'' \<notin> set (plain p q) \<and> (\<exists>rest. pair_rows p q table = r # rest)"
    if "p = a \<and> q = b \<or> p = b \<and> q = a" for p q
  proof (intro conjI)
    have "\<forall>c \<in> set p. c \<noteq> CHR ''-'' \<and> c \<noteq> CHR ''_'' \<and> c \<noteq> CHR '':''" "\<forall>c \<in> set q. c \<noteq> CHR ''-'' \<and> c \<noteq> CHR ''_'' \<and> c \<noteq> CHR '':''"
      using assms(4) that by blast+
    then show "split_symbol (plain p q) = [p, q]" "CHR '':'' \<notin> set (plain p q)"
      by (auto simp: plain_def split_symbol_pair split_symbol_plain)
    have "r \<in> set (pair_rows p q table)" using assms(1,2,3) that by (auto simp: pair_rows_def)
    moreover have "r' = r" if "r' \<in> set (pair_rows p q table)" for r'
    proof -
      from that have "r' \<in> set table" "{md_base_asset r', md_quote_asset r'} = {a, b}"
        using \<open>p = a \<and> q = b \<or> p = b \<and> q = a\<close> unfolding pair_rows_def by auto
      then show ?thesis using assms(5) by blast
    qed
    ultimately show "\<exists>rest. pair_rows p q table = r # rest"
      by (metis list.set_cases list.set_intros(1))
  qed
  obtain p q where pq: "p = a \<and> q = b \<or> p = b \<and> q = a" and s: "s = plain p q \<or> s = ''test'' @ CHR '':'' # plain p q"
    using assms(6) unfolding plain_def by fastforce
  have "snd (resolve_canionical_symbol s) = plain p q"
    using s sp [OF pq] resolve_exchange [of "''test''" "plain p q"] by (auto simp: resolve_canionical_symbol_def)
  then obtain e where "resolve_canionical_symbol s = (e, plain p q)" by (metis prod.collapse)
  then show ?thesis using sp [OF pq] by (auto simp: symbols_def fetch_optional_def)
qed

definition rest_desc :: market_desc where
  "rest_desc = \<lparr>md_id = 1, md_create_time = None, md_base_asset = ''BTC'', md_quote_asset = ''USDT'', md_precision_amount = 4,
     md_precision_price = 2, md_precision_fee = 2, md_min_amount = 1 / 100, md_market_name = Some ''coin''\<rparr>"

theorem pair_symbol_resolves_witness:
  "symbols (\<lambda>_. (2, 1)) None None [rest_desc] ''test:USDT_BTC'' = Inr (symbol_of_desc (\<lambda>_. (2, 1)) rest_desc)"
  by (rule pair_symbol_resolves [where r = rest_desc and a = "''BTC''" and b = "''USDT''"]) (simp_all add: rest_desc_def)

text \<open>
  A market that is only known by its name is not found when the exchange stands in front of it: the second query is
  bound to the symbol as given.
\<close>

lemma named_symbol_missed:
  assumes "CHR '':'' \<notin> set e" and "length (split_symbol n) \<noteq> 2" and "\<forall>r \<in> set table. md_market_name r \<noteq> Some (e @ CHR '':'' # n)"
  shows "symbols repr fails None table (e @ CHR '':'' # n) = Inl (rpc_error_new NotFound ''db query nothing'')"
proof -
  have "filter (\<lambda>r. md_market_name r = Some (e @ CHR '':'' # n)) table = []" using assms(3) by (simp add: filter_empty_conv)
  then show ?thesis using assms(2)
    by (simp add: symbols_def resolve_exchange [OF assms(1)] fetch_one_def rpc_error_of_sqlx_def)
qed

section \<open>Candles\<close>

lemma kline_loop_rows:
  "kline_loop C (map Inr rows) r = Inr (r\<lparr>
     kl_t := kl_t r @ map (\<lambda>i. case ki_ts i of Some t \<Rightarrow> word_of_int \<lfloor>t\<rfloor> | None \<Rightarrow> 0) rows,
     kl_c := kl_c r @ map (\<lambda>i. f32_or_zero C (ki_last i)) rows, kl_o := kl_o r @ map (\<lambda>i. f32_or_zero C (ki_first i)) rows,
     kl_h := kl_h r @ map (\<lambda>i. f32_or_zero C (ki_max i)) rows, kl_l := kl_l r @ map (\<lambda>i. f32_or_zero C (ki_min i)) rows,
     kl_v := kl_v r @ map (\<lambda>i. f32_or_zero C (ki_sum i)) rows\<rparr>)"
  by (induction rows arbitrary: r) (simp_all add: kline_push_def)

text \<open>The six columns of a chart have one entry per candle; a chart without candles says so.\<close>

lemma history_columns:
  assumes "kr_usemock req = None" and "\<And>b s f t. query b s f t = map Inr rows" and "history C mock query next_time req = Some (Inr r)"
  shows "length (kl_t r) = length rows \<and> length (kl_c r) = length rows \<and> length (kl_o r) = length rows \<and>
    length (kl_h r) = length rows \<and> length (kl_l r) = length rows \<and> length (kl_v r) = length rows \<and>
    kl_s r = (if rows = [] then ''no_data'' else ''ok'')"
  using assms by (auto simp: history_def kline_loop_rows kline_empty_def split: if_splits sum.splits)

end
