(* ===== verification/UnitTests.thy ===== *)
theory UnitTests
  imports MarketTests DbWriter StateSave RestQuery
begin

text \<open>
  The unit tests outside the market, run on the model: the progress stack and the notifications of
  \<^verbatim>\<open>src/storage/database.rs\<close>, the statements of \<^verbatim>\<open>src/storage/sqlxextend.rs\<close> and
  \<^verbatim>\<open>src/matchengine/persist/state_save_load.rs\<close>, the keys of \<^verbatim>\<open>src/matchengine/market/order.rs\<close> and the symbols of
  \<^verbatim>\<open>src/restapi/tradingview.rs\<close>. A failed assertion is the value \<open>None\<close>.
\<close>

section \<open>Progress stack\<close>

definition prepare_progtracking_stack :: prog_stack where
  "prepare_progtracking_stack = (
     let ret = [];
         ret = push_top 1 ret;
         ret = push_top 3 ret;
         ret = push_top 5 ret;
         ret = push_top 4 ret;
         ret = push_top 2 ret
     in ret)"

definition test_progtracking_stack_push :: "unit option" where
  "test_progtracking_stack_push = (let c = prepare_progtracking_stack in do {
     assert_that (5 \<le> length c);
     assert_that (fst (c ! 0) = 1);
     assert_that (fst (c ! 1) = 2);
     assert_that (fst (c ! 2) = 3);
     assert_that (fst (c ! 3) = 4);
     assert_that (fst (c ! 4) = 5)
   })"

text \<open>Popping a number and comparing the result.\<close>

definition pop_assert :: "u64 \<Rightarrow> u64 option \<Rightarrow> prog_stack \<Rightarrow> prog_stack option" where
  "pop_assert n expected st = (let (st, r) = pop_top n st in do { assert_that (r = expected); Some st })"

definition test_progtracking_stack_pop_1 :: "unit option" where
  "test_progtracking_stack_pop_1 = do {
     c \<leftarrow> pop_assert 1 (Some 1) prepare_progtracking_stack;
     c \<leftarrow> pop_assert 4 None c;
     c \<leftarrow> pop_assert 2 (Some 2) c;
     c \<leftarrow> pop_assert 3 (Some 4) c;
     c \<leftarrow> pop_assert 5 (Some 5) c;
     assert_that (c = [])
   }"

definition test_progtracking_stack_pop_2 :: "unit option" where
  "test_progtracking_stack_pop_2 = do {
     c \<leftarrow> pop_assert 4 None prepare_progtracking_stack;
     c \<leftarrow> pop_assert 2 None c;
     c \<leftarrow> pop_assert 1 (Some 2) c;
     c \<leftarrow> pop_assert 5 None c;
     c \<leftarrow> pop_assert 3 (Some 5) c;
     assert_that (c = [])
   }"

section \<open>Notifications\<close>

text \<open>Two hash maps are equal when they have the same entries.\<close>

definition same_entries :: "notify_flag \<Rightarrow> notify_flag \<Rightarrow> bool" where
  "same_entries a b \<longleftrightarrow> list_all (\<lambda>k. map_of a k = map_of b k) (map fst a @ map fst b)"

definition test_tasknotification :: "unit option" where
  "test_tasknotification = (
     let target = add_to (1, 8) (add_to (2, 7) (add_to (1, 5) []))
     in do {
       assert_that (same_entries target [(1, 8), (2, 7)]);
       let target = add_to (2, 5) (add_to (3, 9) (add_to (3, 3) target));
       assert_that (same_entries target [(1, 8), (2, 7), (3, 9)]);
       let target = add_to (1, 11) (add_to (3, 10) target);
       assert_that (same_entries target [(1, 11), (2, 7), (3, 10)])
     })"

definition test_progtracing :: "unit option" where
  "test_progtracing = (
     let case1 = [(1, 2), (2, 1), (3, 3)];
         case2 = [(1, 3), (3, 1)];
         case3 = [(1, 1), (2, 2), (3, 2)];
         target = update_from case3 (update_from case2 (update_from case1 []));
         (target, out) = finish_from case2 target
     in do {
       assert_that (same_entries out [(3, 1)]);
       let (target, out) = finish_from case3 target;
       assert_that (same_entries out [(1, 1), (3, 2)]);
       let (target, out) = finish_from case1 target;
       assert_that (same_entries out [(1, 3), (2, 2), (3, 3)])
     })"

section \<open>Statements\<close>

definition gen_insert_str :: "int \<times> int list \<Rightarrow> string" where
  "gen_insert_str i = join_args (map show_arg (expand_argsn i))"

definition table_schema_args :: "unit option" where
  "table_schema_args = do {
     assert_that (gen_insert_str (4, []) = ''$1,$2,$3,$4'');
     assert_that (gen_insert_str (4, [3]) = ''$1,$2,DEFAULT,$3,$4'');
     assert_that (gen_insert_str (4, [1]) = ''DEFAULT,$1,$2,$3,$4'');
     assert_that (gen_insert_str (4, [1, 6, 7]) = ''DEFAULT,$1,$2,$3,$4,DEFAULT,DEFAULT'');
     assert_that (gen_insert_str (1, [1, 2, 3]) = ''DEFAULT,DEFAULT,DEFAULT,$1'');
     assert_that (gen_insert_str (1, [1, 2, 4]) = ''DEFAULT,DEFAULT,$1,DEFAULT'')
   }"

definition TestSchema :: "unit table" where
  "TestSchema = \<lparr>tb_name = ''just_test'', tb_argn = 3, tb_default_argsn = [], tb_bind_args = (\<lambda>_. [])\<rparr>"

text \<open>The statement for one row does not depend on it.\<close>

definition insert_sql_statement_rt :: "'q table \<Rightarrow> 'q \<Rightarrow> string" where
  "insert_sql_statement_rt t q = insert_sql_statement t"

definition table_statement :: "unit option" where
  "table_statement = do {
     assert_that (insert_sql_statement TestSchema = ''INSERT INTO just_test VALUES ($1,$2,$3)'');
     assert_that (insert_sql_statement_rt TestSchema () = ''INSERT INTO just_test VALUES ($1,$2,$3)'');
     assert_that (batch_sql_statement_rt TestSchema [(), ()] =
       ''INSERT INTO just_test VALUES ($1,$2,$3),($4,$5,$6) ON CONFLICT DO NOTHING'');
     assert_that (batch_sql_statement_rt TestSchema [()] =
       ''INSERT INTO just_test VALUES ($1,$2,$3) ON CONFLICT DO NOTHING'')
   }"

text \<open>The names of the tables, and the statements of the slices and the log with what \<^verbatim>\<open>format!\<close> puts in.\<close>

definition ASSET :: string where "ASSET = ''asset''"
definition MARKET_TABLE :: string where "MARKET_TABLE = ''market''"
definition OPERATIONLOG :: string where "OPERATIONLOG = ''operation_log''"
definition ORDERSLICE :: string where "ORDERSLICE = ''order_slice''"
definition BALANCESLICE :: string where "BALANCESLICE = ''balance_slice''"
definition SLICEHISTORY :: string where "SLICEHISTORY = ''slice_history''"

definition last_slice_statement :: string where
  "last_slice_statement = ''select * from '' @ SLICEHISTORY @ '' order by id desc limit 1''"

definition load_slice_statement :: "string \<Rightarrow> string" where
  "load_slice_statement tb = ''select * from '' @ tb @ '' where slice_id = $1 and id > $2 order by id asc limit '' @ show_nat QUERY_LIMIT"

definition load_log_statement :: string where
  "load_log_statement = ''select * from '' @ OPERATIONLOG @ '' where id > $1 order by id asc limit '' @ show_nat QUERY_LIMIT"

definition delete_slice_statement :: "string \<Rightarrow> string" where
  "delete_slice_statement tb = ''delete from '' @ tb @ '' where slice_id = $1''"

definition newer_slices_statement :: string where
  "newer_slices_statement = ''select count(*) from '' @ SLICEHISTORY @ '' where time > $1''"

definition older_slices_statement :: string where
  "older_slices_statement = ''select time from '' @ SLICEHISTORY @ '' where time <= $1''"

definition utest_get_last_slice :: "unit option" where
  "utest_get_last_slice = assert_that (last_slice_statement = ''select * from slice_history order by id desc limit 1'')"

definition utest_load_slice_from_db :: "unit option" where
  "utest_load_slice_from_db = do {
     assert_that (load_slice_statement BALANCESLICE =
       ''select * from balance_slice where slice_id = $1 and id > $2 order by id asc limit 1000'');
     assert_that (load_slice_statement ORDERSLICE =
       ''select * from order_slice where slice_id = $1 and id > $2 order by id asc limit 1000'')
   }"

definition utest_load_operation_log_from_db :: "unit option" where
  "utest_load_operation_log_from_db =
     assert_that (load_log_statement = ''select * from operation_log where id > $1 order by id asc limit 1000'')"

definition utest_delete_slice :: "unit option" where
  "utest_delete_slice = assert_that (delete_slice_statement BALANCESLICE = ''delete from balance_slice where slice_id = $1'')"

definition utest_clear_slice :: "unit option" where
  "utest_clear_slice = do {
     assert_that (newer_slices_statement = ''select count(*) from slice_history where time > $1'');
     assert_that (older_slices_statement = ''select time from slice_history where time <= $1'')
   }"

section \<open>Keys and symbols\<close>

definition test_order_sort :: "unit option" where
  "test_order_sort = do {
     assert_that (bid_key_cmp (MarketKeyBid 0 5) (MarketKeyBid 0 6) = Less);
     assert_that (bid_key_cmp (MarketKeyBid 1 7) (MarketKeyBid 0 6) = Less);
     assert_that (ask_key_cmp (MarketKeyAsk 0 5) (MarketKeyAsk 0 6) = Less);
     assert_that (ask_key_cmp (MarketKeyAsk 1 7) (MarketKeyAsk 0 6) = Greater)
   }"

definition test_symbol_resolution :: "unit option" where
  "test_symbol_resolution = (
     let (ex1, sym1) = resolve_canionical_symbol ''test:USDT_ETH'';
         (ex2, sym2) = resolve_canionical_symbol ''BTC_ETH''
     in do {
       assert_that (ex1 = Some ''test'');
       assert_that (sym1 = ''USDT_ETH'');
       assert_that (ex2 = None);
       assert_that (sym2 = ''BTC_ETH'')
     })"

section \<open>The tests pass\<close>

lemma progress_tests:
  "test_progtracking_stack_push = Some ()" "test_progtracking_stack_pop_1 = Some ()" "test_progtracking_stack_pop_2 = Some ()"
  by code_simp+

lemma notification_tests: "test_tasknotification = Some ()" "test_progtracing = Some ()"
  by code_simp+

lemma statement_tests: "table_schema_args = Some ()" "table_statement = Some ()"
  by code_simp+

lemma slice_statement_tests:
  "utest_get_last_slice = Some ()" "utest_load_slice_from_db = Some ()" "utest_load_operation_log_from_db = Some ()"
  "utest_delete_slice = Some ()" "utest_clear_slice = Some ()"
  by code_simp+

lemma key_tests: "test_order_sort = Some ()" "test_symbol_resolution = Some ()"
  by code_simp+

end
