(* ===== verification/ControllerCalls.thy ===== *)
theory ControllerCalls
  imports ControllerProps EngineCalls
begin

text \<open>
  The controller with its real persistor: an operation that \<^verbatim>\<open>check_service_available\<close> admits hands its
  records over without a panic, as long as the counter side of the book is not larger than the reserve
  of the channel allows.
\<close>

lemma give_back_total:
  assumes "adds_calls E n (lend b c) cx" and "n \<le> 1000" and "check_service_available c" and "connected (c_persistor c)"
  shows "\<exists>c'. give_back E S b cx c = Some c'"
proof -
  from assms(1) have "length (cx_calls cx) \<le> n" "list_all (call_ok E) (cx_calls cx)" by (auto simp: adds_calls_def)
  moreover have "service_available (c_persistor c)" using assms(3) by (simp add: check_service_available_def split: if_splits)
  ultimately have "\<exists>p'. persist_all E S (cx_calls cx) (c_persistor c) = Some p'"
    using px.available_put_all [of "c_persistor c" "cx_calls cx" E S] assms(2,4) by (simp add: persist_all_put_all)
  then show ?thesis by (auto simp: give_back_def)
qed

lemma ctrl_put_order_real:
  assumes inv: "ctrl_inv c" and E: "env_laws E" and req: "put_req_ok E req" and room: "ctrl_room 1 (r_market req) c"
    and small: "\<And>m. map_of (c_markets c) (r_market req) = Some m \<Longrightarrow> length (m_orders m) \<le> 166"
    and avail: "check_service_available c" and live: "connected (c_persistor c)"
  shows "ctrl_put_order E S b req u c \<noteq> None"
proof (cases "map_of (c_markets c) (r_market req)")
  case (Some m)
  note get = this
  have mi: "market_inv m (lend b c)" by (rule exch_market_inv [OF ctrl_exch [OF inv] get])
  show ?thesis
  proof (cases "order_input_try_from E req")
    case (Inr i)
    have "room_for 1 m (lend b c)" using room get by (simp add: ctrl_room_def room_lend(1) [of _ _ b])
    then have "room m (lend b c)" by (intro room_for_room [of 0]) simp
    then have "put_order E i u m (lend b c) \<noteq> None"
      by (intro put.op_total [OF ctrl_exch [OF inv] get]) (use E req Inr in \<open>simp add: put_req_ok_def\<close>)
    then obtain m' cx r where run: "put_order E i u m (lend b c) = Some (m', cx, r)" by (metis not_None_eq prod_cases3)
    have "length (counter_orders m (i_side i)) \<le> 166"
      using length_counter_orders [of m "i_side i"] mi small [OF get] by (simp add: market_inv_def book_ok_def)
    with give_back_total [OF put_order_calls [OF E run] _ avail live, of S] obtain c' where "give_back E S b cx c = Some c'" by auto
    with get Inr run show ?thesis by (auto simp: ctrl_put_order_def)
  qed (simp add: ctrl_put_order_def get)
qed (simp add: ctrl_put_order_def)

lemma order_cancel_real:
  assumes inv: "ctrl_inv c" and E: "env_laws E" and avail: "check_service_available c"
    and live: "connected (c_persistor c)"
  shows "order_cancel E S Q b req u c \<noteq> None"
proof (cases "map_of (c_markets c) (oc_market req)")
  case (Some m)
  note get = this
  have mi: "market_inv m (lend b c)" by (rule exch_market_inv [OF ctrl_exch [OF inv] get])
  show ?thesis
  proof (cases "market_get m (oc_order_id req)")
    case (Some x)
    have "market_cancel E (o_id x) m (lend b c) \<noteq> None"
      by (intro cancel.op_total [OF ctrl_exch [OF inv] get]) (use E Some market_get_id [OF mi Some] in simp)
    then obtain m' cx r where run: "market_cancel E (o_id x) m (lend b c) = Some (m', cx, r)" by (metis not_None_eq prod_cases3)
    from give_back_total [OF market_cancel_calls [OF run] _ avail live, of S] obtain c' where "give_back E S b cx c = Some c'" by auto
    with get Some run show ?thesis by (auto simp: order_cancel_def Let_def)
  qed (simp add: order_cancel_def get)
qed (simp add: order_cancel_def)

text \<open>
  C17: The reserve of the channels suffices for orders. In every state reachable by admissible requests (\<open>operation_ok\<close>: prices, amounts and
  limits not negative, fee rates between 0 and 1, no counter about to wrap), while the producer threads live and in a run in which
  no \<^verbatim>\<open>Decimal\<close> overflows, an admissible request to submit an order to a market with at most 166 resting orders and any
  request to cancel an order return, with a result or an error: no unwrap or index on the way fails, and no record meets a
  full channel. The service check that both make first leaves a thousand places, and an order that meets at most 166 others makes
  at most 998 records.
\<close>

theorem persisted_orders_return:
  assumes "settings_ok gs" and "create_controller gs pool = Some c0" and "env_laws E"
    and "(ctrl_step E S Q)\<^sup>*\<^sup>* c0 c" and "connected (c_persistor c)"
    and "put_req_ok E req" and "ctrl_room 1 (r_market req) c"
    and "\<And>m. map_of (c_markets c) (r_market req) = Some m \<Longrightarrow> length (m_orders m) \<le> 166"
  shows "order_put E S Q True req u c \<noteq> None \<and> order_cancel E S Q True can v c \<noteq> None"
proof -
  have inv: "ctrl_inv c" by (rule reachable_inv [OF assms(4,3) create_controller_inv [OF assms(1,2)]])
  show ?thesis
  proof (cases "check_service_available c")
    case True
    from ctrl_put_order_real [OF inv assms(3,6,7,8) True assms(5), of S True u] obtain c1 r where
      "ctrl_put_order E S True req u c = Some (c1, r)" by fastforce
    then have "order_put E S Q True req u c \<noteq> None" using True by (cases r) (simp_all add: order_put_def)
    with order_cancel_real [OF inv assms(3) True assms(5), of S Q True can v] show ?thesis by simp
  qed (simp add: order_put_def order_cancel_def)
qed

theorem persisted_orders_return_witness:
  "order_put ref_env demo_serde demo_codec True demo_put 1 demo_c2 \<noteq> None"
proof -
  have "connected (c_persistor demo_c2)" "put_req_ok ref_env demo_put" "ctrl_room 1 (r_market demo_put) demo_c2" by code_simp+
  moreover have "\<forall>(n, m) \<in> set (c_markets demo_c2). length (m_orders m) \<le> 166"
    using demo_c2_order by (auto simp: map_eq_Cons_conv)
  then have "\<And>m. map_of (c_markets demo_c2) (r_market demo_put) = Some m \<Longrightarrow> length (m_orders m) \<le> 166"
    by (auto dest!: map_of_SomeD)
  ultimately show ?thesis
    using persisted_orders_return [OF demo_settings_ok demo_c0 ref_env_laws demo_ctrl_reach, of demo_put 1] by blast
qed

end
