(* ===== verification/StateRecover.thy ===== *)
theory StateRecover
  imports StateSave
begin

text \<open>
  A dump writes every row exactly once, paging reads every row exactly once, and what was dumped
  is recovered: balances, order books and counters.
\<close>

section \<open>Dumping writes every row once\<close>

lemma collect_more_eq:
  "length acc < n \<Longrightarrow> collect_more iter n acc =
     (acc @ take (n - length acc) iter, drop (n - length acc) iter)"
proof (induction iter n acc rule: collect_more.induct)
  case (2 i iter n acc)
  show ?case
  proof (cases "length acc + 1 \<ge> n")
    case True
    with 2 have "n - length acc = Suc 0" by simp
    with True show ?thesis by (simp add: Let_def)
  next
    case False
    then have "n - length acc = Suc (n - Suc (length acc))" by simp
    with False 2 show ?thesis by (simp add: Let_def)
  qed
qed simp

lemma collect_n_eq:
  "collect_n iter n acc = (acc @ take (n - length acc) iter, drop (n - length acc) iter)"
  by (simp add: collect_n_def collect_more_eq)

lemma dump_loop_rows:
  assumes "dump_loop query n records iter inserted conn = Some r"
  shows "query_law query got \<longrightarrow> 0 < n \<longrightarrow> (records = [] \<longrightarrow> iter = []) \<longrightarrow>
     got (fst r) = got conn @ records @ iter \<and> snd r = inserted + length records + length iter"
  using assms
proof (induction rule: dump_loop.raw_induct [rotated, consumes 1])
  case (1 loop query n records iter inserted conn r)
  show ?case
  proof (intro impI)
    assume law: "query_law query got" and n: "0 < n" and start: "records = [] \<longrightarrow> iter = []"
    show "got (fst r) = got conn @ records @ iter \<and> snd r = inserted + length records + length iter"
    proof (cases "records = []")
      case True
      with "1"(2) start show ?thesis by auto
    next
      case False
      obtain conn1 res where q: "sql_query_fine query records conn = (conn1, res)" by (cases "sql_query_fine query records conn")
      note split = sql_query_fine_splits [OF law, of records conn, unfolded q]
      show ?thesis
      proof (cases res)
        case (Inl err)
        obtain resident e where err: "err = (resident, e)" by (cases err)
        from split Inl err obtain ok where ok: "resident \<noteq> []" "records = ok @ resident" "got conn1 = got conn @ ok" by auto
        from "1"(2) False q Inl err have
          "loop query n (fst (collect_n iter n resident)) (snd (collect_n iter n resident))
             (inserted + length records - length resident) conn1 = Some r" by simp
        from "1"(1) [OF this] law n ok show ?thesis by (simp add: collect_n_eq)
      next
        case (Inr x)
        with split have ok: "got conn1 = got conn @ records" by simp
        from "1"(2) False q Inr have
          "loop query n (fst (collect_n iter n [])) (snd (collect_n iter n [])) (inserted + length records) conn1 = Some r" by simp
        from "1"(1) [OF this] law n ok show ?thesis by (cases iter) (simp_all add: collect_n_eq)
      qed
    qed
  qed
qed

lemma dump_records_rows:
  assumes "query_law query got" and "0 < n" and "dump_records query rows n conn = Some (conn', k)"
  shows "got conn' = got conn @ rows" and "k = length rows"
proof -
  have "fst (collect_n rows n []) = [] \<longrightarrow> snd (collect_n rows n []) = []"
    using assms(2) by (cases rows) (simp_all add: collect_n_eq)
  with dump_loop_rows [OF assms(3) [unfolded dump_records_def], of got] assms(1,2)
  show "got conn' = got conn @ rows" "k = length rows" by (simp_all add: collect_n_eq)
qed

text \<open>A connection on which only finitely many statements fail: \<open>left\<close> bounds the failures still to come.\<close>

definition finite_failures ::
  "('q list \<Rightarrow> 'd \<Rightarrow> 'd \<times> (sql_error + SqlResultExt)) \<Rightarrow> ('d \<Rightarrow> nat) \<Rightarrow> bool" where
  "finite_failures query left \<longleftrightarrow>
     (\<forall>b c c' r. query b c = (c', Inr r) \<longrightarrow> left c' \<le> left c) \<and>
     (\<forall>b c c' e. query b c = (c', Inl e) \<longrightarrow> left c' < left c)"

lemma finite_failuresD:
  assumes "finite_failures query left"
  shows "query b c = (c', Inr r) \<Longrightarrow> left c' \<le> left c" and "query b c = (c', Inl e) \<Longrightarrow> left c' < left c"
  using assms unfolding finite_failures_def by blast+

lemma batch_loop_failures:
  assumes "finite_failures query left"
  shows "case batch_loop query qr c of (c', Inl _) \<Rightarrow> left c' < left c | (c', Inr _) \<Rightarrow> left c' \<le> left c"
proof (induction qr arbitrary: c rule: measure_induct_rule [of length])
  case (less qr)
  show ?case
  proof (cases "length qr \<ge> 8")
    case True
    then obtain n where n: "2 ^ n \<le> length qr" and
      eq: "batch_loop query qr c = (case query (take (2 ^ n) qr) c of
        (c', Inl e) \<Rightarrow> (c', Inl (qr, e)) | (c', Inr _) \<Rightarrow> batch_loop query (drop (2 ^ n) qr) c')"
      by (rule batch_loop_step [where query = query and c = c])
    obtain c1 r where q: "query (take (2 ^ n) qr) c = (c1, r)" by (cases "query (take (2 ^ n) qr) c")
    have lt: "length (drop (2 ^ n) qr) < length qr" using True by (cases qr) simp_all
    show ?thesis
    proof (cases r)
      case (Inl e)
      with q have "left c1 < left c" by (auto dest: finite_failuresD(2) [OF assms])
      with Inl q eq show ?thesis by simp
    next
      case (Inr x)
      with q have "left c1 \<le> left c" by (auto dest: finite_failuresD(1) [OF assms])
      with Inr q eq less.IH [OF lt, of c1] show ?thesis by (auto split: prod.splits sum.splits)
    qed
  next
    case False
    then show ?thesis by (simp add: batch_loop_done)
  qed
qed

lemma sql_query_fine_failures:
  assumes f: "finite_failures query left"
  shows "case sql_query_fine query qr c of (c', Inl _) \<Rightarrow> left c' < left c | (c', Inr _) \<Rightarrow> left c' \<le> left c"
proof -
  obtain c1 r where l: "batch_loop query qr c = (c1, r)" by (cases "batch_loop query qr c")
  note step = batch_loop_failures [OF f, of c qr, unfolded l]
  show ?thesis
  proof (cases r)
    case (Inr rest)
    obtain c2 s where q: "query rest c1 = (c2, s)" by (cases "query rest c1")
    have "case s of Inl _ \<Rightarrow> left c2 < left c1 | Inr _ \<Rightarrow> left c2 \<le> left c1"
      using finite_failuresD [OF f, of rest c1 c2] q by (cases s) auto
    with l q step Inr show ?thesis by (cases s) (auto simp: sql_query_fine_def)
  qed (use l step in \<open>auto simp: sql_query_fine_def\<close>)
qed

lemma dump_loop_completes:
  assumes law: "query_law query got" and f: "finite_failures query left" and n: "0 < n"
  shows "dump_loop query n records iter inserted conn \<noteq> None"
proof (induction "left conn + length records + length iter" arbitrary: records iter inserted conn rule: less_induct)
  case less
  show ?case
  proof (cases "records = []")
    case True
    then show ?thesis by (subst dump_loop.simps) simp
  next
    case False
    obtain conn1 res where q: "sql_query_fine query records conn = (conn1, res)" by (cases "sql_query_fine query records conn")
    note split = sql_query_fine_splits [OF law, of records conn, unfolded q]
      and fails = sql_query_fine_failures [OF f, of conn records, unfolded q]
    show ?thesis
    proof (cases res)
      case (Inl err)
      obtain resident e where err: "err = (resident, e)" by (cases err)
      with split fails Inl have "length resident \<le> length records" "left conn1 < left conn" by auto
      then have "dump_loop query n (fst (collect_n iter n resident)) (snd (collect_n iter n resident))
          (inserted + length records - length resident) conn1 \<noteq> None"
        by (intro less) (simp add: collect_n_eq)
      with False q Inl err show ?thesis by (subst dump_loop.simps) simp
    next
      case (Inr x)
      with fails False have h: "left conn1 \<le> left conn" "0 < length records" by auto
      have "length (fst (collect_n iter n [])) + length (snd (collect_n iter n [])) = length iter" by (simp add: collect_n_eq)
      with h have "dump_loop query n (fst (collect_n iter n [])) (snd (collect_n iter n [])) (inserted + length records) conn1 \<noteq> None"
        by (intro less) linarith
      with False q Inr show ?thesis by (subst dump_loop.simps) simp
    qed
  qed
qed

text \<open>
  C34: A dump writes every record exactly once and in order, however often the database refuses a
  statement in between: when it returns, the rows accepted are those before followed by the
  records, and the count it reports is their number; and when only finitely many statements
  fail, it does return.
\<close>

theorem dump_records_all:
  assumes "query_law query got" and "finite_failures query left" and "0 < n"
  shows "\<exists>conn'. dump_records query rows n conn = Some (conn', length rows) \<and> got conn' = got conn @ rows"
proof -
  have "dump_records query rows n conn \<noteq> None"
    using dump_loop_completes [OF assms] by (simp add: dump_records_def)
  then obtain conn' k where run: "dump_records query rows n conn = Some (conn', k)" by auto
  from dump_records_rows [OF assms(1,3) run] run show ?thesis by blast
qed

text \<open>
  A connection for the witness: it holds the accepted rows and refuses the first statements of
  more than two rows it is given.
\<close>

definition flaky_insert :: "nat list \<Rightarrow> nat list \<times> nat \<Rightarrow> (nat list \<times> nat) \<times> (sql_error + SqlResultExt)" where
  "flaky_insert b conn = (if 2 < length b \<and> 0 < snd conn then ((fst conn, snd conn - 1), Inl (OtherErr ''''))
     else ((fst conn @ b, snd conn), Inr QueryResult))"

theorem dump_records_all_witness:
  "\<exists>conn'. dump_records flaky_insert [7, 8, 9] 5 ([], 2) = Some (conn', 3) \<and> fst conn' = [7, 8, 9]"
proof -
  have "query_law flaky_insert fst"
    by (auto simp: query_law_def flaky_insert_def split: if_splits)
  moreover have "finite_failures flaky_insert snd"
    by (auto simp: finite_failures_def flaky_insert_def split: if_splits)
  ultimately show ?thesis
    using dump_records_all [of flaky_insert fst snd 5 "[7, 8, 9]" "([], 2)"] by (simp add: numeral_3_eq_3)
qed

section \<open>Paging reads every row once\<close>

lemma distinct_map_filter_sort: "distinct (map f rows) \<Longrightarrow> distinct (map f (sort_key f (filter P rows)))"
  by (simp add: distinct_map inj_on_def)

lemma sort_key_split:
  assumes "distinct (map idf rows)" and "page = take k (sort_key idf (filter (\<lambda>r. n < idf r) rows))" and "page \<noteq> []"
  shows "sort_key idf (filter (\<lambda>r. idf (last page) < idf r) rows) = drop k (sort_key idf (filter (\<lambda>r. n < idf r) rows))"
proof -
  let ?ys = "sort_key idf (filter (\<lambda>r. n < idf r) rows)"
  have d: "distinct (map idf ?ys)"
    by (rule distinct_map_filter_sort [OF assms(1)])
  have st: "sorted_wrt (\<lambda>x y. idf x < idf y) ?ys"
    using d sorted_sort_key [of idf "filter (\<lambda>r. n < idf r) rows"]
    by (metis sorted_wrt_map strict_sorted_iff)
  have ys: "?ys = page @ drop k ?ys" using assms(2) by simp
  have st2: "sorted_wrt (\<lambda>x y. idf x < idf y) (page @ drop k ?ys)" using st ys by simp
  have last_in: "last page \<in> set page" using assms(3) by simp
  have n: "n < idf (last page)" using last_in assms(2) by (auto dest: in_set_takeD)
  have below: "\<not> idf (last page) < idf r" if "r \<in> set page" for r
  proof -
    from st2 have sp: "sorted_wrt (\<lambda>x y. idf x < idf y) page" by (simp add: sorted_wrt_append)
    have "page = butlast page @ [last page]" using assms(3) by simp
    with sp that show ?thesis by (metis Un_iff not_less_iff_gr_or_eq set_ConsD set_append sorted_wrt_append list.set_intros(1) empty_iff empty_set)
  qed
  have above: "idf (last page) < idf r" if "r \<in> set (drop k ?ys)" for r
    using st2 last_in that by (simp add: sorted_wrt_append)
  have "filter (\<lambda>r. idf (last page) < idf r) ?ys = drop k ?ys"
  proof -
    have "filter (\<lambda>r. idf (last page) < idf r) ?ys =
        filter (\<lambda>r. idf (last page) < idf r) page @ filter (\<lambda>r. idf (last page) < idf r) (drop k ?ys)"
      using ys filter_append by metis
    also have "\<dots> = drop k ?ys" using below above by (simp add: filter_empty_conv filter_id_conv)
    finally show ?thesis .
  qed
  moreover have "sort_key idf (filter (\<lambda>r. idf (last page) < idf r) rows) = filter (\<lambda>r. idf (last page) < idf r) ?ys"
  proof -
    have "filter (\<lambda>r. idf (last page) < idf r) ?ys = sort_key idf (filter (\<lambda>r. idf (last page) < idf r) (filter (\<lambda>r. n < idf r) rows))"
      by (rule filter_sort)
    also have "filter (\<lambda>r. idf (last page) < idf r) (filter (\<lambda>r. n < idf r) rows) = filter (\<lambda>r. idf (last page) < idf r) rows"
      using n by (auto intro!: filter_cong)
    finally show ?thesis by simp
  qed
  ultimately show ?thesis by simp
qed

lemma page_loop_eq:
  "distinct (map idf rows) \<Longrightarrow>
     page_loop idf rows f n s = fold_opt f (sort_key idf (filter (\<lambda>r. n < idf r) rows)) s"
proof (induction idf rows f n s rule: page_loop.induct)
  case (1 idf rows f n s)
  let ?ys = "sort_key idf (filter (\<lambda>r. n < idf r) rows)" and ?page = "select_page idf rows n"
  have ys: "?ys = ?page @ drop QUERY_LIMIT ?ys" by (simp add: select_page_def)
  show ?case
  proof (cases "fold_opt f ?page s")
    case None
    then have "fold_opt f ?ys s = None" by (subst ys) (simp add: fold_opt_append)
    with None show ?thesis by (subst page_loop.simps) simp
  next
    case (Some s')
    show ?thesis
    proof (cases "length ?page = QUERY_LIMIT")
      case True
      then have ne: "?page \<noteq> []" by (auto simp: QUERY_LIMIT_def)
      have "page_loop idf rows f (idf (last ?page)) s' = fold_opt f (drop QUERY_LIMIT ?ys) s'"
        using "1.IH" [OF refl Some _ "1.prems"] True sort_key_split [OF "1.prems" select_page_def ne] by simp
      moreover have "fold_opt f ?ys s = fold_opt f (drop QUERY_LIMIT ?ys) s'"
        by (subst ys) (simp add: fold_opt_append Some)
      ultimately show ?thesis using Some True by (subst page_loop.simps) simp
    next
      case False
      then have "?ys = ?page" by (auto simp: select_page_def min_def split: if_splits)
      with Some False show ?thesis by (subst page_loop.simps) simp
    qed
  qed
qed

lemma log_loop_eq:
  "distinct (map idf rows) \<Longrightarrow> ys = sort_key idf (filter (\<lambda>r. n < idf r) rows) \<Longrightarrow>
     log_loop idf rows f n s = map_option (\<lambda>s'. (s', if ys = [] then n else idf (last ys))) (fold_opt f ys s)"
proof (induction idf rows f n s arbitrary: ys rule: log_loop.induct)
  case (1 idf rows f n s)
  let ?page = "select_page idf rows n"
  have ys: "ys = ?page @ drop QUERY_LIMIT ys" using "1.prems"(2) by (simp add: select_page_def)
  show ?case
  proof (cases "?page = []")
    case True
    then have "ys = []" using "1.prems"(2) by (auto simp: select_page_def QUERY_LIMIT_def)
    with True show ?thesis by (subst log_loop.simps) simp
  next
    case False
    show ?thesis
    proof (cases "fold_opt f ?page s")
      case None
      then have "fold_opt f ys s = None" by (subst ys) (simp add: fold_opt_append)
      with None False show ?thesis by (subst log_loop.simps) simp
    next
      case (Some s')
      let ?zs = "drop QUERY_LIMIT ys"
      have zs: "?zs = sort_key idf (filter (\<lambda>r. idf (last ?page) < idf r) rows)"
        using sort_key_split [OF "1.prems"(1) select_page_def False] "1.prems"(2) by simp
      have "log_loop idf rows f (idf (last ?page)) s' =
          map_option (\<lambda>s'. (s', if ?zs = [] then idf (last ?page) else idf (last ?zs))) (fold_opt f ?zs s')"
        by (rule "1.IH" [OF refl False Some "1.prems"(1) zs])
      moreover have "fold_opt f ys s = fold_opt f ?zs s'" by (subst ys) (simp add: fold_opt_append Some)
      moreover have "(if ys = [] then n else idf (last ys)) = (if ?zs = [] then idf (last ?page) else idf (last ?zs))"
        using False ys by (metis append_is_Nil_conv last_appendL last_appendR)
      ultimately show ?thesis using Some False by (subst log_loop.simps) simp
    qed
  qed
qed

text \<open>
  C35: Loading page by page is loading everything: with distinct identifiers, the loops over balances,
  orders and the operation log terminate, process every row behind the start exactly once, in
  the order of the identifiers, and stop at the first row that fails; the log loop ends at the
  identifier of the last row.
\<close>

theorem paging_complete:
  assumes "distinct (map idf rows)" and "ys = sort_key idf (filter (\<lambda>r. n < idf r) rows)"
  shows "page_loop idf rows f n s = fold_opt f ys s \<and>
    log_loop idf rows f n s = map_option (\<lambda>s'. (s', if ys = [] then n else idf (last ys))) (fold_opt f ys s)"
  by (intro conjI page_loop_eq [OF assms(1), where n = n, folded assms(2)] log_loop_eq [OF assms])

theorem paging_complete_witness:
  "page_loop id [3, 1, 2 :: int] (\<lambda>r s. Some (s @ [r])) 1 [] = Some [2, 3]"
  using paging_complete [of id "[3, 1, 2]" "[2, 3]" 1 "\<lambda>r s. Some (s @ [r])" "[]"] by simp

end
