(* ===== verification/Recovery.thy ===== *)
theory Recovery
  imports StateRecover ControllerProps
begin

text \<open>
  What was dumped is recovered: the balances, the resting orders of every market, both books in
  their priority order, and the counters.
\<close>

section \<open>Rebuilding a book\<close>

lemma market_get_add:
  assumes "book_struct m"
  shows "market_get (add_order x m) i = (if i = o_id x then Some x else market_get m i)"
proof (cases "bt_get (m_orders m) i")
  case (Some r)
  then have "(i, r) \<in> set (m_orders m)" using bt_get_iff [OF book_structD(1) [OF assms]] by blast
  then have "r < length (m_heap m)" by (rule book_structD(6) [OF assms])
  with Some show ?thesis using book_structD(1) [OF assms] by (simp add: market_get_def bt_get_insert)
qed (use book_structD(1) [OF assms] in \<open>simp add: market_get_def bt_get_insert\<close>)

lemma market_get_iff:
  assumes "book_struct m"
  shows "market_get m i = Some x \<longleftrightarrow> (\<exists>r. (i, r) \<in> set (m_orders m) \<and> x = deep m r)"
  using bt_get_iff [OF book_structD(1) [OF assms]] by (auto simp: market_get_def)

lemma market_get_None: "market_get m i = None \<longleftrightarrow> i \<notin> fst ` set (m_orders m)"
  by (simp add: market_get_def bt_get_None)

abbreviation add_orders :: "order list \<Rightarrow> market \<Rightarrow> market" where
  "add_orders \<equiv> fold add_order"

lemma add_orders_book:
  assumes "book_struct m" and "distinct (map o_id xs)" and "\<And>x. x \<in> set xs \<Longrightarrow> market_get m (o_id x) = None"
  shows "book_struct (add_orders xs m)"
    and "market_get (add_orders xs m) i = (case map_of (map (\<lambda>x. (o_id x, x)) xs) i of None \<Rightarrow> market_get m i | Some x \<Rightarrow> Some x)"
proof -
  have "book_struct (add_orders xs m) \<and>
    market_get (add_orders xs m) i = (case map_of (map (\<lambda>x. (o_id x, x)) xs) i of None \<Rightarrow> market_get m i | Some x \<Rightarrow> Some x)"
    using assms
  proof (induction xs arbitrary: m)
    case (Cons x xs)
    have no: "o_id x \<notin> fst ` set (m_orders m)" using Cons.prems(3) [of x] by (simp add: market_get_None)
    note bs = book_struct_add [OF Cons.prems(1) no] and get = market_get_add [OF Cons.prems(1), of x]
    have "market_get (add_order x m) (o_id y) = None" if "y \<in> set xs" for y
    proof -
      from Cons.prems(2) that have "o_id y \<noteq> o_id x" by (metis distinct.simps(2) imageI list.set_map list.simps(9))
      moreover have "market_get m (o_id y) = None" by (rule Cons.prems(3)) (simp add: that)
      ultimately show ?thesis by (simp add: get)
    qed
    from Cons.IH [OF bs _ this] Cons.prems(2) show ?case
      by (auto simp: get map_of_eq_None_iff image_image split: option.split dest!: map_of_SomeD)
  qed simp
  then show "book_struct (add_orders xs m)"
    "market_get (add_orders xs m) i = (case map_of (map (\<lambda>x. (o_id x, x)) xs) i of None \<Rightarrow> market_get m i | Some x \<Rightarrow> Some x)"
    by blast+
qed

text \<open>The books of a market are determined by its orders.\<close>

lemma bt_keys_eq: "bt_inv kvs \<Longrightarrow> bt_inv kvs' \<Longrightarrow> fst ` set kvs = fst ` set kvs' \<Longrightarrow> map fst kvs = map fst kvs'"
  unfolding bt_inv_def by (metis list.set_map strict_sorted_equal)

lemma book_keys:
  assumes "book_struct m"
  shows "k \<in> fst ` set (m_asks m) \<longleftrightarrow> (\<exists>i x. market_get m i = Some x \<and> o_side x = ASK \<and> k = get_ask_key x)"
    and "l \<in> fst ` set (m_bids m) \<longleftrightarrow> (\<exists>i x. market_get m i = Some x \<and> o_side x = BID \<and> l = get_bid_key x)"
proof -
  have id: "o_id (deep m r) = i" if "(i, r) \<in> set (m_orders m)" for i r by (rule book_structD(7) [OF assms that])
  have "k \<in> fst ` set (m_asks m) \<longleftrightarrow> (\<exists>r. (k, r) \<in> set (m_asks m))" by force
  also have "\<dots> \<longleftrightarrow> (\<exists>i x. market_get m i = Some x \<and> o_side x = ASK \<and> k = get_ask_key x)"
    unfolding book_structD(8) [OF assms] market_get_iff [OF assms] using id by blast
  finally show "k \<in> fst ` set (m_asks m) \<longleftrightarrow> (\<exists>i x. market_get m i = Some x \<and> o_side x = ASK \<and> k = get_ask_key x)" .
  have "l \<in> fst ` set (m_bids m) \<longleftrightarrow> (\<exists>r. (l, r) \<in> set (m_bids m))" by force
  also have "\<dots> \<longleftrightarrow> (\<exists>i x. market_get m i = Some x \<and> o_side x = BID \<and> l = get_bid_key x)"
    unfolding book_structD(9) [OF assms] market_get_iff [OF assms] using id by blast
  finally show "l \<in> fst ` set (m_bids m) \<longleftrightarrow> (\<exists>i x. market_get m i = Some x \<and> o_side x = BID \<and> l = get_bid_key x)" .
qed

lemma books_determined:
  assumes bs: "book_struct m" "book_struct m'"
    and get: "\<And>i. market_get m' i = map_option f (market_get m i)"
    and f: "\<And>x. o_side (f x) = o_side x \<and> get_ask_key (f x) = get_ask_key x \<and> get_bid_key (f x) = get_bid_key x"
  shows "map fst (m_asks m') = map fst (m_asks m)" and "map fst (m_bids m') = map fst (m_bids m)"
proof -
  have ex: "(\<exists>i y. map_option f (g i) = Some y \<and> P y) \<longleftrightarrow> (\<exists>i x. g i = Some x \<and> P (f x))" for g P by auto
  have f': "o_side (f x) = o_side x" "get_ask_key (f x) = get_ask_key x" "get_bid_key (f x) = get_bid_key x" for x using f by blast+
  have "fst ` set (m_asks m') = fst ` set (m_asks m)"
    unfolding set_eq_iff book_keys(1) [OF bs(1)] book_keys(1) [OF bs(2)] get ex f' by (rule allI, rule refl)
  then show "map fst (m_asks m') = map fst (m_asks m)"
    using book_structD(4) [OF bs(1)] book_structD(4) [OF bs(2)] by (intro bt_keys_eq)
  have "fst ` set (m_bids m') = fst ` set (m_bids m)"
    unfolding set_eq_iff book_keys(2) [OF bs(1)] book_keys(2) [OF bs(2)] get ex f' by (rule allI, rule refl)
  then show "map fst (m_bids m') = map fst (m_bids m)"
    using book_structD(5) [OF bs(1)] book_structD(5) [OF bs(2)] by (intro bt_keys_eq)
qed

section \<open>Loading the orders of a slice\<close>

text \<open>
  \<open>rnd\<close> is what the column type \<^verbatim>\<open>TIMESTAMP(0)\<close> makes of a time; \<open>stored_order\<close> is an order after it was
  written and read back: only its two times may differ.
\<close>

definition stored_order :: "env \<Rightarrow> (timestamp \<Rightarrow> timestamp) \<Rightarrow> order \<Rightarrow> order" where
  "stored_order E rnd x = x\<lparr>o_create_time := ftimestamp_from_db E (rnd (ftimestamp_to_db E (o_create_time x))),
     o_update_time := ftimestamp_from_db E (rnd (ftimestamp_to_db E (o_update_time x)))\<rparr>"

definition stored_row :: "(timestamp \<Rightarrow> timestamp) \<Rightarrow> order_slice \<Rightarrow> order_slice" where
  "stored_row rnd r = r\<lparr>os_create_time := rnd (os_create_time r), os_update_time := rnd (os_update_time r)\<rparr>"

abbreviation written :: "env \<Rightarrow> (timestamp \<Rightarrow> timestamp) \<Rightarrow> i64 \<Rightarrow> order \<Rightarrow> order_slice" where
  "written E rnd s x \<equiv> stored_row rnd (order_slice_of E s x)"

lemma stored_order_sel [simp]:
  "o_id (stored_order E rnd x) = o_id x" "o_side (stored_order E rnd x) = o_side x"
  "o_market (stored_order E rnd x) = o_market x" "get_ask_key (stored_order E rnd x) = get_ask_key x"
  "get_bid_key (stored_order E rnd x) = get_bid_key x"
  by (simp_all add: stored_order_def get_ask_key_def get_bid_key_def)

text \<open>The labels of an order are those of its market, and its frozen part is what its remainder needs.\<close>

definition labelled :: "market \<Rightarrow> order \<Rightarrow> bool" where
  "labelled m x \<longleftrightarrow> o_market x = m_name m \<and> o_base x = m_base m \<and> o_quote x = m_quote m \<and> rested x = x"

lemma order_of_written:
  assumes "env_laws E" and "labelled m x"
  shows "order_of_slice E m (written E rnd s x) = Some (stored_order E rnd x)"
  using assms by (simp add: order_of_slice_def order_slice_of_def stored_row_def stored_order_def labelled_def env_simps)

lemma rested_iff: "rested x = x \<longleftrightarrow> o_frozen x = (if o_side x = ASK then o_remain x else o_remain x * o_price x)"
proof
  assume "rested x = x"
  then have "o_frozen (rested x) = o_frozen x" by simp
  then show "o_frozen x = (if o_side x = ASK then o_remain x else o_remain x * o_price x)" by (simp add: rested_def)
next
  assume "o_frozen x = (if o_side x = ASK then o_remain x else o_remain x * o_price x)"
  then have "rested x = x\<lparr>o_frozen := o_frozen x\<rparr>" by (simp add: rested_def)
  then show "rested x = x" by simp
qed

lemma rested_stored: "rested x = x \<Longrightarrow> rested (stored_order E rnd x) = stored_order E rnd x"
  unfolding rested_iff by (simp add: stored_order_def)

lemma load_order_written:
  assumes E: "env_laws E" and m: "map_of (c_markets c) (o_market x) = Some m" and l: "labelled m x"
  shows "load_order E (written E rnd s x) c = Some (set_market (o_market x) (add_order (stored_order E rnd x) m) c)"
proof -
  have "os_market (written E rnd s x) = o_market x" by (simp add: stored_row_def order_slice_of_def)
  moreover have "rested (stored_order E rnd x) = stored_order E rnd x" using l by (simp add: labelled_def rested_stored)
  ultimately show ?thesis by (simp add: load_order_def m order_of_written [OF E l] insert_rested [OF E])
qed

lemma update_map:
  "distinct (map fst ms) \<Longrightarrow> n \<in> fst ` set ms \<Longrightarrow> AList.update n v ms = map (\<lambda>(k, m). (k, if k = n then v else m)) ms"
proof (induction ms)
  case (Cons km ms)
  obtain k m where km: "km = (k, m)" by force
  show ?case
  proof (cases "k = n")
    case True
    with Cons.prems(1) km have "map (\<lambda>(k, m). (k, if k = n then v else m)) ms = ms"
      by (intro map_idI) force
    with True km show ?thesis by simp
  qed (use Cons km in auto)
qed simp

definition with_orders :: "order list \<Rightarrow> (string \<times> market) list \<Rightarrow> (string \<times> market) list" where
  "with_orders xs ms = map (\<lambda>(n, m). (n, add_orders (filter (\<lambda>x. o_market x = n) xs) m)) ms"

lemma with_orders_keys [simp]: "map fst (with_orders xs ms) = map fst ms"
  by (simp add: with_orders_def case_prod_unfold comp_def)

lemma map_of_with_orders:
  "map_of (with_orders xs ms) n = map_option (add_orders (filter (\<lambda>x. o_market x = n) xs)) (map_of ms n)"
  unfolding with_orders_def by (induction ms) auto

lemma with_orders_Nil [simp]: "with_orders [] ms = ms"
  by (simp add: with_orders_def)

lemma labelled_cong:
  "m_name m' = m_name m \<Longrightarrow> m_base m' = m_base m \<Longrightarrow> m_quote m' = m_quote m \<Longrightarrow> labelled m' x = labelled m x"
  by (simp add: labelled_def)

lemma load_orders_eq:
  assumes "env_laws E" and "distinct (map fst (c_markets c))"
    and "\<And>x. x \<in> set xs \<Longrightarrow> \<exists>m. map_of (c_markets c) (o_market x) = Some m \<and> labelled m x"
  shows "fold_opt (load_order E) (map (written E rnd s) xs) c =
    Some (c\<lparr>c_markets := with_orders (map (stored_order E rnd) xs) (c_markets c)\<rparr>)"
  using assms(2,3)
proof (induction xs arbitrary: c)
  case (Cons x xs)
  obtain m where m: "map_of (c_markets c) (o_market x) = Some m" "labelled m x" using Cons.prems(2) [of x] by auto
  let ?c = "set_market (o_market x) (add_order (stored_order E rnd x) m) c"
  have "\<exists>m. map_of (c_markets ?c) (o_market y) = Some m \<and> labelled m y" if "y \<in> set xs" for y
    using Cons.prems(2) [of y] that m by (auto simp: map_of_update labelled_cong [of "add_order _ m" m])
  with Cons.IH [of ?c] Cons.prems(1) have
    "fold_opt (load_order E) (map (written E rnd s) xs) ?c =
       Some (?c\<lparr>c_markets := with_orders (map (stored_order E rnd) xs) (c_markets ?c)\<rparr>)" by (simp add: distinct_update)
  moreover have "with_orders (map (stored_order E rnd) xs) (c_markets ?c) =
      with_orders (map (stored_order E rnd) (x # xs)) (c_markets c)"
  proof -
    have "o_market x \<in> fst ` set (c_markets c)" using m(1) by (metis map_of_eq_None_iff option.distinct(1))
    from update_map [OF Cons.prems(1) this] m(1) Cons.prems(1) show ?thesis
      by (auto simp: with_orders_def case_prod_unfold dest: eq_key_imp_eq_value)
  qed
  ultimately show ?case by (simp add: load_order_written [OF assms(1) m] set_market_def)
qed simp

section \<open>Loading the balances of a slice\<close>

definition strip :: "balance_slice \<Rightarrow> balance_slice_insert" where
  "strip r = \<lparr>bi_slice_id = bs_slice_id r, bi_user_id = bs_user_id r, bi_asset = bs_asset r, bi_t = bs_t r,
     bi_balance = bs_balance r\<rparr>"

lemma load_balance_written:
  assumes E: "env_laws E" and ok: "amount_ok (c_balance_manager c) (bk_asset k) v"
    and r: "strip r = balance_slice_of E s (k, v)"
  shows "load_balance E r c = Some (c\<lparr>c_balance_manager := (c_balance_manager c)\<lparr>bm_balances := AList.update k v (bm_balances (c_balance_manager c))\<rparr>\<rparr>)"
proof -
  have k: "bkey (bk_user_id k) (bk_balance_type k) (bk_asset k) = k" by (simp add: bkey_def)
  have row: "bs_user_id r = uuid_to_string E (bk_user_id k)" "bs_asset r = bk_asset k"
    "bs_t r = balance_type_i16 (bk_balance_type k)" "bs_balance r = v"
    using r by (simp_all add: strip_def balance_slice_of_def)
  from row show ?thesis
    using bm_set_by_key_eq [OF E ok, of "bk_user_id k" "bk_balance_type k"]
    by (simp add: load_balance_def bm_set_def env_simps E bm_put_def k)
qed

lemma load_balances_eq:
  assumes E: "env_laws E"
    and "map strip rs = map (balance_slice_of E s) kvs" and "distinct (map fst kvs)"
    and "\<And>k v. (k, v) \<in> set kvs \<Longrightarrow> amount_ok (c_balance_manager c) (bk_asset k) v"
    and "\<And>k v. (k, v) \<in> set kvs \<Longrightarrow> k \<notin> dom (map_of (bm_balances (c_balance_manager c)))"
  shows "\<exists>bs. fold_opt (load_balance E) rs c = Some (c\<lparr>c_balance_manager := (c_balance_manager c)\<lparr>bm_balances := bs\<rparr>\<rparr>) \<and>
    map_of bs = map_of (bm_balances (c_balance_manager c)) ++ map_of kvs"
  using assms(2-)
proof (induction rs arbitrary: kvs c)
  case Nil
  then show ?case by (intro exI [of _ "bm_balances (c_balance_manager c)"]) simp
next
  case (Cons r rs)
  then obtain k v kvs' where kvs: "kvs = (k, v) # kvs'" and r: "strip r = balance_slice_of E s (k, v)"
    and rs: "map strip rs = map (balance_slice_of E s) kvs'" by (cases kvs) auto
  let ?c = "c\<lparr>c_balance_manager := (c_balance_manager c)\<lparr>bm_balances := AList.update k v (bm_balances (c_balance_manager c))\<rparr>\<rparr>"
  have step: "load_balance E r c = Some ?c"
    by (rule load_balance_written [OF E Cons.prems(3) r]) (simp add: kvs)
  have "\<exists>bs. fold_opt (load_balance E) rs ?c = Some (?c\<lparr>c_balance_manager := (c_balance_manager ?c)\<lparr>bm_balances := bs\<rparr>\<rparr>) \<and>
      map_of bs = map_of (bm_balances (c_balance_manager ?c)) ++ map_of kvs'"
  proof (rule Cons.IH [OF rs])
    show "distinct (map fst kvs')" using Cons.prems(2) kvs by simp
    show "amount_ok (c_balance_manager ?c) (bk_asset j) w" if "(j, w) \<in> set kvs'" for j w
      using Cons.prems(3) [of j w] that kvs by (simp add: amount_ok_def)
    show "j \<notin> dom (map_of (bm_balances (c_balance_manager ?c)))" if "(j, w) \<in> set kvs'" for j w
    proof -
      have "j \<in> fst ` set kvs'" using that by force
      then have "j \<noteq> k" using Cons.prems(2) kvs by auto
      with Cons.prems(4) [of j w] that kvs show ?thesis by (simp add: update_conv' dom_def)
    qed
  qed
  moreover have "map_of (AList.update k v (bm_balances (c_balance_manager c))) ++ map_of kvs' =
      map_of (bm_balances (c_balance_manager c)) ++ map_of kvs"
  proof -
    have "map_of kvs' k = None" using Cons.prems(2) kvs by (simp add: map_of_eq_None_iff)
    then show ?thesis by (auto simp: kvs update_conv' fun_eq_iff map_add_def split: option.split)
  qed
  ultimately show ?case by (simp add: step)
qed

lemma insort_key_map: "insort_key f (g x) (map g xs) = map g (insort_key (\<lambda>x. f (g x)) x xs)"
  by (induction xs) auto

lemma sort_key_map: "sort_key f (map g xs) = map g (sort_key (\<lambda>x. f (g x)) xs)"
  by (induction xs) (auto simp: insort_key_map)

lemma sort_key_zip:
  assumes "map g xs = map h ys"
  obtains ys' where "map g (sort_key f xs) = map h ys'" and "mset ys' = mset ys"
proof
  let ?zs = "sort_key (\<lambda>p. f (fst p)) (zip xs ys)"
  from assms have len: "length xs = length ys" by (rule map_eq_imp_length_eq)
  have xs: "sort_key f xs = map fst ?zs" using sort_key_map [of f fst "zip xs ys"] len by simp
  have "g (fst p) = h (snd p)" if "p \<in> set (zip xs ys)" for p
  proof -
    from that obtain i where "i < length xs" "i < length ys" "fst p = xs ! i" "snd p = ys ! i" by (auto simp: in_set_zip)
    with arg_cong [OF assms, of "\<lambda>l. l ! i"] show ?thesis by simp
  qed
  then show "map g (sort_key f xs) = map h (map snd ?zs)" by (simp add: xs)
  show "mset (map snd ?zs) = mset ys" using len by (metis map_snd_zip mset_map mset_sort)
qed

section \<open>The database\<close>

text \<open>
  \<open>so\<close> and \<open>sb\<close> list the rows the two slice tables have accepted. A row that fits its columns
  (\<^verbatim>\<open>DECIMAL(30, 8)\<close> and so on) is stored as it is, except for the seconds of its times; rows in conflict with
  the primary key \<^verbatim>\<open>(slice_id, id)\<close> are excluded. The serial columns number the rows
  from one, and the history ascending.
\<close>

definition fits_order :: "order_slice \<Rightarrow> bool" where
  "fits_order r \<longleftrightarrow> has_prec 8 (os_price r) \<and> has_prec 8 (os_amount r) \<and> has_prec 4 (os_taker_fee r) \<and>
     has_prec 4 (os_maker_fee r) \<and> has_prec 8 (os_remain r) \<and> has_prec 8 (os_frozen r) \<and>
     has_prec 8 (os_finished_base r) \<and> has_prec 16 (os_finished_quote r) \<and> has_prec 12 (os_finished_fee r)"

definition fits_balance :: "balance_slice_insert \<Rightarrow> bool" where
  "fits_balance r \<longleftrightarrow> has_prec 16 (bi_balance r)"

definition tables_law ::
  "'d store \<Rightarrow> ('d \<Rightarrow> order_slice list) \<Rightarrow> ('d \<Rightarrow> balance_slice_insert list) \<Rightarrow> (timestamp \<Rightarrow> timestamp) \<Rightarrow> bool" where
  "tables_law St so sb rnd \<longleftrightarrow>
     (\<forall>conn s. let rs = filter (\<lambda>r. os_slice_id r = s) (so conn) in
        list_all fits_order rs \<longrightarrow> distinct (map os_id rs) \<longrightarrow>
          filter (\<lambda>r. os_slice_id r = s) (order_rows St conn) = map (stored_row rnd) rs) \<and>
     (\<forall>conn s. let rs = filter (\<lambda>r. bi_slice_id r = s) (sb conn) in
        list_all fits_balance rs \<longrightarrow> map strip (filter (\<lambda>r. bs_slice_id r = s) (balance_rows St conn)) = rs) \<and>
     (\<forall>conn. distinct (map (\<lambda>r. sint (bs_id r)) (balance_rows St conn)) \<and> list_all (\<lambda>r. 0 < sint (bs_id r)) (balance_rows St conn))"

definition insert_law ::
  "'d store \<Rightarrow> ('d \<Rightarrow> order_slice list) \<Rightarrow> ('d \<Rightarrow> balance_slice_insert list) \<Rightarrow> bool" where
  "insert_law St so sb \<longleftrightarrow> query_law (insert_orders St) so \<and> query_law (insert_balances St) sb \<and>
     (\<forall>b conn conn' r. insert_orders St b conn = (conn', r) \<longrightarrow>
        sb conn' = sb conn \<and> history_rows St conn' = history_rows St conn \<and> log_rows St conn' = log_rows St conn) \<and>
     (\<forall>b conn conn' r. insert_balances St b conn = (conn', r) \<longrightarrow>
        so conn' = so conn \<and> history_rows St conn' = history_rows St conn \<and> log_rows St conn' = log_rows St conn) \<and>
     (\<forall>h conn conn' r. insert_history St h conn = (conn', Inr r) \<longrightarrow>
        so conn' = so conn \<and> sb conn' = sb conn \<and> log_rows St conn' = log_rows St conn \<and>
        (\<exists>i. history_rows St conn' = history_rows St conn @ [(i, h)] \<and> (\<forall>j \<in> fst ` set (history_rows St conn). sint j < sint i)))"

lemma sql_query_fine_frame:
  assumes "\<And>b conn conn' r. query b conn = (conn', r) \<Longrightarrow> P conn' = P conn"
  shows "P (fst (sql_query_fine query rs conn)) = P conn"
proof -
  have loop: "P (fst (batch_loop query qs c)) = P c" for qs c
  proof (induction qs arbitrary: c rule: measure_induct_rule [of length])
    case (less qs)
    show ?case
    proof (cases "length qs \<ge> 8")
      case True
      then obtain n where
        eq: "batch_loop query qs c = (case query (take (2 ^ n) qs) c of
          (c', Inl e) \<Rightarrow> (c', Inl (qs, e)) | (c', Inr _) \<Rightarrow> batch_loop query (drop (2 ^ n) qs) c')"
        by (rule batch_loop_step [where query = query and c = c])
      obtain c1 r where q: "query (take (2 ^ n) qs) c = (c1, r)" by (cases "query (take (2 ^ n) qs) c")
      have "length (drop (2 ^ n) qs) < length qs" using True by (cases qs) simp_all
      from less.IH [OF this, of c1] assms [OF q] eq q show ?thesis by (cases r) simp_all
    qed (simp add: batch_loop_done)
  qed
  obtain c1 r where l: "batch_loop query rs conn = (c1, r)" by (cases "batch_loop query rs conn")
  with loop [of rs conn] have c1: "P c1 = P conn" by simp
  show ?thesis
  proof (cases r)
    case (Inr rest)
    obtain c2 q where q: "query rest c1 = (c2, q)" by (cases "query rest c1")
    from assms [OF q] c1 l Inr q show ?thesis by (cases q) (simp_all add: sql_query_fine_def)
  qed (use l c1 in \<open>auto simp: sql_query_fine_def\<close>)
qed

lemma dump_loop_frame:
  assumes "dump_loop query n records iter inserted conn = Some r"
  shows "(\<forall>b conn conn' r. query b conn = (conn', r) \<longrightarrow> P conn' = P conn) \<longrightarrow> P (fst r) = P conn"
  using assms
proof (induction rule: dump_loop.raw_induct [rotated, consumes 1])
  case (1 loop query n records iter inserted conn r)
  show ?case
  proof (intro impI)
    assume P: "\<forall>b conn conn' r. query b conn = (conn', r) \<longrightarrow> P conn' = P conn"
    obtain conn1 res where q: "sql_query_fine query records conn = (conn1, res)" by (cases "sql_query_fine query records conn")
    with sql_query_fine_frame [of query P records conn] P have "P conn1 = P conn" by simp
    with "1"(1) [THEN mp, OF _ P] "1"(2) q show "P (fst r) = P conn" by (auto split: if_splits sum.splits prod.splits)
  qed
qed

section \<open>What a dump leaves in the database\<close>

definition open_orders :: "'c controller \<Rightarrow> order list" where
  "open_orders c = concat (map (\<lambda>(_, m). market_orders m) (c_markets c))"

lemma insert_lawD:
  assumes "insert_law St so sb"
  shows "query_law (insert_orders St) so" and "query_law (insert_balances St) sb"
    and "insert_orders St b conn = (conn', r) \<Longrightarrow> (sb conn', history_rows St conn', log_rows St conn') = (sb conn, history_rows St conn, log_rows St conn)"
    and "insert_balances St b2 conn = (conn', r) \<Longrightarrow> (so conn', history_rows St conn', log_rows St conn') = (so conn, history_rows St conn, log_rows St conn)"
    and "insert_history St h conn = (conn', Inr q) \<Longrightarrow> so conn' = so conn \<and> sb conn' = sb conn \<and> log_rows St conn' = log_rows St conn \<and>
        (\<exists>i. history_rows St conn' = history_rows St conn @ [(i, h)] \<and> (\<forall>j \<in> fst ` set (history_rows St conn). sint j < sint i))"
  using assms unfolding insert_law_def by blast+

lemma insort_key_snoc: "f x \<le> f p \<Longrightarrow> insort_key f x (ys @ [p]) = insort_key f x ys @ [p]"
  by (induction ys) auto

lemma sort_key_snoc: "\<forall>x \<in> set xs. f x \<le> f p \<Longrightarrow> sort_key f (xs @ [p]) = sort_key f xs @ [p]"
  by (induction xs) (auto simp: insort_key_snoc)

lemma last_slice_append:
  assumes "history_rows St conn = hs @ [(i, h)]" and "\<forall>j \<in> fst ` set hs. sint j < sint i"
  shows "get_last_slice St conn = Some h"
proof -
  have "sort_key (\<lambda>(i, _). sint i) (hs @ [(i, h)]) = sort_key (\<lambda>(i, _). sint i) hs @ [(i, h)]"
    using assms(2) by (intro sort_key_snoc) (auto simp: less_imp_le)
  then show ?thesis by (simp add: get_last_slice_def assms(1))
qed

lemma dump_to_db_rows:
  assumes law: "insert_law St so sb" and run: "dump_to_db E St s c conn = Some (conn', Inr ())"
  shows "so conn' = so conn @ map (order_slice_of E s) (open_orders c)"
    and "sb conn' = sb conn @ map (balance_slice_of E s) (bm_balances (c_balance_manager c))"
    and "log_rows St conn' = log_rows St conn"
    and "get_last_slice St conn' = Some \<lparr>sh_time = s, sh_end_operation_log_id = sq_operation_log_id (c_sequencer c),
      sh_end_order_id = sq_order_id (c_sequencer c), sh_end_trade_id = sq_trade_id (c_sequencer c)\<rparr>"
    and "\<exists>hs i h. history_rows St conn' = hs @ [(i, h)] \<and> sh_time h = s \<and> (\<forall>j \<in> fst ` set hs. sint j < sint i)"
proof -
  let ?h = "\<lparr>sh_time = s, sh_end_operation_log_id = sq_operation_log_id (c_sequencer c),
      sh_end_order_id = sq_order_id (c_sequencer c), sh_end_trade_id = sq_trade_id (c_sequencer c)\<rparr>"
  note D = insert_lawD [OF law]
  have pos: "0 < DUMPING_SET_LIMIT" by (simp add: DUMPING_SET_LIMIT_def)
  from run obtain c1 k1 c2 k2 where
    d1: "dump_records (insert_orders St) (map (order_slice_of E s) (open_orders c)) DUMPING_SET_LIMIT conn = Some (c1, k1)" and
    d2: "dump_records (insert_balances St) (map (balance_slice_of E s) (bm_balances (c_balance_manager c))) DUMPING_SET_LIMIT c1 = Some (c2, k2)" and
    d3: "update_slice_history St s c c2 = (conn', Inr ())"
    by (auto simp: dump_to_db_def dump_orders_def dump_balance_def open_orders_def split: Option.bind_splits)
  have r1: "so c1 = so conn @ map (order_slice_of E s) (open_orders c)" by (rule dump_records_rows(1) [OF D(1) pos d1])
  have r2: "sb c2 = sb c1 @ map (balance_slice_of E s) (bm_balances (c_balance_manager c))" by (rule dump_records_rows(1) [OF D(2) pos d2])
  have f1: "(sb c1, history_rows St c1, log_rows St c1) = (sb conn, history_rows St conn, log_rows St conn)"
    using dump_loop_frame [OF d1 [unfolded dump_records_def], of "\<lambda>k. (sb k, history_rows St k, log_rows St k)"] D(3) by auto
  have f2: "(so c2, history_rows St c2, log_rows St c2) = (so c1, history_rows St c1, log_rows St c1)"
    using dump_loop_frame [OF d2 [unfolded dump_records_def], of "\<lambda>k. (so k, history_rows St k, log_rows St k)"] D(4) by auto
  from d3 obtain q where "insert_history St ?h c2 = (conn', Inr q)"
    by (auto simp: update_slice_history_def Let_def split: prod.splits sum.splits)
  note h = D(5) [OF this]
  from h r1 r2 f1 f2 show "so conn' = so conn @ map (order_slice_of E s) (open_orders c)"
    "sb conn' = sb conn @ map (balance_slice_of E s) (bm_balances (c_balance_manager c))" "log_rows St conn' = log_rows St conn"
    by auto
  from h show "get_last_slice St conn' = Some ?h" by (blast intro: last_slice_append)
  from h obtain i where "history_rows St conn' = history_rows St c2 @ [(i, ?h)]" "\<forall>j \<in> fst ` set (history_rows St c2). sint j < sint i"
    by blast
  then show "\<exists>hs i h. history_rows St conn' = hs @ [(i, h)] \<and> sh_time h = s \<and> (\<forall>j \<in> fst ` set hs. sint j < sint i)"
    by (intro exI [of _ "history_rows St c2"] exI [of _ i] exI [of _ ?h]) simp
qed

section \<open>Recovery\<close>

text \<open>
  What the dump needs of the engine beyond its invariant: the numbers fit the columns, and the counter of
  orders is positive as \<^verbatim>\<open>i64\<close>. That orders carry the labels of their market and identifiers that are unique
  in the exchange is part of the invariant.
\<close>

definition dump_ok :: "env \<Rightarrow> i64 \<Rightarrow> 'c controller \<Rightarrow> bool" where
  "dump_ok E s c \<longleftrightarrow> unat (sq_order_id (c_sequencer c)) < 2 ^ 63 \<and>
     (\<forall>x \<in> set (open_orders c). fits_order (order_slice_of E s x)) \<and>
     (\<forall>kv \<in> set (bm_balances (c_balance_manager c)). fits_balance (balance_slice_of E s kv))"

text \<open>A controller as it is created, for the same markets and assets and before anything is loaded.\<close>

definition blank_of :: "'c controller \<Rightarrow> 'e controller \<Rightarrow> bool" where
  "blank_of c c0 \<longleftrightarrow> map fst (c_markets c0) = map fst (c_markets c) \<and>
     bm_balances (c_balance_manager c0) = [] \<and>
     bm_asset_manager (c_balance_manager c0) = bm_asset_manager (c_balance_manager c) \<and>
     (\<forall>n m m0. map_of (c_markets c) n = Some m \<longrightarrow> map_of (c_markets c0) n = Some m0 \<longrightarrow>
        empty_market m0 \<and> m_name m0 = m_name m \<and> m_base m0 = m_base m \<and> m_quote m0 = m_quote m)"

text \<open>The same balances, counters, orders (up to the seconds of their times) and books.\<close>

definition recovered_book :: "(order \<Rightarrow> order) \<Rightarrow> market \<Rightarrow> market \<Rightarrow> bool" where
  "recovered_book f m m' \<longleftrightarrow> book_struct m' \<and> (\<forall>i. market_get m' i = map_option f (market_get m i)) \<and>
     map fst (m_asks m') = map fst (m_asks m) \<and> map fst (m_bids m') = map fst (m_bids m)"

lemma market_orders_get:
  assumes "book_struct m"
  shows "x \<in> set (market_orders m) \<longleftrightarrow> market_get m (o_id x) = Some x"
proof -
  have "x \<in> set (market_orders m) \<longleftrightarrow> (\<exists>i r. (i, r) \<in> set (m_orders m) \<and> x = deep m r)"
    by (auto simp: market_orders_def image_iff) (rule bexI [rotated], assumption, simp)
  also have "\<dots> \<longleftrightarrow> market_get m (o_id x) = Some x"
    unfolding market_get_iff [OF assms] using book_structD(7) [OF assms] by blast
  finally show ?thesis .
qed

lemma labelled_order:
  assumes "orders_ok m" and "x \<in> set (market_orders m)"
    and "o_market x = m_name m" and "o_base x = m_base m" and "o_quote x = m_quote m"
  shows "labelled m x"
proof -
  from assms(1,2) have "order_ok m x" by (auto simp: orders_ok_def market_orders_def)
  then have "rested x = x" by (simp add: rested_iff order_ok_def)
  with assms(3-) show ?thesis by (simp add: labelled_def)
qed

lemma market_recovered:
  assumes bs: "book_struct m" and m0: "empty_market m0" and f: "\<And>x. o_id (f x) = o_id x \<and> o_side (f x) = o_side x \<and>
      get_ask_key (f x) = get_ask_key x \<and> get_bid_key (f x) = get_bid_key x"
    and zs: "set zs = f ` set (market_orders m)" and d: "distinct (map o_id zs)"
  shows "recovered_book f m (add_orders zs m0)"
proof -
  have b0: "book_struct m0" using empty_market_ok(1) [OF m0] by (simp add: book_ok_def)
  have none: "market_get m0 i = None" for i using m0 by (simp add: market_get_None empty_market_def)
  note add = add_orders_book [OF b0 d none]
  have "market_get (add_orders zs m0) i = map_option f (market_get m i)" for i
  proof (cases "market_get m i")
    case None
    have "i \<notin> o_id ` set zs"
      using None f by (auto simp: zs market_orders_get [OF bs])
    with None show ?thesis by (simp add: add(2) none map_of_eq_None_iff image_image split: option.split)
  next
    case (Some x)
    then have "o_id x = i" using book_structD(7) [OF bs] by (auto simp: market_get_iff [OF bs])
    then have "f x \<in> set zs" "o_id (f x) = i" using Some f by (auto simp: zs market_orders_get [OF bs])
    then have "map_of (map (\<lambda>x. (o_id x, x)) zs) i = Some (f x)"
      using d by (intro map_of_is_SomeI) (auto simp: comp_def)
    with Some show ?thesis by (simp add: add(2))
  qed
  with add(1) books_determined [OF bs add(1), of f] f show ?thesis by (simp add: recovered_book_def)
qed

lemma tables_lawD:
  assumes "tables_law St so sb rnd"
  shows "filter (\<lambda>r. os_slice_id r = s) (so conn) = rs \<Longrightarrow> list_all fits_order rs \<Longrightarrow> distinct (map os_id rs) \<Longrightarrow>
      filter (\<lambda>r. os_slice_id r = s) (order_rows St conn) = map (stored_row rnd) rs"
    and "filter (\<lambda>r. bi_slice_id r = s) (sb conn) = bs \<Longrightarrow> list_all fits_balance bs \<Longrightarrow>
      map strip (filter (\<lambda>r. bs_slice_id r = s) (balance_rows St conn)) = bs"
    and "distinct (map (\<lambda>r. sint (bs_id r)) (balance_rows St conn))"
    and "list_all (\<lambda>r. 0 < sint (bs_id r)) (balance_rows St conn)"
  using assms unfolding tables_law_def Let_def by blast+

lemma filter_fresh:
  "\<forall>x \<in> set xs. key x \<noteq> s \<Longrightarrow> \<forall>y \<in> set ys. key y = s \<Longrightarrow> filter (\<lambda>x. key x = s) (xs @ ys) = ys"
  by (simp add: filter_empty_conv filter_id_conv)

lemma open_orders_iff: "x \<in> set (open_orders c) \<longleftrightarrow> (\<exists>n m. (n, m) \<in> set (c_markets c) \<and> x \<in> set (market_orders m))"
  by (auto simp: open_orders_def)

text \<open>The balances of a slice.\<close>

lemma slice_balances_load:
  assumes E: "env_laws E" and T: "tables_law St so sb rnd"
    and rows: "filter (\<lambda>r. bi_slice_id r = s) (sb conn) = map (balance_slice_of E s) kvs"
    and fits: "\<forall>kv \<in> set kvs. fits_balance (balance_slice_of E s kv)" and d: "distinct (map fst kvs)"
    and ok: "\<And>k v. (k, v) \<in> set kvs \<Longrightarrow> amount_ok (c_balance_manager c0) (bk_asset k) v"
    and none: "bm_balances (c_balance_manager c0) = []"
  shows "\<exists>bs. page_loop (\<lambda>r. sint (bs_id r)) (filter (\<lambda>r. bs_slice_id r = s) (balance_rows St conn)) (load_balance E) 0 c0 =
      Some (c0\<lparr>c_balance_manager := (c_balance_manager c0)\<lparr>bm_balances := bs\<rparr>\<rparr>) \<and> map_of bs = map_of kvs"
proof -
  let ?rows = "filter (\<lambda>r. bs_slice_id r = s) (balance_rows St conn)"
  note D = tables_lawD [OF T]
  have dist: "distinct (map (\<lambda>r. sint (bs_id r)) ?rows)" using D(3) by (rule distinct_map_filter)
  have all: "filter (\<lambda>r. 0 < sint (bs_id r)) ?rows = ?rows" using D(4) [of conn] by (auto simp: list_all_iff intro: filter_cong)
  have "map strip ?rows = map (balance_slice_of E s) kvs" by (rule D(2) [OF rows]) (use fits in \<open>simp add: list_all_iff\<close>)
  from sort_key_zip [OF this, of "\<lambda>r. sint (bs_id r)"] obtain kvs' where
    kvs': "map strip (sort_key (\<lambda>r. sint (bs_id r)) ?rows) = map (balance_slice_of E s) kvs'" and perm: "mset kvs' = mset kvs" .
  have same: "set kvs' = set kvs" using perm by (rule mset_eq_setD)
  have d': "distinct (map fst kvs')" using d perm by (metis mset_eq_imp_distinct_iff mset_map)
  have "map_of kvs' = map_of kvs" using map_of_inject_set [OF d' d] same by simp
  moreover have "\<exists>bs. fold_opt (load_balance E) (sort_key (\<lambda>r. sint (bs_id r)) ?rows) c0 =
        Some (c0\<lparr>c_balance_manager := (c_balance_manager c0)\<lparr>bm_balances := bs\<rparr>\<rparr>) \<and>
      map_of bs = map_of (bm_balances (c_balance_manager c0)) ++ map_of kvs'"
    by (rule load_balances_eq [OF E kvs' d']) (use ok same none in auto)
  ultimately show ?thesis unfolding page_loop_eq [OF dist] all by (simp add: none)
qed

text \<open>The orders of a slice.\<close>

lemma slice_orders_load:
  assumes E: "env_laws E" and T: "tables_law St so sb rnd"
    and rows: "filter (\<lambda>r. os_slice_id r = s) (so conn) = map (order_slice_of E s) xs"
    and fits: "\<forall>x \<in> set xs. fits_order (order_slice_of E s x) \<and> 0 < sint (o_id x)" and d: "distinct (map o_id xs)"
    and ms: "distinct (map fst (c_markets c0))"
    and lab: "\<And>x. x \<in> set xs \<Longrightarrow> \<exists>m. map_of (c_markets c0) (o_market x) = Some m \<and> labelled m x"
  obtains ys where "mset ys = mset xs" and
    "page_loop (\<lambda>r. sint (os_id r)) (filter (\<lambda>r. os_slice_id r = s) (order_rows St conn)) (load_order E) 0 c0 =
      Some (c0\<lparr>c_markets := with_orders (map (stored_order E rnd) ys) (c_markets c0)\<rparr>)"
proof
  let ?rows = "filter (\<lambda>r. os_slice_id r = s) (order_rows St conn)"
  let ?ys = "sort_key (\<lambda>x. sint (o_id x)) xs"
  have oid: "os_id (order_slice_of E s x) = o_id x" "os_id (stored_row rnd r) = os_id r" for x r
    by (simp_all add: order_slice_of_def stored_row_def)
  have dd: "distinct (map (\<lambda>x. sint (o_id x)) xs)"
    using d by (auto simp: distinct_map inj_on_def dest: arg_cong [of "sint _" _ "of_int :: int \<Rightarrow> u64"])
  have "distinct (map os_id (map (order_slice_of E s) xs))" using d by (simp add: comp_def oid)
  then have rws: "?rows = map (written E rnd s) xs"
    using tables_lawD(1) [OF T rows] fits by (simp add: list_all_iff)
  have dist: "distinct (map (\<lambda>r. sint (os_id r)) ?rows)" using dd by (simp add: rws comp_def oid)
  have all: "filter (\<lambda>r. 0 < sint (os_id r)) ?rows = ?rows" using fits by (simp add: rws filter_id_conv oid)
  have "sort_key (\<lambda>r. sint (os_id r)) ?rows = map (written E rnd s) ?ys" by (simp add: rws sort_key_map oid)
  with page_loop_eq [OF dist, of "load_order E" 0 c0] all load_orders_eq [OF E ms, of ?ys rnd s] lab
  show "page_loop (\<lambda>r. sint (os_id r)) ?rows (load_order E) 0 c0 =
      Some (c0\<lparr>c_markets := with_orders (map (stored_order E rnd) ?ys) (c_markets c0)\<rparr>)" by simp
  show "mset ?ys = mset xs" by simp
qed

lemma init_no_log:
  assumes last: "get_last_slice St conn = Some h" and load: "load_slice_from_db E St conn (sh_time h) c0 = Some c"
    and logs: "\<forall>r \<in> set (log_rows St conn). sint (ol_id r) \<le> sint (sh_end_operation_log_id h)"
  shows "init_from_db E S Q St conn c0 = Some (c\<lparr>c_sequencer := set_operation_log_id (sh_end_operation_log_id h)
      (set_trade_id (sh_end_trade_id h) (set_order_id (sh_end_order_id h) (c_sequencer c)))\<rparr>)"
proof -
  have "select_page (\<lambda>r. sint (ol_id r)) (log_rows St conn) (sint (sh_end_operation_log_id h)) = []"
    using logs by (auto simp: select_page_def filter_empty_conv not_less)
  then have "log_loop (\<lambda>r. sint (ol_id r)) (log_rows St conn) f (sint (sh_end_operation_log_id h)) d =
      Some (d, sint (sh_end_operation_log_id h))" for f and d :: "'b controller"
    by (subst log_loop.simps) simp
  with last load show ?thesis by (simp add: init_from_db_def load_operation_log_from_db_def)
qed

lemma recovered_balances:
  assumes E: "env_laws E" and I: "insert_law St so sb" and T: "tables_law St so sb rnd"
    and bm: "bm_ok (c_balance_manager c)" and ok: "dump_ok E s c" and fresh: "\<forall>r \<in> set (sb conn). bi_slice_id r \<noteq> s"
    and run: "dump_to_db E St s c conn = Some (conn', Inr ())" and blank: "blank_of c c0"
  obtains bs where "page_loop (\<lambda>r. sint (bs_id r)) (filter (\<lambda>r. bs_slice_id r = s) (balance_rows St conn')) (load_balance E) 0 c0 =
      Some (c0\<lparr>c_balance_manager := (c_balance_manager c0)\<lparr>bm_balances := bs\<rparr>\<rparr>)"
    and "map_of bs = map_of (bm_balances (c_balance_manager c))"
proof -
  have f: "filter (\<lambda>r. bi_slice_id r = s) (sb conn') = map (balance_slice_of E s) (bm_balances (c_balance_manager c))"
    unfolding dump_to_db_rows(2) [OF I run] by (rule filter_fresh [OF fresh]) (auto simp: balance_slice_of_def)
  have fits: "\<forall>kv \<in> set (bm_balances (c_balance_manager c)). fits_balance (balance_slice_of E s kv)" using ok by (simp add: dump_ok_def)
  have d: "distinct (map fst (bm_balances (c_balance_manager c)))" using bm by (simp add: bm_ok_def)
  have am: "amount_ok (c_balance_manager c0) (bk_asset k) v" if "(k, v) \<in> set (bm_balances (c_balance_manager c))" for k v
    using bm blank that by (auto simp: bm_ok_def blank_of_def amount_ok_def)
  have "bm_balances (c_balance_manager c0) = []" using blank by (simp add: blank_of_def)
  from slice_balances_load [OF E T f fits d am this] that show ?thesis by blast
qed

text \<open>What the invariant says of the orders to dump.\<close>

lemma sint_pos:
  assumes "i \<noteq> 0" and "unat (i :: u64) < 2 ^ 63" shows "0 < sint i"
proof -
  have "uint i < 2 ^ 63" using assms(2) unfolding unat_eq_nat_uint by (subst (asm) nat_less_iff) simp_all
  moreover have "- (2 ^ 63) \<le> uint i" by (rule order_trans [OF _ uint_ge_0]) simp
  ultimately have "sint i = uint i" unfolding sint_uint by (intro signed_take_bit_int_eq_self) simp_all
  moreover have "uint i \<noteq> 0" using assms(1) by (simp add: uint_0_iff)
  ultimately show ?thesis using uint_ge_0 [of i] by linarith
qed

lemma dumped_order:
  assumes inv: "exch_inv (c_markets c) (lend False c)" and m: "(n, m) \<in> set (c_markets c)" and x: "x \<in> set (market_orders m)"
  shows "labelled m x" and "o_market x = n" and "o_id x \<in> order_ids m" and "o_id x \<noteq> 0" and "o_id x \<le> sq_order_id (c_sequencer c)"
proof -
  note X = exch_invD [OF inv]
  have book: "book_struct m" "orders_ok m" using X(3) [OF m] by (simp_all add: book_ok_def)
  from x obtain i r where r: "(i, r) \<in> set (m_orders m)" "x = deep m r" by (auto simp: market_orders_def)
  then have id: "o_id x = i" using book_structD(7) [OF book(1)] by blast
  have tag: "n = m_name m" "i \<noteq> 0" "o_market x = m_name m" "o_base x = m_base m" "o_quote x = m_quote m"
    using X(5) [OF m] r by (auto simp: tagged_def)
  show "labelled m x" using labelled_order [OF _ x] book tag by simp
  show "o_market x = n" "o_id x \<noteq> 0" using tag id by simp_all
  show "o_id x \<in> order_ids m" using r id by (force simp: order_ids_def)
  show "o_id x \<le> sq_order_id (c_sequencer c)" using X(3) [OF m] r id by (auto simp: ids_below_def)
qed

lemma dumped_ids:
  assumes inv: "exch_inv (c_markets c) (lend False c)"
  shows "distinct (map o_id (open_orders c))"
proof -
  note X = exch_invD [OF inv]
  have one: "distinct (map o_id (market_orders m))" if "(n, m) \<in> set (c_markets c)" for n m
  proof -
    have bs: "book_struct m" using X(3) [OF that] by (simp add: book_ok_def)
    have "map o_id (market_orders m) = map fst (m_orders m)"
      using book_structD(7) [OF bs] by (auto simp: market_orders_def)
    then show ?thesis using bt_inv_distinct [OF book_structD(1) [OF bs]] by simp
  qed
  have "distinct (map o_id (concat (map (\<lambda>(_, m). market_orders m) ms)))"
    if "set ms \<subseteq> set (c_markets c)" "distinct (map fst ms)" for ms
    using that
  proof (induction ms)
    case (Cons nm ms)
    obtain n m where nm: "nm = (n, m)" by (cases nm)
    with Cons.prems have mem: "(n, m) \<in> set (c_markets c)" "set ms \<subseteq> set (c_markets c)" "n \<notin> fst ` set ms" by auto
    have "o_id x \<noteq> o_id y" if "x \<in> set (market_orders m)" "(k, m') \<in> set ms" "y \<in> set (market_orders m')" for x y k m'
    proof -
      have k: "k \<noteq> n" "(k, m') \<in> set (c_markets c)" using that mem by force+
      then have "order_ids m \<inter> order_ids m' = {}" using X(6) mem(1) by (fastforce simp: apart_def)
      moreover have "o_id x \<in> order_ids m" by (rule dumped_order(3) [OF inv mem(1) that(1)])
      moreover have "o_id y \<in> order_ids m'" by (rule dumped_order(3) [OF inv k(2) that(3)])
      ultimately show ?thesis by auto
    qed
    then have "set (map o_id (market_orders m)) \<inter> set (map o_id (concat (map (\<lambda>(_, m). market_orders m) ms))) = {}"
      by fastforce
    then show ?case using Cons one [OF mem(1)] by (simp add: nm del: set_map)
  qed simp
  from this [OF order_refl X(1)] show ?thesis by (simp add: open_orders_def)
qed

lemma dumped_market:
  assumes inv: "exch_inv (c_markets c) (lend False c)" and m: "map_of (c_markets c) n = Some m"
  shows "book_struct m" and "x \<in> set (market_orders m) \<Longrightarrow> labelled m x \<and> o_market x = n"
    and "x \<in> set (open_orders c) \<Longrightarrow> o_market x = n \<Longrightarrow> x \<in> set (market_orders m)"
proof -
  note X = exch_invD [OF inv]
  have mem: "(n, m) \<in> set (c_markets c)" using m by (rule map_of_SomeD)
  show "book_struct m" using X(3) [OF mem] by (simp add: book_ok_def)
  show "x \<in> set (market_orders m) \<Longrightarrow> labelled m x \<and> o_market x = n" using dumped_order(1,2) [OF inv mem] by blast
  show "x \<in> set (market_orders m)" if "x \<in> set (open_orders c)" "o_market x = n"
  proof -
    from that(1) obtain k m' where k: "(k, m') \<in> set (c_markets c)" "x \<in> set (market_orders m')" by (auto simp: open_orders_iff)
    with dumped_order(2) [OF inv k] that(2) have "k = n" by simp
    with k mem X(1) show ?thesis by (auto dest: eq_key_imp_eq_value)
  qed
qed

lemma recovered_orders:
  assumes E: "env_laws E" and I: "insert_law St so sb" and T: "tables_law St so sb rnd"
    and inv: "exch_inv (c_markets c) (lend False c)" and ok: "dump_ok E s c" and fresh: "\<forall>r \<in> set (so conn). os_slice_id r \<noteq> s"
    and run: "dump_to_db E St s c conn = Some (conn', Inr ())" and blank: "blank_of c c0"
    and ms: "c_markets c2 = c_markets c0"
  obtains ms1 where "page_loop (\<lambda>r. sint (os_id r)) (filter (\<lambda>r. os_slice_id r = s) (order_rows St conn')) (load_order E) 0 c2 =
      Some (c2\<lparr>c_markets := ms1\<rparr>)"
    and "\<forall>n. rel_option (recovered_book (stored_order E rnd)) (map_of (c_markets c) n) (map_of ms1 n)"
proof -
  have f: "filter (\<lambda>r. os_slice_id r = s) (so conn') = map (order_slice_of E s) (open_orders c)"
    unfolding dump_to_db_rows(1) [OF I run] by (rule filter_fresh [OF fresh]) (auto simp: order_slice_of_def)
  have keys: "map fst (c_markets c2) = map fst (c_markets c)" using blank ms by (simp add: blank_of_def)
  have dom: "map_of (c_markets c) n = None \<longleftrightarrow> map_of (c_markets c2) n = None" for n
    using arg_cong [OF keys, of set] by (simp add: map_of_eq_None_iff)
  have m0: "empty_market m0 \<and> labelled m0 = labelled m" if "map_of (c_markets c) n = Some m" "map_of (c_markets c2) n = Some m0" for n m m0
  proof -
    have "empty_market m0 \<and> m_name m0 = m_name m \<and> m_base m0 = m_base m \<and> m_quote m0 = m_quote m"
      using blank that unfolding blank_of_def ms by blast
    then show ?thesis by (simp add: fun_eq_iff labelled_def)
  qed
  have lab: "\<exists>m. map_of (c_markets c2) (o_market x) = Some m \<and> labelled m x" if x: "x \<in> set (open_orders c)" for x
  proof -
    from x obtain k m where k: "(k, m) \<in> set (c_markets c)" "x \<in> set (market_orders m)" by (auto simp: open_orders_iff)
    then have m: "map_of (c_markets c) k = Some m" using exch_invD(1) [OF inv] by simp
    with dom [of k] obtain m1 where m1: "map_of (c_markets c2) k = Some m1" by auto
    from dumped_market(2) [OF inv m k(2)] m0 [OF m m1] m1 show ?thesis by auto
  qed
  have dist: "distinct (map fst (c_markets c2))" using exch_invD(1) [OF inv] keys by simp
  have d: "distinct (map o_id (open_orders c))" by (rule dumped_ids [OF inv])
  have "0 < sint (o_id x)" if "x \<in> set (open_orders c)" for x
  proof -
    from that obtain k m where k: "(k, m) \<in> set (c_markets c)" "x \<in> set (market_orders m)" by (auto simp: open_orders_iff)
    from dumped_order(4,5) [OF inv k] ok show ?thesis by (intro sint_pos) (auto simp: dump_ok_def word_le_nat_alt)
  qed
  then have fits: "\<forall>x \<in> set (open_orders c). fits_order (order_slice_of E s x) \<and> 0 < sint (o_id x)"
    using ok by (simp add: dump_ok_def)
  from slice_orders_load [OF E T f fits d dist lab] obtain ys where ys: "mset ys = mset (open_orders c)" and
    run: "page_loop (\<lambda>r. sint (os_id r)) (filter (\<lambda>r. os_slice_id r = s) (order_rows St conn')) (load_order E) 0 c2 =
      Some (c2\<lparr>c_markets := with_orders (map (stored_order E rnd) ys) (c_markets c2)\<rparr>)" by blast
  have set: "set ys = set (open_orders c)" using ys by (rule mset_eq_setD)
  have dy: "distinct (map o_id ys)" using d ys by (metis mset_eq_imp_distinct_iff mset_map)
  have "rel_option (recovered_book (stored_order E rnd)) (map_of (c_markets c) n) (map_of (with_orders (map (stored_order E rnd) ys) (c_markets c2)) n)" for n
  proof (cases "map_of (c_markets c) n")
    case None
    then have "map_of (c_markets c2) n = None" using dom by simp
    with None show ?thesis by (simp add: map_of_with_orders)
  next
    case (Some m)
    then obtain m1 where m1: "map_of (c_markets c2) n = Some m1" using dom [of n] by auto
    note M = dumped_market [OF inv Some]
    let ?zs = "filter (\<lambda>x. o_market x = n) (map (stored_order E rnd) ys)"
    have "set (market_orders m) \<subseteq> set (open_orders c)" using map_of_SomeD [OF Some] unfolding open_orders_iff subset_iff by blast
    then have "{x \<in> set (open_orders c). o_market x = n} = set (market_orders m)" using M(2,3) by blast
    moreover have "set ?zs = stored_order E rnd ` {x \<in> set ys. o_market x = n}" by auto
    ultimately have zs: "set ?zs = stored_order E rnd ` set (market_orders m)" by (simp only: set)
    have dz: "distinct (map o_id ?zs)" using dy by (intro distinct_map_filter) (simp add: comp_def)
    have "recovered_book (stored_order E rnd) m (add_orders ?zs m1)"
      by (rule market_recovered [OF M(1) _ _ zs dz]) (use m0 [OF Some m1] in simp_all)
    with Some m1 show ?thesis by (simp add: map_of_with_orders)
  qed
  with run that show ?thesis by blast
qed

lemma recovers:
  assumes "env_laws E" and "insert_law St so sb" and "tables_law St so sb rnd"
    and "ctrl_inv c" and "dump_ok E s c"
    and "\<forall>r \<in> set (so conn). os_slice_id r \<noteq> s" and "\<forall>r \<in> set (sb conn). bi_slice_id r \<noteq> s"
    and "\<forall>r \<in> set (log_rows St conn). sint (ol_id r) \<le> sint (sq_operation_log_id (c_sequencer c))"
    and "dump_to_db E St s c conn = Some (conn', Inr ())" and "blank_of c c0"
  shows "\<exists>c1. init_from_db E S Q St conn' c0 = Some c1 \<and>
    sq_order_id (c_sequencer c1) = sq_order_id (c_sequencer c) \<and>
    sq_trade_id (c_sequencer c1) = sq_trade_id (c_sequencer c) \<and>
    sq_operation_log_id (c_sequencer c1) = sq_operation_log_id (c_sequencer c) \<and>
    map_of (bm_balances (c_balance_manager c1)) = map_of (bm_balances (c_balance_manager c)) \<and>
    (\<forall>n. rel_option (recovered_book (stored_order E rnd)) (map_of (c_markets c) n) (map_of (c_markets c1) n))"
proof -
  note rows = dump_to_db_rows [OF assms(2,9)]
  have ex: "exch_inv (c_markets c) (lend False c)" using assms(4) by (simp add: ctrl_inv_def)
  then have bm: "bm_ok (c_balance_manager c)" using exch_invD(2) [OF ex] by (simp add: ctx_ok_def)
  obtain bs where bs: "page_loop (\<lambda>r. sint (bs_id r)) (filter (\<lambda>r. bs_slice_id r = s) (balance_rows St conn')) (load_balance E) 0 c0 =
      Some (c0\<lparr>c_balance_manager := (c_balance_manager c0)\<lparr>bm_balances := bs\<rparr>\<rparr>)"
    and bal: "map_of bs = map_of (bm_balances (c_balance_manager c))"
    by (rule recovered_balances [OF assms(1-3) bm assms(5,7,9,10)])
  let ?c = "c0\<lparr>c_balance_manager := (c_balance_manager c0)\<lparr>bm_balances := bs\<rparr>\<rparr>"
  have same: "c_markets ?c = c_markets c0" by simp
  obtain ms1 where ms1: "page_loop (\<lambda>r. sint (os_id r)) (filter (\<lambda>r. os_slice_id r = s) (order_rows St conn')) (load_order E) 0 ?c =
      Some (?c\<lparr>c_markets := ms1\<rparr>)"
    and books: "\<forall>n. rel_option (recovered_book (stored_order E rnd)) (map_of (c_markets c) n) (map_of ms1 n)"
    by (rule recovered_orders [OF assms(1-3) ex assms(5,6,9,10) same])
  have "load_slice_from_db E St conn' s c0 = Some (?c\<lparr>c_markets := ms1\<rparr>)" by (simp add: load_slice_from_db_def bs ms1)
  with init_no_log [OF rows(4), of E c0 "?c\<lparr>c_markets := ms1\<rparr>" S Q] rows(3) assms(8) bal books show ?thesis
    by (simp add: set_operation_log_id_def set_trade_id_def set_order_id_def)
qed

text \<open>
  What is dumped is recovered. Let the state of an exchange that satisfies its invariant be dumped
  successfully as a slice with a new identifier, on a database that keeps its promises and
  with no operation logged since. Then a controller freshly created for the same markets and
  assets recovers from the database without a panic; its counters of orders, trades and logged
  operations and all its balances are those of the dumped exchange, and every market has the same
  orders under the same identifiers (up to the resolution of the two times) and the same ask and
  bid books in the same priority order.
\<close>

theorem dump_recovers:
  assumes "env_laws E" and "insert_law St so sb" and "tables_law St so sb rnd"
    and "ctrl_inv c" and "dump_ok E s c"
    and "\<forall>r \<in> set (so conn). os_slice_id r \<noteq> s" and "\<forall>r \<in> set (sb conn). bi_slice_id r \<noteq> s"
    and "\<forall>r \<in> set (log_rows St conn). sint (ol_id r) \<le> sint (sq_operation_log_id (c_sequencer c))"
    and "dump_to_db E St s c conn = Some (conn', Inr ())" and "blank_of c c0"
  shows "\<exists>c1. init_from_db E S Q St conn' c0 = Some c1 \<and>
    sq_order_id (c_sequencer c1) = sq_order_id (c_sequencer c) \<and>
    sq_trade_id (c_sequencer c1) = sq_trade_id (c_sequencer c) \<and>
    sq_operation_log_id (c_sequencer c1) = sq_operation_log_id (c_sequencer c) \<and>
    map_of (bm_balances (c_balance_manager c1)) = map_of (bm_balances (c_balance_manager c)) \<and>
    (\<forall>n. rel_option (recovered_book (stored_order E rnd)) (map_of (c_markets c) n) (map_of (c_markets c1) n))"
  by (rule recovers [OF assms])

lemma blank_reset:
  assumes "ctrl_inv c" shows "blank_of c (reset_state c)"
proof -
  have ex: "exch_inv (c_markets c) (lend False c)" using assms by (simp add: ctrl_inv_def)
  have get: "map_of (c_markets (reset_state c)) n = map_option market_reset (map_of (c_markets c) n)" for n
    by (simp add: reset_state_def map_of_map)
  have "m_disable_self_trade m" if "map_of (c_markets c) n = Some m" for n m
    using exch_invD(3) [OF ex map_of_SomeD [OF that]] by (simp add: book_ok_def)
  then show ?thesis unfolding blank_of_def get
    by (auto simp: empty_market_def market_reset_def) (simp_all add: reset_state_def bm_reset_def case_prod_unfold comp_def)
qed

text \<open>
  In a debugging build, dumping the exchange and reloading it restores it: under the conditions of a successful
  dump, \<^verbatim>\<open>debug_reload\<close> on the dumped database forgets the state in memory, does not panic, answers with success,
  and leaves the same balances, counters of orders and trades, and the same orders and books in every market.
\<close>

theorem debug_reload_restores:
  assumes "env_laws E" and "insert_law St so sb" and "tables_law St so sb rnd"
    and "ctrl_inv c" and "dump_ok E s c"
    and "\<forall>r \<in> set (so conn). os_slice_id r \<noteq> s" and "\<forall>r \<in> set (sb conn). bi_slice_id r \<noteq> s"
    and "\<forall>r \<in> set (log_rows St conn). sint (ol_id r) \<le> sint (sq_operation_log_id (c_sequencer c))"
    and "debug_dump E St text s (Inr conn) c = Some (Some conn', Inr ())"
  shows "\<exists>c1. debug_reload E S Q St text (Inr conn') c = Some (c1, Inr ()) \<and>
    sq_order_id (c_sequencer c1) = sq_order_id (c_sequencer c) \<and>
    sq_trade_id (c_sequencer c1) = sq_trade_id (c_sequencer c) \<and>
    map_of (bm_balances (c_balance_manager c1)) = map_of (bm_balances (c_balance_manager c)) \<and>
    (\<forall>n. rel_option (recovered_book (stored_order E rnd)) (map_of (c_markets c) n) (map_of (c_markets c1) n))"
proof -
  have run: "dump_to_db E St s c conn = Some (conn', Inr ())"
    using assms(9) by (auto simp: debug_dump_def split: Option.bind_splits sum.splits)
  from recovers [OF assms(1-8) run blank_reset [OF assms(4)], of S Q]
  show ?thesis by (auto simp: debug_reload_def)
qed

section \<open>A concrete database\<close>

text \<open>Three tables; an insert numbers its rows behind the last one and is refused when the numbers run out.\<close>

type_synonym demo_db = "order_slice list \<times> balance_slice list \<times> (i32 \<times> slice_history) list"

fun number :: "i32 \<Rightarrow> balance_slice_insert list \<Rightarrow> balance_slice list" where
  "number i [] = []"
| "number i (r # rs) = \<lparr>bs_id = i, bs_slice_id = bi_slice_id r, bs_user_id = bi_user_id r, bs_asset = bi_asset r,
     bs_t = bi_t r, bs_balance = bi_balance r\<rparr> # number (i + 1) rs"

definition numbered :: "balance_slice list \<Rightarrow> bool" where
  "numbered bs \<longleftrightarrow> distinct (map (\<lambda>r. sint (bs_id r)) bs) \<and> list_all (\<lambda>r. 0 < sint (bs_id r)) bs"

fun demo_orders :: "demo_db \<Rightarrow> order_slice list" where
  "demo_orders (xs, bs, hs) = xs"

fun demo_balance_rows :: "demo_db \<Rightarrow> balance_slice list" where
  "demo_balance_rows (xs, bs, hs) = (if numbered bs then bs else [])"

definition demo_balances :: "demo_db \<Rightarrow> balance_slice_insert list" where
  "demo_balances d = map strip (demo_balance_rows d)"

fun demo_history :: "demo_db \<Rightarrow> (i32 \<times> slice_history) list" where
  "demo_history (xs, bs, hs) = hs"

fun demo_insert_orders :: "order_slice list \<Rightarrow> demo_db \<Rightarrow> demo_db \<times> (sql_error + SqlResultExt)" where
  "demo_insert_orders b (xs, bs, hs) = ((xs @ b, bs, hs), Inr QueryResult)"

fun demo_insert_balances :: "balance_slice_insert list \<Rightarrow> demo_db \<Rightarrow> demo_db \<times> (sql_error + SqlResultExt)" where
  "demo_insert_balances b (xs, bs, hs) =
     (let bs' = bs @ number (if bs = [] then 1 else bs_id (last bs) + 1) b
      in if numbered bs \<and> numbered bs' then ((xs, bs', hs), Inr QueryResult) else ((xs, bs, hs), Inl (OtherErr ''full'')))"

fun demo_insert_history :: "slice_history \<Rightarrow> demo_db \<Rightarrow> demo_db \<times> (sql_error + SqlResultExt)" where
  "demo_insert_history h (xs, bs, hs) =
     (let i = (if hs = [] then 1 else fst (last hs) + 1)
      in if list_all (\<lambda>(j, _). sint j < sint i) hs then ((xs, bs, hs @ [(i, h)]), Inr QueryResult)
         else ((xs, bs, hs), Inl (OtherErr ''full'')))"

fun demo_delete_orders :: "i64 \<Rightarrow> demo_db \<Rightarrow> demo_db \<times> (sql_error + unit)" where
  "demo_delete_orders t (xs, bs, hs) = ((filter (\<lambda>r. os_slice_id r \<noteq> t) xs, bs, hs), Inr ())"

fun demo_delete_balances :: "i64 \<Rightarrow> demo_db \<Rightarrow> demo_db \<times> (sql_error + unit)" where
  "demo_delete_balances t (xs, bs, hs) = ((xs, if numbered bs then filter (\<lambda>r. bs_slice_id r \<noteq> t) bs else bs, hs), Inr ())"

fun demo_delete_history :: "i64 \<Rightarrow> demo_db \<Rightarrow> demo_db \<times> (sql_error + unit)" where
  "demo_delete_history t (xs, bs, hs) = ((xs, bs, filter (\<lambda>(_, h). sh_time h \<noteq> t) hs), Inr ())"

definition demo_store :: "demo_db store" where
  "demo_store = \<lparr>insert_orders = demo_insert_orders, insert_balances = demo_insert_balances, insert_history = demo_insert_history,
     delete_balances = demo_delete_balances, delete_orders = demo_delete_orders, delete_history = demo_delete_history,
     order_rows = demo_orders, balance_rows = demo_balance_rows, history_rows = demo_history, log_rows = (\<lambda>_. [])\<rparr>"

lemma strip_number [simp]: "map strip (number i rs) = rs"
  by (induction rs arbitrary: i) (simp_all add: strip_def)

lemma demo_insert_law: "insert_law demo_store demo_orders demo_balances"
proof -
  have "query_law demo_insert_orders demo_orders" "query_law demo_insert_balances demo_balances"
    by (auto simp: query_law_def demo_balances_def Let_def split: if_splits)
  moreover have "\<exists>i. demo_history d' = demo_history d @ [(i, h)] \<and> (\<forall>j \<in> fst ` set (demo_history d). sint j < sint i)"
    if "demo_insert_history h d = (d', Inr q)" for h d d' q
    using that by (cases d) (fastforce simp: Let_def list_all_iff split: if_splits)
  ultimately show ?thesis
    unfolding insert_law_def demo_store_def by (auto simp: demo_balances_def Let_def split: if_splits)
qed

lemma demo_tables_law: "tables_law demo_store demo_orders demo_balances id"
proof -
  have "numbered (demo_balance_rows d)" for d by (cases d) (simp add: numbered_def)
  then have "distinct (map (\<lambda>r. sint (bs_id r)) (balance_rows demo_store d)) \<and> list_all (\<lambda>r. 0 < sint (bs_id r)) (balance_rows demo_store d)" for d
    by (simp add: numbered_def demo_store_def)
  moreover have "map strip (filter (\<lambda>r. bs_slice_id r = s) rs) = filter (\<lambda>r. bi_slice_id r = s) (map strip rs)" for s rs
    by (induction rs) (auto simp: strip_def)
  then have "map strip (filter (\<lambda>r. bs_slice_id r = s) (balance_rows demo_store d)) = filter (\<lambda>r. bi_slice_id r = s) (demo_balances d)" for s d
    by (simp add: demo_store_def demo_balances_def)
  moreover have "order_rows demo_store = demo_orders" by (simp add: demo_store_def)
  moreover have "map (stored_row id) rs = rs" for rs by (rule map_idI) (simp add: stored_row_def)
  ultimately show ?thesis by (simp add: tables_law_def)
qed

declare dump_loop.simps [code]

definition demo_dumped :: demo_db where
  "demo_dumped = fst (the (dump_to_db ref_env demo_store 5 demo_c2 ([], [], [])))"

lemma demo_dump: "map_option snd (dump_to_db ref_env demo_store 5 demo_c2 ([], [], [])) = Some (Inr ())"
  by code_simp

lemma demo_dump_ok: "dump_ok ref_env 5 demo_c2" by code_simp

lemma map_of_list_all2:
  "list_all2 (\<lambda>(n, m) (n', m'). n = n' \<and> P m m') xs ys \<Longrightarrow> map_of xs k = Some m \<Longrightarrow> map_of ys k = Some m' \<Longrightarrow> P m m'"
  by (induction rule: list_all2_induct) (auto split: if_splits)

lemma demo_blank: "blank_of demo_c2 demo_c0"
proof -
  let ?P = "\<lambda>m m0. empty_market m0 \<and> m_name m0 = m_name m \<and> m_base m0 = m_base m \<and> m_quote m0 = m_quote m"
  have "map fst (c_markets demo_c0) = map fst (c_markets demo_c2)" by code_simp
  moreover have "bm_balances (c_balance_manager demo_c0) = []" by code_simp
  moreover have "bm_asset_manager (c_balance_manager demo_c0) = bm_asset_manager (c_balance_manager demo_c2)" by code_simp
  moreover have "list_all2 (\<lambda>(n, m) (n', m0). n = n' \<and> ?P m m0) (c_markets demo_c2) (c_markets demo_c0)" by code_simp
  then have "\<forall>n m m0. map_of (c_markets demo_c2) n = Some m \<longrightarrow> map_of (c_markets demo_c0) n = Some m0 \<longrightarrow> ?P m m0"
    by (blast dest: map_of_list_all2 [where P = ?P])
  ultimately show ?thesis unfolding blank_of_def by blast
qed

theorem dump_recovers_witness:
  "\<exists>c1. init_from_db ref_env demo_serde demo_codec demo_store demo_dumped demo_c0 = Some c1 \<and>
     sq_order_id (c_sequencer c1) = 1 \<and> bm_get (c_balance_manager c1) 1 FREEZE ''ETH'' = 5 / 2"
proof -
  have run: "dump_to_db ref_env demo_store 5 demo_c2 ([], [], []) = Some (demo_dumped, Inr ())"
    using demo_dump by (auto simp: demo_dumped_def)
  have "sq_order_id (c_sequencer demo_c2) = 1" by code_simp
  with dump_recovers [OF ref_env_laws demo_insert_law demo_tables_law demo_inv2 demo_dump_ok _ _ _ run demo_blank, of demo_serde demo_codec]
    demo_c2_balance
  show ?thesis by (auto simp: demo_store_def demo_balances_def numbered_def bm_get_def bm_get_by_key_def)
qed

theorem debug_reload_restores_witness:
  "\<exists>c1. debug_reload ref_env demo_serde demo_codec demo_store (\<lambda>_. ''error'') (Inr demo_dumped) demo_c2 = Some (c1, Inr ()) \<and>
     bm_get (c_balance_manager c1) 1 FREEZE ''ETH'' = 5 / 2"
proof -
  have run: "debug_dump ref_env demo_store (\<lambda>_. ''error'') 5 (Inr ([], [], [])) demo_c2 = Some (Some demo_dumped, Inr ())"
    using demo_dump by (auto simp: demo_dumped_def debug_dump_def)
  from debug_reload_restores [OF ref_env_laws demo_insert_law demo_tables_law demo_inv2 demo_dump_ok _ _ _ run, of demo_serde demo_codec]
    demo_c2_balance
  show ?thesis by (auto simp: demo_store_def demo_balances_def numbered_def bm_get_def bm_get_by_key_def)
qed

end
