(* ===== verification/SliceProcess.thy ===== *)
theory SliceProcess
  imports Recovery
begin

text \<open>
  The process that saves the state, \<^verbatim>\<open>fork_and_make_slice\<close> of \<^verbatim>\<open>src/matchengine/persist/state_save_load.rs\<close>: the
  engine forks, the parent goes on, and the child dumps the state, deletes the slices that are too
  old, and exits. What the child leaves in the database is enough to recover. The handler \<^verbatim>\<open>debug_reset\<close> of the
  controller is here too.

  What \<^verbatim>\<open>fork(2)\<close> and the connection to the database return are arguments.
\<close>

section \<open>Forking\<close>

datatype fork_result = ForkParent | ForkChild | ForkError

text \<open>A failed fork panics. The variant for Windows never forks.\<close>

definition do_forking :: "fork_result \<Rightarrow> bool option" where
  "do_forking r = (case r of ForkParent \<Rightarrow> Some False | ForkChild \<Rightarrow> Some True | ForkError \<Rightarrow> None)"

definition do_forking_windows :: bool where
  "do_forking_windows = False"

text \<open>
  The process either goes on or exits with a code. An error of \<^verbatim>\<open>make_slice\<close> panics the thread that runs it,
  and \<^verbatim>\<open>join\<close> turns a panic of that thread into the exit code 1. The database is \<open>None\<close> where a panic
  leaves it unknown.
\<close>

datatype process = Continues | Exits nat

definition slice_thread :: "env \<Rightarrow> 'd store \<Rightarrow> i64 \<Rightarrow> sql_error + 'd \<Rightarrow> 'c controller \<Rightarrow> 'd option \<times> bool" where
  "slice_thread E St now db_conn c =
     (case db_conn of
        Inl e \<Rightarrow> (None, False)
      | Inr conn \<Rightarrow>
          (case make_slice E St now c conn of
             None \<Rightarrow> (None, False)
           | Some (conn, Inl e) \<Rightarrow> (Some conn, False)
           | Some (conn, Inr _) \<Rightarrow> (Some conn, True)))"

definition fork_and_make_slice ::
  "env \<Rightarrow> 'd store \<Rightarrow> fork_result \<Rightarrow> i64 \<Rightarrow> sql_error + 'd \<Rightarrow> 'c controller \<Rightarrow> ('d option \<times> process) option" where
  "fork_and_make_slice E St fork now db_conn c = do {
     child \<leftarrow> do_forking fork;
     if \<not> child then Some (case db_conn of Inl _ \<Rightarrow> None | Inr conn \<Rightarrow> Some conn, Continues)
     else
       let (conn, finished) = slice_thread E St now db_conn c
       in Some (conn, Exits (if finished then 0 else 1))
   }"

section \<open>Resetting everything\<close>

text \<open>
  \<^verbatim>\<open>debug_reset\<close>: \<open>down\<close>, \<open>up\<close> and \<open>migrate\<close> are the results of connecting and running the two scripts
  and the migrations; the memory is reset first, whatever they are.
\<close>

definition debug_reset ::
  "(sql_error \<Rightarrow> string) \<Rightarrow> sql_error + unit \<Rightarrow> sql_error + unit \<Rightarrow> sql_error + unit \<Rightarrow> 'c controller \<Rightarrow>
   'c controller \<times> (rpc_status + unit)" where
  "debug_reset text down up migrate c =
     (let c = reset_state c in
      case try_bind down (\<lambda>_. try_bind up (\<lambda>_. migrate)) of
        Inl e \<Rightarrow> (c, Inl (UnknownErr (text e)))
      | Inr _ \<Rightarrow> (c, Inr ()))"

section \<open>Deleting old slices\<close>

text \<open>What a \<^verbatim>\<open>delete .. where slice_id = $1\<close> (or \<^verbatim>\<open>time = $1\<close>) promises.\<close>

definition delete_law :: "'d store \<Rightarrow> bool" where
  "delete_law St \<longleftrightarrow>
     (\<forall>t conn conn' r. delete_balances St t conn = (conn', r) \<longrightarrow> order_rows St conn' = order_rows St conn \<and>
        history_rows St conn' = history_rows St conn \<and> log_rows St conn' = log_rows St conn \<and>
        (\<forall>s. s \<noteq> t \<longrightarrow> filter (\<lambda>r. bs_slice_id r = s) (balance_rows St conn') = filter (\<lambda>r. bs_slice_id r = s) (balance_rows St conn))) \<and>
     (\<forall>t conn conn' r. delete_orders St t conn = (conn', r) \<longrightarrow> balance_rows St conn' = balance_rows St conn \<and>
        history_rows St conn' = history_rows St conn \<and> log_rows St conn' = log_rows St conn \<and>
        (\<forall>s. s \<noteq> t \<longrightarrow> filter (\<lambda>r. os_slice_id r = s) (order_rows St conn') = filter (\<lambda>r. os_slice_id r = s) (order_rows St conn))) \<and>
     (\<forall>t conn conn'. delete_history St t conn = (conn', Inr ()) \<longrightarrow> balance_rows St conn' = balance_rows St conn \<and>
        order_rows St conn' = order_rows St conn \<and> log_rows St conn' = log_rows St conn \<and>
        history_rows St conn' = filter (\<lambda>(_, h). sh_time h \<noteq> t) (history_rows St conn))"

text \<open>Two databases from which the slice \<open>s\<close> is recovered alike.\<close>

definition same_slice :: "'d store \<Rightarrow> i64 \<Rightarrow> 'd \<Rightarrow> 'd \<Rightarrow> bool" where
  "same_slice St s conn conn' \<longleftrightarrow> log_rows St conn' = log_rows St conn \<and>
     filter (\<lambda>r. bs_slice_id r = s) (balance_rows St conn') = filter (\<lambda>r. bs_slice_id r = s) (balance_rows St conn) \<and>
     filter (\<lambda>r. os_slice_id r = s) (order_rows St conn') = filter (\<lambda>r. os_slice_id r = s) (order_rows St conn)"

lemma delete_slice_same:
  assumes law: "delete_law St" and ne: "s \<noteq> t" and run: "delete_slice St t conn = (conn', Inr ())"
  shows "same_slice St s conn conn'" and "history_rows St conn' = filter (\<lambda>(_, h). sh_time h \<noteq> t) (history_rows St conn)"
proof -
  from run obtain conn1 r1 conn2 r2 where 1: "delete_balances St t conn = (conn1, r1)" and
    2: "delete_orders St t conn1 = (conn2, r2)" and 3: "delete_history St t conn2 = (conn', Inr ())"
    by (auto simp: delete_slice_def split: prod.splits sum.splits)
  have d1: "order_rows St conn1 = order_rows St conn \<and> history_rows St conn1 = history_rows St conn \<and> log_rows St conn1 = log_rows St conn \<and>
      filter (\<lambda>r. bs_slice_id r = s) (balance_rows St conn1) = filter (\<lambda>r. bs_slice_id r = s) (balance_rows St conn)"
    using law 1 ne unfolding delete_law_def by blast
  have d2: "balance_rows St conn2 = balance_rows St conn1 \<and> history_rows St conn2 = history_rows St conn1 \<and> log_rows St conn2 = log_rows St conn1 \<and>
      filter (\<lambda>r. os_slice_id r = s) (order_rows St conn2) = filter (\<lambda>r. os_slice_id r = s) (order_rows St conn1)"
    using law 2 ne unfolding delete_law_def by blast
  have d3: "balance_rows St conn' = balance_rows St conn2 \<and> order_rows St conn' = order_rows St conn2 \<and> log_rows St conn' = log_rows St conn2 \<and>
      history_rows St conn' = filter (\<lambda>(_, h). sh_time h \<noteq> t) (history_rows St conn2)"
    using law 3 unfolding delete_law_def by blast
  from d1 d2 d3 show "same_slice St s conn conn'" "history_rows St conn' = filter (\<lambda>(_, h). sh_time h \<noteq> t) (history_rows St conn)"
    by (simp_all add: same_slice_def)
qed

lemma delete_slices_same:
  assumes law: "delete_law St"
  shows "s \<notin> set ts \<Longrightarrow> delete_slices St ts conn = (conn', Inr ()) \<Longrightarrow>
    same_slice St s conn conn' \<and> history_rows St conn' = filter (\<lambda>(_, h). sh_time h \<notin> set ts) (history_rows St conn)"
proof (induction ts arbitrary: conn)
  case Nil
  then show ?case by (simp add: same_slice_def)
next
  case (Cons t ts)
  from Cons.prems(2) obtain conn1 where 1: "delete_slice St t conn = (conn1, Inr ())" and
    2: "delete_slices St ts conn1 = (conn', Inr ())" by (auto split: prod.splits sum.splits)
  note d = delete_slice_same [OF law _ 1, of s]
  from Cons.IH [OF _ 2] Cons.prems(1) d show ?case
    by (auto simp: same_slice_def case_prod_beta' intro: filter_cong)
qed

text \<open>A slice is not older than itself.\<close>

lemma keep_time: "0 \<le> sint s \<Longrightarrow> sint (s - SLICE_KEEP_TIME) < sint s"
proof -
  assume s: "0 \<le> sint s"
  have "sint s < 2 ^ 63" using sint_lt [of s] by simp
  with s have "signed_take_bit 63 (sint s - 30) = sint s - 30" by (intro signed_take_bit_int_eq_self) simp_all
  then have "sint (s - SLICE_KEEP_TIME) = sint s - 30" by (simp add: SLICE_KEEP_TIME_def sint_word_ariths)
  then show ?thesis by simp
qed

lemma clear_slice_same:
  assumes law: "delete_law St" and s: "0 \<le> sint s" and run: "clear_slice St s conn = (conn', Inr ())"
    and hist: "history_rows St conn = hs @ [(i, h)]" "sh_time h = s" "\<forall>j \<in> fst ` set hs. sint j < sint i"
  shows "same_slice St s conn conn'" and "get_last_slice St conn' = get_last_slice St conn"
proof -
  define ts where "ts = map (\<lambda>(_, h). sh_time h) (filter (\<lambda>(_, h). sint (sh_time h) \<le> sint (s - SLICE_KEEP_TIME)) (history_rows St conn))"
  have "s \<notin> set ts" using keep_time [OF s] by (auto simp: ts_def)
  from delete_slices_same [OF law this, of conn conn'] run
  have d: "same_slice St s conn conn'" "history_rows St conn' = filter (\<lambda>(_, h). sh_time h \<notin> set ts) (history_rows St conn)"
    by (simp_all add: clear_slice_def ts_def)
  then show "same_slice St s conn conn'" by simp
  have "history_rows St conn' = filter (\<lambda>(_, h). sh_time h \<notin> set ts) hs @ [(i, h)]"
    using d(2) hist(1,2) \<open>s \<notin> set ts\<close> by simp
  with last_slice_append [of St conn' _ i h] last_slice_append [OF hist(1,3)] hist(3)
  show "get_last_slice St conn' = get_last_slice St conn" by auto
qed

lemma init_from_db_same:
  assumes "same_slice St (sh_time h) conn conn'" and "get_last_slice St conn = Some h" and "get_last_slice St conn' = get_last_slice St conn"
  shows "init_from_db E S Q St conn' c = init_from_db E S Q St conn c"
  using assms
  by (simp add: init_from_db_def load_slice_from_db_def load_operation_log_from_db_def same_slice_def)

section \<open>What the child process achieves\<close>

text \<open>
  A saved state can be recovered. When a process forked from an exchange that satisfies its invariant
  exits with code 0, having saved the state in a database that keeps its promises under a new identifier and
  deleted the outdated slices, and no operation was logged since, then a controller freshly created for
  the same markets and assets recovers from that database without a panic: its counters of orders, trades and
  logged operations and all its balances are those of the saved exchange, and every market has the same
  orders under the same identifiers (up to the resolution of their times) and the same ask and bid books in
  the same priority order. The process that forked goes on with its state untouched.
\<close>

theorem slice_process_recovers:
  assumes "env_laws E" and "insert_law St so sb" and "tables_law St so sb rnd" and "delete_law St"
    and "ctrl_inv c" and "dump_ok E s c" and "0 \<le> sint s"
    and "\<forall>r \<in> set (so conn). os_slice_id r \<noteq> s" and "\<forall>r \<in> set (sb conn). bi_slice_id r \<noteq> s"
    and "\<forall>r \<in> set (log_rows St conn). sint (ol_id r) \<le> sint (sq_operation_log_id (c_sequencer c))"
    and "fork_and_make_slice E St ForkChild s (Inr conn) c = Some (Some conn', Exits 0)" and "blank_of c c0"
  shows "(\<exists>c1. init_from_db E S Q St conn' c0 = Some c1 \<and>
      sq_order_id (c_sequencer c1) = sq_order_id (c_sequencer c) \<and>
      sq_trade_id (c_sequencer c1) = sq_trade_id (c_sequencer c) \<and>
      sq_operation_log_id (c_sequencer c1) = sq_operation_log_id (c_sequencer c) \<and>
      map_of (bm_balances (c_balance_manager c1)) = map_of (bm_balances (c_balance_manager c)) \<and>
      (\<forall>n. rel_option (recovered_book (stored_order E rnd)) (map_of (c_markets c) n) (map_of (c_markets c1) n))) \<and>
    fork_and_make_slice E St ForkParent s (Inr conn) c = Some (Some conn, Continues)"
proof -
  from assms(11) have "make_slice E St s c conn = Some (conn', Inr ())"
    by (auto simp: fork_and_make_slice_def do_forking_def slice_thread_def split: option.splits prod.splits sum.splits if_splits)
  then obtain conn1 where dump: "dump_to_db E St s c conn = Some (conn1, Inr ())" and clear: "clear_slice St s conn1 = (conn', Inr ())"
    by (auto simp: make_slice_def split: Option.bind_splits sum.splits)
  note rows = dump_to_db_rows [OF assms(2) dump]
  from rows(5) obtain hs i h where hist: "history_rows St conn1 = hs @ [(i, h)]" "sh_time h = s" "\<forall>j \<in> fst ` set hs. sint j < sint i" by blast
  note same = clear_slice_same [OF assms(4,7) clear hist]
  have "get_last_slice St conn1 = Some h" by (rule last_slice_append [OF hist(1,3)])
  from init_from_db_same [OF same(1) [folded hist(2)] this same(2)]
  have "init_from_db E S Q St conn' c0 = init_from_db E S Q St conn1 c0" .
  with recovers [OF assms(1-3,5,6,8-10) dump assms(12), of S Q] show ?thesis
    by (simp add: fork_and_make_slice_def do_forking_def)
qed

lemma demo_delete_law: "delete_law demo_store"
proof -
  have "numbered (filter P bs)" if "numbered bs" for P bs
    using that by (auto simp: numbered_def list_all_iff distinct_map_filter)
  then show ?thesis
    unfolding delete_law_def demo_store_def by (auto intro: filter_cong)
qed

definition demo_sliced :: demo_db where
  "demo_sliced = the (fst (the (fork_and_make_slice ref_env demo_store ForkChild 5 (Inr ([], [], [])) demo_c2)))"

lemma demo_slice:
  "map_option (\<lambda>(conn, p). (conn \<noteq> None, p)) (fork_and_make_slice ref_env demo_store ForkChild 5 (Inr ([], [], [])) demo_c2) =
     Some (True, Exits 0)"
  by code_simp

theorem slice_process_recovers_witness:
  "\<exists>c1. init_from_db ref_env demo_serde demo_codec demo_store demo_sliced demo_c0 = Some c1 \<and>
     sq_order_id (c_sequencer c1) = 1 \<and> bm_get (c_balance_manager c1) 1 FREEZE ''ETH'' = 5 / 2"
proof -
  have run: "fork_and_make_slice ref_env demo_store ForkChild 5 (Inr ([], [], [])) demo_c2 = Some (Some demo_sliced, Exits 0)"
    using demo_slice by (auto simp: demo_sliced_def)
  have "sq_order_id (c_sequencer demo_c2) = 1" by code_simp
  with slice_process_recovers [OF ref_env_laws demo_insert_law demo_tables_law demo_delete_law demo_inv2 demo_dump_ok
      _ _ _ _ run demo_blank, of demo_serde demo_codec] demo_c2_balance
  show ?thesis by (auto simp: demo_store_def demo_balances_def numbered_def bm_get_def bm_get_by_key_def)
qed

text \<open>
  A reset empties the engine whatever the database answers: afterwards no market has a resting order, no
  balance is left and the identifiers start anew; only the answer tells whether the database was rebuilt.
\<close>

lemma debug_reset_empties:
  assumes "ctrl_inv c" and "debug_reset text down up migrate c = (c', res)"
  shows "ctrl_inv c' \<and> bm_balances (c_balance_manager c') = [] \<and> sq_order_id (c_sequencer c') = 0 \<and>
    (\<forall>(n, m) \<in> set (c_markets c'). m_orders m = []) \<and>
    (res = Inr () \<longleftrightarrow> down = Inr () \<and> up = Inr () \<and> migrate = Inr ())"
proof -
  have c': "c' = reset_state c" using assms(2) by (auto simp: debug_reset_def Let_def split: sum.splits)
  have "res = Inr () \<longleftrightarrow> down = Inr () \<and> up = Inr () \<and> migrate = Inr ()"
    using assms(2) by (cases down; cases up; cases migrate) (auto simp: debug_reset_def try_bind_def)
  moreover have "bm_balances (c_balance_manager c') = []" "sq_order_id (c_sequencer c') = 0" "\<forall>(n, m) \<in> set (c_markets c'). m_orders m = []"
    by (auto simp: c' reset_state_def bm_reset_def market_reset_def default_sequencer_def)
  ultimately show ?thesis using reset_state_inv [OF assms(1)] c' by simp
qed

end
