(* ===== verification/ConfigStore.thy ===== *)
theory ConfigStore
  imports ControllerReach
begin

text \<open>
  \<^verbatim>\<open>src/storage/config.rs\<close> with \<^verbatim>\<open>init_config_from_db\<close> and the database side of \<^verbatim>\<open>market_reload\<close>: assets and
  markets are read from their tables incrementally, by creation time, and are written there by the REST service. What a query
  yields is a list of rows, or an error in the middle; the tables are arguments.
\<close>

section \<open>Rows and configuration\<close>

definition asset_of_desc :: "asset_desc \<Rightarrow> asset_cfg" where
  "asset_of_desc origin = \<lparr>ac_id = ad_id origin, ac_symbol = ad_symbol origin, ac_name = ad_name origin,
     ac_prec_save = scast (ad_precision_stor origin), ac_prec_show = scast (ad_precision_show origin)\<rparr>"

definition market_of_desc :: "market_desc \<Rightarrow> market_cfg" where
  "market_of_desc origin = (
     let market_name = (case md_market_name origin of Some n \<Rightarrow> n | None \<Rightarrow> md_base_asset origin @ ''_'' @ md_quote_asset origin)
     in \<lparr>mc_name = market_name, mc_base = md_base_asset origin, mc_quote = md_quote_asset origin,
         mc_amount_prec = scast (md_precision_amount origin), mc_price_prec = scast (md_precision_price origin),
         mc_fee_prec = scast (md_precision_fee origin), mc_min_amount = md_min_amount origin\<rparr>)"

text \<open>A column \<^verbatim>\<open>DECIMAL(p, scale)\<close> rounds half away from zero to its scale.\<close>

definition numeric :: "nat \<Rightarrow> decimal \<Rightarrow> decimal" where
  "numeric scale x =
     of_int (if 0 \<le> x then \<lfloor>x * 10 ^ scale + 1 / 2\<rfloor> else - \<lfloor>- x * 10 ^ scale + 1 / 2\<rfloor>) / 10 ^ scale"

lemma numeric_id: "has_prec scale x \<Longrightarrow> numeric scale x = x"
proof -
  have half: "\<lfloor>1 / 2 :: rat\<rfloor> = 0" by (simp add: floor_eq_iff)
  show "has_prec scale x \<Longrightarrow> numeric scale x = x" by (auto simp: has_prec_iff numeric_def half)
qed

text \<open>
  The rows that \<^verbatim>\<open>persist_asset_to_db\<close> and \<^verbatim>\<open>persist_market_to_db\<close> bind, as the tables hold them; the database adds the creation
  time in whole seconds, and the serial number of a market. The column of the least amount is \<^verbatim>\<open>DECIMAL(16, 16)\<close>.
\<close>

definition asset_row :: "timestamp \<Rightarrow> asset_cfg \<Rightarrow> asset_desc" where
  "asset_row now asset = \<lparr>ad_id = ac_id asset, ad_symbol = ac_symbol asset, ad_name = ac_name asset,
     ad_precision_stor = ucast (ac_prec_save asset), ad_precision_show = ucast (ac_prec_show asset), ad_create_time = Some now\<rparr>"

definition market_row :: "i32 \<Rightarrow> timestamp \<Rightarrow> market_cfg \<Rightarrow> market_desc" where
  "market_row serial now market = \<lparr>md_id = serial, md_create_time = Some now, md_base_asset = mc_base market,
     md_quote_asset = mc_quote market, md_precision_amount = ucast (mc_amount_prec market),
     md_precision_price = ucast (mc_price_prec market), md_precision_fee = ucast (mc_fee_prec market),
     md_min_amount = numeric 16 (mc_min_amount market), md_market_name = Some (mc_name market)\<rparr>"

section \<open>Loading\<close>

record market_configs =
  assets_load_time :: timestamp
  market_load_time :: timestamp

definition market_configs_new :: market_configs where
  "market_configs_new = \<lparr>assets_load_time = 0, market_load_time = 0\<rparr>"

definition reset_load_time :: "market_configs \<Rightarrow> market_configs" where
  "reset_load_time mc = mc\<lparr>assets_load_time := 0, market_load_time := 0\<rparr>"

text \<open>
  \<^verbatim>\<open>select .. where create_time > $1\<close> over a table; a row without creation time is not selected. \<open>fails\<close> tells
  after how many rows the connection breaks, if it does.
\<close>

definition select_newer :: "('r \<Rightarrow> timestamp option) \<Rightarrow> timestamp \<Rightarrow> 'r list \<Rightarrow> 'r list" where
  "select_newer created from_time rows =
     filter (\<lambda>r. case created r of Some t \<Rightarrow> from_time < t | None \<Rightarrow> False) rows"

definition fetched :: "(nat \<times> string) option \<Rightarrow> 'r list \<Rightarrow> (string + 'r) list" where
  "fetched fails rows = (case fails of None \<Rightarrow> map Inr rows | Some (n, e) \<Rightarrow> map Inr (take n rows) @ [Inl e])"

fun load_assets :: "(string + asset_desc) list \<Rightarrow> asset_cfg list \<Rightarrow> market_configs \<Rightarrow> market_configs \<times> (string + asset_cfg list)" where
  "load_assets [] ret mc = (mc, Inr ret)"
| "load_assets (Inl e # rows) ret mc = (mc, Inl e)"
| "load_assets (Inr item # rows) ret mc =
     load_assets rows (ret @ [asset_of_desc item])
       (mc\<lparr>assets_load_time := (case ad_create_time item of
           Some t \<Rightarrow> if assets_load_time mc < t then t else assets_load_time mc | None \<Rightarrow> assets_load_time mc)\<rparr>)"

definition load_asset_from_db ::
  "(nat \<times> string) option \<Rightarrow> asset_desc list \<Rightarrow> market_configs \<Rightarrow> market_configs \<times> (string + asset_cfg list)" where
  "load_asset_from_db fails table mc =
     load_assets (fetched fails (select_newer ad_create_time (market_load_time mc) table)) [] mc"

fun load_markets :: "(string + market_desc) list \<Rightarrow> market_cfg list \<Rightarrow> market_configs \<Rightarrow> market_configs \<times> (string + market_cfg list)" where
  "load_markets [] ret mc = (mc, Inr ret)"
| "load_markets (Inl e # rows) ret mc = (mc, Inl e)"
| "load_markets (Inr item # rows) ret mc =
     load_markets rows (ret @ [market_of_desc item])
       (mc\<lparr>market_load_time := (case md_create_time item of
           Some t \<Rightarrow> if market_load_time mc < t then t else market_load_time mc | None \<Rightarrow> market_load_time mc)\<rparr>)"

definition load_market_from_db ::
  "(nat \<times> string) option \<Rightarrow> market_desc list \<Rightarrow> market_configs \<Rightarrow> market_configs \<times> (string + market_cfg list)" where
  "load_market_from_db fails table mc =
     load_markets (fetched fails (select_newer md_create_time (market_load_time mc) table)) [] mc"

definition init_config_from_db ::
  "asset_desc list \<Rightarrow> market_desc list \<Rightarrow> (nat \<times> string) option \<Rightarrow> (nat \<times> string) option \<Rightarrow> settings \<Rightarrow>
   settings \<times> (string + market_configs)" where
  "init_config_from_db atable mtable fa fm config =
     (let market_cfg = market_configs_new in
      case load_asset_from_db fa atable market_cfg of
        (market_cfg, Inl e) \<Rightarrow> (config, Inl e)
      | (market_cfg, Inr assets) \<Rightarrow>
          (let config = config\<lparr>st_assets := assets\<rparr> in
           case load_market_from_db fm mtable market_cfg of
             (market_cfg, Inl e) \<Rightarrow> (config, Inl e)
           | (market_cfg, Inr markets) \<Rightarrow> (config\<lparr>st_markets := markets\<rparr>, Inr market_cfg)))"

text \<open>
  The whole of \<^verbatim>\<open>market_reload\<close>: \<open>market_reload\<close> of the controller on what the two queries yield. A failing
  first query leaves the markets unqueried.
\<close>

definition reload_from_db ::
  "bool \<Rightarrow> asset_desc list \<Rightarrow> market_desc list \<Rightarrow> (nat \<times> string) option \<Rightarrow> (nat \<times> string) option \<Rightarrow>
   market_configs \<Rightarrow> 'c controller \<Rightarrow> ((market_configs \<times> 'c controller) \<times> (rpc_status + unit)) option" where
  "reload_from_db from_scratch atable mtable fa fm mc c =
     (let mc = (if from_scratch then reset_load_time mc else mc);
          (mc, as) = load_asset_from_db fa atable mc
      in case as of
           Inl e \<Rightarrow> Some ((mc, c), Inl (InternalErr e))
         | Inr _ \<Rightarrow>
             (let (mc, ms) = load_market_from_db fm mtable mc
              in map_option (\<lambda>(c, r). ((mc, c), r)) (market_reload as ms c)))"

section \<open>Round trip of a configuration\<close>

lemma prec_roundtrip: "unat (p :: u32) < 2 ^ 15 \<Longrightarrow> scast (ucast p :: i16) = p"
proof -
  assume p: "unat p < 2 ^ 15"
  then have "uint p < 2 ^ 15" by (metis of_nat_less_iff of_nat_numeral of_nat_power uint_nat)
  then have "signed_take_bit 15 (uint p) = uint p"
    by (intro signed_take_bit_int_eq_self order_trans [OF _ uint_ge_0]) simp_all
  moreover have "sint (ucast p :: i16) = signed_take_bit 15 (uint p)"
    by (subst signed_ucast_eq) simp
  ultimately have "sint (ucast p :: i16) = uint p" by (simp only:)
  then show ?thesis by (metis word_of_int_uint of_int_sint)
qed

lemma asset_roundtrip:
  assumes "unat (ac_prec_save a) < 2 ^ 15" and "unat (ac_prec_show a) < 2 ^ 15"
  shows "asset_of_desc (asset_row now a) = a"
  using assms by (simp add: asset_of_desc_def asset_row_def prec_roundtrip)

lemma market_roundtrip:
  assumes "unat (mc_amount_prec m) < 2 ^ 15" and "unat (mc_price_prec m) < 2 ^ 15" and "unat (mc_fee_prec m) < 2 ^ 15"
    and "has_prec 16 (mc_min_amount m)"
  shows "market_of_desc (market_row serial now m) = m"
  using assms by (simp add: market_of_desc_def market_row_def prec_roundtrip numeric_id)

lemma load_assets_rows: "snd (load_assets (map Inr rs) ret k) = Inr (ret @ map asset_of_desc rs)"
  by (induction rs arbitrary: ret k) simp_all

lemma load_markets_rows: "snd (load_markets (map Inr rs) ret k) = Inr (ret @ map market_of_desc rs)"
  by (induction rs arbitrary: ret k) simp_all

lemma load_asset_newer:
  "snd (load_asset_from_db None table mc) =
     Inr (map asset_of_desc (select_newer ad_create_time (market_load_time mc) table))"
  by (simp add: load_asset_from_db_def fetched_def load_assets_rows)

lemma load_market_newer:
  "snd (load_market_from_db None table mc) =
     Inr (map market_of_desc (select_newer md_create_time (market_load_time mc) table))"
  by (simp add: load_market_from_db_def fetched_def load_markets_rows)

lemma select_newer_append: "select_newer f t (xs @ ys) = select_newer f t xs @ select_newer f t ys"
  by (simp add: select_newer_def)

definition demo_asset_cfg :: asset_cfg where
  "demo_asset_cfg = \<lparr>ac_id = ''BTC'', ac_symbol = ''BTC'', ac_name = ''Bitcoin'', ac_prec_save = 8, ac_prec_show = 4\<rparr>"

definition demo_market_cfg :: market_cfg where
  "demo_market_cfg = \<lparr>mc_name = ''BTC_USDT'', mc_base = ''BTC'', mc_quote = ''USDT'', mc_amount_prec = 4, mc_price_prec = 2,
     mc_fee_prec = 2, mc_min_amount = 1 / 100\<rparr>"

section \<open>Incremental loading\<close>

lemma load_markets_mark:
  assumes "\<forall>r\<in>set rs. md_create_time r \<noteq> None"
  shows "market_load_time (fst (load_markets (map Inr rs) ret k)) =
    fold max (map (\<lambda>r. the (md_create_time r)) rs) (market_load_time k)"
  using assms
proof (induction rs arbitrary: ret k)
  case (Cons r rs)
  from Cons.prems obtain t where "md_create_time r = Some t" by auto
  then show ?case using Cons.prems by (simp add: Cons.IH max_def)
qed simp

lemma fold_max_ge: "(x :: 'a :: linorder) \<in> set xs \<or> x \<le> m \<Longrightarrow> x \<le> fold max xs m"
proof (induction xs arbitrary: m)
  case (Cons a xs)
  then have "x \<in> set xs \<or> x \<le> max a m" by (auto simp: le_max_iff_disj)
  then show ?case using Cons.IH by simp
qed simp

lemma select_newer_timed: "r \<in> set (select_newer f t rows) \<Longrightarrow> \<exists>u. f r = Some u \<and> t < u"
  by (auto simp: select_newer_def split: option.splits)


definition demo_rows :: "market_desc list" where
  "demo_rows = map (\<lambda>(i, t, n). market_row i t (demo_market_cfg\<lparr>mc_name := n\<rparr>)) [(1, 3, ''A''), (2, 9, ''B''), (3, 9, ''C'')]"


text \<open>
  The assets are queried with the mark of the markets: an asset whose creation time lies between the two marks is never loaded.
\<close>

lemma asset_behind_market_mark:
  assumes "assets_load_time mc < now" and "now \<le> market_load_time mc"
  shows "snd (load_asset_from_db None [asset_row now a] mc) = Inr []"
  using assms by (simp add: load_asset_newer select_newer_def asset_row_def)

text \<open>
  The database side of a reload hands the controller what the queries yield: a failing query is an internal
  error, after which the markets are unchanged.
\<close>

lemma reload_asset_failure:
  "snd (load_asset_from_db fa atable (if scratch then reset_load_time mc else mc)) = Inl e \<Longrightarrow>
     \<exists>mc'. reload_from_db scratch atable mtable fa fm mc c = Some ((mc', c), Inl (InternalErr e))"
  by (auto simp: reload_from_db_def split_beta Let_def)

lemma reload_from_db_inv:
  assumes "reload_from_db scratch atable mtable fa fm mc c = Some ((mc', c'), r)"
  shows "(\<exists>as ms. market_reload as ms c = Some (c', r)) \<or> c' = c"
  using assms by (auto simp: reload_from_db_def split_beta Let_def split: sum.splits)

end
