(* ===== verification/Startup.thy ===== *)
theory Startup
  imports SliceProcess ConfigStore Server
begin

text \<open>
  The start of the engine, \<^verbatim>\<open>prepare\<close> of \<^verbatim>\<open>src/bin/matchengine.rs\<close>: settings, configuration from the database, controller,
  recovery, server. An exchange that was set up on an empty database, was operated, and was saved is back
  after a restart.
\<close>

section \<open>Preparing the server\<close>

text \<open>
  The results of connecting and of running the migrations are arguments, as are the rows of the two configuration
  tables; a failed connection panics, other failures are reported.
\<close>

definition prepare ::
  "env \<Rightarrow> serde \<Rightarrow> rpc_codec \<Rightarrow> 'd store \<Rightarrow> asset_desc list \<Rightarrow> market_desc list \<Rightarrow> (nat \<times> string) option \<Rightarrow> (nat \<times> string) option \<Rightarrow>
   settings \<Rightarrow> string + 'd \<Rightarrow> string + unit \<Rightarrow> 'c \<Rightarrow> (string + market_configs \<times> 'c server) option" where
  "prepare E S Q St atable mtable fa fm settings db_conn migrated pool =
     (case db_conn of
        Inl e \<Rightarrow> None
      | Inr conn \<Rightarrow>
          (case migrated of
             Inl e \<Rightarrow> Some (Inl e)
           | Inr _ \<Rightarrow>
               (let (settings, market_cfg) =
                      (if st_market_from_db settings then init_config_from_db atable mtable fa fm settings
                       else (settings, Inr market_configs_new))
                in case market_cfg of
                     Inl e \<Rightarrow> Some (Inl e)
                   | Inr market_cfg \<Rightarrow> do {
                       grpc_stub \<leftarrow> create_controller settings pool;
                       grpc_stub \<leftarrow> init_from_db E S Q St conn grpc_stub;
                       Some (Inr (market_cfg, server_new grpc_stub))
                     })))"

section \<open>What operations leave alone\<close>

text \<open>The markets with their assets, and the assets, as they were configured.\<close>

definition shape :: "'c controller \<Rightarrow> (string \<times> string \<times> string) list \<times> asset_manager" where
  "shape c = (map (\<lambda>(n, m). (n, m_base m, m_quote m)) (c_markets c), bm_asset_manager (c_balance_manager c))"

lemma map_update_same:
  "map_of xs k = Some v \<Longrightarrow> f (k, v') = f (k, v) \<Longrightarrow> map f (AList.update k v' xs) = map f xs"
  by (induction xs) (auto split: if_splits)

lemma lent_shape:
  assumes "map_of (c_markets c) n = Some m" and "lent_ok m (lend b c) m' cx" and "give_back E S b cx c = Some c'"
  shows "shape (set_market n m' c') = shape c"
proof -
  have "m_base m' = m_base m" "m_quote m' = m_quote m" using assms(2) by (simp_all add: lent_ok_def same_tags_def)
  with map_update_same [OF assms(1), of "\<lambda>(n, m). (n, m_base m, m_quote m)" m'] assms(2) show ?thesis
    by (simp add: shape_def give_back_sel [OF assms(3)] lent_ok_def)
qed

lemma same_engine_shape: "same_engine c c' \<Longrightarrow> shape c' = shape c"
  by (simp add: same_engine_def shape_def)

lemma append_log_shape [simp]: "shape (append_operation_log E Q meth req u c) = shape c"
  by (rule same_engine_shape) simp

lemma ctrl_put_order_shape:
  assumes inv: "ctrl_inv c" and E: "env_laws E" and req: "put_req_ok E req"
    and room: "ctrl_room (Suc k) (r_market req) c" and put: "ctrl_put_order E S b req u c = Some (c', res)"
  shows "shape c' = shape c"
proof (cases "c' = c")
  case False
  with put obtain m i m' cx r c1 where
    get: "map_of (c_markets c) (r_market req) = Some m" and i: "order_input_try_from E req = Inr i" and
    run: "put_order E i u m (lend b c) = Some (m', cx, r)" and gb: "give_back E S b cx c = Some c1" and
    c': "c' = set_market (r_market req) m' c1"
    by (auto simp: ctrl_put_order_def split: option.splits if_splits sum.splits Option.bind_splits)
  have "room_for (Suc k) m (lend b c)" using room get by (simp add: ctrl_room_def room_lend(1) [of _ _ b])
  then have "env_laws E \<and> input_ok i \<and> room m (lend b c)" using E req i room_for_room by (simp add: put_req_ok_def)
  from lent_shape [OF get put.op_lent(1) [OF ctrl_exch [OF inv] get this run] gb] show ?thesis by (simp add: c')
qed simp

lemma ctrl_cancel_all_shape:
  assumes inv: "ctrl_inv c" and E: "env_laws E" and can: "ctrl_cancel_all E S b n u c = Some (c', t)"
  shows "shape c' = shape c"
proof -
  from can obtain m m' cx c1 where
    get: "map_of (c_markets c) n = Some m" and
    run: "cancel_all_for_user E (uuid_to_string E u) m (lend b c) = Some (m', cx, t)" and
    gb: "give_back E S b cx c = Some c1" and c': "c' = set_market n m' c1"
    by (auto simp: ctrl_cancel_all_def split: Option.bind_splits)
  from lent_shape [OF get cancel_all.op_lent(1) [OF ctrl_exch [OF inv] get E run] gb] show ?thesis by (simp add: c')
qed

lemma batch_reset_shape:
  assumes E: "env_laws E"
  shows "ctrl_inv c \<Longrightarrow> batch_reset E S b n u os c = Some (c', res) \<Longrightarrow> shape c' = shape c"
proof (induction os arbitrary: c)
  case (Cons req os)
  show ?case
  proof (cases "n = r_market req")
    case True
    with Cons.prems obtain c1 t where c1: "ctrl_cancel_all E S b n u c = Some (c1, t)" and
      rest: "batch_reset E S b n u os c1 = Some (c', res)" by (auto split: Option.bind_splits)
    from Cons.IH [OF ctrl_cancel_all_ok(1) [OF Cons.prems(1) E c1] rest] ctrl_cancel_all_shape [OF Cons.prems(1) E c1] show ?thesis by simp
  qed (use Cons.prems in simp)
qed simp

lemma batch_put_shape:
  assumes E: "env_laws E"
  shows "ctrl_inv c \<Longrightarrow> list_all (put_req_ok E) os \<Longrightarrow> ctrl_room (length os) n c \<Longrightarrow>
    batch_put E S b n u os ids c = Some (c', res) \<Longrightarrow> shape c' = shape c"
proof (induction os arbitrary: c ids)
  case (Cons req os)
  show ?case
  proof (cases "n = r_market req")
    case True
    with Cons.prems(4) obtain c1 r where put: "ctrl_put_order E S b req u c = Some (c1, r)" and
      rest: "c' = c1 \<or> (\<exists>ids. batch_put E S b n u os ids c1 = Some (c', res))"
      by (fastforce split: Option.bind_splits sum.splits)
    have req: "put_req_ok E req" "ctrl_room (Suc (length os)) (r_market req) c" using Cons.prems(2,3) True by simp_all
    have "ctrl_inv c1 \<and> ctrl_room (length os) n c1" using ctrl_put_order_ok [OF Cons.prems(1) E req put] True by simp
    with rest Cons.IH [of c1] Cons.prems(2) ctrl_put_order_shape [OF Cons.prems(1) E req put] show ?thesis by auto
  qed (use Cons.prems in simp)
qed simp

lemma batch_order_put_shape:
  assumes inv: "ctrl_inv c" and E: "env_laws E" and req: "batch_ok E req c" and run: "batch_order_put E S Q b req u c = Some (c', res)"
  shows "shape c' = shape c"
proof (cases "c' = c")
  case False
  let ?n = "bo_market req" and ?k = "length (bo_orders req)"
  from False run obtain c1 r where r: "maybe_reset E S b req u c = Some (c1, r)" and
    rest: "c' = c1 \<or> (\<exists>c2 resp. batch_put E S b ?n u (bo_orders req) [] c1 = Some (c2, resp) \<and> shape c' = shape c2)"
    by (auto simp: batch_order_put_def [folded maybe_reset_def] split: if_splits Option.bind_splits sum.splits)
  have os: "list_all (put_req_ok E) (bo_orders req)" using req by (simp add: batch_ok_def)
  have c1: "ctrl_inv c1" "ctrl_room ?k ?n c1" using maybe_reset_ok(1) [OF inv E r, of ?k] req by (simp_all add: batch_ok_def)
  have "shape c1 = shape c" using r batch_reset_shape [OF E inv] by (auto simp: maybe_reset_def split: if_splits)
  with rest batch_put_shape [OF E c1(1) os c1(2)] show ?thesis by auto
qed simp

lemma order_cancel_shape:
  assumes inv: "ctrl_inv c" and E: "env_laws E" and can: "order_cancel E S Q b req u c = Some (c', res)"
  shows "shape c' = shape c"
proof (cases "c' = c")
  case False
  with can obtain m x m' cx r c1 where
    get: "map_of (c_markets c) (oc_market req) = Some m" and x: "market_get m (oc_order_id req) = Some x" and
    run: "market_cancel E (o_id x) m (lend b c) = Some (m', cx, r)" and gb: "give_back E S b cx c = Some c1" and
    c': "shape c' = shape (set_market (oc_market req) m' c1)"
    by (auto simp: order_cancel_def Let_def split: option.splits if_splits Option.bind_splits)
  have "env_laws E \<and> market_get m (o_id x) \<noteq> None" using E x market_get_id [OF exch_market_inv [OF ctrl_exch [OF inv] get] x] by simp
  from lent_shape [OF get cancel.op_lent(1) [OF ctrl_exch [OF inv] get this run] gb] show ?thesis by (simp add: c')
qed simp

lemma update_balance_shape:
  assumes inv: "ctrl_inv c" and E: "env_laws E" and run: "update_balance E S Q b req u c = Some (c', res)"
  shows "shape c' = shape c"
  using run
proof (cases rule: update_balanceE)
  case (applied prec x price detail cx r c1)
  let ?p = "update_of req u price detail (round_dp E x prec)"
  have amt: "amount_ok (cx_bm (lend b c)) (up_asset ?p) (up_change ?p)"
    using shows_ok_amount [OF E _ applied(1)] inv by (simp add: ctrl_inv_def update_of_def)
  have ok: "bm_ok (cx_bm (lend b c))" using ctrl_exch [OF inv, of b] by (simp add: exch_inv_def ctx_ok_def)
  have "bm_asset_manager (cx_bm cx) = bm_asset_manager (c_balance_manager c)"
    by (cases rule: update_user_balance_cases [OF E ok amt applied(4)]) (auto simp: booked_def)
  with applied(7) give_back_sel [OF applied(5)] show ?thesis by (cases r) (auto simp: shape_def [of c1] shape_def [of c])
qed simp

lemma order_put_shape:
  assumes "ctrl_inv c" and "env_laws E" and "put_req_ok E req" and "ctrl_room 1 (r_market req) c" and "order_put E S Q b req u c = Some (c', res)"
  shows "shape c' = shape c"
  using assms(5) ctrl_put_order_shape [OF assms(1-3), of 0] assms(4)
  by (auto simp: order_put_def split: if_splits Option.bind_splits sum.splits)

lemma order_cancel_all_shape:
  assumes "ctrl_inv c" and "env_laws E" and "order_cancel_all E S Q b n u c = Some (c', res)"
  shows "shape c' = shape c"
  using assms(3) ctrl_cancel_all_shape [OF assms(1,2)]
  by (auto simp: order_cancel_all_def split: if_splits option.splits Option.bind_splits)

lemma exec_operation_shape:
  assumes "ctrl_inv c" and "env_laws E" and "operation_ok E oper c" and "exec_operation E S Q b oper u c = Some c'"
  shows "shape c' = shape c"
  using assms update_balance_shape [OF assms(1,2)] order_put_shape [OF assms(1,2)] batch_order_put_shape [OF assms(1,2)]
    order_cancel_shape [OF assms(1,2)] order_cancel_all_shape [OF assms(1,2)]
  by (cases oper) (auto simp: exec_operation_def operation_ok_def)

section \<open>Operation and restart\<close>

text \<open>A step in the life of an exchange whose configuration is not changed: the steps of the controller but a reload.\<close>

inductive work_step :: "env \<Rightarrow> serde \<Rightarrow> rpc_codec \<Rightarrow> 'c controller \<Rightarrow> 'c controller \<Rightarrow> bool" for E S Q where
  work_operation: "operation_ok E oper c \<Longrightarrow> exec_operation E S Q b oper u c = Some c' \<Longrightarrow> work_step E S Q c c'"
| work_reset: "work_step E S Q c (reset_state c)"
| work_background: "work_step E S Q c (c\<lparr>c_log_handler := h, c_persistor := p\<rparr>)"

lemma work_step_keeps:
  assumes "work_step E S Q c c'" and "env_laws E" and "ctrl_inv c"
  shows "ctrl_inv c' \<and> shape c' = shape c"
  using assms
proof (induction rule: work_step.induct)
  case (work_operation oper c b u c')
  then show ?case using exec_operation_inv exec_operation_shape by blast
next
  case (work_reset c)
  then have "ctrl_inv (reset_state c)" by (intro reset_state_inv)
  then show ?case by (simp add: shape_def reset_state_def bm_reset_def market_reset_def comp_def case_prod_beta')
next
  case (work_background c h p)
  then show ?case by (auto intro: same_engine_inv [of c] simp: same_engine_def shape_def)
qed

lemma work_keeps:
  assumes "(work_step E S Q)\<^sup>*\<^sup>* c0 c" and "env_laws E" and "ctrl_inv c0"
  shows "ctrl_inv c \<and> shape c = shape c0"
  using assms by (induction rule: rtranclp_induct) (auto dest: work_step_keeps)

lemma update_subset: "set (AList.update k v xs) \<subseteq> insert (k, v) (set xs)"
  by (induction xs) auto

lemma create_markets_empty:
  "create_markets gs bm es (ms, names) = Some (ms', names') \<Longrightarrow> st_disable_self_trade gs \<Longrightarrow> list_all market_cfg_ok es \<Longrightarrow>
   \<forall>(n, m) \<in> set ms. empty_market m \<Longrightarrow> \<forall>(n, m) \<in> set ms'. empty_market m"
proof (induction es arbitrary: ms names)
  case (Cons entry es)
  from Cons.prems(1) obtain m where m: "market_new entry gs bm = Some (Inr m)" and
    rest: "create_markets gs bm es (AList.update (mc_name entry) m ms, AList.update (mc_base entry, mc_quote entry) (mc_name entry) names) = Some (ms', names')"
    by (auto split: option.splits sum.splits)
  have "empty_market m" using market_new_ok(1) [OF m] Cons.prems(2,3) by simp
  then have "\<forall>(n, m) \<in> set (AList.update (mc_name entry) m ms). empty_market m"
    using Cons.prems(4) update_subset [of "mc_name entry" m ms] by auto
  from Cons.IH [OF rest Cons.prems(2) _ this] Cons.prems(3) show ?case by simp
qed simp

text \<open>A created controller is blank for every exchange that has its shape.\<close>

lemma created_blank:
  assumes gs: "settings_ok gs" and cr: "create_controller gs pool = Some c0" and inv: "ctrl_inv c" and sh: "shape c = shape c0"
  shows "blank_of c c0"
proof -
  from cr obtain bm ms names where bm: "bm_new (st_assets gs) = Some bm" and ms: "create_markets gs bm (st_markets gs) ([], []) = Some (ms, names)"
    and c0: "c_markets c0 = ms" "c_balance_manager c0 = bm"
    by (auto simp: create_controller_def split: Option.bind_splits)
  have empty: "\<forall>(n, m) \<in> set ms. empty_market m" using create_markets_empty [OF ms] gs by (simp add: settings_ok_def)
  have inv0: "ctrl_inv c0" by (rule create_controller_inv [OF gs cr])
  have eq: "map (\<lambda>(n, m). (n, m_base m, m_quote m)) (c_markets c) = map (\<lambda>(n, m). (n, m_base m, m_quote m)) (c_markets c0)"
    and am: "bm_asset_manager (c_balance_manager c) = bm_asset_manager (c_balance_manager c0)" using sh by (simp_all add: shape_def)
  from arg_cong [OF eq, of "map fst"] have keys: "map fst (c_markets c) = map fst (c_markets c0)"
    by (simp add: comp_def case_prod_beta')
  have marks: "empty_market m0 \<and> m_name m0 = m_name m \<and> m_base m0 = m_base m \<and> m_quote m0 = m_quote m"
    if m: "map_of (c_markets c) n = Some m" and m0: "map_of (c_markets c0) n = Some m0" for n m m0
  proof -
    from arg_cong [OF eq, of "\<lambda>xs. map_of xs n"] have "map_option (\<lambda>m. (m_base m, m_quote m)) (map_of (c_markets c) n) =
        map_option (\<lambda>m. (m_base m, m_quote m)) (map_of (c_markets c0) n)" by (simp add: map_of_map)
    moreover have "m_name m = n" using exch_invD(5) [OF ctrl_exch [OF inv, of False] map_of_SomeD [OF m]] by metis
    moreover have "m_name m0 = n" using exch_invD(5) [OF ctrl_exch [OF inv0, of False] map_of_SomeD [OF m0]] by metis
    moreover have "empty_market m0" using empty m0 c0(1) by (auto dest: map_of_SomeD)
    ultimately show ?thesis using m m0 by simp
  qed
  have "bm_balances bm = []" using bm by (auto simp: bm_new_def split: Option.bind_splits)
  then have "bm_balances (c_balance_manager c0) = []" by (simp add: c0(2))
  then show ?thesis unfolding blank_of_def by (intro conjI allI impI keys [symmetric] am [symmetric]) (blast dest: marks)+
qed

text \<open>The settings the controller is created with.\<close>

definition effective :: "asset_desc list \<Rightarrow> market_desc list \<Rightarrow> (nat \<times> string) option \<Rightarrow> (nat \<times> string) option \<Rightarrow> settings \<Rightarrow> settings" where
  "effective atable mtable fa fm settings =
     (if st_market_from_db settings then fst (init_config_from_db atable mtable fa fm settings) else settings)"

lemma prepareD:
  assumes "prepare E S Q St atable mtable fa fm settings (Inr conn) migrated pool = Some (Inr (mc, sv))"
  obtains c0 c1 where "create_controller (effective atable mtable fa fm settings) pool = Some c0" "init_from_db E S Q St conn c0 = Some c1"
    "sv = server_new c1"
  using assms by (auto simp: prepare_def effective_def Let_def split: sum.splits if_splits prod.splits Option.bind_splits)

lemma prepareI:
  assumes "prepare E S Q St atable mtable fa fm settings (Inr conn) migrated pool = Some (Inr (mc, sv))"
    and "create_controller (effective atable mtable fa fm settings) pool' = Some c0" and "init_from_db E S Q St conn' c0 = Some c1"
  shows "prepare E S Q St atable mtable fa fm settings (Inr conn') migrated pool' = Some (Inr (mc, server_new c1))"
  using assms by (auto simp: prepare_def effective_def Let_def split: sum.splits if_splits prod.splits Option.bind_splits)

lemma create_again:
  assumes "create_controller gs pool = Some c0"
  obtains c0' where "create_controller gs pool' = Some c0'" "shape c0' = shape c0"
  using assms by (auto simp: create_controller_def shape_def split: Option.bind_splits)

text \<open>On an empty database there is nothing to recover.\<close>

lemma init_empty:
  assumes "create_controller gs pool = Some c0" and "history_rows St conn = []" and "log_rows St conn = []"
  shows "init_from_db E S Q St conn c0 = Some c0"
proof -
  have "c_sequencer c0 = default_sequencer" using assms(1) by (auto simp: create_controller_def split: Option.bind_splits)
  then have "c0\<lparr>c_sequencer := set_operation_log_id 0 (c_sequencer c0)\<rparr> = c0"
    by (cases c0) (simp add: default_sequencer_def set_operation_log_id_def)
  with assms(2,3) show ?thesis
    by (simp add: init_from_db_def get_last_slice_def load_operation_log_from_db_def log_loop.simps select_page_def)
qed

text \<open>
  C23: An exchange whose numbers fit the columns of the slice tables survives a restart. Let the engine be started on an empty
  database and be operated by admissible requests (\<open>operation_ok\<close>: no negative price, amount or limit, fee rates between 0 and 1)
  that do not change its configuration. At the time of the slice, every decimal of its open orders and balances fits its column
  (\<open>dump_ok\<close>: fee rates have at most 4 decimal places, prices, amounts and frozen amounts 8, accumulated fees 12, accumulated quote amounts and
  balances 16; the code does not enforce this and the database rounds), the order counter fits the signed
  64-bit column, the slice number is new, and the arithmetic of the run is exact. When a process forked from the engine has saved the slice
  and exited with code 0, and nothing was
  logged since, then starting the engine again with the same settings and configuration tables on
  the resulting database succeeds, and the new engine has the counters, all the balances, and in every market
  the orders (up to the resolution of their times) and both sides of the book in the same priority order.
\<close>

theorem exchange_restart:
  assumes "env_laws E" and "insert_law St so sb" and "tables_law St so sb rnd" and "delete_law St"
    and "prepare E S Q St atable mtable fa fm settings (Inr conn0) migrated pool = Some (Inr (mc, sv))"
    and "history_rows St conn0 = []" and "log_rows St conn0 = []" and "settings_ok (effective atable mtable fa fm settings)"
    and "(work_step E S Q)\<^sup>*\<^sup>* (sv_stub sv) c" and "dump_ok E s c" and "0 \<le> sint s"
    and "\<forall>r \<in> set (so conn). os_slice_id r \<noteq> s" and "\<forall>r \<in> set (sb conn). bi_slice_id r \<noteq> s"
    and "\<forall>r \<in> set (log_rows St conn). sint (ol_id r) \<le> sint (sq_operation_log_id (c_sequencer c))"
    and "fork_and_make_slice E St ForkChild s (Inr conn) c = Some (Some conn', Exits 0)"
  shows "\<exists>sv'. prepare E S Q St atable mtable fa fm settings (Inr conn') migrated pool' = Some (Inr (mc, sv')) \<and>
    sq_order_id (c_sequencer (sv_stub sv')) = sq_order_id (c_sequencer c) \<and>
    sq_trade_id (c_sequencer (sv_stub sv')) = sq_trade_id (c_sequencer c) \<and>
    sq_operation_log_id (c_sequencer (sv_stub sv')) = sq_operation_log_id (c_sequencer c) \<and>
    map_of (bm_balances (c_balance_manager (sv_stub sv'))) = map_of (bm_balances (c_balance_manager c)) \<and>
    (\<forall>n. rel_option (recovered_book (stored_order E rnd)) (map_of (c_markets c) n) (map_of (c_markets (sv_stub sv')) n))"
proof -
  let ?gs = "effective atable mtable fa fm settings"
  from assms(5) obtain c0 where c0: "create_controller ?gs pool = Some c0" and sv: "sv_stub sv = c0"
    by (rule prepareD) (simp add: init_empty [OF _ assms(6,7)] server_new_def)
  have "ctrl_inv c \<and> shape c = shape c0"
    using work_keeps [OF assms(9,1)] create_controller_inv [OF assms(8) c0] by (simp add: sv)
  moreover obtain c0' where c0': "create_controller ?gs pool' = Some c0'" "shape c0' = shape c0" by (rule create_again [OF c0])
  ultimately have inv: "ctrl_inv c" and blank: "blank_of c c0'" using created_blank [OF assms(8) c0'(1), of c] by simp_all
  from slice_process_recovers [OF assms(1-4) inv assms(10-15) blank, of S Q] obtain c1 where
    "init_from_db E S Q St conn' c0' = Some c1" and r: "sq_order_id (c_sequencer c1) = sq_order_id (c_sequencer c)"
      "sq_trade_id (c_sequencer c1) = sq_trade_id (c_sequencer c)" "sq_operation_log_id (c_sequencer c1) = sq_operation_log_id (c_sequencer c)"
      "map_of (bm_balances (c_balance_manager c1)) = map_of (bm_balances (c_balance_manager c))"
      "\<forall>n. rel_option (recovered_book (stored_order E rnd)) (map_of (c_markets c) n) (map_of (c_markets c1) n)" by blast
  from prepareI [OF assms(5) c0'(1) this(1)] r show ?thesis
    by (intro exI [of _ "server_new c1"]) (simp add: server_new_def)
qed

text \<open>The concrete exchange, configured by its tables, saved by a forked process and started again.\<close>

definition demo_file :: settings where
  "demo_file = demo_settings\<lparr>st_assets := [], st_markets := []\<rparr>"

definition demo_atable :: "asset_desc list" where
  "demo_atable = map (asset_row 1) (st_assets demo_settings)"

definition demo_mtable :: "market_desc list" where
  "demo_mtable = map (market_row 1 1) (st_markets demo_settings)"

lemma demo_effective: "effective demo_atable demo_mtable None None demo_file = demo_settings"
  by (simp add: effective_def init_config_from_db_def load_asset_from_db_def load_market_from_db_def select_newer_def fetched_def
      demo_file_def demo_atable_def demo_mtable_def asset_row_def market_row_def numeric_id has_prec_def asset_of_desc_def market_of_desc_def demo_settings_def
      default_settings_def market_configs_new_def)

lemma demo_started:
  "prepare ref_env demo_serde demo_codec demo_store demo_atable demo_mtable None None demo_file (Inr ([], [], [])) (Inr ()) () =
     Some (Inr (\<lparr>assets_load_time = 1, market_load_time = 1\<rparr>, server_new demo_c0))"
proof -
  have "init_from_db ref_env demo_serde demo_codec demo_store ([], [], []) demo_c0 = Some demo_c0"
    by (rule init_empty [OF demo_c0]) (simp_all add: demo_store_def)
  moreover have "init_config_from_db demo_atable demo_mtable None None demo_file = (demo_settings, Inr \<lparr>assets_load_time = 1, market_load_time = 1\<rparr>)"
    by (simp add: init_config_from_db_def load_asset_from_db_def load_market_from_db_def select_newer_def fetched_def
      demo_file_def demo_atable_def demo_mtable_def asset_row_def market_row_def numeric_id has_prec_def asset_of_desc_def market_of_desc_def demo_settings_def
      default_settings_def market_configs_new_def)
  moreover have "st_market_from_db demo_file" by (simp add: demo_file_def demo_settings_def default_settings_def)
  ultimately show ?thesis by (simp add: prepare_def demo_c0)
qed

lemma demo_work: "(work_step ref_env demo_serde demo_codec)\<^sup>*\<^sup>* demo_c0 demo_c2"
proof -
  have "work_step ref_env demo_serde demo_codec demo_c0 demo_c1"
    using demo_c1_some by (intro work_operation [of _ "OpBalanceUpdate demo_deposit"]) (auto simp: operation_ok_def demo_c1_def)
  moreover have "work_step ref_env demo_serde demo_codec demo_c1 demo_c2"
    using demo_c2_some by (intro work_operation [OF demo_put_ok]) (auto simp: demo_c2_def)
  ultimately show ?thesis by (metis converse_rtranclp_into_rtranclp rtranclp.rtrancl_refl)
qed

theorem exchange_restart_witness:
  "\<exists>sv. prepare ref_env demo_serde demo_codec demo_store demo_atable demo_mtable None None demo_file (Inr demo_sliced) (Inr ()) () =
      Some (Inr (\<lparr>assets_load_time = 1, market_load_time = 1\<rparr>, sv)) \<and>
     bm_get (c_balance_manager (sv_stub sv)) 1 FREEZE ''ETH'' = 5 / 2"
proof -
  have run: "fork_and_make_slice ref_env demo_store ForkChild 5 (Inr ([], [], [])) demo_c2 = Some (Some demo_sliced, Exits 0)"
    using demo_slice by (auto simp: demo_sliced_def)
  have work: "(work_step ref_env demo_serde demo_codec)\<^sup>*\<^sup>* (sv_stub (server_new demo_c0)) demo_c2"
    using demo_work by (simp add: server_new_def)
  have gs: "settings_ok (effective demo_atable demo_mtable None None demo_file)" by (simp add: demo_effective demo_settings_ok)
  from exchange_restart [OF ref_env_laws demo_insert_law demo_tables_law demo_delete_law demo_started _ _ gs work demo_dump_ok
      _ _ _ _ run, of "()"] demo_c2_balance
  show ?thesis by (auto simp: demo_store_def demo_balances_def numbered_def bm_get_def bm_get_by_key_def)
qed

end
