(* ===== verification/ServerReads.thy ===== *)
theory ServerReads
  imports Server SliceProcess
begin

text \<open>
  The remaining handlers of \<^verbatim>\<open>src/matchengine/server.rs\<close>: the reading calls with their access rules, the three debugging calls in
  both builds, and the handle with which the server is told to close.
\<close>

section \<open>The reading calls\<close>

text \<open>\<open>stub\<close> is the controller behind the read lock; the public ones do not look at the caller.\<close>

definition handle_asset_list :: "'c controller \<Rightarrow> rpc_status + rpc_asset_info list" where
  "handle_asset_list stub = Inr (asset_list stub)"

definition handle_order_book_depth ::
  "env \<Rightarrow> order_book_depth_request \<Rightarrow> 'c controller \<Rightarrow> rpc_status + rpc_price_info list \<times> rpc_price_info list" where
  "handle_order_book_depth E req stub = order_book_depth E req stub"

definition handle_order_detail :: "env \<Rightarrow> string \<Rightarrow> u64 \<Rightarrow> 'c controller \<Rightarrow> rpc_status + order_info" where
  "handle_order_detail E market order_id stub = order_detail E market order_id stub"

definition handle_market_list :: "env \<Rightarrow> 'c controller \<Rightarrow> rpc_status + rpc_market_info list" where
  "handle_market_list E stub = Inr (market_list E stub)"

definition handle_market_summary :: "env \<Rightarrow> string list \<Rightarrow> 'c controller \<Rightarrow> rpc_status + market_summary list" where
  "handle_market_summary E names stub = market_summary_query E names stub"

datatype reading_call =
    AssetListCall
  | BalanceQueryCall "string list"
  | OrderQueryCall order_query_request
  | OrderBookDepthCall order_book_depth_request
  | OrderDetailCall string u64
  | MarketListCall
  | MarketSummaryCall "string list"

datatype read_reply =
    AssetListReply "rpc_asset_info list"
  | BalancesReply "asset_balance list"
  | OrdersReply order_query_response
  | DepthReply "rpc_price_info list \<times> rpc_price_info list"
  | DetailReply order_info
  | MarketListReply "rpc_market_info list"
  | SummaryReply "market_summary list"

definition handle_read ::
  "env \<Rightarrow> rpc_codec \<Rightarrow> user_extension option \<Rightarrow> reading_call \<Rightarrow> 'c controller \<Rightarrow> (rpc_status + read_reply) option" where
  "handle_read E Q ext rc stub =
     (case rc of
        AssetListCall \<Rightarrow> Some (map_sum id AssetListReply (handle_asset_list stub))
      | BalanceQueryCall assets \<Rightarrow> map_option (map_sum id BalancesReply) (handle_balance_query E ext assets stub)
      | OrderQueryCall req \<Rightarrow> map_option (map_sum id OrdersReply) (handle_order_query E Q ext req stub)
      | OrderBookDepthCall req \<Rightarrow> Some (map_sum id DepthReply (handle_order_book_depth E req stub))
      | OrderDetailCall market order_id \<Rightarrow> Some (map_sum id DetailReply (handle_order_detail E market order_id stub))
      | MarketListCall \<Rightarrow> Some (map_sum id MarketListReply (handle_market_list E stub))
      | MarketSummaryCall names \<Rightarrow> Some (map_sum id SummaryReply (handle_market_summary E names stub)))"

section \<open>The debugging calls\<close>

text \<open>
  In a debug build they need an administrator; the scheduler then runs the controller's operation. In a release build they
  answer without doing anything, whoever asks.
\<close>

definition handle_debug ::
  "user_extension option \<Rightarrow> ('c controller \<Rightarrow> ('c controller \<times> (rpc_status + unit)) option) \<Rightarrow> 'c controller \<Rightarrow>
   ('c controller \<times> (rpc_status + unit)) option" where
  "handle_debug ext oper stub =
     (case grpc_block_non_admins ext of
        Inl e \<Rightarrow> Some (stub, Inl e)
      | Inr _ \<Rightarrow> oper stub)"

definition handle_debug_dump ::
  "env \<Rightarrow> 'd store \<Rightarrow> (sql_error \<Rightarrow> string) \<Rightarrow> i64 \<Rightarrow> sql_error + 'd \<Rightarrow> user_extension option \<Rightarrow> 'c controller \<Rightarrow>
   ('c controller \<times> (rpc_status + unit)) option" where
  "handle_debug_dump E St text now db_conn ext stub =
     handle_debug ext (\<lambda>c. map_option (\<lambda>(_, r). (c, r)) (debug_dump E St text now db_conn c)) stub"

definition handle_debug_reset ::
  "(sql_error \<Rightarrow> string) \<Rightarrow> sql_error + unit \<Rightarrow> sql_error + unit \<Rightarrow> sql_error + unit \<Rightarrow> user_extension option \<Rightarrow> 'c controller \<Rightarrow>
   ('c controller \<times> (rpc_status + unit)) option" where
  "handle_debug_reset text down up migrate ext stub = handle_debug ext (\<lambda>c. Some (debug_reset text down up migrate c)) stub"

definition handle_debug_reload ::
  "env \<Rightarrow> serde \<Rightarrow> rpc_codec \<Rightarrow> 'd store \<Rightarrow> (sql_error \<Rightarrow> string) \<Rightarrow> sql_error + 'd \<Rightarrow> user_extension option \<Rightarrow> 'c controller \<Rightarrow>
   ('c controller \<times> (rpc_status + unit)) option" where
  "handle_debug_reload E S Q St text db_conn ext stub = handle_debug ext (debug_reload E S Q St text db_conn) stub"

definition release_debug :: "'c controller \<Rightarrow> ('c controller \<times> (rpc_status + unit)) option" where
  "release_debug stub = Some (stub, Inr ())"

section \<open>Closing\<close>

text \<open>
  The sender of the close signal is handed out once; a second \<^verbatim>\<open>on_leave\<close> panics. The flag says whether it is still there.
\<close>

definition on_leave :: "bool \<Rightarrow> bool option" where
  "on_leave set_close = (if set_close then Some False else None)"

text \<open>\<^verbatim>\<open>leave\<close> sends the signal, which the scheduler takes as a step of the server.\<close>

definition leave :: "'c server \<Rightarrow> 'c server" where
  "leave s = s\<lparr>sv_closed := True\<rparr>"

lemma leave_step: "sv_step J gs E S Q s (leave s)"
  unfolding leave_def by (rule sv_step.leaves)

section \<open>Who reads what\<close>

text \<open>Two controllers that are the same for a user: the assets, the markets' names, the user's balances and the user's orders.\<close>

definition same_for :: "env \<Rightarrow> uuid \<Rightarrow> 'c controller \<Rightarrow> 'c controller \<Rightarrow> bool" where
  "same_for E u c c' \<longleftrightarrow>
     map ac_id (st_assets (c_settings c)) = map ac_id (st_assets (c_settings c')) \<and>
     (\<forall>t a. bm_get_with_round E (c_balance_manager c) u t a = bm_get_with_round E (c_balance_manager c') u t a) \<and>
     list_all2 (\<lambda>(k, m) (k', m'). k = k' \<and> get_order_of_user m u = get_order_of_user m' u \<and>
       get_order_num_of_user m u = get_order_num_of_user m' u) (c_markets c) (c_markets c')"

lemma balances_of_cong:
  assumes "\<And>t a. bm_get_with_round E bm u t a = bm_get_with_round E bm' u t a"
  shows "balances_of E bm u as = balances_of E bm' u as"
  by (induction as) (simp_all add: assms)

lemma same_market_names:
  "list_all2 (\<lambda>(k, m) (k', m'). k = k' \<and> P m m') ms ms' \<Longrightarrow> map_of ms n = None \<longleftrightarrow> map_of ms' n = None"
  by (induction rule: list_all2_induct) auto

lemma same_market_orders:
  assumes "list_all2 (\<lambda>(k, m) (k', m'). k = k' \<and> f m = f m' \<and> g m = g m') ms ms'"
  shows "map f (map snd (filter (\<lambda>(k, _). p k) ms)) = map f (map snd (filter (\<lambda>(k, _). p k) ms'))"
    and "map g (map snd (filter (\<lambda>(k, _). p k) ms)) = map g (map snd (filter (\<lambda>(k, _). p k) ms'))"
  using assms by (induction rule: list_all2_induct) auto


definition demo_other :: "unit controller" where
  "demo_other = demo_c2\<lparr>c_balance_manager := (c_balance_manager demo_c2)\<lparr>bm_balances :=
     (bkey 9 AVAILABLE ''ETH'', 5) # bm_balances (c_balance_manager demo_c2)\<rparr>\<rparr>"


text \<open>The detail of an order, with its user, is served to anybody who names the market and the number.\<close>

lemma order_detail_anonymous:
  assumes "map_of (c_markets c) market = Some m" and "market_get m i = Some o'"
  shows "handle_read E Q None (OrderDetailCall market i) c = Some (Inr (DetailReply (order_info_of E o')))"
  using assms by (simp add: handle_read_def handle_order_detail_def order_detail_def)

text \<open>A debugging call of somebody who is not an administrator changes nothing, and in a release build of nobody.\<close>

lemma debug_needs_admin:
  assumes "handle_debug ext oper stub = Some (stub', r)" and "\<not> (\<exists>x. ext = Some x \<and> ux_is_admin x)"
  shows "stub' = stub \<and> (\<exists>e. r = Inl e)"
  using assms by (auto simp: handle_debug_def grpc_block_non_admins_def split: option.splits if_splits)

lemma debug_calls_need_admin:
  assumes "\<not> (\<exists>x. ext = Some x \<and> ux_is_admin x)"
    and "handle_debug_dump E St text now db_conn ext stub = Some (stub', r) \<or>
      handle_debug_reset text down up migrate ext stub = Some (stub', r) \<or>
      handle_debug_reload E S Q St text db_conn ext stub = Some (stub', r)"
  shows "stub' = stub \<and> (\<exists>e. r = Inl e)"
  using assms(2) debug_needs_admin [OF _ assms(1)]
  unfolding handle_debug_dump_def handle_debug_reset_def handle_debug_reload_def by blast

end
