(* ===== verification/MsgPersist.thy ===== *)
theory MsgPersist
  imports Persist MarketProps
begin

text \<open>
  \<^verbatim>\<open>src/message/persist.rs\<close> and \<^verbatim>\<open>src/message/consumer.rs\<close>: the process that reads the messages of the
  engine from Kafka and writes them to the database. A consumer hands every message to the handler of its topic; a handler
  is a chain of persistors, each of which turns the message into a row for one database writer,
  tagged with the partition and the offset of the message. The writers report the offsets up to
  which their rows are stored; the notification trackers merge the reports of the writers of a
  topic, and what they yield is committed to Kafka.

  Kafka and the decoding of payloads are parameters.
\<close>

section \<open>Merging the reports of two writers\<close>

datatype NotifyTrackItem = Left u64 | Right u64

definition track_is_left :: "NotifyTrackItem \<Rightarrow> bool" where
  "track_is_left i = (case i of Left _ \<Rightarrow> True | Right _ \<Rightarrow> False)"

definition track_is_right :: "NotifyTrackItem \<Rightarrow> bool" where
  "track_is_right i \<longleftrightarrow> \<not> track_is_left i"

definition track_val :: "NotifyTrackItem \<Rightarrow> u64" where
  "track_val i = (case i of Left v \<Rightarrow> v | Right v \<Rightarrow> v)"

definition track_resolve :: "NotifyTrackItem \<Rightarrow> NotifyTrackItem \<Rightarrow> NotifyTrackItem \<times> u64" where
  "track_resolve self another =
     (let self_v = track_val self; another_v = track_val another
      in if self_v < another_v then (another, self_v) else (self, another_v))"

definition track_merge :: "NotifyTrackItem \<Rightarrow> NotifyTrackItem \<Rightarrow> NotifyTrackItem \<times> u64 option" where
  "track_merge self another =
     (case self of
        Left v \<Rightarrow>
          if track_is_left another then (Left (max v (track_val another)), None)
          else (let (self, r) = track_resolve self another in (self, Some r))
      | Right v \<Rightarrow>
          if track_is_right another then (Right (max v (track_val another)), None)
          else (let (self, r) = track_resolve self another in (self, Some r)))"

text \<open>A hash map from partitions, as an association list; so are the notification flags.\<close>

type_synonym notify_tracker = "(i32 \<times> NotifyTrackItem) list"

definition map_to :: "notify_flag \<Rightarrow> (u64 \<Rightarrow> NotifyTrackItem) \<Rightarrow> notify_tracker" where
  "map_to input mf = map (\<lambda>(k, v). (k, mf v)) input"

fun tracker_merge :: "notify_tracker \<Rightarrow> notify_tracker \<Rightarrow> notify_tracker \<times> notify_flag" where
  "tracker_merge self [] = (self, [])"
| "tracker_merge self ((k, v) # another) =
     (let item = (case map_of self k of Some item \<Rightarrow> item | None \<Rightarrow> v);
          (item, r) = track_merge item v;
          (self, out) = tracker_merge (AList.update k item self) another
      in (self, (case r of None \<Rightarrow> out | Some u \<Rightarrow> (k, u) # out)))"

text \<open>
  A receiver listens to one writer and to the receiver of the writers behind it. The event
  \<open>(d, flag)\<close> is a look at the watched value of the writer at depth \<open>d\<close> of the chain; the result is
  what \<^verbatim>\<open>changed()\<close> yields, when the event makes it yield.

  The writers publish their reports in watch channels, which hold one value each: a report that is published before
  the receiver has looked at the last one replaces it. \<open>looks\<close> are the events that a sequence of publications and looks gives, from the
  values \<open>cur\<close> on; a look may see a value again, for \<^verbatim>\<open>borrow\<close> reads the newest one.
\<close>

datatype watch_event = Published nat notify_flag | Looked nat

fun looks :: "(nat \<Rightarrow> notify_flag option) \<Rightarrow> watch_event list \<Rightarrow> (nat \<times> notify_flag) list" where
  "looks cur [] = []"
| "looks cur (Published d flag # es) = looks (cur(d := Some flag)) es"
| "looks cur (Looked d # es) = (case cur d of None \<Rightarrow> looks cur es | Some flag \<Rightarrow> (d, flag) # looks cur es)"

datatype receiver = Receiver (rc_status: notify_tracker) (rc_next: "receiver option")

definition emit_flag :: "notify_flag \<Rightarrow> notify_flag option" where
  "emit_flag ret = (if ret \<noteq> [] then Some ret else None)"

fun receiver_event :: "receiver \<Rightarrow> nat \<Rightarrow> notify_flag \<Rightarrow> receiver \<times> notify_flag option" where
  "receiver_event (Receiver trk None) d flag =
     (let (trk, _) = tracker_merge trk (map_to flag Left) in (Receiver trk None, Some flag))"
| "receiver_event (Receiver trk (Some next)) 0 flag =
     (let (trk, ret) = tracker_merge trk (map_to flag Left)
      in (Receiver trk (Some next), emit_flag ret))"
| "receiver_event (Receiver trk (Some next)) (Suc d) flag =
     (case receiver_event next d flag of
        (next, None) \<Rightarrow> (Receiver trk (Some next), None)
      | (next, Some nc) \<Rightarrow>
          let (trk, ret) = tracker_merge trk (map_to nc Right)
          in (Receiver trk (Some next), emit_flag ret))"

definition final_status :: "receiver \<Rightarrow> notify_flag" where
  "final_status r = map (\<lambda>(k, v). (k, track_val v)) (rc_status r)"

text \<open>\<^verbatim>\<open>get_tracker\<close> of a chain of \<open>n\<close> writers behind the first, and the offsets to commit.\<close>

fun get_tracker :: "nat \<Rightarrow> receiver" where
  "get_tracker 0 = Receiver [] None"
| "get_tracker (Suc n) = Receiver [] (Some (get_tracker n))"

definition commit_list :: "notify_flag \<Rightarrow> (i32 \<times> i64) list" where
  "commit_list notify = map (\<lambda>(k, v). (k, v + 1)) notify"

text \<open>The loop of \<^verbatim>\<open>auto_commit_start\<close> over the events: the offsets committed, and the receiver at the end.\<close>

fun auto_commit :: "receiver \<Rightarrow> (nat \<times> notify_flag) list \<Rightarrow> receiver \<times> (i32 \<times> i64) list" where
  "auto_commit r [] = (r, [])"
| "auto_commit r ((d, flag) # events) =
     (let (r, out) = receiver_event r d flag;
          (r, commits) = auto_commit r events
      in (r, (case out of None \<Rightarrow> [] | Some notify \<Rightarrow> commit_list notify) @ commits))"

definition final_commit :: "receiver \<Rightarrow> (i32 \<times> i64) list" where
  "final_commit r = (let ret_notify = final_status r in if ret_notify \<noteq> [] then commit_list ret_notify else [])"

section \<open>From messages to rows\<close>

definition market_trade_of :: "env \<Rightarrow> trade \<Rightarrow> market_trade" where
  "market_trade_of E origin = \<lparr>
     mt_time = ftimestamp_to_db E (t_timestamp origin), mt_market = t_market origin, mt_trade_id = t_id origin,
     mt_price = t_price origin, mt_amount = t_amount origin, mt_quote_amount = t_quote_amount origin,
     mt_taker_side = (if t_ask_order_id origin < t_bid_order_id origin then BID else ASK)\<rparr>"

definition closed_order :: "env \<Rightarrow> order_message \<Rightarrow> order_history option" where
  "closed_order E m = (case omsg_event m of FINISH \<Rightarrow> Some (order_history_of E (omsg_order m)) | _ \<Rightarrow> None)"

definition decimal_or_default :: "env \<Rightarrow> string \<Rightarrow> decimal" where
  "decimal_or_default E s = (case dec_from_str E s of Some d \<Rightarrow> d | None \<Rightarrow> 0)"

text \<open>\<open>seconds_db\<close> turns the seconds of a message into a database time (\<^verbatim>\<open>FTimestamp\<close>).\<close>

definition balance_history_of :: "env \<Rightarrow> (rat \<Rightarrow> timestamp) \<Rightarrow> balance_message \<Rightarrow> balance_history" where
  "balance_history_of E seconds_db origin = \<lparr>
     bh_time = seconds_db (bmsg_timestamp origin), bh_user_id = uuid_to_string E (bmsg_user_id origin),
     bh_business_id = 0, bh_asset = bmsg_asset origin, bh_business = bmsg_business origin,
     bh_market_price = decimal_or_default E (bmsg_market_price origin),
     bh_change = decimal_or_default E (bmsg_change origin), bh_balance = decimal_or_default E (bmsg_balance origin),
     bh_balance_available = decimal_or_default E (bmsg_balance_available origin),
     bh_balance_frozen = decimal_or_default E (bmsg_balance_frozen origin), bh_detail = bmsg_detail origin\<rparr>"

definition ask_trade :: "env \<Rightarrow> trade \<Rightarrow> user_trade option" where
  "ask_trade E t = Some \<lparr>
     ut_time = ftimestamp_to_db E (t_timestamp t), ut_user_id = uuid_to_string E (t_ask_user_id t), ut_market = t_market t,
     ut_trade_id = t_id t, ut_order_id = t_ask_order_id t, ut_counter_order_id = t_bid_order_id t,
     ut_side = order_side_i16 ASK, ut_role = market_role_i16 (t_ask_role t), ut_price = t_price t, ut_amount = t_amount t,
     ut_quote_amount = t_quote_amount t, ut_fee = t_ask_fee t, ut_counter_order_fee = t_bid_fee t\<rparr>"

definition bid_trade :: "env \<Rightarrow> trade \<Rightarrow> user_trade option" where
  "bid_trade E t = Some \<lparr>
     ut_time = ftimestamp_to_db E (t_timestamp t), ut_user_id = uuid_to_string E (t_bid_user_id t), ut_market = t_market t,
     ut_trade_id = t_id t, ut_order_id = t_bid_order_id t, ut_counter_order_id = t_ask_order_id t,
     ut_side = order_side_i16 BID, ut_role = market_role_i16 (t_bid_role t), ut_price = t_price t, ut_amount = t_amount t,
     ut_quote_amount = t_quote_amount t, ut_fee = t_bid_fee t, ut_counter_order_fee = t_ask_fee t\<rparr>"

section \<open>The consumer\<close>

record kafka_message =
  km_topic :: string
  km_partition :: i32
  km_offset :: i64
  km_payload :: "string option"

text \<open>The writers of the persistor process, one per table.\<close>

record 'c msg_writers =
  mw_kline :: "(market_trade, 'c) writer"
  mw_trade :: "(user_trade, 'c) writer"
  mw_order :: "(order_history, 'c) writer"
  mw_balance :: "(balance_history, 'c) writer"

text \<open>
  \<^verbatim>\<open>MsgDataPersistor::on_message\<close>: the row, if the transformer gives one, is appended with the
  partition and the offset; a refusal of the writer is ignored (\<^verbatim>\<open>.ok()\<close>).
\<close>

definition persist_message ::
  "('m \<Rightarrow> 'q option) \<Rightarrow> 'm \<Rightarrow> kafka_message \<Rightarrow> ('q, 'c) writer \<Rightarrow> ('q, 'c) writer" where
  "persist_message into msg_origin origin_msg w =
     (case into msg_origin of
        Some msg \<Rightarrow> fst (append_with_notify msg (Some (km_partition origin_msg, km_offset origin_msg)) w)
      | None \<Rightarrow> w)"

text \<open>\<^verbatim>\<open>Typed::on_message\<close>: a message without payload or with an undecodable one is logged and dropped.\<close>

definition typed_on_message ::
  "(string \<Rightarrow> 'm option) \<Rightarrow> ('m \<Rightarrow> kafka_message \<Rightarrow> 's \<Rightarrow> 's) \<Rightarrow> kafka_message \<Rightarrow> 's \<Rightarrow> 's" where
  "typed_on_message decode h msg st =
     (case km_payload msg of
        None \<Rightarrow> st
      | Some pl \<Rightarrow> (case decode pl of Some t \<Rightarrow> h t msg st | None \<Rightarrow> st))"

definition chained :: "('m \<Rightarrow> kafka_message \<Rightarrow> 's \<Rightarrow> 's) \<Rightarrow> ('m \<Rightarrow> kafka_message \<Rightarrow> 's \<Rightarrow> 's) \<Rightarrow> 'm \<Rightarrow> kafka_message \<Rightarrow> 's \<Rightarrow> 's" where
  "chained h0 h1 t msg st = h1 t msg (h0 t msg st)"

definition empty_handler :: "'m \<Rightarrow> kafka_message \<Rightarrow> 's \<Rightarrow> 's" where
  "empty_handler t msg st = st"

text \<open>The topics as \<^verbatim>\<open>src/bin/persistor.rs\<close> configures them: the last writer added to a chain is served first.\<close>

definition trade_handler :: "env \<Rightarrow> trade \<Rightarrow> kafka_message \<Rightarrow> 'c msg_writers \<Rightarrow> 'c msg_writers" where
  "trade_handler E =
     chained (\<lambda>t msg st. st\<lparr>mw_trade := persist_message (bid_trade E) t msg (mw_trade st)\<rparr>)
       (chained (\<lambda>t msg st. st\<lparr>mw_trade := persist_message (ask_trade E) t msg (mw_trade st)\<rparr>)
         (chained (\<lambda>t msg st. st\<lparr>mw_kline := persist_message (\<lambda>t. Some (market_trade_of E t)) t msg (mw_kline st)\<rparr>)
           empty_handler))"

definition order_handler :: "env \<Rightarrow> order_message \<Rightarrow> kafka_message \<Rightarrow> 'c msg_writers \<Rightarrow> 'c msg_writers" where
  "order_handler E =
     chained (\<lambda>t msg st. st\<lparr>mw_order := persist_message (closed_order E) t msg (mw_order st)\<rparr>) empty_handler"

definition balance_handler ::
  "env \<Rightarrow> (rat \<Rightarrow> timestamp) \<Rightarrow> balance_message \<Rightarrow> kafka_message \<Rightarrow> 'c msg_writers \<Rightarrow> 'c msg_writers" where
  "balance_handler E seconds_db =
     chained (\<lambda>t msg st. st\<lparr>mw_balance := persist_message (\<lambda>m. Some (balance_history_of E seconds_db m)) t msg (mw_balance st)\<rparr>)
       empty_handler"

record decoder =
  de_trade :: "string \<Rightarrow> trade option"
  de_order :: "string \<Rightarrow> order_message option"
  de_balance :: "string \<Rightarrow> balance_message option"

type_synonym 'c handlers = "(string \<times> (kafka_message \<Rightarrow> 'c msg_writers \<Rightarrow> 'c msg_writers)) list"

text \<open>\<^verbatim>\<open>add_topic\<close> asks the server for the topic first; \<open>health\<close> is its answer.\<close>

definition add_topic :: "string + unit \<Rightarrow> string \<Rightarrow> 'h \<Rightarrow> (string \<times> 'h) list \<Rightarrow> string + (string \<times> 'h) list" where
  "add_topic health topic h hs =
     (case health of
        Inl e \<Rightarrow> Inl (''kafka topic & health check: '' @ e)
      | Inr _ \<Rightarrow> Inr (AList.update topic h hs))"

definition persistor_handlers :: "env \<Rightarrow> (rat \<Rightarrow> timestamp) \<Rightarrow> decoder \<Rightarrow> 'c handlers" where
  "persistor_handlers E seconds_db D =
     AList.update BALANCES_TOPIC (typed_on_message (de_balance D) (balance_handler E seconds_db))
       (AList.update ORDERS_TOPIC (typed_on_message (de_order D) (order_handler E))
         (AList.update TRADES_TOPIC (typed_on_message (de_trade D) (trade_handler E)) []))"

datatype stream_item = NoMessageReceived | PartitionEOF | KafkaErr string | KafkaMsg kafka_message

datatype 's stream_outcome = StreamPanic | StreamStopped string 's | StreamWaits 's

text \<open>
  The loop of \<^verbatim>\<open>run_stream\<close> over what the stream yields. A message of a topic without a handler panics;
  the handlers do nothing when there is no message.
\<close>

fun run_stream :: "'c handlers \<Rightarrow> stream_item list \<Rightarrow> 'c msg_writers \<Rightarrow> 'c msg_writers stream_outcome" where
  "run_stream hs [] st = StreamWaits st"
| "run_stream hs (NoMessageReceived # items) st = run_stream hs items st"
| "run_stream hs (PartitionEOF # items) st = run_stream hs items st"
| "run_stream hs (KafkaErr e # items) st = StreamStopped e st"
| "run_stream hs (KafkaMsg m # items) st =
     (case map_of hs (km_topic m) of
        None \<Rightarrow> StreamPanic
      | Some h \<Rightarrow> run_stream hs items (h m st))"

section \<open>What is committed\<close>

text \<open>One receiver merges all the items it is given, in their order.\<close>

lemma tracker_merge_append:
  "tracker_merge st (xs @ ys) =
     (let (st1, o1) = tracker_merge st xs; (st2, o2) = tracker_merge st1 ys in (st2, o1 @ o2))"
  by (induction st xs rule: tracker_merge.induct) (auto simp: Let_def split: prod.splits option.splits)

lemma track_merge_val: "track_val (fst (track_merge i j)) = max (track_val i) (track_val j)"
  and track_merge_item: "fst (track_merge i j) = i \<or> fst (track_merge i j) = j"
  by (cases i; cases j; auto simp: track_merge_def track_is_left_def track_is_right_def track_val_def track_resolve_def max_def)+

lemma track_merge_out:
  "snd (track_merge i j) = (if track_is_left i = track_is_left j then None else Some (min (track_val i) (track_val j)))"
  by (cases i; cases j; auto simp: track_merge_def track_is_left_def track_is_right_def track_val_def track_resolve_def min_def)

definition tracked :: "notify_tracker \<Rightarrow> notify_tracker \<Rightarrow> bool" where
  "tracked st items \<longleftrightarrow> (\<forall>k. case map_of st k of
     None \<Rightarrow> \<forall>i. (k, i) \<notin> set items
   | Some item \<Rightarrow> (k, item) \<in> set items \<and> (\<forall>i. (k, i) \<in> set items \<longrightarrow> track_val i \<le> track_val item))"

definition from_side :: "bool \<Rightarrow> notify_tracker \<Rightarrow> i32 \<Rightarrow> u64 \<Rightarrow> bool" where
  "from_side left items k v \<longleftrightarrow> (\<exists>i. (k, i) \<in> set items \<and> track_is_left i = left \<and> v \<le> track_val i)"

text \<open>The entry a report for partition \<open>j\<close> is merged into.\<close>

definition tracker_item :: "notify_tracker \<Rightarrow> i32 \<Rightarrow> NotifyTrackItem \<Rightarrow> NotifyTrackItem" where
  "tracker_item st j w = (case map_of st j of Some item \<Rightarrow> item | None \<Rightarrow> w)"

lemma tracker_merge_snoc:
  assumes "tracker_merge [] items = (st, outs)"
  shows "tracker_merge [] (items @ [(j, w)]) = (AList.update j (fst (track_merge (tracker_item st j w) w)) st,
    outs @ (case snd (track_merge (tracker_item st j w) w) of None \<Rightarrow> [] | Some u \<Rightarrow> [(j, u)]))"
  by (auto simp: tracker_merge_append assms tracker_item_def Let_def split: prod.splits option.splits)

lemma tracked_item:
  assumes "tracked st items"
  shows "(j, tracker_item st j w) \<in> set (items @ [(j, w)])"
    and "(j, i) \<in> set items \<Longrightarrow> track_val i \<le> track_val (tracker_item st j w)"
    and "(j, i) \<in> set items \<or> track_is_left (tracker_item st j w) \<noteq> track_is_left w \<Longrightarrow> (j, tracker_item st j w) \<in> set items"
  using assms unfolding tracked_def tracker_item_def by (auto split: option.splits dest: spec [of _ j])

lemma tracked_snoc:
  assumes "tracked st items"
  shows "tracked (AList.update j (fst (track_merge (tracker_item st j w) w)) st) (items @ [(j, w)])"
  unfolding tracked_def
proof
  fix k
  show "case map_of (AList.update j (fst (track_merge (tracker_item st j w) w)) st) k of
      None \<Rightarrow> \<forall>i. (k, i) \<notin> set (items @ [(j, w)])
    | Some item \<Rightarrow> (k, item) \<in> set (items @ [(j, w)]) \<and> (\<forall>i. (k, i) \<in> set (items @ [(j, w)]) \<longrightarrow> track_val i \<le> track_val item)"
  proof (cases "k = j")
    case True
    have "track_val i \<le> track_val (tracker_item st j w)" if "(j, i) \<in> set items" for i
      using that by (rule tracked_item(2) [OF assms])
    with True tracked_item(1) [OF assms, of j w] track_merge_item [of "tracker_item st j w" w] show ?thesis
      by (auto simp: update_conv' track_merge_val max_def intro: order_trans)
  next
    case False
    with assms show ?thesis by (auto simp: tracked_def update_conv' split: option.splits dest: spec [of _ k])
  qed
qed

lemma from_side_snoc:
  "from_side b (items @ [(j, w)]) k v \<longleftrightarrow> from_side b items k v \<or> k = j \<and> track_is_left w = b \<and> v \<le> track_val w"
  by (auto simp: from_side_def)

text \<open>One more report: what it makes the tracker yield is what both sides then have reached.\<close>

lemma merged_out:
  assumes tr: "tracked st items"
  shows "from_side True items j v \<and> from_side False items j v \<or>
      (\<exists>u \<ge> v. snd (track_merge (tracker_item st j w) w) = Some u) \<longleftrightarrow>
    from_side True (items @ [(j, w)]) j v \<and> from_side False (items @ [(j, w)]) j v"
proof -
  let ?item = "tracker_item st j w"
  have below: "v \<le> track_val ?item" if "from_side b items j v" for b
    using that tracked_item(2) [OF tr] by (auto simp: from_side_def intro: order_trans)
  have self: "from_side (track_is_left ?item) items j v"
    if "from_side b items j v \<or> track_is_left ?item \<noteq> track_is_left w \<and> v \<le> track_val ?item" for b
    using that below tracked_item(3) [OF tr] unfolding from_side_def by blast
  show ?thesis
  proof (cases "track_is_left ?item = track_is_left w")
    case True
    then show ?thesis unfolding from_side_snoc track_merge_out using self by (simp add: True) (metis (full_types))
  next
    case False
    then have "(\<exists>u \<ge> v. snd (track_merge ?item w) = Some u) \<longleftrightarrow> v \<le> track_val ?item \<and> v \<le> track_val w"
      by (simp add: track_merge_out)
    then show ?thesis unfolding from_side_snoc using self below False by (metis (full_types))
  qed
qed

lemma tracker_merge_exact:
  "tracked (fst (tracker_merge [] items)) items \<and>
   (\<forall>k v. (\<exists>u \<ge> v. (k, u) \<in> set (snd (tracker_merge [] items))) \<longleftrightarrow> from_side True items k v \<and> from_side False items k v)"
proof (induction items rule: rev_induct)
  case Nil
  then show ?case by (simp add: tracked_def from_side_def)
next
  case (snoc x items)
  obtain j w where x: "x = (j, w)" by force
  obtain st outs where run: "tracker_merge [] items = (st, outs)" by force
  from snoc run have tr: "tracked st items"
    and ex: "(\<exists>u \<ge> v. (k, u) \<in> set outs) \<longleftrightarrow> from_side True items k v \<and> from_side False items k v" for k v by auto
  have "(\<exists>u \<ge> v. (k, u) \<in> set (snd (tracker_merge [] (items @ [x])))) \<longleftrightarrow>
      from_side True (items @ [x]) k v \<and> from_side False (items @ [x]) k v" for k v
  proof (cases "k = j")
    case True
    with merged_out [OF tr, of j v w] ex [of v j] show ?thesis
      by (auto simp: x tracker_merge_snoc [OF run] split: option.splits)
  next
    case False
    with ex [of v k] show ?thesis by (auto simp: x tracker_merge_snoc [OF run] from_side_snoc split: option.split)
  qed
  with tracked_snoc [OF tr] show ?case by (simp add: x tracker_merge_snoc [OF run])
qed

text \<open>The values a writer has notified for a partition.\<close>

definition notified :: "(nat \<times> notify_flag) list \<Rightarrow> nat \<Rightarrow> i32 \<Rightarrow> u64 \<Rightarrow> bool" where
  "notified events d k v \<longleftrightarrow> (\<exists>flag w. (d, flag) \<in> set events \<and> (k, w) \<in> set flag \<and> v \<le> w)"

definition below_events :: "(nat \<times> notify_flag) list \<Rightarrow> (nat \<times> notify_flag) list" where
  "below_events events = map (\<lambda>(d, flag). (d - 1, flag)) (filter (\<lambda>(d, _). 0 < d) events)"

fun receiver_outs :: "receiver \<Rightarrow> (nat \<times> notify_flag) list \<Rightarrow> notify_flag" where
  "receiver_outs r [] = []"
| "receiver_outs r ((d, flag) # events) =
     (let (r, out) = receiver_event r d flag in (case out of None \<Rightarrow> [] | Some ret \<Rightarrow> ret) @ receiver_outs r events)"

lemma commits_outs: "snd (auto_commit r events) = commit_list (receiver_outs r events)"
  by (induction r events rule: receiver_outs.induct)
    (auto simp: commit_list_def split: prod.splits option.splits)

lemma emit_flag_outs [simp]: "(case emit_flag ret of None \<Rightarrow> [] | Some ret \<Rightarrow> ret) = ret"
  by (simp add: emit_flag_def)

lemma outs_bottom: "receiver_outs (Receiver st None) events = concat (map snd events)"
  by (induction events arbitrary: st) (auto split: prod.splits)

text \<open>What one receiver of a chain merges: the flags of its own writer and the reports from behind.\<close>

fun chain_items :: "receiver \<Rightarrow> (nat \<times> notify_flag) list \<Rightarrow> notify_tracker" where
  "chain_items next [] = []"
| "chain_items next ((0, flag) # events) = map_to flag Left @ chain_items next events"
| "chain_items next ((Suc d, flag) # events) =
     (let (next, out) = receiver_event next d flag
      in map_to (case out of None \<Rightarrow> [] | Some nc \<Rightarrow> nc) Right @ chain_items next events)"

lemma outs_chain: "receiver_outs (Receiver st (Some next)) events = snd (tracker_merge st (chain_items next events))"
proof (induction "next" events arbitrary: st rule: chain_items.induct)
  case (2 "next" flag events)
  then show ?case by (simp add: tracker_merge_append Let_def split: prod.splits)
next
  case (3 "next" d flag events)
  obtain next' out where ev: "receiver_event next d flag = (next', out)" by force
  with 3 show ?case by (cases out) (simp_all add: tracker_merge_append Let_def map_to_def split: prod.splits)
qed simp

lemma chain_left: "(k, Left a) \<in> set (chain_items next events) \<longleftrightarrow> (\<exists>flag. (0, flag) \<in> set events \<and> (k, a) \<in> set flag)"
proof (induction "next" events rule: chain_items.induct)
  case (3 "next" d flag events)
  obtain next' out where ev: "receiver_event next d flag = (next', out)" by force
  have "(k, Left a) \<notin> set (map_to flag' Right)" for flag' by (auto simp: map_to_def)
  with 3 ev show ?case by simp
qed (auto simp: map_to_def)

lemma chain_right: "(k, Right b) \<in> set (chain_items next events) \<longleftrightarrow> (k, b) \<in> set (receiver_outs next (below_events events))"
proof (induction "next" events rule: chain_items.induct)
  case (3 "next" d flag events)
  obtain next' out where ev: "receiver_event next d flag = (next', out)" by force
  have "(k, Right b) \<in> set (map_to flag' Right) \<longleftrightarrow> (k, b) \<in> set flag'" for flag' by (force simp: map_to_def)
  with 3 ev show ?case by (simp add: below_events_def)
qed (auto simp: map_to_def below_events_def)

lemma chain_sides:
  "from_side True (chain_items next events) k v \<longleftrightarrow> notified events 0 k v"
  "from_side False (chain_items next events) k v \<longleftrightarrow> (\<exists>u \<ge> v. (k, u) \<in> set (receiver_outs next (below_events events)))"
proof -
  have "from_side True items k v \<longleftrightarrow> (\<exists>a \<ge> v. (k, Left a) \<in> set items)"
    "from_side False items k v \<longleftrightarrow> (\<exists>b \<ge> v. (k, Right b) \<in> set items)" for items
    unfolding from_side_def track_is_left_def track_val_def by (auto split: NotifyTrackItem.splits)
      (metis NotifyTrackItem.exhaust NotifyTrackItem.simps(5,6))+
  then show "from_side True (chain_items next events) k v \<longleftrightarrow> notified events 0 k v"
    "from_side False (chain_items next events) k v \<longleftrightarrow> (\<exists>u \<ge> v. (k, u) \<in> set (receiver_outs next (below_events events)))"
    by (auto simp: chain_left chain_right notified_def)
qed

lemma notified_below: "notified (below_events events) d k v \<longleftrightarrow> notified events (Suc d) k v"
  by (force simp: notified_def below_events_def)

lemma outs_exact:
  assumes "\<forall>(d, _) \<in> set events. d \<le> n"
  shows "(\<exists>u \<ge> v. (k, u) \<in> set (receiver_outs (get_tracker n) events)) \<longleftrightarrow> (\<forall>d \<le> n. notified events d k v)"
  using assms
proof (induction n arbitrary: events)
  case 0
  then show ?case by (force simp: outs_bottom notified_def)
next
  case (Suc n)
  have below: "\<forall>(d, _) \<in> set (below_events events). d \<le> n" using Suc.prems by (auto simp: below_events_def)
  have "(\<exists>u \<ge> v. (k, u) \<in> set (receiver_outs (get_tracker (Suc n)) events)) \<longleftrightarrow>
      notified events 0 k v \<and> (\<forall>d \<le> n. notified (below_events events) d k v)"
    using tracker_merge_exact [of "chain_items (get_tracker n) events"] Suc.IH [OF below]
    by (simp add: outs_chain chain_sides)
  also have "\<dots> \<longleftrightarrow> (\<forall>d \<le> Suc n. notified events d k v)"
    unfolding notified_below by (metis Suc_le_mono bot_nat_0.extremum not0_implies_Suc)
  finally show ?case .
qed

lemma looks_published: "(d, flag) \<in> set (looks cur es) \<Longrightarrow> cur d = Some flag \<or> Published d flag \<in> set es"
  by (induction cur es rule: looks.induct) (auto split: option.splits if_splits)

text \<open>
  C28: The automatic commit follows the reports of all writers. Let a topic be persisted by a chain of writers, which publish
  reports of their progress in watch channels while the commit task looks at them, in any interleaving. Then an offset behind \<open>v\<close> is
  committed for a partition if and only if the task has seen a report of \<open>v\<close> or more for it from every one of the writers, and so only if
  every one has published such a report. (A report that is replaced before the task looks is not seen, and then
  does not lead to a commit; what a report says of the rows is the matter of the writers.)
\<close>

theorem auto_commit_exact:
  assumes "\<forall>d flag. Published d flag \<in> set es \<longrightarrow> d \<le> n"
  shows "((\<exists>u. v \<le> u \<and> (k, u + 1) \<in> set (snd (auto_commit (get_tracker n) (looks (\<lambda>_. None) es)))) \<longleftrightarrow>
      (\<forall>d \<le> n. \<exists>flag w. (d, flag) \<in> set (looks (\<lambda>_. None) es) \<and> (k, w) \<in> set flag \<and> v \<le> w)) \<and>
    ((\<exists>u. v \<le> u \<and> (k, u + 1) \<in> set (snd (auto_commit (get_tracker n) (looks (\<lambda>_. None) es)))) \<longrightarrow>
      (\<forall>d \<le> n. \<exists>flag w. Published d flag \<in> set es \<and> (k, w) \<in> set flag \<and> v \<le> w))"
proof -
  let ?events = "looks (\<lambda>_. None) es"
  have pub: "Published d flag \<in> set es" if "(d, flag) \<in> set ?events" for d flag using looks_published [OF that] by simp
  with assms have "\<forall>(d, _) \<in> set ?events. d \<le> n" by blast
  moreover have "(k, u + 1) \<in> set (commit_list xs) \<longleftrightarrow> (k, u) \<in> set xs" for u xs by (auto simp: commit_list_def)
  ultimately have "(\<exists>u. v \<le> u \<and> (k, u + 1) \<in> set (snd (auto_commit (get_tracker n) ?events))) \<longleftrightarrow>
    (\<forall>d \<le> n. \<exists>flag w. (d, flag) \<in> set ?events \<and> (k, w) \<in> set flag \<and> v \<le> w)"
    using outs_exact [of ?events n v k] by (simp add: commits_outs notified_def)
  with pub show ?thesis by blast
qed

theorem auto_commit_exact_witness:
  "\<exists>u. 4 \<le> u \<and> (0, u + 1) \<in> set (snd (auto_commit (get_tracker 1)
     (looks (\<lambda>_. None) [Published 0 [(0, 3)], Published 0 [(0, 9)], Looked 0, Published 1 [(0, 4)], Looked 1])))"
  using auto_commit_exact [of "[Published 0 [(0, 3)], Published 0 [(0, 9)], Looked 0, Published 1 [(0, 4)], Looked 1]" 1 4 0]
  by (auto simp: le_Suc_eq)

text \<open>A report that is replaced unseen is lost: both writers have published offset 4 of partition 0, and nothing is committed.\<close>

lemma replaced_report_lost:
  "snd (auto_commit (get_tracker 1)
     (looks (\<lambda>_. None) [Published 0 [(0, 4)], Looked 0, Published 1 [(0, 4)], Published 1 [(1, 7)], Looked 1])) = []"
  by code_simp

text \<open>
  At the end the tracker's own state is committed instead, which is the largest report: it is
  exact only because all writers have finished by then.
\<close>

lemma final_commit_largest:
  "final_commit (fst (auto_commit (get_tracker 1) [(0, [(0, 9)]), (1, [(0, 4)])])) = [(0, 10)]"
  by code_simp

section \<open>What the consumer writes\<close>

text \<open>The rows of a message for the four tables; those of trades and orders are the rows the engine itself would write.\<close>

definition trade_rows :: "env \<Rightarrow> decoder \<Rightarrow> kafka_message \<Rightarrow> user_trade list" where
  "trade_rows E D m = (if km_topic m = TRADES_TOPIC
     then case Option.bind (km_payload m) (de_trade D) of None \<Rightarrow> [] | Some t \<Rightarrow> [bid_user_trade E t, ask_user_trade E t] else [])"

definition kline_rows :: "env \<Rightarrow> decoder \<Rightarrow> kafka_message \<Rightarrow> market_trade list" where
  "kline_rows E D m = (if km_topic m = TRADES_TOPIC
     then case Option.bind (km_payload m) (de_trade D) of None \<Rightarrow> [] | Some t \<Rightarrow> [market_trade_of E t] else [])"

definition order_rows_of :: "env \<Rightarrow> decoder \<Rightarrow> kafka_message \<Rightarrow> order_history list" where
  "order_rows_of E D m = (if km_topic m = ORDERS_TOPIC
     then case Option.bind (km_payload m) (de_order D) of None \<Rightarrow> []
       | Some t \<Rightarrow> if omsg_event t = FINISH then [order_history_of E (omsg_order t)] else [] else [])"

definition balance_rows_of :: "env \<Rightarrow> (rat \<Rightarrow> timestamp) \<Rightarrow> decoder \<Rightarrow> kafka_message \<Rightarrow> balance_history list" where
  "balance_rows_of E seconds_db D m = (if km_topic m = BALANCES_TOPIC
     then case Option.bind (km_payload m) (de_balance D) of None \<Rightarrow> [] | Some t \<Rightarrow> [balance_history_of E seconds_db t] else [])"

definition tagged :: "kafka_message \<Rightarrow> 'q list \<Rightarrow> 'q writer_msg list" where
  "tagged m rows = map (\<lambda>row. Data row (Some (km_partition m, km_offset m))) rows"

definition has_room :: "nat \<Rightarrow> ('q, 'c) writer \<Rightarrow> bool" where
  "has_room n w \<longleftrightarrow> wr_alive w \<and> length (wr_chan w) + n \<le> CHANNEL_LIMIT"

definition sends :: "'q writer_msg list \<Rightarrow> ('q, 'c) writer \<Rightarrow> ('q, 'c) writer" where
  "sends msgs w = w\<lparr>wr_chan := wr_chan w @ msgs, wr_sent := wr_sent w @ msgs\<rparr>"

lemma sends_simps [simp]: "sends [] w = w" "sends ys (sends xs w) = sends (xs @ ys) w" "wr_sent (sends xs w) = wr_sent w @ xs"
  by (simp_all add: sends_def)

lemma has_room_sends: "has_room (n + length xs) w \<Longrightarrow> has_room n (sends xs w)"
  by (simp add: has_room_def sends_def)

lemma has_room_mono: "has_room n w \<Longrightarrow> k \<le> n \<Longrightarrow> has_room k w"
  by (simp add: has_room_def)

lemma persist_message_sends:
  "has_room 1 w \<Longrightarrow> persist_message into t m w = sends (tagged m (case into t of None \<Rightarrow> [] | Some row \<Rightarrow> [row])) w"
  by (cases "into t") (simp_all add: persist_message_def has_room_def append_with_notify_def sends_def tagged_def)

definition room_for_messages :: "nat \<Rightarrow> 'c msg_writers \<Rightarrow> bool" where
  "room_for_messages n st \<longleftrightarrow> has_room (2 * n) (mw_trade st) \<and> has_room n (mw_kline st) \<and> has_room n (mw_order st) \<and> has_room n (mw_balance st)"

definition after_message :: "env \<Rightarrow> (rat \<Rightarrow> timestamp) \<Rightarrow> decoder \<Rightarrow> kafka_message \<Rightarrow> 'c msg_writers \<Rightarrow> 'c msg_writers" where
  "after_message E sd D m st = st\<lparr>mw_kline := sends (tagged m (kline_rows E D m)) (mw_kline st),
     mw_trade := sends (tagged m (trade_rows E D m)) (mw_trade st),
     mw_order := sends (tagged m (order_rows_of E D m)) (mw_order st),
     mw_balance := sends (tagged m (balance_rows_of E sd D m)) (mw_balance st)\<rparr>"

lemmas handler_defs = typed_on_message_def trade_handler_def order_handler_def balance_handler_def chained_def empty_handler_def

lemmas topic_defs = TRADES_TOPIC_def ORDERS_TOPIC_def BALANCES_TOPIC_def

lemma trade_message_handled:
  assumes "room_for_messages 1 st" and "km_topic m = TRADES_TOPIC"
  shows "typed_on_message (de_trade D) (trade_handler E) m st = after_message E sd D m st"
proof (cases "Option.bind (km_payload m) (de_trade D)")
  case None
  then show ?thesis using assms(2)
    by (auto simp: handler_defs after_message_def trade_rows_def kline_rows_def order_rows_of_def balance_rows_of_def
        tagged_def topic_defs split: option.splits Option.bind_splits)
next
  case (Some t)
  then obtain pl where pl: "km_payload m = Some pl" "de_trade D pl = Some t" by (auto split: Option.bind_splits)
  have room: "has_room 1 (mw_trade st)" "has_room 1 (sends (tagged m [bid_user_trade E t]) (mw_trade st))" "has_room 1 (mw_kline st)"
    using assms(1) by (auto simp: room_for_messages_def has_room_def sends_def tagged_def)
  have rows: "bid_trade E t = Some (bid_user_trade E t)" "ask_trade E t = Some (ask_user_trade E t)"
    by (simp_all add: bid_trade_def bid_user_trade_def ask_trade_def ask_user_trade_def)
  show ?thesis using pl assms(2) room
    by (simp add: handler_defs persist_message_sends rows after_message_def trade_rows_def kline_rows_def order_rows_of_def
        balance_rows_of_def topic_defs) (simp add: tagged_def)
qed

lemma order_message_handled:
  assumes "room_for_messages 1 st" and "km_topic m = ORDERS_TOPIC"
  shows "typed_on_message (de_order D) (order_handler E) m st = after_message E sd D m st"
proof -
  have room: "has_room 1 (mw_order st)" using assms(1) by (simp add: room_for_messages_def)
  show ?thesis using assms(2) room
    by (auto simp: handler_defs persist_message_sends closed_order_def after_message_def trade_rows_def kline_rows_def order_rows_of_def
        balance_rows_of_def topic_defs tagged_def split: option.splits Option.bind_splits OrderEventType.splits)
qed

lemma balance_message_handled:
  assumes "room_for_messages 1 st" and "km_topic m = BALANCES_TOPIC"
  shows "typed_on_message (de_balance D) (balance_handler E sd) m st = after_message E sd D m st"
proof -
  have room: "has_room 1 (mw_balance st)" using assms(1) by (simp add: room_for_messages_def)
  show ?thesis using assms(2) room
    by (auto simp: handler_defs persist_message_sends after_message_def trade_rows_def kline_rows_def order_rows_of_def
        balance_rows_of_def topic_defs tagged_def split: option.splits Option.bind_splits)
qed

lemma message_handled:
  assumes "room_for_messages 1 st" and "km_topic m \<in> {TRADES_TOPIC, ORDERS_TOPIC, BALANCES_TOPIC}"
  shows "\<exists>h. map_of (persistor_handlers E sd D) (km_topic m) = Some h \<and> h m st = after_message E sd D m st"
proof -
  have "TRADES_TOPIC \<noteq> ORDERS_TOPIC" "TRADES_TOPIC \<noteq> BALANCES_TOPIC" "ORDERS_TOPIC \<noteq> BALANCES_TOPIC" by (simp_all add: topic_defs)
  with assms trade_message_handled [OF assms(1)] order_message_handled [OF assms(1)] balance_message_handled [OF assms(1)]
  show ?thesis by (auto simp: persistor_handlers_def)
qed

lemma room_after:
  assumes "room_for_messages (Suc n) st" shows "room_for_messages 1 st" and "room_for_messages n (after_message E sd D m st)"
proof -
  have "length (trade_rows E D m) \<le> 2" "length (kline_rows E D m) \<le> 1" "length (order_rows_of E D m) \<le> 1" "length (balance_rows_of E sd D m) \<le> 1"
    by (auto simp: trade_rows_def kline_rows_def order_rows_of_def balance_rows_of_def split: option.split)
  with assms show "room_for_messages 1 st" "room_for_messages n (after_message E sd D m st)"
    by (auto simp: room_for_messages_def after_message_def has_room_def sends_def tagged_def)
qed

text \<open>
  C29: The consumer stores what the engine would have stored. For any stream of messages of the three topics, with idle
  polls and partition ends in between and as long as the writers have room, \<^verbatim>\<open>run_stream\<close> does not panic
  and hands to the four writers exactly the rows of the messages, in order and tagged with partition and offset: for a
  trade the two rows of the engine's own history (bid, then ask) and one for the candles, for an order its
  history row when the message reports its end, for a balance message one row. A message that
  does not decode is skipped.
\<close>

theorem stream_delivers:
  assumes "set ms \<subseteq> {m. km_topic m \<in> {TRADES_TOPIC, ORDERS_TOPIC, BALANCES_TOPIC}}"
    and "filter (\<lambda>i. i \<noteq> NoMessageReceived \<and> i \<noteq> PartitionEOF) items = map KafkaMsg ms"
    and "room_for_messages (length ms) st"
  shows "\<exists>st'. run_stream (persistor_handlers E sd D) items st = StreamWaits st' \<and>
    wr_sent (mw_trade st') = wr_sent (mw_trade st) @ concat (map (\<lambda>m. tagged m (trade_rows E D m)) ms) \<and>
    wr_sent (mw_kline st') = wr_sent (mw_kline st) @ concat (map (\<lambda>m. tagged m (kline_rows E D m)) ms) \<and>
    wr_sent (mw_order st') = wr_sent (mw_order st) @ concat (map (\<lambda>m. tagged m (order_rows_of E D m)) ms) \<and>
    wr_sent (mw_balance st') = wr_sent (mw_balance st) @ concat (map (\<lambda>m. tagged m (balance_rows_of E sd D m)) ms)"
  using assms
proof (induction items arbitrary: ms st)
  case (Cons i items)
  show ?case
  proof (cases i)
    case (KafkaMsg m)
    with Cons.prems(2) obtain ms' where ms: "ms = m # ms'" and rest: "filter (\<lambda>i. i \<noteq> NoMessageReceived \<and> i \<noteq> PartitionEOF) items = map KafkaMsg ms'"
      by (cases ms) auto
    have room: "room_for_messages (Suc (length ms')) st" using Cons.prems(3) ms by simp
    have "km_topic m \<in> {TRADES_TOPIC, ORDERS_TOPIC, BALANCES_TOPIC}" "set ms' \<subseteq> {m. km_topic m \<in> {TRADES_TOPIC, ORDERS_TOPIC, BALANCES_TOPIC}}"
      using Cons.prems(1) ms by auto
    note h = message_handled [OF room_after(1) [OF room] this(1), of E sd D]
      and ih = Cons.IH [OF this(2) rest room_after(2) [OF room], of E sd D m]
    from h obtain h where "map_of (persistor_handlers E sd D) (km_topic m) = Some h" "h m st = after_message E sd D m st" by blast
    with ih show ?thesis by (auto simp: KafkaMsg ms after_message_def)
  next
    case (KafkaErr e)
    with Cons.prems(2) show ?thesis by (cases ms) auto
  qed (use Cons in auto)
qed simp

text \<open>A finished order arrives between two idle polls.\<close>

definition demo_order :: order where
  "demo_order = accepted_order ref_env demo_bid 2 (fst demo_book) (snd demo_book)"

definition demo_decoder :: decoder where
  "demo_decoder = \<lparr>de_trade = (\<lambda>_. None), de_order = (\<lambda>_. Some (from_order demo_order FINISH)), de_balance = (\<lambda>_. None)\<rparr>"

definition demo_message :: kafka_message where
  "demo_message = \<lparr>km_topic = ORDERS_TOPIC, km_partition = 3, km_offset = 77, km_payload = Some ''{}''\<rparr>"

definition demo_writers :: "unit msg_writers" where
  "demo_writers = \<lparr>mw_kline = start_schedule (), mw_trade = start_schedule (), mw_order = start_schedule (), mw_balance = start_schedule ()\<rparr>"

theorem stream_delivers_witness:
  "\<exists>st'. run_stream (persistor_handlers ref_env (\<lambda>_. 0) demo_decoder) [NoMessageReceived, KafkaMsg demo_message, NoMessageReceived] demo_writers =
      StreamWaits st' \<and> wr_sent (mw_order st') = [Data (order_history_of ref_env demo_order) (Some (3, 77))] \<and> wr_sent (mw_trade st') = []"
proof -
  have rows: "order_rows_of ref_env demo_decoder demo_message = [order_history_of ref_env demo_order]"
    "trade_rows ref_env demo_decoder demo_message = []"
    by (simp_all add: order_rows_of_def trade_rows_def demo_decoder_def demo_message_def from_order_def topic_defs)
  have "room_for_messages (length [demo_message]) demo_writers"
    by (simp add: room_for_messages_def has_room_def demo_writers_def start_schedule_def CHANNEL_LIMIT_def)
  from stream_delivers [OF _ _ this, of "[NoMessageReceived, KafkaMsg demo_message, NoMessageReceived]" ref_env "\<lambda>_. 0" demo_decoder] rows
  show ?thesis by (auto simp: demo_message_def tagged_def demo_writers_def start_schedule_def)
qed

section \<open>The taker's side of a trade\<close>

text \<open>
  The candle row names the right taker. For every trade an accepted order causes, the side that
  \<^verbatim>\<open>MarketTrade\<close> derives from comparing the two order identifiers is the side of the incoming order, the
  one the trade itself marks as taker.
\<close>

theorem market_trade_taker_side:
  assumes "env_laws E" and "market_inv m cx" and "input_ok i" and "room m cx"
    and "put_order E i u m cx = Some (m', cx', Inr x')"
  shows "\<forall>tr \<in> set (trades_since cx cx'). mt_taker_side (market_trade_of E tr) = i_side i \<and>
    (if i_side i = ASK then t_ask_role tr else t_bid_role tr) = TAKER"
proof -
  from put_order_accepted [OF assms] obtain ql fills ms where
    run: "run E ql (counter_orders m (i_side i)) (start (accepted_order E i u m cx) m (accepted_ctx cx)) fills ms" and
    trs: "trades_since cx cx' = map (\<lambda>(r, x, tr). tr) fills" by blast
  have bs: "book_struct m" and below: "ids_below (sq_order_id (cx_sequencer cx)) m" using assms(2) by (simp_all add: market_inv_def book_ok_def)
  have new: "o_id (deep m r) < o_id (accepted_order E i u m cx)" if "r \<in> fst ` set fills" for r
  proof -
    have "r \<in> set (counter_orders m (i_side i))" using run_prefix [OF run] that by force
    then have "(o_id (deep m r), r) \<in> set (m_orders m)" by (simp add: counter_orders_set [OF bs])
    then have "o_id (deep m r) \<le> sq_order_id (cx_sequencer cx)" using below by (auto simp: ids_below_def)
    moreover have "sq_order_id (cx_sequencer cx) < sq_order_id (cx_sequencer cx) + 1"
      using assms(4) by (simp add: room_def word_less_nat_alt unat_word_ariths)
    ultimately show ?thesis by (simp add: accepted_order_def order_of_input_def)
  qed
  have "mt_taker_side (market_trade_of E tr) = i_side i \<and> (if i_side i = ASK then t_ask_role tr else t_bid_role tr) = TAKER"
    if f: "(r, x, tr) \<in> set fills" for r x tr
  proof -
    have "fill_ok m (accepted_order E i u m cx) (r, x, tr)" using run_fills [OF run] f by fastforce
    moreover have "o_id (deep m r) < o_id (accepted_order E i u m cx)" using new f by force
    moreover have "o_side (accepted_order E i u m cx) = i_side i" by (simp add: accepted_order_def order_of_input_def)
    ultimately show ?thesis by (cases "i_side i") (auto simp: fill_ok_def market_trade_of_def)
  qed
  then show ?thesis by (auto simp: trs)
qed

theorem market_trade_taker_side_witness:
  "\<exists>m' cx' x'. put_order ref_env demo_bid 2 (fst demo_book) (snd demo_book) = Some (m', cx', Inr x') \<and>
     (\<forall>tr \<in> set (trades_since (snd demo_book) cx'). mt_taker_side (market_trade_of ref_env tr) = BID)"
  using demo_bid_put market_trade_taker_side [OF demo_hyps] by (force simp: demo_bid_def)

end
