(* ===== verification/PersistorProcess.thy ===== *)
theory PersistorProcess
  imports MsgPersist
begin

text \<open>
  The persistor process, \<^verbatim>\<open>src/bin/persistor.rs\<close>: how the topics are configured (the builders of
  \<^verbatim>\<open>src/message/persist.rs\<close> and the handler types of \<^verbatim>\<open>src/message/consumer.rs\<close>), and the life of the
  process from connecting to Kafka over restarts of the stream to the orderly end, interleaved with the
  schedulers of its four writers.
\<close>

section \<open>Handlers\<close>

text \<open>
  The handler traits: what is done with a message and what when there is none. A handler whose
  methods are not asynchronous is wrapped by \<^verbatim>\<open>Synced\<close>, which runs them at once.
\<close>

record ('a, 's) msg_handler =
  mh_on_message :: "'a \<Rightarrow> 's \<Rightarrow> 's"
  mh_on_no_msg :: "'s \<Rightarrow> 's"

definition Synced :: "('a, 's) msg_handler \<Rightarrow> ('a, 's) msg_handler" where
  "Synced h = \<lparr>mh_on_message = (\<lambda>m st. mh_on_message h m st), mh_on_no_msg = (\<lambda>st. mh_on_no_msg h st)\<rparr>"

definition Typed :: "(string \<Rightarrow> 'm option) \<Rightarrow> ('m \<times> kafka_message, 's) msg_handler \<Rightarrow> (kafka_message, 's) msg_handler" where
  "Typed decode h = \<lparr>mh_on_message = typed_on_message decode (\<lambda>t m st. mh_on_message h (t, m) st),
     mh_on_no_msg = (\<lambda>st. mh_on_no_msg h st)\<rparr>"

definition ChainedHandler ::
  "('m \<times> kafka_message, 's) msg_handler \<Rightarrow> ('m \<times> kafka_message, 's) msg_handler \<Rightarrow> ('m \<times> kafka_message, 's) msg_handler" where
  "ChainedHandler h0 h1 = \<lparr>
     mh_on_message = (\<lambda>(t, m). chained (\<lambda>t m st. mh_on_message h0 (t, m) st) (\<lambda>t m st. mh_on_message h1 (t, m) st) t m),
     mh_on_no_msg = (\<lambda>st. mh_on_no_msg h1 (mh_on_no_msg h0 st))\<rparr>"

definition EmptyHandler :: "('m \<times> kafka_message, 's) msg_handler" where
  "EmptyHandler = \<lparr>mh_on_message = (\<lambda>(t, m). empty_handler t m), mh_on_no_msg = (\<lambda>st. st)\<rparr>"

text \<open>
  A persistor belongs to one of the four writers; the type of its rows is that of the writer's table, so
  a row of another table does not occur.
\<close>

datatype dbwriter = KlineWriter | TradeWriter | OrderWriter | BalanceWriter

datatype table_row = KlineRow market_trade | TradeRow user_trade | OrderRow order_history | BalanceRow balance_history

definition kline_row :: "table_row option \<Rightarrow> market_trade option" where
  "kline_row row = (case row of Some (KlineRow r) \<Rightarrow> Some r | _ \<Rightarrow> None)"

definition trade_row :: "table_row option \<Rightarrow> user_trade option" where
  "trade_row row = (case row of Some (TradeRow r) \<Rightarrow> Some r | _ \<Rightarrow> None)"

definition order_row :: "table_row option \<Rightarrow> order_history option" where
  "order_row row = (case row of Some (OrderRow r) \<Rightarrow> Some r | _ \<Rightarrow> None)"

definition balance_row :: "table_row option \<Rightarrow> balance_history option" where
  "balance_row row = (case row of Some (BalanceRow r) \<Rightarrow> Some r | _ \<Rightarrow> None)"

definition MsgDataPersistor :: "dbwriter \<Rightarrow> ('m \<Rightarrow> table_row option) \<Rightarrow> ('m \<times> kafka_message, 'c msg_writers) msg_handler" where
  "MsgDataPersistor dbw into = \<lparr>
     mh_on_message = (\<lambda>(t, m) st. case dbw of
        KlineWriter \<Rightarrow> st\<lparr>mw_kline := persist_message (kline_row \<circ> into) t m (mw_kline st)\<rparr>
      | TradeWriter \<Rightarrow> st\<lparr>mw_trade := persist_message (trade_row \<circ> into) t m (mw_trade st)\<rparr>
      | OrderWriter \<Rightarrow> st\<lparr>mw_order := persist_message (order_row \<circ> into) t m (mw_order st)\<rparr>
      | BalanceWriter \<Rightarrow> st\<lparr>mw_balance := persist_message (balance_row \<circ> into) t m (mw_balance st)\<rparr>),
     mh_on_no_msg = (\<lambda>st. st)\<rparr>"

section \<open>Topics\<close>

text \<open>
  \<^verbatim>\<open>TopicConfig\<close> names a topic; \<^verbatim>\<open>ChainedTopicBuilder\<close> adds a writer with a transformer in front of a
  configuration. \<^verbatim>\<open>Deco\<close> is the transformer that always gives a row.
\<close>

datatype 'm topic_builder =
    TopicConfig string
  | ChainedTopicBuilder "'m topic_builder" dbwriter "'m \<Rightarrow> table_row option"

fun topic_name :: "'m topic_builder \<Rightarrow> string" where
  "topic_name (TopicConfig topic) = topic"
| "topic_name (ChainedTopicBuilder next_config dbw tr) = topic_name next_config"

definition Deco :: "('m \<Rightarrow> table_row) \<Rightarrow> 'm \<Rightarrow> table_row option" where
  "Deco into msg = Some (into msg)"

text \<open>
  \<^verbatim>\<open>persist_to\<close> chooses \<^verbatim>\<open>Deco\<close>; where the rows of the table have no conversion from the messages of
  the topic (\<open>None\<close>), the builder is of use only after \<^verbatim>\<open>with_tr\<close>, a method of the chained builder.
\<close>

definition persist_to :: "dbwriter \<Rightarrow> ('m \<Rightarrow> table_row) option \<Rightarrow> 'm topic_builder \<Rightarrow> 'm topic_builder" where
  "persist_to db into self = ChainedTopicBuilder self db (case into of Some f \<Rightarrow> Deco f | None \<Rightarrow> (\<lambda>_. None))"

fun with_tr :: "('m \<Rightarrow> table_row option) \<Rightarrow> 'm topic_builder \<Rightarrow> 'm topic_builder" where
  "with_tr tr (ChainedTopicBuilder next_config dbw _) = ChainedTopicBuilder next_config dbw tr"
| "with_tr tr (TopicConfig topic) = TopicConfig topic"

fun handler_from :: "'m topic_builder \<Rightarrow> ('m \<times> kafka_message, 'c msg_writers) msg_handler" where
  "handler_from (TopicConfig topic) = Synced EmptyHandler"
| "handler_from (ChainedTopicBuilder next_config dbw tr) =
     ChainedHandler (Synced (MsgDataPersistor dbw tr)) (handler_from next_config)"

definition topic_handler :: "(string \<Rightarrow> 'm option) \<Rightarrow> 'm topic_builder \<Rightarrow> (kafka_message, 'c msg_writers) msg_handler" where
  "topic_handler decode b = Typed decode (handler_from b)"

text \<open>The trackers of the writers of a topic; the plain configuration has none.\<close>

fun builder_tracker :: "'m topic_builder \<Rightarrow> receiver option" where
  "builder_tracker (TopicConfig topic) = None"
| "builder_tracker (ChainedTopicBuilder next_config dbw tr) = Some (Receiver [] (builder_tracker next_config))"

definition trade_cfg :: "env \<Rightarrow> trade topic_builder" where
  "trade_cfg E =
     with_tr (map_option TradeRow \<circ> bid_trade E) (persist_to TradeWriter None
       (with_tr (map_option TradeRow \<circ> ask_trade E) (persist_to TradeWriter None
         (persist_to KlineWriter (Some (KlineRow \<circ> market_trade_of E))
           (TopicConfig TRADES_TOPIC)))))"

definition order_cfg :: "env \<Rightarrow> order_message topic_builder" where
  "order_cfg E = with_tr (map_option OrderRow \<circ> closed_order E)
     (persist_to OrderWriter (Some (\<lambda>m. OrderRow (order_history_of E (omsg_order m)))) (TopicConfig ORDERS_TOPIC))"

definition balance_cfg :: "env \<Rightarrow> (rat \<Rightarrow> timestamp) \<Rightarrow> balance_message topic_builder" where
  "balance_cfg E seconds_db = persist_to BalanceWriter (Some (BalanceRow \<circ> balance_history_of E seconds_db)) (TopicConfig BALANCES_TOPIC)"

section \<open>The consumer\<close>

type_synonym 'c consumer = "(string \<times> (kafka_message, 'c msg_writers) msg_handler) list"

definition add_topic_config :: "(string \<Rightarrow> string + unit) \<Rightarrow> (string \<Rightarrow> 'm option) \<Rightarrow> 'm topic_builder \<Rightarrow> 'c consumer \<Rightarrow> string + 'c consumer" where
  "add_topic_config health decode builder hs = add_topic (health (topic_name builder)) (topic_name builder) (topic_handler decode builder) hs"

text \<open>One turn of the loop of \<^verbatim>\<open>run_stream\<close>: a panic, the error that ends it, or the state to go on with.\<close>

definition stream_turn :: "'c consumer \<Rightarrow> stream_item \<Rightarrow> 'c msg_writers \<Rightarrow> (string + 'c msg_writers) option" where
  "stream_turn cr item st =
     (case item of
        NoMessageReceived \<Rightarrow> Some (Inr (fold (\<lambda>(_, h). mh_on_no_msg h) cr st))
      | PartitionEOF \<Rightarrow> Some (Inr st)
      | KafkaErr e \<Rightarrow> Some (Inl e)
      | KafkaMsg m \<Rightarrow> (case map_of cr (km_topic m) of
          None \<Rightarrow> None
        | Some h \<Rightarrow> Some (Inr (mh_on_message h m st))))"

definition unwrap_ok :: "'e + 'a \<Rightarrow> 'a option" where
  "unwrap_ok r = (case r of Inl _ \<Rightarrow> None | Inr x \<Rightarrow> Some x)"

text \<open>The consumer that \<^verbatim>\<open>main\<close> builds for every connection; an unknown topic or an unhealthy server panics.\<close>

definition cr_main :: "env \<Rightarrow> (rat \<Rightarrow> timestamp) \<Rightarrow> decoder \<Rightarrow> (string \<Rightarrow> string + unit) \<Rightarrow> 'c consumer option" where
  "cr_main E seconds_db D health = do {
     cr \<leftarrow> unwrap_ok (add_topic_config health (de_trade D) (trade_cfg E) []);
     cr \<leftarrow> unwrap_ok (add_topic_config health (de_order D) (order_cfg E) cr);
     unwrap_ok (add_topic_config health (de_balance D) (balance_cfg E seconds_db) cr)
   }"

lemmas builder_defs = trade_cfg_def order_cfg_def balance_cfg_def persist_to_def Deco_def

lemmas msg_handler_defs = topic_handler_def Typed_def Synced_def ChainedHandler_def EmptyHandler_def MsgDataPersistor_def

lemma row_simps [simp]:
  "trade_row (map_option TradeRow x) = x" "order_row (map_option OrderRow y) = y"
  "kline_row (Some (KlineRow k)) = Some k" "balance_row (Some (BalanceRow b)) = Some b"
  by (simp_all add: trade_row_def order_row_def kline_row_def balance_row_def split: option.split)

text \<open>The configured topics are served by the handlers of the stream model, and are tracked by chains of their length.\<close>

lemma configured_handlers:
  "topic_handler (de_trade D) (trade_cfg E) = \<lparr>mh_on_message = typed_on_message (de_trade D) (trade_handler E), mh_on_no_msg = (\<lambda>st. st)\<rparr>"
  "topic_handler (de_order D) (order_cfg E) = \<lparr>mh_on_message = typed_on_message (de_order D) (order_handler E), mh_on_no_msg = (\<lambda>st. st)\<rparr>"
  "topic_handler (de_balance D) (balance_cfg E sd) = \<lparr>mh_on_message = typed_on_message (de_balance D) (balance_handler E sd), mh_on_no_msg = (\<lambda>st. st)\<rparr>"
  by (simp_all add: builder_defs msg_handler_defs handler_defs comp_def fun_eq_iff split: option.split)

lemma configured_trackers:
  "builder_tracker (trade_cfg E) = Some (get_tracker 2)" "builder_tracker (order_cfg E) = Some (get_tracker 0)"
  "builder_tracker (balance_cfg E sd) = Some (get_tracker 0)"
  by (simp_all add: builder_defs numeral_2_eq_2)

section \<open>The life of the process\<close>

text \<open>
  The process connects, consumes the stream until it fails and connects again; an interrupt makes it send
  every writer the request to exit and wait for the schedulers to end. The schedulers and tasks
  of the writers run in between; such a step sends no message to the writer. \<open>pp_consumed\<close> records the messages
  that were handled, and \<open>pp_full\<close> whether one of them met a channel without room for its rows.
\<close>

datatype 'c persistor_phase = Connecting | Consuming "'c consumer" | Stopping "dbwriter list" | Ended

record 'c persistor_proc =
  pp_phase :: "'c persistor_phase"
  pp_writers :: "'c msg_writers"
  pp_consumed :: "kafka_message list"
  pp_full :: bool

type_synonym ('q, 'c) query = "'q list \<Rightarrow> 'c \<Rightarrow> 'c \<times> (sql_error + SqlResultExt)"

record 'c queries =
  qy_kline :: "(market_trade, 'c) query"
  qy_trade :: "(user_trade, 'c) query"
  qy_order :: "(order_history, 'c) query"
  qy_balance :: "(balance_history, 'c) query"

definition write_config :: writer_config where
  "write_config = \<lparr>wc_apply_benchmark = True, wc_spawn_limit = 4, wc_capability_limit = 8192\<rparr>"

definition persistor_start :: "'c \<Rightarrow> 'c persistor_proc" where
  "persistor_start pool = \<lparr>pp_phase = Connecting,
     pp_writers = \<lparr>mw_kline = start_schedule pool, mw_trade = start_schedule pool, mw_order = start_schedule pool,
       mw_balance = start_schedule pool\<rparr>, pp_consumed = [], pp_full = False\<rparr>"

fun item_messages :: "stream_item \<Rightarrow> kafka_message list" where
  "item_messages (KafkaMsg m) = [m]"
| "item_messages _ = []"

text \<open>\<^verbatim>\<open>finish\<close> of a writer waits for room in the channel and sends the request.\<close>

fun can_send :: "dbwriter \<Rightarrow> 'c msg_writers \<Rightarrow> bool" where
  "can_send KlineWriter st = has_room 1 (mw_kline st)"
| "can_send TradeWriter st = has_room 1 (mw_trade st)"
| "can_send OrderWriter st = has_room 1 (mw_order st)"
| "can_send BalanceWriter st = has_room 1 (mw_balance st)"

fun send_exit :: "dbwriter \<Rightarrow> 'c msg_writers \<Rightarrow> 'c msg_writers" where
  "send_exit KlineWriter st = st\<lparr>mw_kline := sends [Exit True] (mw_kline st)\<rparr>"
| "send_exit TradeWriter st = st\<lparr>mw_trade := sends [Exit True] (mw_trade st)\<rparr>"
| "send_exit OrderWriter st = st\<lparr>mw_order := sends [Exit True] (mw_order st)\<rparr>"
| "send_exit BalanceWriter st = st\<lparr>mw_balance := sends [Exit True] (mw_balance st)\<rparr>"

definition all_ended :: "'c msg_writers \<Rightarrow> bool" where
  "all_ended st \<longleftrightarrow> \<not> wr_alive (mw_kline st) \<and> \<not> wr_alive (mw_trade st) \<and> \<not> wr_alive (mw_order st) \<and> \<not> wr_alive (mw_balance st)"

definition runs :: "('q, 'c) query \<Rightarrow> ('q, 'c) writer \<Rightarrow> ('q, 'c) writer \<Rightarrow> bool" where
  "runs query w w' \<longleftrightarrow> wstep query write_config w w' \<and> wr_sent w' = wr_sent w"

inductive pstep :: "env \<Rightarrow> (rat \<Rightarrow> timestamp) \<Rightarrow> decoder \<Rightarrow> 'c queries \<Rightarrow> 'c persistor_proc \<Rightarrow> 'c persistor_proc \<Rightarrow> bool"
  for E sd D qs where
  subscribed: "pp_phase p = Connecting \<Longrightarrow> cr_main E sd D health = Some cr \<Longrightarrow> pstep E sd D qs p (p\<lparr>pp_phase := Consuming cr\<rparr>)"
| subscribe_fails: "pp_phase p = Connecting \<Longrightarrow> cr_main E sd D health = Some (cr :: 'c consumer) \<Longrightarrow> pstep E sd D qs p p"
| consumed: "pp_phase p = Consuming cr \<Longrightarrow> stream_turn cr item (pp_writers p) = Some (Inr st) \<Longrightarrow>
    pstep E sd D qs p (p\<lparr>pp_writers := st, pp_consumed := pp_consumed p @ item_messages item,
      pp_full := (pp_full p \<or> item_messages item \<noteq> [] \<and> \<not> room_for_messages 1 (pp_writers p))\<rparr>)"
| stream_fails: "pp_phase p = Consuming cr \<Longrightarrow> stream_turn cr item (pp_writers p) = Some (Inl e) \<Longrightarrow>
    pstep E sd D qs p (p\<lparr>pp_phase := Connecting\<rparr>)"
| interrupted: "pp_phase p = Consuming cr \<Longrightarrow> pstep E sd D qs p (p\<lparr>pp_phase := Stopping []\<rparr>)"
| exit_sent: "pp_phase p = Stopping ws \<Longrightarrow> dbw \<notin> set ws \<Longrightarrow> can_send dbw (pp_writers p) \<Longrightarrow>
    pstep E sd D qs p (p\<lparr>pp_phase := Stopping (dbw # ws), pp_writers := send_exit dbw (pp_writers p)\<rparr>)"
| finished: "pp_phase p = Stopping ws \<Longrightarrow> {KlineWriter, TradeWriter, OrderWriter, BalanceWriter} \<subseteq> set ws \<Longrightarrow>
    all_ended (pp_writers p) \<Longrightarrow> pstep E sd D qs p (p\<lparr>pp_phase := Ended\<rparr>)"
| kline_runs: "runs (qy_kline qs) (mw_kline (pp_writers p)) w \<Longrightarrow> pstep E sd D qs p (p\<lparr>pp_writers := (pp_writers p)\<lparr>mw_kline := w\<rparr>\<rparr>)"
| trade_runs: "runs (qy_trade qs) (mw_trade (pp_writers p)) w \<Longrightarrow> pstep E sd D qs p (p\<lparr>pp_writers := (pp_writers p)\<lparr>mw_trade := w\<rparr>\<rparr>)"
| order_runs: "runs (qy_order qs) (mw_order (pp_writers p)) w \<Longrightarrow> pstep E sd D qs p (p\<lparr>pp_writers := (pp_writers p)\<lparr>mw_order := w\<rparr>\<rparr>)"
| balance_runs: "runs (qy_balance qs) (mw_balance (pp_writers p)) w \<Longrightarrow> pstep E sd D qs p (p\<lparr>pp_writers := (pp_writers p)\<lparr>mw_balance := w\<rparr>\<rparr>)"

section \<open>One writer\<close>

text \<open>A writer that was sent \<open>rows\<close> and, if \<open>ex\<close>, the request to exit.\<close>

definition writer_log :: "('q, 'c) query \<Rightarrow> 'c \<Rightarrow> 'q writer_msg list \<Rightarrow> bool \<Rightarrow> ('q, 'c) writer \<Rightarrow> bool" where
  "writer_log query pool rows ex w \<longleftrightarrow> writer_reach query write_config pool w \<and> wr_sent w = rows @ (if ex then [Exit True] else [])"

lemma writer_log_start: "writer_log query pool [] False (start_schedule pool)"
  by (simp add: writer_log_def writer_reach_def) (simp add: start_schedule_def)

lemma writer_log_runs: "writer_log query pool rows ex w \<Longrightarrow> runs query w w' \<Longrightarrow> writer_log query pool rows ex w'"
  by (auto simp: writer_log_def runs_def writer_reach_def)

lemma writer_log_exit: "writer_log query pool rows False w \<Longrightarrow> has_room 1 w \<Longrightarrow> writer_log query pool rows True (sends [Exit True] w)"
  using wstep.client_finish [of w query write_config True]
  by (auto simp: writer_log_def writer_reach_def has_room_def sends_def)

lemma writer_log_sends:
  assumes "writer_log query pool rows False w" and "has_room (length xs) w"
  shows "writer_log query pool (rows @ tagged m xs) False (sends (tagged m xs) w)"
  using assms
proof (induction xs arbitrary: rows w)
  case Nil
  then show ?case by (simp add: tagged_def)
next
  case (Cons x xs)
  let ?n = "Some (km_partition m, km_offset m)"
  have "append_with_notify x ?n w = (sends (tagged m [x]) w, Inr ())"
    using Cons.prems(2) by (simp add: append_with_notify_def has_room_def sends_def tagged_def)
  then have "wstep query write_config w (sends (tagged m [x]) w)" by (rule wstep.client_append)
  then have "writer_log query pool (rows @ tagged m [x]) False (sends (tagged m [x]) w)"
    using Cons.prems(1) by (auto simp: writer_log_def writer_reach_def)
  moreover have "has_room (length xs) (sends (tagged m [x]) w)"
    using Cons.prems(2) by (simp add: has_room_def sends_def tagged_def)
  moreover have "tagged m [x] @ tagged m xs = tagged m (x # xs)" by (simp add: tagged_def)
  ultimately show ?case using Cons.IH by fastforce
qed

lemma exit_last:
  assumes "rows @ [e] = recvd @ rest" and "e \<in> set recvd" and "e \<notin> set rows"
  shows "recvd = rows @ [e]"
  using assms by (cases rest rule: rev_cases) (auto simp: append_eq_append_conv2)

text \<open>A writer that was asked to exit gracefully and has ended has stored every row it was sent.\<close>

lemma ended_stored:
  assumes "query_law query acc" and "writer_reach query cfg pool w" and "\<not> wr_alive w" and "Exit False \<notin> set (wr_sent w)"
  shows "wr_exec w = [] \<and> (\<exists>recvd rest. wr_sent w = recvd @ rest \<and> Exit True \<in> set recvd \<and>
       mset (acc (wr_conn w)) = mset (acc pool) + mset (concat (map sent_rows recvd)))"
  using assms(2-4) unfolding writer_reach_def
proof (induction rule: rtranclp_induct)
  case base
  then show ?case by (simp add: start_schedule_def)
next
  case (step w w')
  have reach: "writer_reach query cfg pool w" using step.hyps(1) by (simp add: writer_reach_def)
  from step.hyps(2) show ?case
  proof cases
    case (client_append item notify)
    with step.prems show ?thesis by (auto simp: append_with_notify_def split: if_splits)
  next
    case (sched_recv msg rest s out quit)
    with step.prems(1) have "msg = Exit False" by (auto simp: recv_msg_def Let_def split: writer_msg.splits option.splits prod.splits)
    moreover from writer_reach_inv [OF assms(1) reach sched_recv(2)] obtain recvd where
      "wr_sent w = recvd @ filter is_client (wr_chan w)" by (auto simp: writer_inv_def)
    ultimately have "Exit False \<in> set (wr_sent w')" using sched_recv by simp
    with step.prems(2) show ?thesis by blast
  next
    case sched_exit
    from writer_graceful_exit [OF assms(1) reach sched_exit(2,3)] obtain recvd rest g where
      "wr_exec w = []" "wr_sent w = recvd @ rest" "Exit g \<in> set recvd"
      "mset (acc (wr_conn w)) = mset (acc pool) + mset (concat (map sent_rows recvd))" by blast
    moreover from this step.prems(2) have "g" using sched_exit by (cases g) auto
    ultimately show ?thesis using sched_exit by auto
  next
    case (task_end ts1 task ts2 conn msg)
    then have "\<not> wr_alive w" "Exit False \<notin> set (wr_sent w)" using step.prems by simp_all
    with step.IH task_end(2) show ?thesis by simp
  qed (use step.prems in simp_all)
qed

lemma writer_log_stored:
  assumes "query_law query acc" and "writer_log query pool rows True w" and "\<not> wr_alive w" and "\<forall>g. Exit g \<notin> set rows"
  shows "mset (acc (wr_conn w)) = mset (acc pool) + mset (concat (map sent_rows rows))"
proof -
  have sent: "wr_sent w = rows @ [Exit True]" using assms(2) by (simp add: writer_log_def)
  with assms(4) have "Exit False \<notin> set (wr_sent w)" by simp
  from ended_stored [OF assms(1) _ assms(3) this] assms(2) obtain recvd rest where
    r: "wr_sent w = recvd @ rest" "Exit True \<in> set recvd" "mset (acc (wr_conn w)) = mset (acc pool) + mset (concat (map sent_rows recvd))"
    unfolding writer_log_def by blast
  with sent assms(4) have "recvd = rows @ [Exit True]" by (intro exit_last [of rows _ recvd rest]) simp_all
  with r(3) show ?thesis by simp
qed

section \<open>All messages are stored\<close>

definition user_trades_of :: "env \<Rightarrow> decoder \<Rightarrow> kafka_message list \<Rightarrow> user_trade writer_msg list" where
  "user_trades_of E D ms = concat (map (\<lambda>m. tagged m (trade_rows E D m)) ms)"

definition klines_of :: "env \<Rightarrow> decoder \<Rightarrow> kafka_message list \<Rightarrow> market_trade writer_msg list" where
  "klines_of E D ms = concat (map (\<lambda>m. tagged m (kline_rows E D m)) ms)"

definition orders_of :: "env \<Rightarrow> decoder \<Rightarrow> kafka_message list \<Rightarrow> order_history writer_msg list" where
  "orders_of E D ms = concat (map (\<lambda>m. tagged m (order_rows_of E D m)) ms)"

definition balances_of_msgs :: "env \<Rightarrow> (rat \<Rightarrow> timestamp) \<Rightarrow> decoder \<Rightarrow> kafka_message list \<Rightarrow> balance_history writer_msg list" where
  "balances_of_msgs E sd D ms = concat (map (\<lambda>m. tagged m (balance_rows_of E sd D m)) ms)"

lemmas rows_of_defs = user_trades_of_def klines_of_def orders_of_def balances_of_msgs_def

fun exits :: "'c persistor_phase \<Rightarrow> dbwriter set" where
  "exits Connecting = {}"
| "exits (Consuming cr) = {}"
| "exits (Stopping ws) = set ws"
| "exits Ended = UNIV"

definition writers_log :: "env \<Rightarrow> (rat \<Rightarrow> timestamp) \<Rightarrow> decoder \<Rightarrow> 'c queries \<Rightarrow> 'c \<Rightarrow> kafka_message list \<Rightarrow> dbwriter set \<Rightarrow> 'c msg_writers \<Rightarrow> bool" where
  "writers_log E sd D qs pool ms ex st \<longleftrightarrow>
     writer_log (qy_kline qs) pool (klines_of E D ms) (KlineWriter \<in> ex) (mw_kline st) \<and>
     writer_log (qy_trade qs) pool (user_trades_of E D ms) (TradeWriter \<in> ex) (mw_trade st) \<and>
     writer_log (qy_order qs) pool (orders_of E D ms) (OrderWriter \<in> ex) (mw_order st) \<and>
     writer_log (qy_balance qs) pool (balances_of_msgs E sd D ms) (BalanceWriter \<in> ex) (mw_balance st)"

definition proc_inv :: "env \<Rightarrow> (rat \<Rightarrow> timestamp) \<Rightarrow> decoder \<Rightarrow> 'c queries \<Rightarrow> 'c \<Rightarrow> 'c persistor_proc \<Rightarrow> bool" where
  "proc_inv E sd D qs pool p \<longleftrightarrow>
     (\<not> pp_full p \<longrightarrow> writers_log E sd D qs pool (pp_consumed p) (exits (pp_phase p)) (pp_writers p)) \<and>
     (\<forall>cr. pp_phase p = Consuming cr \<longrightarrow> (\<exists>health. cr_main E sd D health = Some cr)) \<and>
     (pp_phase p = Ended \<longrightarrow> all_ended (pp_writers p))"

lemma cr_main_handlers:
  assumes "cr_main E sd D health = Some cr"
  shows "cr = [(TRADES_TOPIC, \<lparr>mh_on_message = typed_on_message (de_trade D) (trade_handler E), mh_on_no_msg = (\<lambda>st. st)\<rparr>),
    (ORDERS_TOPIC, \<lparr>mh_on_message = typed_on_message (de_order D) (order_handler E), mh_on_no_msg = (\<lambda>st. st)\<rparr>),
    (BALANCES_TOPIC, \<lparr>mh_on_message = typed_on_message (de_balance D) (balance_handler E sd), mh_on_no_msg = (\<lambda>st. st)\<rparr>)]"
proof -
  have "topic_name (trade_cfg E) = TRADES_TOPIC" "topic_name (order_cfg E) = ORDERS_TOPIC" "topic_name (balance_cfg E sd) = BALANCES_TOPIC"
    by (simp_all add: builder_defs)
  with assms show ?thesis
    by (auto simp: cr_main_def add_topic_config_def add_topic_def unwrap_ok_def configured_handlers topic_defs split: sum.splits Option.bind_splits)
qed

text \<open>A turn of the stream adds the rows of its message, if the channels have room, and touches nothing otherwise.\<close>

lemma turn_effect:
  assumes "cr_main E sd D health = Some cr" and "stream_turn cr item st = Some (Inr st')"
  shows "item_messages item = [] \<Longrightarrow> st' = st"
    and "item_messages item \<noteq> [] \<Longrightarrow> room_for_messages 1 st \<Longrightarrow> st' = after_message E sd D (hd (item_messages item)) st"
  using assms(2) trade_message_handled [of st _ D E sd] order_message_handled [of st _ D E sd] balance_message_handled [of st _ D E sd]
  unfolding cr_main_handlers [OF assms(1)]
  by (cases item; auto simp: stream_turn_def split: option.splits if_splits)+

lemma writers_log_message:
  assumes "writers_log E sd D qs pool ms {} st" and "room_for_messages 1 st"
  shows "writers_log E sd D qs pool (ms @ [m]) {} (after_message E sd D m st)"
proof -
  have "length (trade_rows E D m) \<le> 2" "length (kline_rows E D m) \<le> 1" "length (order_rows_of E D m) \<le> 1" "length (balance_rows_of E sd D m) \<le> 1"
    by (auto simp: trade_rows_def kline_rows_def order_rows_of_def balance_rows_of_def split: option.split)
  then have "has_room (length (trade_rows E D m)) (mw_trade st)" "has_room (length (kline_rows E D m)) (mw_kline st)"
    "has_room (length (order_rows_of E D m)) (mw_order st)" "has_room (length (balance_rows_of E sd D m)) (mw_balance st)"
    using assms(2) by (auto simp: room_for_messages_def elim!: has_room_mono)
  with assms(1) show ?thesis
    by (auto simp: writers_log_def after_message_def rows_of_defs intro!: writer_log_sends)
qed

lemma proc_inv_step:
  assumes "pstep E sd D qs p p'" and "proc_inv E sd D qs pool p"
  shows "proc_inv E sd D qs pool p'"
  using assms
proof (induction rule: pstep.induct)
  case (consumed p cr item st)
  then obtain health where cr: "cr_main E sd D health = Some cr" by (auto simp: proc_inv_def)
  note t = turn_effect [OF cr consumed(2)]
  show ?case
  proof (cases "item_messages item")
    case Nil
    with t consumed show ?thesis by (simp add: proc_inv_def)
  next
    case (Cons m ms)
    then have "ms = []" by (cases item) simp_all
    with Cons t consumed writers_log_message [of E sd D qs pool "pp_consumed p" "pp_writers p" m] show ?thesis
      by (auto simp: proc_inv_def)
  qed
next
  case (exit_sent p ws dbw)
  then show ?case by (cases dbw) (auto simp: proc_inv_def writers_log_def writer_log_exit)
next
  case (finished p ws)
  then show ?case by (auto simp: proc_inv_def writers_log_def)
next
  case (kline_runs p w)
  then have "\<not> wr_alive (mw_kline (pp_writers p)) \<longrightarrow> \<not> wr_alive w" using wstep_alive by (auto simp: runs_def)
  with kline_runs show ?case by (auto simp: proc_inv_def writers_log_def all_ended_def intro: writer_log_runs)
next
  case (trade_runs p w)
  then have "\<not> wr_alive (mw_trade (pp_writers p)) \<longrightarrow> \<not> wr_alive w" using wstep_alive by (auto simp: runs_def)
  with trade_runs show ?case by (auto simp: proc_inv_def writers_log_def all_ended_def intro: writer_log_runs)
next
  case (order_runs p w)
  then have "\<not> wr_alive (mw_order (pp_writers p)) \<longrightarrow> \<not> wr_alive w" using wstep_alive by (auto simp: runs_def)
  with order_runs show ?case by (auto simp: proc_inv_def writers_log_def all_ended_def intro: writer_log_runs)
next
  case (balance_runs p w)
  then have "\<not> wr_alive (mw_balance (pp_writers p)) \<longrightarrow> \<not> wr_alive w" using wstep_alive by (auto simp: runs_def)
  with balance_runs show ?case by (auto simp: proc_inv_def writers_log_def all_ended_def intro: writer_log_runs)
qed (auto simp: proc_inv_def)

lemma proc_reach_inv: "(pstep E sd D qs)\<^sup>*\<^sup>* (persistor_start pool) p \<Longrightarrow> proc_inv E sd D qs pool p"
proof (induction rule: rtranclp_induct)
  case base
  show ?case by (simp add: proc_inv_def persistor_start_def writers_log_def writer_log_start rows_of_defs)
qed (rule proc_inv_step)

lemma tagged_rows [simp]: "concat (map sent_rows (tagged m xs)) = xs" "Exit g \<notin> set (tagged m xs)"
  by (induction xs) (auto simp: tagged_def)

lemma rows_sent:
  "concat (map sent_rows (concat (map (\<lambda>m. tagged m (f m)) ms))) = concat (map f ms)" "Exit g \<notin> set (concat (map (\<lambda>m. tagged m (f m)) ms))"
  by (induction ms) auto

text \<open>
  C38: The persistor process stores what it consumed. Whatever the order in which messages arrive, idle polls and
  stream failures with reconnections occur and the schedulers and tasks of the four writers run, when the process
  has ended after an interrupt and no message met a channel without room, then the rows that the database has accepted since the start are,
  table by table, exactly the rows of all messages consumed, a redelivered message counting again: two per trade
  in the trade history, one per trade for the candles, one per finished order, one per balance message. Three of the tables have
  no unique key but a serial number, so these are their rows. The order history has the order's identifier as primary key and its insert ignores
  conflicts: it has exactly one row for every order accepted before or consumed as finished, one of those sent for it.
\<close>

theorem persistor_process_stores:
  assumes "query_law (qy_trade qs) acc_trade" and "query_law (qy_kline qs) acc_kline"
    and "query_law (qy_order qs) acc_order" and "query_law (qy_balance qs) acc_balance"
    and "\<And>conn. order_table conn = keyed_table oh_id (acc_order conn)"
    and "(pstep E sd D qs)\<^sup>*\<^sup>* (persistor_start pool) p" and "pp_phase p = Ended" and "\<not> pp_full p"
  shows "mset (acc_trade (wr_conn (mw_trade (pp_writers p)))) = mset (acc_trade pool) + mset (concat (map (trade_rows E D) (pp_consumed p))) \<and>
    mset (acc_kline (wr_conn (mw_kline (pp_writers p)))) = mset (acc_kline pool) + mset (concat (map (kline_rows E D) (pp_consumed p))) \<and>
    mset (acc_order (wr_conn (mw_order (pp_writers p)))) = mset (acc_order pool) + mset (concat (map (order_rows_of E D) (pp_consumed p))) \<and>
    mset (acc_balance (wr_conn (mw_balance (pp_writers p)))) = mset (acc_balance pool) + mset (concat (map (balance_rows_of E sd D) (pp_consumed p))) \<and>
    distinct (map oh_id (order_table (wr_conn (mw_order (pp_writers p))))) \<and>
    oh_id ` set (order_table (wr_conn (mw_order (pp_writers p)))) =
      oh_id ` (set (acc_order pool) \<union> set (concat (map (order_rows_of E D) (pp_consumed p)))) \<and>
    set (order_table (wr_conn (mw_order (pp_writers p)))) \<subseteq>
      set (acc_order pool) \<union> set (concat (map (order_rows_of E D) (pp_consumed p)))"
proof -
  have "writers_log E sd D qs pool (pp_consumed p) UNIV (pp_writers p)" and ended: "all_ended (pp_writers p)"
    using proc_reach_inv [OF assms(6)] assms(7,8) by (simp_all add: proc_inv_def)
  then have logs: "writer_log (qy_trade qs) pool (user_trades_of E D (pp_consumed p)) True (mw_trade (pp_writers p))"
    "writer_log (qy_kline qs) pool (klines_of E D (pp_consumed p)) True (mw_kline (pp_writers p))"
    "writer_log (qy_order qs) pool (orders_of E D (pp_consumed p)) True (mw_order (pp_writers p))"
    "writer_log (qy_balance qs) pool (balances_of_msgs E sd D (pp_consumed p)) True (mw_balance (pp_writers p))"
    by (simp_all add: writers_log_def)
  from ended have dead: "\<not> wr_alive (mw_trade (pp_writers p))" "\<not> wr_alive (mw_kline (pp_writers p))"
    "\<not> wr_alive (mw_order (pp_writers p))" "\<not> wr_alive (mw_balance (pp_writers p))" by (simp_all add: all_ended_def)
  have order: "mset (acc_order (wr_conn (mw_order (pp_writers p)))) = mset (acc_order pool) + mset (concat (map (order_rows_of E D) (pp_consumed p)))"
    using writer_log_stored [OF assms(3) logs(3) dead(3)] by (simp add: rows_of_defs rows_sent)
  have "set (acc_order (wr_conn (mw_order (pp_writers p)))) = set (acc_order pool) \<union> set (concat (map (order_rows_of E D) (pp_consumed p)))"
    using arg_cong [OF order, of set_mset] by simp
  then have table: "distinct (map oh_id (order_table (wr_conn (mw_order (pp_writers p)))))"
    "oh_id ` set (order_table (wr_conn (mw_order (pp_writers p)))) =
      oh_id ` (set (acc_order pool) \<union> set (concat (map (order_rows_of E D) (pp_consumed p))))"
    "set (order_table (wr_conn (mw_order (pp_writers p)))) \<subseteq> set (acc_order pool) \<union> set (concat (map (order_rows_of E D) (pp_consumed p)))"
    using keyed_table_ok [of oh_id "acc_order (wr_conn (mw_order (pp_writers p)))"] by (simp_all only: assms(5))
  show ?thesis
    using writer_log_stored [OF assms(1) logs(1) dead(1)] writer_log_stored [OF assms(2) logs(2) dead(2)]
      writer_log_stored [OF assms(4) logs(4) dead(4)] order table
    by (simp add: rows_of_defs rows_sent)
qed

section \<open>A run\<close>

text \<open>
  A schedule for one writer: it receives what is in the channel, then spawns a task, then runs the task, and exits
  when it may.
\<close>

definition run_once :: "('q, 'c) query \<Rightarrow> ('q, 'c) writer \<Rightarrow> ('q, 'c) writer" where
  "run_once query w =
     (if wr_chan w \<noteq> [] then
        (case recv_msg (hd (wr_chan w)) (wr_sched w) of (s, out, quit) \<Rightarrow>
           w\<lparr>wr_sched := s, wr_chan := drop 1 (wr_chan w), wr_alive := \<not> quit, wr_status := sc_status_tracing s,
             wr_complete := (case out of None \<Rightarrow> wr_complete w | Some nf \<Rightarrow> nf)\<rparr>)
      else if spawn_enabled write_config (wr_sched w) then
        (case spawn_task write_config 0 (wr_sched w) of (s, task) \<Rightarrow>
           w\<lparr>wr_sched := s, wr_exec := wr_exec w @ [task], wr_status := sc_status_tracing s\<rparr>)
      else if wr_exec w \<noteq> [] then
        (case execute query (hd (wr_exec w)) (wr_conn w) of (conn, msg) \<Rightarrow>
           w\<lparr>wr_exec := drop 1 (wr_exec w), wr_conn := conn, wr_chan := [msg]\<rparr>)
      else w\<lparr>wr_alive := False\<rparr>)"

definition may_run :: "('q, 'c) writer \<Rightarrow> bool" where
  "may_run w \<longleftrightarrow> wr_alive w \<and>
     (wr_chan w \<noteq> [] \<or> spawn_enabled write_config (wr_sched w) \<or> wr_exec w \<noteq> [] \<or> exit_enabled (wr_sched w))"

fun run_turns :: "nat \<Rightarrow> ('q, 'c) query \<Rightarrow> ('q, 'c) writer \<Rightarrow> ('q, 'c) writer" where
  "run_turns 0 query w = w"
| "run_turns (Suc n) query w = (if may_run w then run_turns n query (run_once query w) else w)"

lemma run_once_runs: "may_run w \<Longrightarrow> runs query w (run_once query w)"
proof -
  assume run: "may_run w"
  then have alive: "wr_alive w" by (simp add: may_run_def)
  show ?thesis
  proof (cases "wr_chan w")
    case (Cons msg rest)
    obtain s out quit where "recv_msg msg (wr_sched w) = (s, out, quit)" by (metis prod_cases3)
    with wstep.sched_recv [OF alive Cons this, of query write_config] Cons show ?thesis by (simp add: runs_def run_once_def)
  next
    case Nil
    obtain s task where s: "spawn_task write_config 0 (wr_sched w) = (s, task)" by (cases "spawn_task write_config 0 (wr_sched w)")
    obtain conn msg where c: "execute query (hd (wr_exec w)) (wr_conn w) = (conn, msg)" by (cases "execute query (hd (wr_exec w)) (wr_conn w)")
    show ?thesis
    proof (cases "spawn_enabled write_config (wr_sched w)")
      case True
      with wstep.sched_spawn [OF alive True s, of query] s Nil show ?thesis by (simp add: runs_def run_once_def)
    next
      case idle: False
      show ?thesis
      proof (cases "wr_exec w")
        case (Cons t ts)
        with wstep.task_end [of w "[]" t ts query conn msg write_config] c Nil idle alive show ?thesis
          by (simp add: runs_def run_once_def CHANNEL_LIMIT_def)
      next
        case exec: Nil
        with run idle Nil have "exit_enabled (wr_sched w)" by (simp add: may_run_def)
        with wstep.sched_exit [OF alive this, of query write_config] exec idle Nil show ?thesis by (simp add: runs_def run_once_def)
      qed
    qed
  qed
qed

lemma run_turns_runs: "(runs query)\<^sup>*\<^sup>* w (run_turns n query w)"
  by (induction n query w rule: run_turns.induct) (auto intro: converse_rtranclp_into_rtranclp run_once_runs)

text \<open>A writer with nothing to store ends when it is asked to, and one with a single row after it stored the row.\<close>

lemmas writer_run_defs = run_once_def may_run_def sends_def start_schedule_def schedule_new_def recv_msg_def exit_enabled_def
  spawn_enabled_def spawn_task_def write_config_def

lemma idle_writer_ends: "\<not> wr_alive (run_turns 2 query (sends [Exit True] (start_schedule pool)))"
  by (simp add: numeral_2_eq_2 writer_run_defs)

lemma busy_writer_ends:
  assumes "query [row] pool = (conn, Inr r)"
  shows "\<not> wr_alive (run_turns 6 query (sends [Data row (Some (k, v)), Exit True] (start_schedule pool)))"
  using assms
  by (simp add: eval_nat_numeral writer_run_defs execute_def sql_query_fine_def batch_loop_done add_data_def task_new_def
      apply_benchmark_def is_limited_def add_to_def update_from_def prog_update_one_def push_top_def pop_top_def)

lemma order_runs_star:
  "(runs (qy_order qs))\<^sup>*\<^sup>* (mw_order (pp_writers p)) w \<Longrightarrow>
   (pstep E sd D qs)\<^sup>*\<^sup>* p (p\<lparr>pp_writers := (pp_writers p)\<lparr>mw_order := w\<rparr>\<rparr>)"
proof (induction rule: rtranclp_induct)
  case (step v w)
  then show ?case using pstep.order_runs [of qs "p\<lparr>pp_writers := (pp_writers p)\<lparr>mw_order := v\<rparr>\<rparr>" w E sd D] by simp
qed simp

lemma kline_runs_star:
  "(runs (qy_kline qs))\<^sup>*\<^sup>* (mw_kline (pp_writers p)) w \<Longrightarrow>
   (pstep E sd D qs)\<^sup>*\<^sup>* p (p\<lparr>pp_writers := (pp_writers p)\<lparr>mw_kline := w\<rparr>\<rparr>)"
proof (induction rule: rtranclp_induct)
  case (step v w)
  then show ?case using pstep.kline_runs [of qs "p\<lparr>pp_writers := (pp_writers p)\<lparr>mw_kline := v\<rparr>\<rparr>" w E sd D] by simp
qed simp

lemma trade_runs_star:
  "(runs (qy_trade qs))\<^sup>*\<^sup>* (mw_trade (pp_writers p)) w \<Longrightarrow>
   (pstep E sd D qs)\<^sup>*\<^sup>* p (p\<lparr>pp_writers := (pp_writers p)\<lparr>mw_trade := w\<rparr>\<rparr>)"
proof (induction rule: rtranclp_induct)
  case (step v w)
  then show ?case using pstep.trade_runs [of qs "p\<lparr>pp_writers := (pp_writers p)\<lparr>mw_trade := v\<rparr>\<rparr>" w E sd D] by simp
qed simp

lemma balance_runs_star:
  "(runs (qy_balance qs))\<^sup>*\<^sup>* (mw_balance (pp_writers p)) w \<Longrightarrow>
   (pstep E sd D qs)\<^sup>*\<^sup>* p (p\<lparr>pp_writers := (pp_writers p)\<lparr>mw_balance := w\<rparr>\<rparr>)"
proof (induction rule: rtranclp_induct)
  case (step v w)
  then show ?case using pstep.balance_runs [of qs "p\<lparr>pp_writers := (pp_writers p)\<lparr>mw_balance := v\<rparr>\<rparr>" w E sd D] by simp
qed simp

text \<open>A database of four tables that accepts every insert.\<close>

type_synonym demo_tables = "market_trade list \<times> user_trade list \<times> order_history list \<times> balance_history list"

definition demo_queries :: "demo_tables queries" where
  "demo_queries = \<lparr>
     qy_kline = (\<lambda>b (ks, ts, os, bs). ((ks @ b, ts, os, bs), Inr QueryResult)),
     qy_trade = (\<lambda>b (ks, ts, os, bs). ((ks, ts @ b, os, bs), Inr QueryResult)),
     qy_order = (\<lambda>b (ks, ts, os, bs). ((ks, ts, os @ b, bs), Inr QueryResult)),
     qy_balance = (\<lambda>b (ks, ts, os, bs). ((ks, ts, os, bs @ b), Inr QueryResult))\<rparr>"

lemma demo_queries_law:
  "query_law (qy_kline demo_queries) (\<lambda>(ks, ts, os, bs). ks)" "query_law (qy_trade demo_queries) (\<lambda>(ks, ts, os, bs). ts)"
  "query_law (qy_order demo_queries) (\<lambda>(ks, ts, os, bs). os)" "query_law (qy_balance demo_queries) (\<lambda>(ks, ts, os, bs). bs)"
  by (auto simp: query_law_def demo_queries_def)

lemma demo_rows:
  "order_rows_of ref_env demo_decoder demo_message = [order_history_of ref_env demo_order]" "trade_rows ref_env demo_decoder demo_message = []"
  "kline_rows ref_env demo_decoder demo_message = []" "balance_rows_of ref_env sd demo_decoder demo_message = []"
  by (simp_all add: order_rows_of_def trade_rows_def kline_rows_def balance_rows_of_def demo_decoder_def demo_message_def from_order_def topic_defs)

text \<open>The process consumes one message, is interrupted, and waits for its writers.\<close>

definition demo_asked :: "demo_tables msg_writers" where
  "demo_asked = \<lparr>mw_kline = sends [Exit True] (start_schedule ([], [], [], [])), mw_trade = sends [Exit True] (start_schedule ([], [], [], [])),
     mw_order = sends [Data (order_history_of ref_env demo_order) (Some (3, 77)), Exit True] (start_schedule ([], [], [], [])),
     mw_balance = sends [Exit True] (start_schedule ([], [], [], []))\<rparr>"

lemma exits_sent:
  assumes "pp_phase p = Stopping []" and "can_send KlineWriter (pp_writers p)" and "can_send TradeWriter (pp_writers p)"
    and "can_send OrderWriter (pp_writers p)" and "can_send BalanceWriter (pp_writers p)"
  shows "(pstep E sd D qs)\<^sup>*\<^sup>* p (p\<lparr>pp_phase := Stopping [BalanceWriter, OrderWriter, TradeWriter, KlineWriter],
    pp_writers := send_exit BalanceWriter (send_exit OrderWriter (send_exit TradeWriter (send_exit KlineWriter (pp_writers p))))\<rparr>)"
proof -
  have "(pstep E sd D qs)\<^sup>*\<^sup>* p (p\<lparr>pp_phase := Stopping [KlineWriter], pp_writers := send_exit KlineWriter (pp_writers p)\<rparr>)"
    by (rule r_into_rtranclp, rule pstep.exit_sent) (use assms in simp_all)
  moreover have "pstep E sd D qs (p\<lparr>pp_phase := Stopping [KlineWriter], pp_writers := send_exit KlineWriter (pp_writers p)\<rparr>)
     (p\<lparr>pp_phase := Stopping [TradeWriter, KlineWriter], pp_writers := send_exit TradeWriter (send_exit KlineWriter (pp_writers p))\<rparr>)"
    using pstep.exit_sent [of "p\<lparr>pp_phase := Stopping [KlineWriter], pp_writers := send_exit KlineWriter (pp_writers p)\<rparr>" _ TradeWriter] assms by simp
  moreover have "pstep E sd D qs (p\<lparr>pp_phase := Stopping [TradeWriter, KlineWriter], pp_writers := send_exit TradeWriter (send_exit KlineWriter (pp_writers p))\<rparr>)
     (p\<lparr>pp_phase := Stopping [OrderWriter, TradeWriter, KlineWriter], pp_writers := send_exit OrderWriter (send_exit TradeWriter (send_exit KlineWriter (pp_writers p)))\<rparr>)"
    using pstep.exit_sent [of "p\<lparr>pp_phase := Stopping [TradeWriter, KlineWriter], pp_writers := send_exit TradeWriter (send_exit KlineWriter (pp_writers p))\<rparr>" _ OrderWriter] assms by simp
  moreover have "pstep E sd D qs (p\<lparr>pp_phase := Stopping [OrderWriter, TradeWriter, KlineWriter], pp_writers := send_exit OrderWriter (send_exit TradeWriter (send_exit KlineWriter (pp_writers p)))\<rparr>)
     (p\<lparr>pp_phase := Stopping [BalanceWriter, OrderWriter, TradeWriter, KlineWriter],
        pp_writers := send_exit BalanceWriter (send_exit OrderWriter (send_exit TradeWriter (send_exit KlineWriter (pp_writers p))))\<rparr>)"
    using pstep.exit_sent [of "p\<lparr>pp_phase := Stopping [OrderWriter, TradeWriter, KlineWriter], pp_writers := send_exit OrderWriter (send_exit TradeWriter (send_exit KlineWriter (pp_writers p)))\<rparr>" _ BalanceWriter] assms by simp
  ultimately show ?thesis by (rule rtranclp.rtrancl_into_rtrancl [OF rtranclp.rtrancl_into_rtrancl [OF rtranclp.rtrancl_into_rtrancl]])
qed

lemma demo_stopping:
  "(pstep ref_env sd demo_decoder demo_queries)\<^sup>*\<^sup>* (persistor_start ([], [], [], []))
     \<lparr>pp_phase = Stopping [BalanceWriter, OrderWriter, TradeWriter, KlineWriter], pp_writers = demo_asked,
      pp_consumed = [demo_message], pp_full = False\<rparr>"
proof -
  let ?P = "pstep ref_env sd demo_decoder demo_queries" and ?p0 = "persistor_start ([], [], [], []) :: demo_tables persistor_proc"
  obtain cr where cr: "cr_main ref_env sd demo_decoder (\<lambda>_. Inr ()) = Some (cr :: demo_tables consumer)"
    by (simp add: cr_main_def add_topic_config_def add_topic_def unwrap_ok_def)
  note handlers = cr_main_handlers [OF this]
  define st0 where "st0 = pp_writers ?p0"
  define st1 where "st1 = after_message ref_env sd demo_decoder demo_message st0"
  define p2 where "p2 = \<lparr>pp_phase = Consuming cr, pp_writers = st1, pp_consumed = [demo_message], pp_full = False\<rparr>"
  have room: "room_for_messages 1 st0"
    by (simp add: st0_def persistor_start_def room_for_messages_def has_room_def start_schedule_def CHANNEL_LIMIT_def)
  have turn: "stream_turn cr (KafkaMsg demo_message) st0 = Some (Inr st1)"
    using order_message_handled [OF room, of demo_message demo_decoder ref_env sd]
    by (simp add: handlers stream_turn_def demo_message_def topic_defs st1_def)
  have st1: "st1 = \<lparr>mw_kline = start_schedule ([], [], [], []), mw_trade = start_schedule ([], [], [], []),
     mw_order = sends [Data (order_history_of ref_env demo_order) (Some (3, 77))] (start_schedule ([], [], [], [])),
     mw_balance = start_schedule ([], [], [], [])\<rparr>"
    by (simp add: st1_def st0_def after_message_def persistor_start_def demo_rows) (simp add: tagged_def demo_message_def)
  have "?P ?p0 (?p0\<lparr>pp_phase := Consuming cr\<rparr>)" by (rule pstep.subscribed [OF _ cr]) (simp add: persistor_start_def)
  moreover have "?P (?p0\<lparr>pp_phase := Consuming cr\<rparr>) p2"
    using pstep.consumed [of "?p0\<lparr>pp_phase := Consuming cr\<rparr>" cr "KafkaMsg demo_message" st1 ref_env sd demo_decoder demo_queries] turn room
    by (simp add: p2_def st0_def [symmetric]) (simp add: persistor_start_def)
  moreover have "?P p2 (p2\<lparr>pp_phase := Stopping []\<rparr>)" by (rule pstep.interrupted [of _ cr]) (simp add: p2_def)
  moreover have "?P\<^sup>*\<^sup>* (p2\<lparr>pp_phase := Stopping []\<rparr>)
     \<lparr>pp_phase = Stopping [BalanceWriter, OrderWriter, TradeWriter, KlineWriter], pp_writers = demo_asked,
      pp_consumed = [demo_message], pp_full = False\<rparr>"
    using exits_sent [of "p2\<lparr>pp_phase := Stopping []\<rparr>" ref_env sd demo_decoder demo_queries]
    by (simp add: p2_def st1 demo_asked_def has_room_def) (simp add: sends_def start_schedule_def CHANNEL_LIMIT_def)
  ultimately show ?thesis
    by (rule converse_rtranclp_into_rtranclp [OF _ converse_rtranclp_into_rtranclp [OF _ converse_rtranclp_into_rtranclp]])
qed

definition demo_ended :: "demo_tables msg_writers" where
  "demo_ended = \<lparr>mw_kline = run_turns 2 (qy_kline demo_queries) (mw_kline demo_asked), mw_trade = run_turns 2 (qy_trade demo_queries) (mw_trade demo_asked),
     mw_order = run_turns 6 (qy_order demo_queries) (mw_order demo_asked), mw_balance = run_turns 2 (qy_balance demo_queries) (mw_balance demo_asked)\<rparr>"

lemma demo_all_ended: "all_ended demo_ended"
  using busy_writer_ends [of "qy_order demo_queries"]
  by (simp add: all_ended_def demo_ended_def demo_asked_def idle_writer_ends) (simp add: demo_queries_def)

lemma demo_ends:
  "(pstep ref_env sd demo_decoder demo_queries)\<^sup>*\<^sup>* (persistor_start ([], [], [], []))
     \<lparr>pp_phase = Ended, pp_writers = demo_ended, pp_consumed = [demo_message], pp_full = False\<rparr>"
proof -
  let ?P = "pstep ref_env sd demo_decoder demo_queries"
  let ?p = "\<lambda>st. \<lparr>pp_phase = Stopping [BalanceWriter, OrderWriter, TradeWriter, KlineWriter], pp_writers = st,
      pp_consumed = [demo_message], pp_full = False\<rparr>"
  have all: "demo_asked\<lparr>mw_kline := mw_kline demo_ended, mw_trade := mw_trade demo_ended, mw_order := mw_order demo_ended,
      mw_balance := mw_balance demo_ended\<rparr> = demo_ended" by (simp add: demo_ended_def demo_asked_def)
  have r: "(runs (qy_kline demo_queries))\<^sup>*\<^sup>* (mw_kline demo_asked) (mw_kline demo_ended)" "(runs (qy_trade demo_queries))\<^sup>*\<^sup>* (mw_trade demo_asked) (mw_trade demo_ended)"
    "(runs (qy_order demo_queries))\<^sup>*\<^sup>* (mw_order demo_asked) (mw_order demo_ended)" "(runs (qy_balance demo_queries))\<^sup>*\<^sup>* (mw_balance demo_asked) (mw_balance demo_ended)"
    by (simp_all add: demo_ended_def run_turns_runs)
  note demo_stopping [of sd]
  also have "?P\<^sup>*\<^sup>* (?p demo_asked) (?p (demo_asked\<lparr>mw_kline := mw_kline demo_ended\<rparr>))"
    using kline_runs_star [of demo_queries "?p demo_asked" "mw_kline demo_ended"] r(1) by simp
  also have "?P\<^sup>*\<^sup>* \<dots> (?p (demo_asked\<lparr>mw_kline := mw_kline demo_ended, mw_trade := mw_trade demo_ended\<rparr>))"
    using trade_runs_star [of demo_queries "?p (demo_asked\<lparr>mw_kline := mw_kline demo_ended\<rparr>)" "mw_trade demo_ended"] r(2) by simp
  also have "?P\<^sup>*\<^sup>* \<dots> (?p (demo_asked\<lparr>mw_kline := mw_kline demo_ended, mw_trade := mw_trade demo_ended, mw_order := mw_order demo_ended\<rparr>))"
    using order_runs_star [of demo_queries "?p (demo_asked\<lparr>mw_kline := mw_kline demo_ended, mw_trade := mw_trade demo_ended\<rparr>)" "mw_order demo_ended"] r(3) by simp
  also have "?P\<^sup>*\<^sup>* \<dots> (?p demo_ended)"
    using balance_runs_star [of demo_queries "?p (demo_asked\<lparr>mw_kline := mw_kline demo_ended, mw_trade := mw_trade demo_ended, mw_order := mw_order demo_ended\<rparr>)" "mw_balance demo_ended"] r(4) all by simp
  finally have "?P\<^sup>*\<^sup>* (persistor_start ([], [], [], [])) (?p demo_ended)" .
  moreover have "?P (?p demo_ended) ((?p demo_ended)\<lparr>pp_phase := Ended\<rparr>)"
    by (rule pstep.finished) (auto simp: demo_all_ended)
  ultimately show ?thesis by auto
qed

theorem persistor_process_stores_witness:
  "\<exists>p. (pstep ref_env (\<lambda>_. 0) demo_decoder demo_queries)\<^sup>*\<^sup>* (persistor_start ([], [], [], [])) p \<and>
     pp_phase p = Ended \<and> (case wr_conn (mw_order (pp_writers p)) of (ks, ts, os, bs) \<Rightarrow> os = [order_history_of ref_env demo_order])"
  using persistor_process_stores [OF demo_queries_law(2,1,3,4) refl demo_ends [of "\<lambda>_. 0"]] demo_ends [of "\<lambda>_. 0"]
  by (intro exI [of _ "\<lparr>pp_phase = Ended, pp_writers = demo_ended, pp_consumed = [demo_message], pp_full = False\<rparr>"])
    (auto simp: demo_rows split: prod.splits)

end
