(* ===== verification/UnifyDump.thy ===== *)
theory UnifyDump
  imports PersistorProcess
begin

text \<open>
  \<^verbatim>\<open>src/bin/dump_unify_messages.rs\<close>: a tool that reads the ordered stream of all events and writes one line of JSON per deposit,
  order, trade and withdrawal. A key or payload that is missing or not UTF-8 panics.
\<close>

section \<open>The writer\<close>

definition get_msg_tag_from_topic :: "string \<Rightarrow> string option" where
  "get_msg_tag_from_topic t =
     (if t = ''deposits'' then Some ''DepositMessage''
      else if t = ''orders'' then Some ''OrderMessage''
      else if t = ''trades'' then Some ''TradeMessage''
      else if t = ''withdraws'' then Some ''WithdrawMessage''
      else None)"

text \<open>A message with its key; \<open>None\<close> stands for one that is missing or not UTF-8, as in the payload.\<close>

record unify_message = kafka_message +
  km_key :: "string option"

definition dump_line :: "string \<Rightarrow> string \<Rightarrow> string" where
  "dump_line msgtype payloadmsg = ''{'' @ [CHR 0x22] @ ''type'' @ [CHR 0x22] @ '':'' @ [CHR 0x22] @ msgtype @ [CHR 0x22] @ '','' @
     [CHR 0x22] @ ''value'' @ [CHR 0x22] @ '':'' @ payloadmsg @ ''}'' @ [CHR 0x0A]"

definition dump_on_message :: "unify_message \<Rightarrow> string \<Rightarrow> string option" where
  "dump_on_message m out_file = do {
     msg_key \<leftarrow> km_key m;
     case get_msg_tag_from_topic msg_key of
       None \<Rightarrow> Some out_file
     | Some msgtype \<Rightarrow> do {
         payloadmsg \<leftarrow> km_payload m;
         Some (out_file @ dump_line msgtype payloadmsg)
       }
   }"

text \<open>\<^verbatim>\<open>Simple\<close> hands the message on; there is nothing to do without one. The only topic is that of all events.\<close>

definition dump_turn :: "unify_message \<Rightarrow> string \<Rightarrow> string option" where
  "dump_turn m out_file = (if km_topic m = UNIFY_TOPIC then dump_on_message m out_file else None)"

text \<open>The sessions of the stream until the interrupt: a failure of the stream only starts the next session.\<close>

fun dump_session :: "unify_message list \<Rightarrow> string \<Rightarrow> string option" where
  "dump_session [] out_file = Some out_file"
| "dump_session (m # ms) out_file = Option.bind (dump_turn m out_file) (dump_session ms)"

fun dump_main :: "unify_message list list \<Rightarrow> string \<Rightarrow> string option" where
  "dump_main [] out_file = Some out_file"
| "dump_main (s # ss) out_file = Option.bind (dump_session s out_file) (dump_main ss)"

section \<open>What is written\<close>

text \<open>The record that the ordered producer sends for an event: its topic is the key.\<close>

definition delivered :: "string \<times> string \<Rightarrow> unify_message" where
  "delivered e = \<lparr>km_topic = UNIFY_TOPIC, km_partition = 0, km_offset = 0, km_payload = Some (snd e), km_key = Some (fst e)\<rparr>"

definition dumped :: "string \<times> string \<Rightarrow> string" where
  "dumped e = (case get_msg_tag_from_topic (fst e) of None \<Rightarrow> [] | Some tag \<Rightarrow> dump_line tag (snd e))"

lemma delivered_record:
  "snd (full_pop_up s) = Some r \<Longrightarrow> fo_ordered_list s = e # es \<Longrightarrow> kr_topic r = km_topic (delivered e) \<and> Some (kr_key r) = km_key (delivered e) \<and>
     Some (kr_payload r) = km_payload (delivered e)"
  by (auto simp: full_pop_up_def delivered_def split: prod.splits)

lemma dump_session_lines: "dump_session (map delivered es) out = Some (out @ concat (map dumped es))"
  by (induction es arbitrary: out)
    (auto simp: dump_turn_def dump_on_message_def dumped_def delivered_def split: option.split)

text \<open>
  The tool never panics on what the engine sends, and writes exactly one line for each deposit, order, trade and withdrawal, in the order
  of the events and across restarts of the stream; balance changes are left out.
\<close>

theorem dump_writes_events:
  "dump_main (map (map delivered) sessions) out = Some (out @ concat (map dumped (concat sessions)))"
  by (induction sessions arbitrary: out) (simp_all add: dump_session_lines)

lemma dumped_topics:
  "dumped (DEPOSITS_TOPIC, p) = dump_line ''DepositMessage'' p" "dumped (ORDERS_TOPIC, p) = dump_line ''OrderMessage'' p"
  "dumped (TRADES_TOPIC, p) = dump_line ''TradeMessage'' p" "dumped (WITHDRAWS_TOPIC, p) = dump_line ''WithdrawMessage'' p"
  "dumped (BALANCES_TOPIC, p) = []"
  by (simp_all add: dumped_def get_msg_tag_from_topic_def topic_defs DEPOSITS_TOPIC_def WITHDRAWS_TOPIC_def)

end
