(* ===== verification/RestManage.thy ===== *)
theory RestManage
  imports RestQuery ConfigStore
begin

text \<open>
  \<^verbatim>\<open>src/restapi/manage.rs\<close>: new assets and trading pairs are written to the database, and the engine is told over gRPC
  to load them. The composition of the REST service, the database, the gRPC server and the controller.
\<close>

section \<open>The database tables of the configuration\<close>

text \<open>
  \<open>refuses\<close> is what the database answers to an insert it does not accept (checks and references of the schema, a broken
  connection); \<open>pc_now\<close> is the time of the insert in whole seconds, as the creation time is stored.
\<close>

record panel_db =
  pd_assets :: "asset_desc list"
  pd_markets :: "market_desc list"
  pd_serial :: i32

record panel_conn =
  pc_now :: timestamp
  refuses_asset :: "asset_desc \<Rightarrow> panel_db \<Rightarrow> string option"
  refuses_market :: "market_desc \<Rightarrow> panel_db \<Rightarrow> string option"

text \<open>
  The insert of an asset ends in \<^verbatim>\<open>on conflict do nothing\<close>: a row with the same primary key makes it do nothing. That of a market
  fails when the least amount, rounded, does not fit its column of sixteen digits behind the point, and when the name is taken.
\<close>

definition persist_asset_to_db :: "panel_conn \<Rightarrow> asset_cfg \<Rightarrow> panel_db \<Rightarrow> panel_db \<times> (string + unit)" where
  "persist_asset_to_db K asset db =
     (let row = asset_row (pc_now K) asset
      in case refuses_asset K row db of
           Some e \<Rightarrow> (db, Inl e)
         | None \<Rightarrow>
             if ad_id row \<in> ad_id ` set (pd_assets db) then (db, Inr ())
             else (db\<lparr>pd_assets := pd_assets db @ [row]\<rparr>, Inr ()))"

definition persist_market_to_db :: "panel_conn \<Rightarrow> market_cfg \<Rightarrow> panel_db \<Rightarrow> panel_db \<times> (string + unit)" where
  "persist_market_to_db K market db =
     (let row = market_row (pd_serial db) (pc_now K) market
      in if 1 \<le> \<bar>md_min_amount row\<bar> then (db, Inl ''numeric field overflow'')
         else if md_market_name row \<in> md_market_name ` set (pd_markets db)
         then (db, Inl ''duplicate key value violates unique constraint'')
         else case refuses_market K row db of
           Some e \<Rightarrow> (db, Inl e)
         | None \<Rightarrow> (db\<lparr>pd_markets := pd_markets db @ [row], pd_serial := pd_serial db + 1\<rparr>, Inr ()))"

section \<open>The handlers\<close>

text \<open>The state: the tables, and the engine behind the gRPC channel with its load marks.\<close>

record 'c panel =
  pn_db :: panel_db
  pn_load_cfg :: market_configs
  pn_engine :: "'c controller"

text \<open>What the caller sees: a panic of the REST handler, a status code with a message, or the text \<^verbatim>\<open>done\<close>.\<close>

datatype rest_outcome = HandlerPanic | HttpError nat string | Done

text \<open>
  The remote call \<^verbatim>\<open>reload_markets\<close> as the server answers it: the token is checked again. \<^const>\<open>None\<close> is a panic of the engine.
\<close>

definition rpc_reload_markets ::
  "'k jwt_lib \<Rightarrow> settings \<Rightarrow> u64 \<times> u64 \<Rightarrow> string \<Rightarrow> bool \<Rightarrow> 'c panel \<Rightarrow> ('c panel \<times> (rpc_status + unit)) option" where
  "rpc_reload_markets J gs now auth from_scratch p = do {
     r \<leftarrow> grpc_interceptor J gs now (Some (Inr auth));
     case r of
       Inl e \<Rightarrow> Some (p, Inl e)
     | Inr ext \<Rightarrow>
         (case grpc_block_non_admins ext of
            Inl e \<Rightarrow> Some (p, Inl e)
          | Inr _ \<Rightarrow> do {
              ((mc, c), res) \<leftarrow> reload_from_db from_scratch (pd_assets (pn_db p)) (pd_markets (pn_db p)) None None (pn_load_cfg p) (pn_engine p);
              Some (p\<lparr>pn_load_cfg := mc, pn_engine := c\<rparr>, res)
            })
   }"

text \<open>\<open>header_ok\<close> tells whether a text can be the value of a request header; \<open>rpc_text\<close> prints a status.\<close>

definition do_reload ::
  "'k jwt_lib \<Rightarrow> settings \<Rightarrow> u64 \<times> u64 \<Rightarrow> (string \<Rightarrow> bool) \<Rightarrow> (rpc_status \<Rightarrow> string) \<Rightarrow> bool \<Rightarrow> string \<Rightarrow> 'c panel \<Rightarrow>
   ('c panel \<times> rest_outcome) option" where
  "do_reload J gs now header_ok rpc_text manage_channel jwt p =
     (if \<not> manage_channel then Some (p, HandlerPanic)
      else if \<not> header_ok (''Bearer '' @ jwt) then Some (p, HandlerPanic)
      else do {
        (p, r) \<leftarrow> rpc_reload_markets J gs now (''Bearer '' @ jwt) False p;
        case r of
          Inl e \<Rightarrow> Some (p, HttpError 500 (rpc_text e))
        | Inr _ \<Rightarrow> Some (p, Done)
      })"

record new_asset_req =
  na_assets :: "asset_cfg list"
  na_not_reload :: bool
  na_jwt :: string

fun persist_assets :: "panel_conn \<Rightarrow> asset_cfg list \<Rightarrow> panel_db \<Rightarrow> panel_db \<times> (string + unit)" where
  "persist_assets K [] db = (db, Inr ())"
| "persist_assets K (asset # assets) db =
     (case persist_asset_to_db K asset db of
        (db, Inl e) \<Rightarrow> (db, Inl e)
      | (db, Inr _) \<Rightarrow> persist_assets K assets db)"

definition add_assets ::
  "'k jwt_lib \<Rightarrow> settings \<Rightarrow> u64 \<times> u64 \<Rightarrow> (string \<Rightarrow> bool) \<Rightarrow> (rpc_status \<Rightarrow> string) \<Rightarrow> bool \<Rightarrow> panel_conn \<Rightarrow>
   new_asset_req \<Rightarrow> 'c panel \<Rightarrow> ('c panel \<times> rest_outcome) option" where
  "add_assets J gs now header_ok rpc_text manage_channel K req p =
     (case persist_assets K (na_assets req) (pn_db p) of
        (db, Inl e) \<Rightarrow> Some (p\<lparr>pn_db := db\<rparr>, HttpError 500 e)
      | (db, Inr _) \<Rightarrow>
          (let p = p\<lparr>pn_db := db\<rparr>
           in if \<not> na_not_reload req then do_reload J gs now header_ok rpc_text manage_channel (na_jwt req) p
              else Some (p, Done)))"

text \<open>\<^verbatim>\<open>reload\<close> takes the token that the access check attached to the request.\<close>

definition reload ::
  "'k jwt_lib \<Rightarrow> settings \<Rightarrow> u64 \<times> u64 \<Rightarrow> (string \<Rightarrow> bool) \<Rightarrow> (rpc_status \<Rightarrow> string) \<Rightarrow> bool \<Rightarrow>
   (user_extension \<times> string option) option \<Rightarrow> 'c panel \<Rightarrow> ('c panel \<times> rest_outcome) option" where
  "reload J gs now header_ok rpc_text manage_channel ext p =
     (case Option.bind ext snd of
        None \<Rightarrow> Some (p, HandlerPanic)
      | Some jwt \<Rightarrow> do_reload J gs now header_ok rpc_text manage_channel jwt p)"

record new_trade_pair_req =
  np_market :: market_cfg
  np_asset_base :: "asset_cfg option"
  np_asset_quote :: "asset_cfg option"
  np_not_reload :: bool

definition persist_optional :: "panel_conn \<Rightarrow> asset_cfg option \<Rightarrow> panel_db \<Rightarrow> panel_db \<times> (string + unit)" where
  "persist_optional K asset db = (case asset of None \<Rightarrow> (db, Inr ()) | Some a \<Rightarrow> persist_asset_to_db K a db)"

text \<open>
  At the end \<^verbatim>\<open>add_pair\<close> turns its own message into a fresh request, whose extensions are empty, and unwraps
  the token it looks for there.
\<close>

definition add_pair :: "panel_conn \<Rightarrow> new_trade_pair_req \<Rightarrow> 'c panel \<Rightarrow> 'c panel \<times> rest_outcome" where
  "add_pair K req p =
     (if (case np_asset_base req of Some a \<Rightarrow> ac_id a \<noteq> mc_base (np_market req) | None \<Rightarrow> False)
      then (p, HttpError 400 ''Base asset not match'')
      else if (case np_asset_quote req of Some a \<Rightarrow> ac_id a \<noteq> mc_quote (np_market req) | None \<Rightarrow> False)
      then (p, HttpError 400 ''Quote asset not match'')
      else case persist_optional K (np_asset_base req) (pn_db p) of
        (db, Inl e) \<Rightarrow> (p\<lparr>pn_db := db\<rparr>, HttpError 500 e)
      | (db, Inr _) \<Rightarrow>
     (case persist_optional K (np_asset_quote req) db of
        (db, Inl e) \<Rightarrow> (p\<lparr>pn_db := db\<rparr>, HttpError 500 e)
      | (db, Inr _) \<Rightarrow>
     (case persist_market_to_db K (np_market req) db of
        (db, Inl e) \<Rightarrow> (p\<lparr>pn_db := db\<rparr>, HttpError 500 e)
      | (db, Inr _) \<Rightarrow>
          if \<not> np_not_reload req then (p\<lparr>pn_db := db\<rparr>, HandlerPanic)
          else (p\<lparr>pn_db := db\<rparr>, Done))))"

section \<open>Round trip of a configuration\<close>

text \<open>
  C32: What the administration stores is what the engine loads. When the inserts of an asset and of a market succeed, the next
  load returns the markets stored since the last one and then this market, and likewise the assets and then this asset,
  unless an asset with its identifier was there before: the insert then changes nothing. The precisions must fit fifteen bits and the least
  amount sixteen digits, and the inserts must happen in a later second than the newest market that was loaded.
\<close>

theorem config_roundtrip:
  assumes "persist_asset_to_db K a db = (db1, Inr ())" and "persist_market_to_db K m db1 = (db2, Inr ())"
    and "unat (ac_prec_save a) < 2 ^ 15" and "unat (ac_prec_show a) < 2 ^ 15"
    and "unat (mc_amount_prec m) < 2 ^ 15" and "unat (mc_price_prec m) < 2 ^ 15" and "unat (mc_fee_prec m) < 2 ^ 15"
    and "has_prec 16 (mc_min_amount m)" and "market_load_time mc < pc_now K"
  shows "snd (load_asset_from_db None (pd_assets db2) mc) =
      Inr (map asset_of_desc (select_newer ad_create_time (market_load_time mc) (pd_assets db)) @
        (if ac_id a \<in> ad_id ` set (pd_assets db) then [] else [a])) \<and>
    snd (load_market_from_db None (pd_markets db2) mc) =
      Inr (map market_of_desc (select_newer md_create_time (market_load_time mc) (pd_markets db)) @ [m])"
proof -
  have db1: "pd_assets db1 = pd_assets db @ (if ac_id a \<in> ad_id ` set (pd_assets db) then [] else [asset_row (pc_now K) a])"
    "pd_markets db1 = pd_markets db"
    using assms(1) by (auto simp: persist_asset_to_db_def asset_row_def Let_def split: option.splits if_splits)
  have db2: "pd_assets db2 = pd_assets db1" "pd_markets db2 = pd_markets db1 @ [market_row (pd_serial db1) (pc_now K) m]"
    using assms(2) by (auto simp: persist_market_to_db_def Let_def split: option.splits if_splits)
  have "select_newer ad_create_time (market_load_time mc) [asset_row (pc_now K) a] = [asset_row (pc_now K) a]"
    using assms(9) by (simp add: select_newer_def asset_row_def)
  moreover have "select_newer md_create_time (market_load_time mc) [market_row (pd_serial db1) (pc_now K) m] =
      [market_row (pd_serial db1) (pc_now K) m]"
    using assms(9) by (simp add: select_newer_def market_row_def)
  moreover have "select_newer ad_create_time (market_load_time mc) ([] :: asset_desc list) = []" by (simp add: select_newer_def)
  ultimately show ?thesis using assms
    by (simp add: db1 db2 load_asset_newer load_market_newer select_newer_append asset_roundtrip market_roundtrip)
qed

definition stored_db :: panel_db where
  "stored_db = \<lparr>pd_assets = [asset_row 3 demo_asset_cfg, asset_row 4 (demo_asset_cfg\<lparr>ac_id := ''USDT''\<rparr>)],
     pd_markets = [market_row 1 4 demo_market_cfg], pd_serial = 2\<rparr>"

definition stored_conn :: panel_conn where
  "stored_conn = \<lparr>pc_now = 9, refuses_asset = (\<lambda>_ _. None), refuses_market = (\<lambda>_ _. None)\<rparr>"

theorem config_roundtrip_witness:
  "\<exists>db1 db2. persist_asset_to_db stored_conn (demo_asset_cfg\<lparr>ac_id := ''ETH''\<rparr>) stored_db = (db1, Inr ()) \<and>
     persist_market_to_db stored_conn (demo_market_cfg\<lparr>mc_name := ''ETH_USDT'', mc_base := ''ETH''\<rparr>) db1 = (db2, Inr ()) \<and>
     snd (load_asset_from_db None (pd_assets db2) \<lparr>assets_load_time = 4, market_load_time = 4\<rparr>) = Inr [demo_asset_cfg\<lparr>ac_id := ''ETH''\<rparr>] \<and>
     snd (load_market_from_db None (pd_markets db2) \<lparr>assets_load_time = 4, market_load_time = 4\<rparr>) =
       Inr [demo_market_cfg\<lparr>mc_name := ''ETH_USDT'', mc_base := ''ETH''\<rparr>]"
proof -
  let ?a = "demo_asset_cfg\<lparr>ac_id := ''ETH''\<rparr>" and ?m = "demo_market_cfg\<lparr>mc_name := ''ETH_USDT'', mc_base := ''ETH''\<rparr>"
  obtain db1 where 1: "persist_asset_to_db stored_conn ?a stored_db = (db1, Inr ())" "pd_markets db1 = pd_markets stored_db"
    by (simp add: persist_asset_to_db_def stored_conn_def stored_db_def asset_row_def demo_asset_cfg_def Let_def)
  have "\<exists>db2. persist_market_to_db stored_conn ?m db1 = (db2, Inr ())"
    by (simp add: persist_market_to_db_def stored_conn_def 1(2) stored_db_def market_row_def numeric_def demo_market_cfg_def Let_def)
  then obtain db2 where 2: "persist_market_to_db stored_conn ?m db1 = (db2, Inr ())" by blast
  from config_roundtrip [OF 1(1) 2, of "\<lparr>assets_load_time = 4, market_load_time = 4\<rparr>"] 1(1) 2 show ?thesis
    by (simp add: stored_conn_def stored_db_def asset_row_def market_row_def select_newer_def demo_asset_cfg_def demo_market_cfg_def has_prec_def)
qed

section \<open>A new pair goes live\<close>

lemma persist_asset_appends:
  assumes "persist_asset_to_db K a db = (db', Inr ())"
  shows "\<exists>news. pd_assets db' = pd_assets db @ news \<and> (\<forall>r \<in> set news. ad_create_time r = Some (pc_now K)) \<and>
    pd_markets db' = pd_markets db"
  using assms by (auto simp: persist_asset_to_db_def asset_row_def Let_def split: option.splits if_splits)

lemma persist_optional_appends:
  assumes "persist_optional K a db = (db', Inr ())"
  shows "\<exists>news. pd_assets db' = pd_assets db @ news \<and> (\<forall>r \<in> set news. ad_create_time r = Some (pc_now K)) \<and>
    pd_markets db' = pd_markets db"
  using assms persist_asset_appends by (cases a) (auto simp: persist_optional_def)

lemma add_pair_rows:
  assumes "add_pair K req p = (p', Done)"
  shows "\<exists>db' news serial. p' = p\<lparr>pn_db := db'\<rparr> \<and> pd_assets db' = pd_assets (pn_db p) @ news \<and>
    (\<forall>r \<in> set news. ad_create_time r = Some (pc_now K)) \<and>
    pd_markets db' = pd_markets (pn_db p) @ [market_row serial (pc_now K) (np_market req)]"
proof -
  from assms obtain db1 db2 db3 where
    o1: "persist_optional K (np_asset_base req) (pn_db p) = (db1, Inr ())" and
    o2: "persist_optional K (np_asset_quote req) db1 = (db2, Inr ())" and
    m: "persist_market_to_db K (np_market req) db2 = (db3, Inr ())" and p': "p' = p\<lparr>pn_db := db3\<rparr>"
    by (auto simp: add_pair_def split: if_splits prod.splits sum.splits)
  from m have "pd_assets db3 = pd_assets db2" "pd_markets db3 = pd_markets db2 @ [market_row (pd_serial db2) (pc_now K) (np_market req)]"
    by (auto simp: persist_market_to_db_def Let_def split: option.splits if_splits)
  with persist_optional_appends [OF o1] persist_optional_appends [OF o2] p' show ?thesis by fastforce
qed

lemma load_assets_market_mark: "market_load_time (fst (load_assets rows ret mc)) = market_load_time mc"
  by (induction rows ret mc rule: load_assets.induct) simp_all

lemma select_newer_all: "\<forall>r \<in> set rows. f r = Some t \<Longrightarrow> mark < t \<Longrightarrow> select_newer f mark rows = rows"
  by (auto simp: select_newer_def filter_id_conv)

lemma reload_new_market:
  assumes "map_of (c_markets c) (mc_name m) = None"
    and "asset_prec (bm_asset_manager (c_balance_manager c)) (mc_base m) = Some bp"
    and "asset_prec (bm_asset_manager (c_balance_manager c)) (mc_quote m) = Some qp"
    and "mc_amount_prec m \<le> bp" and "mc_amount_prec m + mc_price_prec m \<le> qp"
  shows "\<exists>c' mk. reload_markets [m] c = Some c' \<and> map_of (c_markets c') (mc_name m) = Some mk \<and>
    market_new m (c_settings c) (c_balance_manager c) = Some (Inr mk) \<and>
    (\<forall>n. n \<noteq> mc_name m \<longrightarrow> map_of (c_markets c') n = map_of (c_markets c) n)"
proof -
  have "asset_exist (bm_asset_manager (c_balance_manager c)) (mc_base m)" "asset_exist (bm_asset_manager (c_balance_manager c)) (mc_quote m)"
    using assms(2,3) by (auto simp: asset_exist_iff)
  then obtain mk where "market_new m (c_settings c) (c_balance_manager c) = Some (Inr mk)"
    using assms(2-5) by (simp add: market_new_def Let_def not_less [symmetric])
  then show ?thesis using assms(1) by (simp add: update_conv')
qed

text \<open>
  C30: A trading pair that was added through the REST service is live after the next reload. Let the engine have loaded everything in the
  tables before, have no market of that name, and know the pair's assets with sufficient precision; let the precisions of the
  pair fit fifteen bits and its least amount sixteen digits; and let the pair be stored in a later second than the newest market
  that was loaded (in the same second it would not be found). Then the engine answers an administrator's reload with success and
  has the market, empty and with the configuration that was posted, beside its other markets unchanged.
\<close>

theorem pair_goes_live:
  assumes added: "add_pair K req p = (p', Done)"
    and loaded: "select_newer ad_create_time (market_load_time (pn_load_cfg p)) (pd_assets (pn_db p)) = []" "select_newer md_create_time (market_load_time (pn_load_cfg p)) (pd_markets (pn_db p)) = []"
    and later: "(market_load_time (pn_load_cfg p)) < pc_now K"
    and admin: "grpc_interceptor J gs now (Some (Inr (''Bearer '' @ jwt))) = Some (Inr (Some x))" "ux_is_admin x"
    and header: "header_ok (''Bearer '' @ jwt)"
    and fits: "unat (mc_amount_prec (np_market req)) < 2 ^ 15" "unat (mc_price_prec (np_market req)) < 2 ^ 15" "unat (mc_fee_prec (np_market req)) < 2 ^ 15"
      "has_prec 16 (mc_min_amount (np_market req))"
    and assets: "asset_manager_append (bm_asset_manager (c_balance_manager (pn_engine p)))
        (map asset_of_desc (drop (length (pd_assets (pn_db p))) (pd_assets (pn_db p')))) = Some am"
      "asset_prec am (mc_base (np_market req)) = Some bp" "asset_prec am (mc_quote (np_market req)) = Some qp"
    and precise: "mc_amount_prec (np_market req) \<le> bp" "mc_amount_prec (np_market req) + mc_price_prec (np_market req) \<le> qp"
    and unknown: "map_of (c_markets (pn_engine p)) (mc_name (np_market req)) = None"
  shows "\<exists>p'' mk. do_reload J gs now header_ok rpc_text True jwt p' = Some (p'', Done) \<and>
    map_of (c_markets (pn_engine p'')) (mc_name (np_market req)) = Some mk \<and>
    market_new (np_market req) (c_settings (pn_engine p)) ((c_balance_manager (pn_engine p))\<lparr>bm_asset_manager := am\<rparr>) = Some (Inr mk) \<and>
    (\<forall>n. n \<noteq> mc_name (np_market req) \<longrightarrow> map_of (c_markets (pn_engine p'')) n = map_of (c_markets (pn_engine p)) n)"
proof -
  let ?mark = "market_load_time (pn_load_cfg p)"
  let ?m = "np_market req"
  let ?bm = "c_balance_manager (pn_engine p)"
  obtain db' news serial where p': "p' = p\<lparr>pn_db := db'\<rparr>" and as: "pd_assets db' = pd_assets (pn_db p) @ news"
    and news: "\<forall>r \<in> set news. ad_create_time r = Some (pc_now K)"
    and ms: "pd_markets db' = pd_markets (pn_db p) @ [market_row serial (pc_now K) ?m]"
    using add_pair_rows [OF added] by blast
  have new_assets: "select_newer ad_create_time ?mark (pd_assets db') = news"
    using loaded(1) select_newer_all [OF news later] by (simp add: as select_newer_append)
  obtain mc1 where la: "load_asset_from_db None (pd_assets db') (pn_load_cfg p) = (mc1, Inr (map asset_of_desc news))"
    and mark1: "market_load_time mc1 = ?mark"
    using load_asset_newer [of "pd_assets db'" "pn_load_cfg p"] new_assets
      load_assets_market_mark [of "fetched None (select_newer ad_create_time ?mark (pd_assets db'))" "[]" "pn_load_cfg p"]
    unfolding load_asset_from_db_def by (metis prod.collapse)
  have "select_newer md_create_time ?mark [market_row serial (pc_now K) ?m] = [market_row serial (pc_now K) ?m]"
    using later by (simp add: select_newer_def market_row_def)
  then have "snd (load_market_from_db None (pd_markets db') mc1) = Inr [?m]"
    using load_market_newer [of "pd_markets db'" mc1] loaded(2) market_roundtrip [OF fits]
    by (simp add: ms mark1 select_newer_append)
  then obtain mc2 where lm: "load_market_from_db None (pd_markets db') mc1 = (mc2, Inr [?m])" by (metis prod.collapse)
  let ?c = "(pn_engine p)\<lparr>c_balance_manager := ?bm\<lparr>bm_asset_manager := am\<rparr>\<rparr>"
  obtain c' mk where live: "reload_markets [?m] ?c = Some c'" "map_of (c_markets c') (mc_name ?m) = Some mk"
    "market_new ?m (c_settings (pn_engine p)) (?bm\<lparr>bm_asset_manager := am\<rparr>) = Some (Inr mk)"
    "\<forall>n. n \<noteq> mc_name ?m \<longrightarrow> map_of (c_markets c') n = map_of (c_markets (pn_engine p)) n"
    using reload_new_market [of ?c ?m bp qp] assets(2,3) precise unknown by auto
  have "market_reload (Inr (map asset_of_desc news)) (Inr [?m]) (pn_engine p) = Some (c', Inr ())"
    using assets(1) live(1) by (simp add: market_reload_def p' as Let_def del: reload_markets.simps)
  then have "reload_from_db False (pd_assets db') (pd_markets db') None None (pn_load_cfg p) (pn_engine p) = Some ((mc2, c'), Inr ())"
    by (simp add: reload_from_db_def la lm)
  then have "do_reload J gs now header_ok rpc_text True jwt p' = Some (p'\<lparr>pn_load_cfg := mc2, pn_engine := c'\<rparr>, Done)"
    using admin header by (simp add: do_reload_def rpc_reload_markets_def grpc_block_non_admins_def p')
  with live(2-4) show ?thesis by auto
qed

definition live_panel :: "unit panel" where
  "live_panel = \<lparr>pn_db = \<lparr>pd_assets = [], pd_markets = [], pd_serial = 1\<rparr>, pn_load_cfg = market_configs_new, pn_engine = demo_c0\<rparr>"

definition live_conn :: panel_conn where
  "live_conn = \<lparr>pc_now = 9, refuses_asset = (\<lambda>_ _. None), refuses_market = (\<lambda>_ _. None)\<rparr>"

definition live_req :: new_trade_pair_req where
  "live_req = \<lparr>np_market = \<lparr>mc_name = ''BTC_USDT'', mc_base = ''BTC'', mc_quote = ''USDT'', mc_amount_prec = 3, mc_price_prec = 2,
       mc_fee_prec = 2, mc_min_amount = 1 / 100\<rparr>,
     np_asset_base = Some \<lparr>ac_id = ''BTC'', ac_symbol = ''BTC'', ac_name = ''Bitcoin'', ac_prec_save = 8, ac_prec_show = 4\<rparr>,
     np_asset_quote = None, np_not_reload = True\<rparr>"

lemma live_added: "add_pair live_conn live_req live_panel = (fst (add_pair live_conn live_req live_panel), Done)"
  by (simp add: prod_eq_iff add_pair_def live_req_def live_conn_def live_panel_def persist_optional_def persist_asset_to_db_def
      persist_market_to_db_def market_row_def numeric_def Let_def)

definition live_am :: asset_manager where
  "live_am = the (asset_manager_append (bm_asset_manager (c_balance_manager (pn_engine live_panel)))
     (map asset_of_desc (drop (length (pd_assets (pn_db live_panel)))
       (pd_assets (pn_db (fst (add_pair live_conn live_req live_panel)))))))"

lemma live_append:
  "asset_manager_append (bm_asset_manager (c_balance_manager (pn_engine live_panel)))
     (map asset_of_desc (drop (length (pd_assets (pn_db live_panel)))
       (pd_assets (pn_db (fst (add_pair live_conn live_req live_panel)))))) = Some live_am"
proof -
  have "asset_manager_append (bm_asset_manager (c_balance_manager (pn_engine live_panel)))
     (map asset_of_desc (drop (length (pd_assets (pn_db live_panel)))
       (pd_assets (pn_db (fst (add_pair live_conn live_req live_panel)))))) \<noteq> None"
    by code_simp
  then show ?thesis by (auto simp: live_am_def)
qed

lemma live_precs: "asset_prec live_am ''BTC'' = Some 8" "asset_prec live_am ''USDT'' = Some 6"
    "map_of (c_markets (pn_engine live_panel)) ''BTC_USDT'' = None"
    "grpc_interceptor admin_jwt demo_gs (5000, 5000) (Some (Inr (''Bearer '' @ ''tok''))) =
      Some (Inr (Some \<lparr>ux_user_id = 2, ux_is_admin = True, ux_is_deposit_admin = False, ux_is_withdrawal_admin = False\<rparr>))"
  by code_simp+

theorem pair_goes_live_witness:
  "\<exists>p'' mk. do_reload admin_jwt demo_gs (5000, 5000) (\<lambda>_. True) (\<lambda>_. []) True ''tok'' (fst (add_pair live_conn live_req live_panel)) =
      Some (p'', Done) \<and> map_of (c_markets (pn_engine p'')) ''BTC_USDT'' = Some mk"
proof -
  note w = pair_goes_live [OF live_added _ _ _ live_precs(4) _ _ _ _ _ _ live_append, of "\<lambda>_. True" 8 6 "\<lambda>_. []"]
  show ?thesis using w live_precs(1-3)
    by (fastforce simp: live_req_def live_conn_def live_panel_def market_configs_new_def select_newer_def has_prec_def)
qed

text \<open>
  With a reload in the same request, \<^verbatim>\<open>add_pair\<close> never succeeds: it writes the pair and panics.
\<close>

lemma add_pair_reload_panics:
  assumes "\<not> np_not_reload req"
  shows "snd (add_pair K req p) \<noteq> Done"
  using assms by (auto simp: add_pair_def split: prod.splits sum.splits option.splits)

end
