(* ===== verification/RestRoutes.thy ===== *)
theory RestRoutes
  imports RestManage
begin

text \<open>
  The routes of the REST service, \<^verbatim>\<open>main\<close> of \<^verbatim>\<open>src/bin/restapi.rs\<close>, behind the access check: which handler a request reaches
  and with what in its extensions.

  The router belongs to the web framework and is a parameter: \<open>seen\<close> is the path that it matches for the path of a request
  (the framework may decode it), and \<open>matches\<close> whether a pattern matches. A pattern is a list of literal parts and parameters.
\<close>

section \<open>Routes\<close>

datatype route_part = Lit string | Par string

datatype http_method = GET | POST

datatype handler = H_ping | H_recent_trades | H_order_trades | H_my_orders | H_ticker | H_unix_timestamp | H_chart_config |
  H_search_symbols | H_symbols | H_history | H_reload | H_add_pair | H_add_assets | H_no_manage

type_synonym route = "http_method option \<times> route_part list \<times> handler"

definition scope :: "string \<Rightarrow> route list \<Rightarrow> route list" where
  "scope prefix rs = map (\<lambda>(meth, pat, h). (meth, Lit prefix # pat, h)) rs"

definition route_get :: "route_part list \<Rightarrow> handler \<Rightarrow> route list" where
  "route_get pat h = [(Some GET, pat, h)]"

definition route_post :: "route_part list \<Rightarrow> handler \<Rightarrow> route list" where
  "route_post pat h = [(Some POST, pat, h)]"

definition manage_service :: "bool \<Rightarrow> route list" where
  "manage_service has_channel =
     (if has_channel then
        scope ''/manage'' (scope ''/market'' (
          route_get [Lit ''/reload''] H_reload @
          route_post [Lit ''/tradepairs''] H_add_pair @
          route_post [Lit ''/assets''] H_add_assets))
      else scope ''/manage'' [(None, [Lit ''/''], H_no_manage)])"

definition service_routes :: "bool \<Rightarrow> route list" where
  "service_routes has_channel = scope ''/api/exchange/panel'' (
     route_get [Lit ''/ping''] H_ping @
     route_get [Lit ''/authping''] H_ping @
     route_get [Lit ''/recenttrades/'', Par ''market''] H_recent_trades @
     route_get [Lit ''/ordertrades/'', Par ''market'', Lit ''/'', Par ''order_id''] H_order_trades @
     route_get [Lit ''/closedorders/'', Par ''market''] H_my_orders @
     route_get [Lit ''/ticker_'', Par ''ticker_inv'', Lit ''/'', Par ''market''] H_ticker @
     scope ''/tradingview'' (
       route_get [Lit ''/time''] H_unix_timestamp @
       route_get [Lit ''/config''] H_chart_config @
       route_get [Lit ''/search''] H_search_symbols @
       route_get [Lit ''/symbols''] H_symbols @
       route_get [Lit ''/history''] H_history) @
     manage_service has_channel)"

text \<open>\<^verbatim>\<open>ping\<close> answers a constant.\<close>

definition ping :: string where
  "ping = ''pong''"

datatype 'x served = Denied rest_denied | NotFound | Reached handler 'x

definition serve ::
  "(route_part list \<Rightarrow> string \<Rightarrow> bool) \<Rightarrow> (string \<Rightarrow> string) \<Rightarrow> 'k jwt_lib \<Rightarrow> settings \<Rightarrow> u64 \<times> u64 \<Rightarrow> bool \<Rightarrow>
   http_method \<Rightarrow> string \<Rightarrow> string \<Rightarrow> (user_extension \<times> string option) option served option" where
  "serve matches seen J gs now has_channel meth path credentials = do {
     r \<leftarrow> validator J gs now path credentials;
     Some (case r of
       Inl e \<Rightarrow> Denied e
     | Inr ext \<Rightarrow>
         (case find (\<lambda>(m, pat, h). (m = None \<or> m = Some meth) \<and> matches pat (seen path)) (service_routes has_channel) of
            None \<Rightarrow> NotFound
          | Some (_, _, h) \<Rightarrow> Reached h ext))
   }"

section \<open>What the handlers may rely on\<close>

text \<open>The literal beginning of a pattern, and what is relied on: a match begins with it, and is it where there are no parameters.\<close>

fun literal :: "route_part list \<Rightarrow> string" where
  "literal (Lit s # pat) = s @ literal pat"
| "literal _ = []"

definition no_params :: "route_part list \<Rightarrow> bool" where
  "no_params pat = list_all (\<lambda>p. case p of Lit _ \<Rightarrow> True | Par _ \<Rightarrow> False) pat"

definition router_law :: "(route_part list \<Rightarrow> string \<Rightarrow> bool) \<Rightarrow> bool" where
  "router_law matches \<longleftrightarrow> (\<forall>pat path. matches pat path \<longrightarrow>
     starts_with path (literal pat) \<and> (no_params pat \<longrightarrow> path = literal pat))"

lemma served:
  assumes "serve matches seen J gs now has_channel meth path credentials = Some (Reached h ext)"
  obtains m pat where "(m, pat, h) \<in> set (service_routes has_channel)" "m = None \<or> m = Some meth" "matches pat (seen path)"
    "validator J gs now path credentials = Some (Inr ext)"
  using assms by (auto simp: serve_def split: Option.bind_splits sum.splits option.splits dest!: find_Some_set)

lemmas route_defs = service_routes_def manage_service_def scope_def route_get_def route_post_def

text \<open>The routes of the administration, and the one to the orders of a user.\<close>

lemma admin_routes:
  assumes "(m, pat, h) \<in> set (service_routes has_channel)" and "h \<in> {H_reload, H_add_pair, H_add_assets}"
  shows "has_channel \<and> no_params pat \<and> starts_with (literal pat) ''/api/exchange/panel/manage'' \<and>
    (h = H_reload \<longrightarrow> literal pat = MARKET_RELOAD_ENDPOINT)"
  using assms by (cases has_channel) (auto simp: route_defs no_params_def starts_with_def MARKET_RELOAD_ENDPOINT_def)

lemma orders_route:
  assumes "(m, pat, H_my_orders) \<in> set (service_routes has_channel)"
  shows "literal pat = ''/api/exchange/panel/closedorders/''"
  using assms by (cases has_channel) (auto simp: route_defs)

lemma orders_not_public:
  assumes "starts_with path ''/api/exchange/panel/closedorders/''"
  shows "\<not> list_ex (starts_with path) PUBLIC_ENDPOINTS"
proof -
  have "list_all (\<lambda>q. take (min (length p) (length q)) p \<noteq> take (min (length p) (length q)) q) PUBLIC_ENDPOINTS"
    if "p = ''/api/exchange/panel/closedorders/''" for p unfolding that by code_simp
  with starts_with_both [OF assms] show ?thesis by (auto simp: list_ex_iff list_all_iff)
qed

text \<open>
  C31: The handlers of the REST service get what they rely on, for a router that matches the path the access check has seen. A request
  reaches a handler of the administration (reload, pairs, assets) only if the service has a channel to the engine and the token
  is verified by the exchange's key, within its time limits and carries the administrator role; the reload is then given the token.
  The orders of a user are served only with a valid token, and the handler finds the user in the request.
\<close>

theorem handlers_protected:
  assumes "router_law matches" and "seen path = path"
    and "serve matches seen J gs now has_channel meth path credentials = Some (Reached h ext)"
    and "h \<in> {H_reload, H_add_pair, H_add_assets, H_my_orders}"
  shows "\<exists>key token jwt. from_rsa_pem J (st_keycloak_pubkey gs) = Some key \<and> jwt_decode J credentials key = Inr token \<and>
    ensure_timely_boundaries now token \<and> ext = Some (get_user_extension gs token, jwt) \<and>
    (h \<noteq> H_my_orders \<longrightarrow> has_channel \<and> has_role token (st_keycloak_admin_role gs)) \<and>
    (h = H_reload \<longrightarrow> jwt = Some credentials)"
proof -
  from assms(3) obtain m pat where route: "(m, pat, h) \<in> set (service_routes has_channel)" and match: "matches pat path" and
    valid: "validator J gs now path credentials = Some (Inr ext)" by (rule served) (simp add: assms(2))
  from assms(1) match have lit: "starts_with path (literal pat)" "no_params pat \<Longrightarrow> path = literal pat"
    unfolding router_law_def by blast+
  show ?thesis
  proof (cases "h = H_my_orders")
    case True
    with orders_route route lit(1) have "\<not> list_ex (starts_with path) PUBLIC_ENDPOINTS" by (intro orders_not_public) auto
    from rest_admin_only [OF valid disjI1 [OF this]] True show ?thesis by auto
  next
    case False
    with assms(4) have h: "h \<in> {H_reload, H_add_pair, H_add_assets}" by blast
    note r = admin_routes [OF route h]
    then have "path = literal pat" using lit(2) by blast
    with r have path: "starts_with path ''/api/exchange/panel/manage''" "h = H_reload \<Longrightarrow> path = MARKET_RELOAD_ENDPOINT" by auto
    from rest_admin_only [OF valid disjI2 [OF path(1)]] path r False show ?thesis by auto
  qed
qed

text \<open>A router that knows literal routes only.\<close>

definition literal_match :: "route_part list \<Rightarrow> string \<Rightarrow> bool" where
  "literal_match pat path \<longleftrightarrow> no_params pat \<and> path = literal pat"

lemma literal_match_law: "router_law literal_match"
  by (auto simp: router_law_def literal_match_def starts_with_def)

theorem handlers_protected_witness:
  "\<exists>key token. from_rsa_pem admin_jwt (st_keycloak_pubkey demo_gs) = Some key \<and> jwt_decode admin_jwt ''tok'' key = Inr token \<and>
    has_role token (st_keycloak_admin_role demo_gs)"
proof -
  have run: "serve literal_match id admin_jwt demo_gs (5000, 5000) True GET MARKET_RELOAD_ENDPOINT ''tok'' =
      Some (Reached H_reload (Some (\<lparr>ux_user_id = 2, ux_is_admin = True, ux_is_deposit_admin = False, ux_is_withdrawal_admin = False\<rparr>, Some ''tok'')))"
    by code_simp
  from handlers_protected [OF literal_match_law _ run] show ?thesis by auto
qed

text \<open>
  The premise on the path matters. For a router that decodes \<^verbatim>\<open>%6D\<close> before it matches, while the check compares the path as it was
  sent, a token without the administrator role reaches the administration.
\<close>

definition user_jwt :: "unit jwt_lib" where
  "user_jwt = \<lparr>from_rsa_pem = (\<lambda>_. Some ()), jwt_decode = (\<lambda>s _. Inr \<lparr>cl_exp = 5100, cl_iat = 4900, cl_sub = 2, cl_realm_access = Some []\<rparr>)\<rparr>"

fun decode_m :: "string \<Rightarrow> string" where
  "decode_m (a # b # c # s) = (if [a, b, c] = ''%6D'' then CHR ''m'' # decode_m s else a # decode_m (b # c # s))"
| "decode_m s = s"

lemma encoded_path_escapes:
  "serve literal_match decode_m user_jwt demo_gs (5000, 5000) True POST ''/api/exchange/panel/%6Danage/market/assets'' ''tok'' =
     Some (Reached H_add_assets (Some (\<lparr>ux_user_id = 2, ux_is_admin = False, ux_is_deposit_admin = False, ux_is_withdrawal_admin = False\<rparr>, None)))"
  by code_simp

end
