(* ===== verification/RestCharts.thy ===== *)
theory RestCharts
  imports RestQuery "HOL-Library.Signed_Division"
begin

text \<open>
  The rest of the chart interface: the default symbol, the configuration and the errors of \<^verbatim>\<open>src/restapi/tradingview.rs\<close>, the
  state and settings of the service (\<^verbatim>\<open>src/restapi/state.rs\<close>, \<^verbatim>\<open>src/restapi/config.rs\<close>), and the mock candles of
  \<^verbatim>\<open>src/restapi/mock.rs\<close>. JSON values are a datatype; their texts belong to \<^verbatim>\<open>serde_json\<close>.
\<close>

section \<open>Configuration and errors\<close>

datatype json = JBool bool | JNum int | JStr string | JArr "json list" | JObj "(string \<times> json) list"

definition chart_config :: json where
  "chart_config = JObj [
     (''supports_search'', JBool True), (''supports_group_request'', JBool False), (''supports_marks'', JBool False),
     (''supports_timescale_marks'', JBool False), (''supports_time'', JBool True),
     (''exchanges'', JArr [JObj [(''value'', JStr ''test''), (''name'', JStr ''Test Zone''), (''desc'', JStr ''Current default exchange'')]]),
     (''symbols_types'', JArr []),
     (''supported_resolutions'', JArr (map JNum [1, 5, 15, 30, 60, 120, 240, 360, 720, 1440, 4320, 10080]))]"

definition symbol_default :: chart_symbol where
  "symbol_default = \<lparr>sy_name = [], sy_ticker = [], sy_sym_type = DEFAULT_SYMBOL, sy_session = DEFAULT_SESSION,
     sy_exchange = DEFAULT_EXCHANGE, sy_listed_exchange = DEFAULT_EXCHANGE, sy_timezone = ''Etc/UTC'',
     sy_minmov = 1, sy_pricescale = 100, sy_minmovement2 = 0, sy_minmov2 = 0, sy_minmove2 = None,
     sy_fractional = None, sy_has_intraday = True, sy_has_daily = True, sy_has_weekly_and_monthly = True\<rparr>"

text \<open>Every error is answered with status 200; a chart gets its message in \<^verbatim>\<open>errmsg\<close>.\<close>

definition rpc_status_code :: "rpc_error \<Rightarrow> nat" where
  "rpc_status_code e = 200"

definition tradeview_error_response :: "rpc_error \<Rightarrow> nat \<times> json" where
  "tradeview_error_response e = (200, JObj [(''s'', JStr ''error''), (''errmsg'', JStr (re_message e))])"

text \<open>A symbol of the database is the default with its names, price scale and minimal movement.\<close>

lemma symbol_from_default:
  "symbol_of_desc repr d = symbol_default\<lparr>sy_name := fst (symbology d), sy_ticker := fst (symbology d),
     sy_minmov := snd (repr d), sy_pricescale := 10 ^ fst (repr d)\<rparr>"
  by (simp add: symbol_of_desc_def symbol_default_def case_prod_beta' Let_def)

text \<open>The exchange that the configuration announces is the one in the full names of the symbols.\<close>

fun json_get :: "string \<Rightarrow> json \<Rightarrow> json option" where
  "json_get k (JObj kvs) = map_of kvs k"
| "json_get k _ = None"

lemma announced_exchange:
  "\<exists>e. json_get ''exchanges'' chart_config = Some (JArr [e]) \<and> json_get ''value'' e = Some (JStr (sy_exchange (symbol_of_desc repr d)))"
  by (simp add: chart_config_def symbol_from_default symbol_default_def DEFAULT_EXCHANGE_def)

section \<open>Settings and state\<close>

record rest_settings =
  rs_workers :: "nat option"
  rs_manage_endpoint :: "string option"
  rs_trading :: trading_conf

definition default_rest_settings :: rest_settings where
  "default_rest_settings = \<lparr>rs_workers = None, rs_manage_endpoint = None, rs_trading = default_trading\<rparr>"

text \<open>A worker starts with no ticker in its cache.\<close>

record 'f trading_data =
  ticker_ret_cache :: "(string \<times> 'f ticker_result) list"

definition trading_data_new :: "'f trading_data" where
  "trading_data_new = \<lparr>ticker_ret_cache = []\<rparr>"

definition app_cache_new :: "'f trading_data" where
  "app_cache_new = trading_data_new"

text \<open>The first ticker of a worker is always queried.\<close>

lemma first_ticker_queried:
  assumes "ticker C conf query now ticker_inv m (ticker_ret_cache app_cache_new) = Some (cache, r)"
  shows "\<exists>d. ch_parse_duration C ticker_inv = Some d \<and> r = ticker_query C conf query now d m \<and>
    cache = (case r of Inl _ \<Rightarrow> [] | Inr t \<Rightarrow> [(m, t)])"
  using assms by (auto simp: ticker_def app_cache_new_def trading_data_new_def split: Option.bind_splits sum.splits)

section \<open>Mock candles\<close>

text \<open>Division of \<^verbatim>\<open>i32\<close> rounds towards zero; a zero divisor and the overflowing quotient panic.\<close>

definition i32_div :: "i32 \<Rightarrow> i32 \<Rightarrow> i32 option" where
  "i32_div a b = (if b = 0 \<or> sint a = - (2 ^ 31) \<and> sint b = - 1 then None else Some (word_of_int (sint a sdiv sint b)))"

text \<open>What is drawn for one candle: four prices, which of the middle two opens, and the volume.\<close>

type_synonym 'f candle_draw = "('f \<times> 'f \<times> 'f \<times> 'f) \<times> bool \<times> 'f"

definition fake_candle :: "i32 \<Rightarrow> 'f::linorder candle_draw \<Rightarrow> 'f kline_result \<Rightarrow> 'f kline_result" where
  "fake_candle t d r = (case d of ((a, b, c, e), up, v) \<Rightarrow>
     let fake_prices = sort [a, b, c, e]
     in r\<lparr>kl_t := kl_t r @ [t],
          kl_o := kl_o r @ [fake_prices ! (if up then 1 else 2)], kl_c := kl_c r @ [fake_prices ! (if up then 2 else 1)],
          kl_h := kl_h r @ [fake_prices ! 3], kl_l := kl_l r @ [fake_prices ! 0], kl_v := kl_v r @ [v]\<rparr>)"

partial_function (option) fake_loop ::
  "(nat \<Rightarrow> 'f::linorder candle_draw) \<Rightarrow> i32 \<Rightarrow> i32 \<Rightarrow> nat \<Rightarrow> i32 \<Rightarrow> 'f kline_result \<Rightarrow> 'f kline_result option" where
  "fake_loop draws to resolution k t r =
     (if sint t \<le> sint to then fake_loop draws to resolution (Suc k) (t + resolution) (fake_candle t (draws k) r)
      else Some r)"

definition fake_kline_result :: "(nat \<Rightarrow> 'f::linorder candle_draw) \<Rightarrow> kline_req \<Rightarrow> 'f kline_result option" where
  "fake_kline_result draws req = do {
     f \<leftarrow> i32_div (kr_from req) (kr_resolution req);
     t \<leftarrow> i32_div (kr_to req) (kr_resolution req);
     let from = f * kr_resolution req;
     let to = t * kr_resolution req;
     let resolution = kr_resolution req * 60;
     let kline_result_limit = 10;
     let t = (if sint (to - kline_result_limit * resolution) \<le> sint from then from else to - kline_result_limit * resolution);
     fake_loop draws to resolution 0 t kline_empty
   }"

declare fake_loop.simps [code]

lemma sint_add: "- (2 ^ 31) \<le> sint a + sint b \<Longrightarrow> sint a + sint b < 2 ^ 31 \<Longrightarrow> sint (a + b :: i32) = sint a + sint b"
  by (simp add: sint_word_ariths signed_take_bit_int_eq_self)

lemma sint_sub: "- (2 ^ 31) \<le> sint a - sint b \<Longrightarrow> sint a - sint b < 2 ^ 31 \<Longrightarrow> sint (a - b :: i32) = sint a - sint b"
  by (simp add: sint_word_ariths signed_take_bit_int_eq_self)

lemma sint_mult: "- (2 ^ 31) \<le> sint a * sint b \<Longrightarrow> sint a * sint b < 2 ^ 31 \<Longrightarrow> sint (a * b :: i32) = sint a * sint b"
  by (simp add: sint_word_ariths signed_take_bit_int_eq_self)

definition candles_ok :: "'f::linorder kline_result \<Rightarrow> bool" where
  "candles_ok r \<longleftrightarrow> length (kl_o r) = length (kl_t r) \<and> length (kl_c r) = length (kl_t r) \<and> length (kl_h r) = length (kl_t r) \<and>
     length (kl_l r) = length (kl_t r) \<and> length (kl_v r) = length (kl_t r) \<and>
     (\<forall>i < length (kl_t r). kl_l r ! i \<le> min (kl_o r ! i) (kl_c r ! i) \<and> max (kl_o r ! i) (kl_c r ! i) \<le> kl_h r ! i)"

lemma fake_candle_ok:
  assumes "candles_ok r"
  shows "candles_ok (fake_candle t d r)" and "length (kl_t (fake_candle t d r)) = Suc (length (kl_t r))"
proof -
  obtain a b c e up v where d: "d = ((a, b, c, e), up, v)" by (metis prod.exhaust)
  define ps where "ps = sort [a, b, c, e]"
  have ps: "sorted ps" "length ps = 4" unfolding ps_def by (rule sorted_sort, simp)
  have "ps ! 0 \<le> ps ! 1" "ps ! 0 \<le> ps ! 2" "ps ! 1 \<le> ps ! 3" "ps ! 2 \<le> ps ! 3" by (rule sorted_nth_mono [OF ps(1)]; simp add: ps(2))+
  with assms show "candles_ok (fake_candle t d r)"
    unfolding d fake_candle_def prod.case ps_def [symmetric] Let_def by (auto simp: candles_ok_def nth_append less_Suc_eq)
  show "length (kl_t (fake_candle t d r)) = Suc (length (kl_t r))" by (simp add: d fake_candle_def Let_def)
qed

lemma fake_loop_ends:
  assumes "0 < sint resolution" and "sint to + sint resolution < 2 ^ 31"
  shows "candles_ok r \<Longrightarrow> sint to < sint t + int n * sint resolution \<Longrightarrow>
    \<exists>r'. fake_loop draws to resolution k t r = Some r' \<and> candles_ok r' \<and> length (kl_t r') \<le> length (kl_t r) + n"
proof (induction n arbitrary: k t r)
  case 0
  then show ?case by (simp add: fake_loop.simps)
next
  case (Suc n)
  show ?case
  proof (cases "sint t \<le> sint to")
    case True
    have "- (2 ^ 31) \<le> sint t" using sint_ge [of t] by simp
    with True assms have "sint (t + resolution) = sint t + sint resolution" by (intro sint_add) linarith+
    with Suc.prems(2) have "sint to < sint (t + resolution) + int n * sint resolution" by (simp add: algebra_simps)
    from Suc.IH [where k = "Suc k", OF fake_candle_ok(1) [OF Suc.prems(1), of t "draws k"] this] obtain r' where
      "fake_loop draws to resolution (Suc k) (t + resolution) (fake_candle t (draws k) r) = Some r'" "candles_ok r'"
      "length (kl_t r') \<le> Suc (length (kl_t r)) + n" unfolding fake_candle_ok(2) [OF Suc.prems(1)] by blast
    with True show ?thesis by (simp add: fake_loop.simps [of draws to resolution k t])
  qed (use Suc.prems in \<open>simp add: fake_loop.simps\<close>)
qed

lemma i32_div_floor:
  assumes "0 \<le> sint a" and "0 < sint b"
  obtains q where "i32_div a b = Some q" "0 \<le> sint (q * b)" "sint (q * b) \<le> sint a"
proof -
  have lt: "sint a < 2 ^ 31" using sint_lt [of a] by simp
  have q: "sint a sdiv sint b = sint a div sint b" using assms by (cases "sint a = 0") (auto simp: signed_divide_int_def)
  have d: "0 \<le> sint a div sint b" "sint a div sint b * sint b \<le> sint a"
    using assms by (simp_all add: pos_imp_zdiv_nonneg_iff minus_mod_eq_div_mult [symmetric])
  have "sint a div sint b * 1 \<le> sint a div sint b * sint b" using d(1) assms(2) by (intro mult_left_mono) simp_all
  with d(2) have "sint a div sint b \<le> sint a" by simp
  with lt d(1) have s: "sint (word_of_int (sint a div sint b) :: i32) = sint a div sint b"
    by (simp add: signed_of_int signed_take_bit_int_eq_self)
  have "0 \<le> sint a div sint b * sint b" using d(1) assms(2) by simp
  then have "sint (word_of_int (sint a div sint b) * b) = sint a div sint b * sint b"
    using d(2) lt by (subst sint_mult) (simp_all add: s)
  with assms d q show ?thesis by (intro that [of "word_of_int (sint a div sint b)"]) (auto simp: i32_div_def)
qed

text \<open>
  The mock answers at most eleven candles, and each of them is a candle: the low is not above open and close, and the high not below.
  For a positive resolution and times whose arithmetic fits 32 bits the loop ends.
\<close>

theorem fake_kline_bounded:
  assumes "0 < sint (kr_resolution req)" and "sint (kr_resolution req) < 1000000" and "0 \<le> sint (kr_from req)"
    and "0 \<le> sint (kr_to req)" and "sint (kr_to req) < 2000000000"
  shows "\<exists>r. fake_kline_result draws req = Some r \<and> candles_ok r \<and> length (kl_t r) \<le> 11"
proof -
  obtain f where f: "i32_div (kr_from req) (kr_resolution req) = Some f" by (rule i32_div_floor [OF assms(3,1)])
  obtain q where q: "i32_div (kr_to req) (kr_resolution req) = Some q" "0 \<le> sint (q * kr_resolution req)"
    "sint (q * kr_resolution req) \<le> sint (kr_to req)" by (rule i32_div_floor [OF assms(4,1)])
  have res: "sint (kr_resolution req * 60) = sint (kr_resolution req) * 60" using assms(1,2) by (subst sint_mult) simp_all
  have ten: "sint (10 * (kr_resolution req * 60)) = 600 * sint (kr_resolution req)" using assms(1,2) res by (subst sint_mult) simp_all
  let ?to = "q * kr_resolution req"
  have sub: "sint (?to - 10 * (kr_resolution req * 60)) = sint ?to - 600 * sint (kr_resolution req)"
    using q(2,3) assms ten by (subst sint_sub) simp_all
  let ?t = "if sint (?to - 10 * (kr_resolution req * 60)) \<le> sint (f * kr_resolution req) then f * kr_resolution req
    else ?to - 10 * (kr_resolution req * 60)"
  have "sint ?to < sint ?t + int 11 * sint (kr_resolution req * 60)" using sub res assms(1) by auto
  moreover have "sint ?to + sint (kr_resolution req * 60) < 2 ^ 31" using q(3) assms res by simp
  moreover have "candles_ok (kline_empty :: 'a kline_result)" by (simp add: candles_ok_def kline_empty_def)
  moreover have "0 < sint (kr_resolution req * 60)" using res assms(1) by simp
  ultimately obtain r where "fake_loop draws ?to (kr_resolution req * 60) 0 ?t kline_empty = Some r" "candles_ok r" "length (kl_t r) \<le> 11"
    using fake_loop_ends [of "kr_resolution req * 60" ?to "kline_empty :: 'a kline_result" ?t 11 draws 0] by (auto simp: kline_empty_def)
  moreover have "fake_kline_result draws req = fake_loop draws ?to (kr_resolution req * 60) 0 ?t kline_empty"
    by (simp only: fake_kline_result_def f q(1) Option.bind_eq_Some_conv Option.bind.bind_lunit Let_def)
  ultimately show ?thesis by auto
qed

theorem fake_kline_bounded_witness:
  "\<exists>r. fake_kline_result (\<lambda>k. ((9, 7, 8, 6), True, 2 :: int)) \<lparr>kr_from = 0, kr_to = 6000, kr_symbol = [], kr_resolution = 5, kr_usemock = Some []\<rparr> = Some r \<and>
     candles_ok r \<and> length (kl_t r) \<le> 11"
  by (rule fake_kline_bounded) simp_all

text \<open>\<^verbatim>\<open>history\<close> with the mock candles: a request that asks for them gets at most eleven, whatever the database holds.\<close>

lemma mock_history:
  assumes "kr_usemock req \<noteq> None" and "0 < sint (kr_resolution req)" and "sint (kr_resolution req) < 1000000"
    and "0 \<le> sint (kr_from req)" and "0 \<le> sint (kr_to req)" and "sint (kr_to req) < 2000000000"
  shows "\<exists>r. history C (fake_kline_result draws) query next_time req = Some (Inr r) \<and> candles_ok r \<and> length (kl_t r) \<le> 11"
  using fake_kline_bounded [OF assms(2-6), of draws] assms(1) by (auto simp: history_def)

end
