(* ===== verification/Utils.thy ===== *)
theory Utils
  imports Prelude
begin

text \<open>
  \<^verbatim>\<open>src/utils/strings.rs\<close>: the pool of interned strings, and \<^verbatim>\<open>src/utils/serde.rs\<close>: arrays of bytes as hexadecimal
  text. The rest of the development treats an interned string as its text; the lemmas here say why it may.
\<close>

section \<open>Interned strings\<close>

text \<open>The strings leaked so far, and for every text in the pool the leaked string it points to.\<close>

record string_pool =
  sp_pool :: "(string \<times> nat) list"
  sp_leaked :: "string list"

definition pool_empty :: string_pool where
  "pool_empty = \<lparr>sp_pool = [], sp_leaked = []\<rparr>"

definition intern_string :: "string \<Rightarrow> string_pool \<Rightarrow> string_pool \<times> nat" where
  "intern_string s p =
     (case map_of (sp_pool p) s of
        Some r \<Rightarrow> (p, r)
      | None \<Rightarrow>
          let r = length (sp_leaked p)
          in (\<lparr>sp_pool = AList.update s r (sp_pool p), sp_leaked = sp_leaked p @ [s]\<rparr>, r))"

definition interned_deref :: "string_pool \<Rightarrow> nat \<Rightarrow> string" where
  "interned_deref p r = sp_leaked p ! r"

text \<open>An interned string is written as its text and interned again when it is read.\<close>

definition interned_serialize :: "string_pool \<Rightarrow> nat \<Rightarrow> string" where
  "interned_serialize p r = interned_deref p r"

definition interned_deserialize :: "string \<Rightarrow> string_pool \<Rightarrow> string_pool \<times> nat" where
  "interned_deserialize s p = intern_string s p"

definition pool_inv :: "string_pool \<Rightarrow> bool" where
  "pool_inv p \<longleftrightarrow> distinct (sp_leaked p) \<and> (\<forall>s r. map_of (sp_pool p) s = Some r \<longleftrightarrow> r < length (sp_leaked p) \<and> sp_leaked p ! r = s)"

lemma pool_empty_inv: "pool_inv pool_empty"
  by (simp add: pool_inv_def pool_empty_def)

text \<open>
  A text is leaked once: interning keeps the strings there are, gives a reference to the text, and the same reference for the
  same text ever after.
\<close>

lemma intern_string_ok:
  assumes "pool_inv p" and "intern_string s p = (p', r)"
  shows "pool_inv p'" and "r < length (sp_leaked p')" and "interned_deref p' r = s"
    and "\<exists>ss. sp_leaked p' = sp_leaked p @ ss \<and> (s \<in> set (sp_leaked p) \<longrightarrow> ss = [])"
proof -
  have "pool_inv p' \<and> r < length (sp_leaked p') \<and> interned_deref p' r = s \<and>
    (\<exists>ss. sp_leaked p' = sp_leaked p @ ss \<and> (s \<in> set (sp_leaked p) \<longrightarrow> ss = []))"
  proof (cases "map_of (sp_pool p) s")
    case (Some x)
    with assms show ?thesis by (auto simp: intern_string_def pool_inv_def interned_deref_def)
  next
    case None
    have new: "s \<notin> set (sp_leaked p)"
    proof
      assume "s \<in> set (sp_leaked p)"
      then obtain i where "i < length (sp_leaked p)" "sp_leaked p ! i = s" by (auto simp: in_set_conv_nth)
      then have "map_of (sp_pool p) s = Some i" using assms(1) unfolding pool_inv_def by blast
      with None show False by simp
    qed
    have p': "p' = \<lparr>sp_pool = AList.update s (length (sp_leaked p)) (sp_pool p), sp_leaked = sp_leaked p @ [s]\<rparr>" "r = length (sp_leaked p)"
      using assms(2) None by (auto simp: intern_string_def Let_def)
    have "map_of (sp_pool p') t = Some i \<longleftrightarrow> i < length (sp_leaked p') \<and> sp_leaked p' ! i = t" for t i
      using assms(1) new by (auto simp: p' pool_inv_def update_conv' nth_append less_Suc_eq in_set_conv_nth)
    then have "pool_inv p'" using assms(1) new by (simp add: pool_inv_def p'(1))
    with new show ?thesis by (simp add: p' interned_deref_def)
  qed
  then show "pool_inv p'" "r < length (sp_leaked p')" "interned_deref p' r = s"
    "\<exists>ss. sp_leaked p' = sp_leaked p @ ss \<and> (s \<in> set (sp_leaked p) \<longrightarrow> ss = [])" by blast+
qed

text \<open>Two interned strings are the same reference exactly when they are the same text, and reading back gives the reference.\<close>

theorem interned_as_text:
  assumes "pool_inv p" and "intern_string s p = (p1, r)" and "intern_string t p1 = (p2, q)"
  shows "(r = q \<longleftrightarrow> s = t) \<and> interned_deref p2 r = s \<and> interned_deserialize (interned_serialize p2 r) p2 = (p2, r)"
proof -
  note i1 = intern_string_ok [OF assms(1,2)] and i2 = intern_string_ok [OF intern_string_ok(1) [OF assms(1,2)] assms(3)]
  have r: "r < length (sp_leaked p2)" "interned_deref p2 r = s" using i1(2,3) i2(4) by (auto simp: interned_deref_def nth_append)
  have inv: "pool_inv p2" by (rule i2(1))
  have "r = q \<longleftrightarrow> s = t" using inv r i2(2,3) by (auto simp: pool_inv_def interned_deref_def nth_eq_iff_index_eq)
  moreover have "map_of (sp_pool p2) s = Some r" using inv r by (auto simp: pool_inv_def interned_deref_def)
  then have "interned_deserialize (interned_serialize p2 r) p2 = (p2, r)"
    by (simp add: interned_deserialize_def interned_serialize_def r(2) intern_string_def)
  ultimately show ?thesis using r(2) by blast
qed

theorem interned_as_text_witness:
  "snd (intern_string ''ETH'' (fst (intern_string ''ETH'' pool_empty))) = snd (intern_string ''ETH'' pool_empty)"
  using interned_as_text [OF pool_empty_inv surjective_pairing surjective_pairing, of "''ETH''" "''ETH''"] by simp

section \<open>Hexadecimal arrays\<close>

text \<open>\<open>enc\<close> and \<open>dec\<close> are the functions of the \<^verbatim>\<open>hex\<close> crate; the error names what was expected.\<close>

definition hex_serialize :: "(8 word list \<Rightarrow> string) \<Rightarrow> 8 word list \<Rightarrow> string" where
  "hex_serialize enc v = enc v"

definition hex_deserialize :: "(string \<Rightarrow> 8 word list option) \<Rightarrow> nat \<Rightarrow> string \<Rightarrow> string + 8 word list" where
  "hex_deserialize dec n s =
     (case dec s of
        None \<Rightarrow> Inl s
      | Some v \<Rightarrow> if length v = n then Inr v else Inl s)"

lemma hex_roundtrip:
  assumes "\<And>v. dec (enc v) = Some v"
  shows "hex_deserialize dec n (hex_serialize enc v) = (if length v = n then Inr v else Inl (enc v))"
  by (simp add: hex_deserialize_def hex_serialize_def assms)

end
