(* ===== verification/Spec2Isabelle.thy ===== *)
theory Spec2Isabelle
  imports UnitTests ControllerCalls Startup ServerReads UnifyDump RestRoutes RestCharts Utils
begin

text \<open>
  \<^bold>\<open>A verification of the dingir-exchange matching engine.\<close>

  \<^bold>\<open>The program.\<close> A process (\<^verbatim>\<open>src/matchengine\<close>) keeps the balances of all users and one order book per market in memory.
  Remote calls arrive at a gRPC server, which checks the caller's token and queues the writing operations; a scheduler runs
  them one after the other on the controller. The controller validates a request, lends its state (sequencer, balances, cache
  of balance updates, persistor) to a market, and logs the operation. A market matches an order against the
  book and reports every order event, trade and balance change to the persistor, which turns them into rows of history tables
  (an asynchronous database writer) or messages (a producer thread for Kafka). From time to time the
  state is dumped as a slice; after a restart it is recovered from the last slice and the operation log. A second
  process (\<^verbatim>\<open>src/bin/persistor.rs\<close>) reads the messages back and writes them to a database. A third (\<^verbatim>\<open>src/restapi\<close>) answers
  HTTP queries from that database and lets an administrator add assets and trading pairs. A small tool dumps the stream of events.

  \<^bold>\<open>Theories and sources.\<close>
  \<^item> \<open>Prelude\<close>: machine types, sorted and hashed maps as association lists, shared lemmas. \<open>Utils\<close>: \<^verbatim>\<open>src/utils\<close>, and why an
    interned string may be treated as its text.
  \<^item> \<open>Types\<close>: enums, configuration and rows (\<^verbatim>\<open>src/types/mod.rs\<close>, \<^verbatim>\<open>src/config.rs\<close>, \<^verbatim>\<open>src/storage/models.rs\<close>).
  \<^item> \<open>Externals\<close>: the crates outside the repository as a record of functions \<open>E\<close>, the laws that are relied
    on (\<open>env_laws\<close>) and an instance of them.
  \<^item> \<open>Sequencer\<close>, \<open>Assets\<close>, \<open>Balances\<close>, \<open>Engine\<close>: \<^verbatim>\<open>sequencer.rs\<close>, \<^verbatim>\<open>asset/asset_manager.rs\<close>,
    \<^verbatim>\<open>asset/balance_manager.rs\<close>, \<^verbatim>\<open>asset/update_controller.rs\<close>. The locale \<open>ledger\<close> is the contract of the balances.
  \<^item> \<open>Orders\<close>, \<open>Market\<close>: \<^verbatim>\<open>market/order.rs\<close>, \<^verbatim>\<open>market/mod.rs\<close>. The locale \<open>price_time\<close> is the ordering of a side
    of the book. The shared references to orders are positions in an explicit store.
  \<^item> \<open>MarketInv\<close>, \<open>MarketMatch\<close>, \<open>MarketLoop\<close>, \<open>MarketRun\<close>, \<open>MarketOps\<close>, \<open>MarketPut\<close>, \<open>MarketSpec\<close>, \<open>MarketProps\<close>,
    \<open>MarketCancel\<close>: the proofs on a market, from one trade to the matching loop (an inductive relation
    \<open>run\<close> and rule inductions over it) to submission and cancellation.
  \<^item> \<open>SqlBatch\<close>, \<open>DbWriter\<close>: \<^verbatim>\<open>storage/sqlxextend.rs\<close>, \<^verbatim>\<open>storage/database.rs\<close>. The scheduler of the writer is a step relation.
  \<^item> \<open>Producer\<close>, \<open>Persist\<close>: \<^verbatim>\<open>message/producer.rs\<close>, \<^verbatim>\<open>message/mod.rs\<close>, \<^verbatim>\<open>history.rs\<close>, \<^verbatim>\<open>persist/persistor.rs\<close>. The
    locales \<open>message_scheme\<close> and \<open>ordered_scheme\<close> are the contract of a message scheme, \<open>persist_exector\<close> that of a persistor.
  \<^item> \<open>Controller\<close>, \<open>ControllerInv\<close>, \<open>ControllerOps\<close>, \<open>ControllerReach\<close>, \<open>ControllerProps\<close>: \<^verbatim>\<open>controller.rs\<close>, \<^verbatim>\<open>dto.rs\<close>. The locale
    \<open>market_operation\<close> is what the controller expects of a market; the step relation \<open>ctrl_step\<close> is the life of a controller.
  \<^item> \<open>MarketSpend\<close>, \<open>EngineCalls\<close>, \<open>ControllerCalls\<close>: what an order may cost its user, and how many records an operation may make.
  \<^item> \<open>MarketTests\<close>, \<open>UnitTests\<close>: the fixtures of \<^verbatim>\<open>matchengine/mock.rs\<close> and the unit tests of \<^verbatim>\<open>market/mod.rs\<close> and of the other
    files, run on the model.
  \<^item> \<open>StateSave\<close>, \<open>StateRecover\<close>, \<open>Recovery\<close>, \<open>SliceProcess\<close>: \<^verbatim>\<open>persist/state_save_load.rs\<close>, the forked process that saves a
    slice, and \<^verbatim>\<open>debug_reset\<close>. \<open>Startup\<close>: \<^verbatim>\<open>prepare\<close> of \<^verbatim>\<open>src/bin/matchengine.rs\<close>.
  \<^item> \<open>ConfigStore\<close>: \<^verbatim>\<open>storage/config.rs\<close> and the database side of a reload of the markets.
  \<^item> \<open>Server\<close>, \<open>ServerReads\<close>: \<^verbatim>\<open>authentication.rs\<close>, \<^verbatim>\<open>server.rs\<close>. Calls, scheduler and shutdown are the step relation \<open>sv_step\<close>;
    the reading and debugging calls are definitions on the controller.
  \<^item> \<open>MsgPersist\<close>, \<open>PersistorProcess\<close>: \<^verbatim>\<open>message/persist.rs\<close>, \<^verbatim>\<open>message/consumer.rs\<close> and \<^verbatim>\<open>src/bin/persistor.rs\<close>: the handlers and
    their builders, and the life of the process as the step relation \<open>pstep\<close>. \<open>UnifyDump\<close>: \<^verbatim>\<open>src/bin/dump_unify_messages.rs\<close>.
  \<^item> \<open>RestQuery\<close>, \<open>RestManage\<close>, \<open>RestRoutes\<close>, \<open>RestCharts\<close>: the access check and routes of \<^verbatim>\<open>src/bin/restapi.rs\<close>, \<^verbatim>\<open>restapi/errors.rs\<close>, \<^verbatim>\<open>personal_history.rs\<close>,
    \<^verbatim>\<open>public_history.rs\<close>, \<^verbatim>\<open>tradingview.rs\<close>, \<^verbatim>\<open>mock.rs\<close> and \<^verbatim>\<open>manage.rs\<close>. A table is the list of its rows, a \<^verbatim>\<open>select\<close> a definition on it.

  \<^bold>\<open>What is shown.\<close>
  \<^item> The exchange: in every state the controller can reach by admissible requests, the frozen balances are exactly what the
    resting orders hold, no balance is negative and every book is well-formed; identifiers, keys and labels agree (its states are well
    typed); replaying an admissible operation returns there, and with the real persistor so does an order against at most 166 others. Balance
    updates have their effect once; a cancellation needs the owner; a batch is the sequence of its orders.
  \<^item> The market: an order trades with the best counter orders in price-time order, at the maker's price, within its limit
    and budget, exactly as a specification on plain lists says; the supply of every asset changes by the fees
    only; an order costs its user no more than it says; the book stays uncrossed; cancelling gives back what was frozen. Examples
    show that each condition on the input is needed, since the code does not check it. The unit tests pass.
  \<^item> The server: an operation runs only for a token that entitles to it; the server is linearizable, its controller being that of a
    sequential execution of the calls that gives the answers the callers got; every writing call is answered once or breaks, also
    when the engine panics; what a user reads of balances and orders does not depend on others.
  \<^item> Storage: the writer loses and duplicates no row on the way to the statements the database accepts, and publishes how many are
    pending; progress is reported exactly; the ordered producer delivers in order; an offset is committed exactly when every
    writer of the chain has reported it and the reports were seen (the watch channels keep only the last). The persistor process hands the
    rows of every message it has read to the database before it ends; of the rows of an order the table keeps the first, as the primary
    key and the conflict clause say.
  \<^item> Recovery: what the forked process leaves in the database restores balances, books and counters when the engine is
    started again, provided that their decimals fit the columns; outdated slices are deleted without touching the last one.
  \<^item> Configuration: assets and markets that the administration stores are what the engine loads, and markets are loaded once.
  \<^item> The REST service: the handlers of the administration are reached with an administrator's token only, and that of a user's
    orders finds the user in the request; a pair that was added is traded after the next
    reload, across REST handler, tables, server and controller; the pages of closed orders are complete; the ticker is fresh.

  \<^bold>\<open>Conventions.\<close> A panic is \<open>None\<close>; \<^verbatim>\<open>Result\<close> is a sum. Counters, identifiers and offsets are words with their
  wrap-around; theorems that need a counter not to wrap say so (\<open>room\<close>, \<open>ctrl_room\<close>). A \<^verbatim>\<open>Decimal\<close> is a rational; \<open>exact_arith\<close>
  restricts the theorems to runs in which its 96 bits do not overflow and 28 digits suffice, which the code does not ensure. The code
  does not check the sign of prices, amounts, limits and fee rates either, nor that a fee rate is at most 1: \<open>input_ok\<close> and \<open>operation_ok\<close> are the
  admissible requests, and the theorems that suppose them say so. Loops are structural recursions or carry a measure (the
  paging loops: the rows not read yet), so there is no fuel; the loop of
  a dump, which a database that keeps refusing never ends, is a partial function; the endless loops of the server threads are step relations.

  \<^bold>\<open>Not modelled.\<close> The set-up of transports, runtimes, signal handlers and logging in \<^verbatim>\<open>src/bin\<close>, which only calls other
  crates; the reading of YAML files and environment variables; the aggregates of TimescaleDB behind ticker and candles (their
  results are arguments); functions compiled only to check SQL texts against a database (\<^verbatim>\<open>cfg(sqlxverf)\<close>); the text of JSON.
\<close>

end
